(* ===== verification/Prelude.thy ===== *)
theory Prelude
  imports Main "HOL-Library.Word" "HOL-Library.Monad_Syntax"
begin

text \<open>
  Shared vocabulary of the development: the machine integer types of the C++ code
  (\<^verbatim>\<open>uint8_t\<close>, \<^verbatim>\<open>uint16_t\<close>, \<^verbatim>\<open>uint32_t\<close>, \<^verbatim>\<open>uint64_t\<close>), byte strings, the named
  collections of rewrite rules that the component theories fill, and the generic facts on
  words, lists and options that they share.

  A value of type \<open>'a option\<close> that stands for a computation is read as follows
  throughout: \<open>None\<close> is a call of \<^verbatim>\<open>std::abort\<close> (an out-of-range read of a
  \<^verbatim>\<open>ByteReader\<close>), \<open>Some x\<close> is a normal return of \<open>x\<close>.
\<close>

unbundle bit_operations_syntax

type_synonym u8 = "8 word"
type_synonym u16 = "16 word"
type_synonym u32 = "32 word"
type_synonym u64 = "64 word"
type_synonym bytes = "u8 list"

text \<open>Rules that describe the contents of byte buffers and the results of reads.\<close>

named_theorems buf_simps
named_theorems read_simps

text \<open>Rules that evaluate the constants of a component.\<close>

named_theorems const_defs

section \<open>Words\<close>

text \<open>A test of a single bit, as the code writes it: \<^verbatim>\<open>(x & (1 << n)) != 0\<close>.\<close>

definition test_mask :: "'a::len word \<Rightarrow> nat \<Rightarrow> bool" where
  "test_mask x n \<longleftrightarrow> (x AND push_bit n 1) \<noteq> 0"

lemma test_mask_bit: "n < LENGTH('a) \<Longrightarrow> test_mask (x::'a::len word) n = bit x n"
proof -
  assume n: "n < LENGTH('a)"
  have "(x AND push_bit n 1) = (if bit x n then push_bit n 1 else 0)"
    by (rule bit_word_eqI) (auto simp: bit_simps)
  moreover have "push_bit n (1::'a word) \<noteq> 0"
    using n by (metis bit_push_bit_iff bit_0_eq bit_1_0 bot_apply bot_bool_def diff_self_eq_0
        le_refl possible_bit_word)
  ultimately show ?thesis by (simp add: test_mask_def)
qed

lemma word_split_join_16:
  "push_bit 8 (ucast (ucast (drop_bit 8 v) :: u8)) OR ucast (ucast v :: u8) = (v :: u16)"
  by (rule bit_word_eqI) (auto simp: bit_simps)

lemma word_join_hi_16: "ucast (drop_bit 8 (push_bit 8 (ucast a) OR ucast b :: u16)) = (a :: u8)"
  for a b :: u8
  by (rule bit_word_eqI) (auto simp: bit_simps dest: bit_imp_le_length)

lemma word_join_lo_16: "ucast (push_bit 8 (ucast a) OR ucast b :: u16) = (b :: u8)"
  for a b :: u8
  by (rule bit_word_eqI) (auto simp: bit_simps)

lemma unat_and_mask_le: "unat (x AND y) \<le> unat (y :: 'a::len word)"
  by (rule word_and_le1 [THEN word_le_nat_alt [THEN iffD1]])

lemma unat_u8_less [simp]: "unat (x :: u8) < 256"
  using unsigned_less [of x] by simp

lemma unat_u16_less [simp]: "unat (x :: u16) < 65536"
  using unsigned_less [of x] by simp

lemma unat_u32_less [simp]: "unat (x :: u32) < 4294967296"
  using unsigned_less [of x] by simp

text \<open>Subtraction on \<^verbatim>\<open>size_t\<close> values that are kept as natural numbers: it wraps at 64 bits.\<close>

definition size_sub :: "nat \<Rightarrow> nat \<Rightarrow> nat" where
  "size_sub a b = (if b \<le> a then a - b else 2 ^ 64 + a - b)"

lemma size_sub_le [simp]: "b \<le> a \<Longrightarrow> size_sub a b = a - b"
  by (simp add: size_sub_def)

text \<open>
  Signed 64-bit arithmetic on values that are kept as integers: a result outside of the range, which is undefined
  in C++, wraps as on the machine. Division rounds towards zero.
\<close>

definition wrap64 :: "int \<Rightarrow> int" where
  "wrap64 x = signed_take_bit 63 x"

definition trunc_div :: "int \<Rightarrow> int \<Rightarrow> int" where
  "trunc_div a b = (if a \<ge> 0 then a div b else - (- a div b))"

lemma wrap64_id: "- (2 ^ 63) \<le> x \<Longrightarrow> x < 2 ^ 63 \<Longrightarrow> wrap64 x = x"
  by (simp add: wrap64_def signed_take_bit_int_eq_self)

section \<open>Lists\<close>

text \<open>A read of an array element; \<^const>\<open>None\<close> is a read outside of it.\<close>

definition read_at :: "'a list \<Rightarrow> nat \<Rightarrow> 'a option" where
  "read_at xs i = (if i < length xs then Some (xs ! i) else None)"

lemma read_at_drop: "read_at xs (i + j) = read_at (drop i xs) j"
  by (auto simp: read_at_def)

lemma take_append_exact [simp]: "take (length xs) (xs @ ys) = xs"
  by simp

lemma nth_drop_0: "n < length xs \<Longrightarrow> drop n xs = xs ! n # drop (Suc n) xs"
  by (rule Cons_nth_drop_Suc [symmetric])

text \<open>Two numbers of one window of \<open>c\<close> numbers with the same slot modulo \<open>c\<close> are equal.\<close>

lemma mod_window_inj:
  fixes e f B :: int
  assumes "e mod B = f mod B" "\<bar>e - f\<bar> < B"
  shows "e = f"
proof -
  have "B dvd e - f" using assms(1) by (simp add: mod_eq_dvd_iff)
  then show ?thesis using assms(2) by (metis abs_dvd_iff dvd_imp_le_int eq_iff_diff_eq_0 not_le abs_of_pos
      order.strict_trans1 abs_ge_zero)
qed

lemma mod_window_inj_nat:
  fixes s t :: nat
  assumes "s mod c = t mod c" "lo \<le> s" "s < lo + c" "lo \<le> t" "t < lo + c"
  shows "s = t"
proof -
  have "int s mod int c = int t mod int c" using assms(1) by (metis of_nat_mod)
  moreover have "\<bar>int s - int t\<bar> < int c" using assms(2-5) by linarith
  ultimately have "int s = int t" by (rule mod_window_inj)
  then show ?thesis by simp
qed

text \<open>16-bit sequence numbers as the low bits of counters.\<close>

lemma of_nat_diff_u16: "s \<le> t \<Longrightarrow> (of_nat t :: u16) - of_nat s = of_nat (t - s)"
  by (rule of_nat_diff [symmetric])

lemma of_nat_step_u16: "s < t \<Longrightarrow> (of_nat s :: u16) + of_nat (t - s - 1) + 1 = of_nat t"
proof -
  assume "s < t"
  then have "t = s + (t - s - 1) + 1" by simp
  then show "(of_nat s :: u16) + of_nat (t - s - 1) + 1 = of_nat t" by (metis of_nat_1 of_nat_add)
qed

lemma unat_of_nat_u16: "n < 65536 \<Longrightarrow> unat (of_nat n :: u16) = n"
  by (simp add: unsigned_of_nat take_bit_nat_eq_self)

lemma of_nat_le_u16: "n < 65536 \<Longrightarrow> (of_nat n :: u16) \<le> 16 \<longleftrightarrow> n \<le> 16"
  by (simp add: word_le_nat_alt unat_of_nat_u16)

text \<open>Serial number arithmetic: the signed difference of two numbers in a window of half the space.\<close>

lemma serial_difference:
  assumes "i < k + 2 ^ (LENGTH('a) - 1)" "k \<le> i + 2 ^ (LENGTH('a) - 1)"
  shows "sint (of_nat i - of_nat k :: 'a::len word) = int i - int k"
proof -
  have "of_nat i - of_nat k = (word_of_int (int i - int k) :: 'a word)" by simp
  moreover have "int i < int k + 2 ^ (LENGTH('a) - 1)" "int k \<le> int i + 2 ^ (LENGTH('a) - 1)"
    using assms by (metis of_nat_add of_nat_less_iff of_nat_numeral of_nat_power, metis of_nat_add of_nat_le_iff of_nat_numeral of_nat_power)
  ultimately show ?thesis by (simp add: signed_of_int signed_take_bit_int_eq_self del: of_int_diff)
qed

lemma serial_older:
  assumes "i < k + 32768" "k \<le> i + 32768"
  shows "sint (of_nat i - of_nat k :: u16) < 0 \<longleftrightarrow> i < k"
  using serial_difference [where ?'a = 16, of i k] assms by simp

lemma of_nat_window_u16:
  assumes "n \<le> i" "i < n + 65536" "n \<le> j" "j < n + 65536"
  shows "(of_nat i :: u16) = of_nat j \<longleftrightarrow> i = j"
proof
  assume "(of_nat i :: u16) = of_nat j"
  then have "unat (of_nat i :: u16) = unat (of_nat j :: u16)" by simp
  then have "i mod 65536 = j mod 65536" by (simp add: unsigned_of_nat take_bit_eq_mod)
  then show "i = j" using assms by (rule mod_window_inj_nat)
qed simp

end
