(* ===== verification/Byte_Buffer.thy ===== *)
theory Byte_Buffer
  imports Prelude
begin

text \<open>
  \<^verbatim>\<open>src/byte_buffer.cpp\<close>: the growable byte array \<^verbatim>\<open>ByteBuffer\<close>, the big-endian and
  LEB128 writer \<^verbatim>\<open>ByteWriter\<close> on top of it, and the bounds-checked \<^verbatim>\<open>ByteReader\<close>.

  The concrete buffer keeps the allocation \<open>mBuf\<close> (a list of \<open>mCap\<close> cells, each
  \<open>None\<close> while it is indeterminate memory of \<^verbatim>\<open>new uint8_t[n]\<close>), the used length and
  the capacity. \<open>ByteBuffer_inv\<close> is its representation invariant: a \<^verbatim>\<open>memcpy\<close> past the
  allocation would lengthen the list and break it. \<open>ByteBuffer_bytes\<close> abstracts a buffer
  to its contents; every operation refines the evident operation on byte strings, which
  is what the other theories use.
\<close>

section \<open>ByteBuffer\<close>

record ByteBuffer =
  mBuf :: "u8 option list"
  mLen :: nat
  mCap :: nat

definition ByteBuffer_inv :: "ByteBuffer \<Rightarrow> bool" where
  "ByteBuffer_inv b \<longleftrightarrow>
     length (mBuf b) = mCap b \<and> mLen b \<le> mCap b \<and> (\<forall>c \<in> set (take (mLen b) (mBuf b)). c \<noteq> None)"

definition ByteBuffer_bytes :: "ByteBuffer \<Rightarrow> bytes" where
  "ByteBuffer_bytes b = map the (take (mLen b) (mBuf b))"

text \<open>\<^verbatim>\<open>memcpy (buf + off, src, size)\<close> on the allocation.\<close>

definition mem_copy :: "u8 option list \<Rightarrow> nat \<Rightarrow> bytes \<Rightarrow> u8 option list" where
  "mem_copy buf off src = take off buf @ map Some src @ drop (off + length src) buf"

definition ByteBuffer_new :: ByteBuffer where
  "ByteBuffer_new = \<lparr>mBuf = [], mLen = 0, mCap = 0\<rparr>"

definition ByteBuffer_sized :: "nat \<Rightarrow> ByteBuffer" where
  "ByteBuffer_sized n = \<lparr>mBuf = replicate n None, mLen = 0, mCap = n\<rparr>"

definition ByteBuffer_from :: "bytes \<Rightarrow> ByteBuffer" where
  "ByteBuffer_from src =
     \<lparr>mBuf = mem_copy (replicate (length src) None) 0 src, mLen = length src, mCap = length src\<rparr>"

text \<open>The move constructor: the new buffer and what is left in the old one.\<close>

definition ByteBuffer_move :: "ByteBuffer \<Rightarrow> ByteBuffer \<times> ByteBuffer" where
  "ByteBuffer_move other = (other, other\<lparr>mBuf := [], mLen := 0, mCap := 0\<rparr>)"

text \<open>The move assignment: the buffer assigned to and what is left in the other one.\<close>

definition ByteBuffer_move_assign :: "ByteBuffer \<Rightarrow> ByteBuffer \<Rightarrow> ByteBuffer \<times> ByteBuffer" where
  "ByteBuffer_move_assign b other =
     (b\<lparr>mBuf := mBuf other, mLen := mLen other, mCap := mCap other\<rparr>, other\<lparr>mBuf := [], mLen := 0, mCap := 0\<rparr>)"

definition ByteBuffer_empty :: "ByteBuffer \<Rightarrow> bool" where
  "ByteBuffer_empty b \<longleftrightarrow> mLen b = 0"

definition ByteBuffer_clear :: "ByteBuffer \<Rightarrow> ByteBuffer" where
  "ByteBuffer_clear b = b\<lparr>mLen := 0\<rparr>"

definition ByteBuffer_free :: "ByteBuffer \<Rightarrow> ByteBuffer" where
  "ByteBuffer_free b = b\<lparr>mBuf := [], mLen := 0, mCap := 0\<rparr>"

definition ByteBuffer_assign :: "ByteBuffer \<Rightarrow> bytes \<Rightarrow> ByteBuffer" where
  "ByteBuffer_assign b src =
     b\<lparr>mBuf := (if length src > 0 then mem_copy (replicate (length src) None) 0 src else []),
       mLen := length src, mCap := length src\<rparr>"

definition ByteBuffer_resize :: "ByteBuffer \<Rightarrow> nat \<Rightarrow> ByteBuffer" where
  "ByteBuffer_resize b n = b\<lparr>mLen := n\<rparr>"

text \<open>A copy into the memory that \<^verbatim>\<open>data()\<close> points to, which a \<^verbatim>\<open>resize\<close> makes part of the contents.\<close>

definition ByteBuffer_data_copy :: "ByteBuffer \<Rightarrow> nat \<Rightarrow> bytes \<Rightarrow> ByteBuffer" where
  "ByteBuffer_data_copy b off src = b\<lparr>mBuf := mem_copy (mBuf b) off src\<rparr>"

definition ensureCapacity :: "ByteBuffer \<Rightarrow> nat \<Rightarrow> ByteBuffer" where
  "ensureCapacity b capacity =
     (if capacity > mCap b then
        let newCap = max (capacity + 128) (mCap b * 3 div 2);
            newBuf = replicate newCap None;
            newBuf = (if mBuf b \<noteq> [] \<and> mLen b > 0
                      then take (mLen b) (mBuf b) @ drop (mLen b) newBuf else newBuf)
        in b\<lparr>mBuf := newBuf, mCap := newCap\<rparr>
      else b)"

definition ByteBuffer_reserve :: "ByteBuffer \<Rightarrow> nat \<Rightarrow> ByteBuffer" where
  "ByteBuffer_reserve b n = ensureCapacity b n"

definition ByteBuffer_append :: "ByteBuffer \<Rightarrow> bytes \<Rightarrow> ByteBuffer" where
  "ByteBuffer_append b src =
     (if length src > 0 then
        let b' = ensureCapacity b (mLen b + length src)
        in b'\<lparr>mBuf := mem_copy (mBuf b') (mLen b') src, mLen := mLen b' + length src\<rparr>
      else b)"

definition ByteBuffer_append_buf :: "ByteBuffer \<Rightarrow> ByteBuffer \<Rightarrow> ByteBuffer" where
  "ByteBuffer_append_buf b other =
     (if mLen other > 0 then
        let b' = ensureCapacity b (mLen b + mLen other)
        in b'\<lparr>mBuf := mem_copy (mBuf b') (mLen b') (ByteBuffer_bytes other),
              mLen := mLen b' + mLen other\<rparr>
      else b)"

definition ByteBuffer_padding :: "ByteBuffer \<Rightarrow> u8 \<Rightarrow> nat \<Rightarrow> ByteBuffer" where
  "ByteBuffer_padding b c n =
     (let b' = ensureCapacity b (mLen b + n)
      in b'\<lparr>mBuf := mem_copy (mBuf b') (mLen b') (replicate n c), mLen := mLen b' + n\<rparr>)"

text \<open>\<^verbatim>\<open>front\<close>: reading an empty buffer is outside its contract (\<open>None\<close>).\<close>

definition ByteBuffer_front :: "ByteBuffer \<Rightarrow> u8 option" where
  "ByteBuffer_front b = (if mLen b > 0 then mBuf b ! 0 else None)"

definition ByteBuffer_copy :: "ByteBuffer \<Rightarrow> ByteBuffer" where
  "ByteBuffer_copy b = ByteBuffer_from (ByteBuffer_bytes b)"

definition ByteBuffer_eq :: "ByteBuffer \<Rightarrow> ByteBuffer \<Rightarrow> bool" where
  "ByteBuffer_eq b other \<longleftrightarrow>
     mLen b = mLen other \<and> take (mLen b) (mBuf b) = take (mLen b) (mBuf other)"

subsection \<open>The invariant and the abstraction\<close>

lemma length_mem_copy [simp]:
  "off + length src \<le> length buf \<Longrightarrow> length (mem_copy buf off src) = length buf"
  by (simp add: mem_copy_def)

lemma take_mem_copy:
  "off \<le> length buf \<Longrightarrow> take (off + length src) (mem_copy buf off src) = take off buf @ map Some src"
  by (simp add: mem_copy_def)

lemma ensureCapacity_props:
  assumes "ByteBuffer_inv b"
  shows "ByteBuffer_inv (ensureCapacity b n)" "n \<le> mCap (ensureCapacity b n)"
    "mLen (ensureCapacity b n) = mLen b"
    "take (mLen b) (mBuf (ensureCapacity b n)) = take (mLen b) (mBuf b)"
  using assms by (auto simp: ensureCapacity_def ByteBuffer_inv_def Let_def)

lemma ByteBuffer_inv_some:
  "ByteBuffer_inv b \<Longrightarrow> take (mLen b) (mBuf b) = map Some (ByteBuffer_bytes b)"
  by (auto simp: ByteBuffer_inv_def ByteBuffer_bytes_def intro!: map_idI [symmetric])

lemma append_core:
  fixes src :: bytes
  assumes "ByteBuffer_inv b"
  defines "b' \<equiv> ensureCapacity b (mLen b + length src)"
  defines "b'' \<equiv> b'\<lparr>mBuf := mem_copy (mBuf b') (mLen b') src, mLen := mLen b' + length src\<rparr>"
  shows "ByteBuffer_inv b''" "ByteBuffer_bytes b'' = ByteBuffer_bytes b @ src"
proof -
  note p = ensureCapacity_props [OF assms(1), of "mLen b + length src", folded b'_def]
  have len: "length (mBuf b') = mCap b'" "mLen b' = mLen b" "mLen b + length src \<le> mCap b'"
    using p by (auto simp: ByteBuffer_inv_def)
  have tk: "take (mLen b + length src) (mem_copy (mBuf b') (mLen b) src)
      = map Some (ByteBuffer_bytes b @ src)"
    using len p(4) ByteBuffer_inv_some [OF assms(1)] by (simp add: take_mem_copy)
  show "ByteBuffer_bytes b'' = ByteBuffer_bytes b @ src"
    using tk len unfolding b''_def ByteBuffer_bytes_def [of "_\<lparr>mLen := _\<rparr>"] by simp
  show "ByteBuffer_inv b''"
    using tk len unfolding b''_def by (auto simp: ByteBuffer_inv_def)
qed

lemma ByteBuffer_new_ok [buf_simps]:
  "ByteBuffer_inv ByteBuffer_new" "ByteBuffer_bytes ByteBuffer_new = []"
  by (simp_all add: ByteBuffer_new_def ByteBuffer_inv_def ByteBuffer_bytes_def)

lemma ByteBuffer_sized_ok [buf_simps]:
  "ByteBuffer_inv (ByteBuffer_sized n)" "ByteBuffer_bytes (ByteBuffer_sized n) = []"
  by (simp_all add: ByteBuffer_sized_def ByteBuffer_inv_def ByteBuffer_bytes_def)

lemma ByteBuffer_from_ok [buf_simps]:
  "ByteBuffer_inv (ByteBuffer_from src)" "ByteBuffer_bytes (ByteBuffer_from src) = src"
  by (auto simp: ByteBuffer_from_def ByteBuffer_inv_def ByteBuffer_bytes_def mem_copy_def comp_def)

lemma ByteBuffer_append_ok [buf_simps]:
  assumes "ByteBuffer_inv b"
  shows "ByteBuffer_inv (ByteBuffer_append b src)"
    "ByteBuffer_bytes (ByteBuffer_append b src) = ByteBuffer_bytes b @ src"
  using append_core [OF assms, of src] assms by (auto simp: ByteBuffer_append_def Let_def)

lemma length_ByteBuffer_bytes [buf_simps]:
  "ByteBuffer_inv b \<Longrightarrow> length (ByteBuffer_bytes b) = mLen b"
  by (simp add: ByteBuffer_inv_def ByteBuffer_bytes_def)

lemma ByteBuffer_append_buf_ok [buf_simps]:
  assumes "ByteBuffer_inv b" "ByteBuffer_inv other"
  shows "ByteBuffer_inv (ByteBuffer_append_buf b other)"
    "ByteBuffer_bytes (ByteBuffer_append_buf b other) = ByteBuffer_bytes b @ ByteBuffer_bytes other"
  using append_core [OF assms(1), of "ByteBuffer_bytes other"] length_ByteBuffer_bytes [OF assms(2)] assms
  by (auto simp: ByteBuffer_append_buf_def Let_def)

lemma ByteBuffer_padding_ok [buf_simps]:
  assumes "ByteBuffer_inv b"
  shows "ByteBuffer_inv (ByteBuffer_padding b c n)"
    "ByteBuffer_bytes (ByteBuffer_padding b c n) = ByteBuffer_bytes b @ replicate n c"
  using append_core [OF assms, of "replicate n c"] by (auto simp: ByteBuffer_padding_def Let_def)

lemma ByteBuffer_assign_ok [buf_simps]:
  "ByteBuffer_inv (ByteBuffer_assign b src)" "ByteBuffer_bytes (ByteBuffer_assign b src) = src"
  by (auto simp: ByteBuffer_assign_def ByteBuffer_inv_def ByteBuffer_bytes_def mem_copy_def comp_def)

lemma ByteBuffer_clear_ok [buf_simps]:
  assumes "ByteBuffer_inv b"
  shows "ByteBuffer_inv (ByteBuffer_clear b)" "ByteBuffer_bytes (ByteBuffer_clear b) = []"
    "ByteBuffer_inv (ByteBuffer_free b)" "ByteBuffer_bytes (ByteBuffer_free b) = []"
  using assms by (simp_all add: ByteBuffer_clear_def ByteBuffer_free_def ByteBuffer_inv_def ByteBuffer_bytes_def)

text \<open>
  \<^verbatim>\<open>resize\<close> within the capacity keeps the invariant exactly when the cells that become part of the contents have
  been written; in particular when it shrinks the buffer, and when it grows over bytes copied through \<^verbatim>\<open>data()\<close>.
\<close>

lemma ByteBuffer_resize_inv:
  assumes "ByteBuffer_inv b" "n \<le> mCap b"
  shows "ByteBuffer_inv (ByteBuffer_resize b n) \<longleftrightarrow> (\<forall>c \<in> set (drop (mLen b) (take n (mBuf b))). c \<noteq> None)"
proof -
  have s: "set (take n (mBuf b)) = set (take (mLen b) (take n (mBuf b))) \<union> set (drop (mLen b) (take n (mBuf b)))"
    by (metis append_take_drop_id set_append)
  have "set (take (mLen b) (take n (mBuf b))) \<subseteq> set (take (mLen b) (mBuf b))"
    by (metis min.commute set_take_subset take_take)
  then show ?thesis using assms unfolding ByteBuffer_inv_def ByteBuffer_resize_def by (auto simp: s)
qed

lemma ByteBuffer_fill_ok [buf_simps]:
  assumes "ByteBuffer_inv b" "off \<le> mLen b" "off + length src \<le> mCap b"
  shows "ByteBuffer_inv (ByteBuffer_resize (ByteBuffer_data_copy b off src) (off + length src))"
    "ByteBuffer_bytes (ByteBuffer_resize (ByteBuffer_data_copy b off src) (off + length src)) = take off (ByteBuffer_bytes b) @ src"
proof -
  have l: "length (mBuf b) = mCap b" "off \<le> length (mBuf b)" using assms by (auto simp: ByteBuffer_inv_def)
  have t: "take (off + length src) (mem_copy (mBuf b) off src) = map Some (take off (ByteBuffer_bytes b) @ src)"
    using ByteBuffer_inv_some [OF assms(1)] assms(2) take_mem_copy [OF l(2), of src]
    by (metis (no_types, lifting) map_append min.absorb1 take_map take_take)
  show "ByteBuffer_inv (ByteBuffer_resize (ByteBuffer_data_copy b off src) (off + length src))"
    using l assms t by (auto simp: ByteBuffer_inv_def ByteBuffer_resize_def ByteBuffer_data_copy_def)
  show "ByteBuffer_bytes (ByteBuffer_resize (ByteBuffer_data_copy b off src) (off + length src)) = take off (ByteBuffer_bytes b) @ src"
    using t unfolding ByteBuffer_resize_def ByteBuffer_data_copy_def by (subst ByteBuffer_bytes_def) (simp add: comp_def)
qed

lemma ByteBuffer_move_ok:
  "ByteBuffer_move b = (b, ByteBuffer_free b)" "ByteBuffer_move_assign a b = (b, ByteBuffer_free b)"
  by (simp_all add: ByteBuffer_move_def ByteBuffer_move_assign_def ByteBuffer_free_def)

lemma ByteBuffer_resize_ok [buf_simps]:
  assumes "ByteBuffer_inv b" "n \<le> mLen b"
  shows "ByteBuffer_inv (ByteBuffer_resize b n)"
    "ByteBuffer_bytes (ByteBuffer_resize b n) = take n (ByteBuffer_bytes b)"
proof -
  have "set (take n (mBuf b)) \<subseteq> set (take (mLen b) (mBuf b))"
    using assms(2) by (metis min.absorb1 set_take_subset take_take)
  then show "ByteBuffer_inv (ByteBuffer_resize b n)"
    using assms by (auto simp: ByteBuffer_resize_def ByteBuffer_inv_def)
  show "ByteBuffer_bytes (ByteBuffer_resize b n) = take n (ByteBuffer_bytes b)"
    using assms by (simp add: ByteBuffer_resize_def ByteBuffer_bytes_def take_map min_absorb1)
qed

lemma ByteBuffer_reserve_ok [buf_simps]:
  assumes "ByteBuffer_inv b"
  shows "ByteBuffer_inv (ByteBuffer_reserve b n)"
    "ByteBuffer_bytes (ByteBuffer_reserve b n) = ByteBuffer_bytes b"
  using ensureCapacity_props [OF assms, of n]
  by (simp_all add: ByteBuffer_reserve_def ByteBuffer_bytes_def)

lemma ByteBuffer_copy_ok [buf_simps]:
  "ByteBuffer_inv (ByteBuffer_copy b)" "ByteBuffer_bytes (ByteBuffer_copy b) = ByteBuffer_bytes b"
  by (simp_all add: ByteBuffer_copy_def buf_simps)

lemma ByteBuffer_front_ok:
  assumes "ByteBuffer_inv b" "\<not> ByteBuffer_empty b"
  shows "ByteBuffer_front b = Some (hd (ByteBuffer_bytes b))"
proof -
  have "mBuf b ! 0 = take (mLen b) (mBuf b) ! 0" "ByteBuffer_bytes b \<noteq> []"
    using assms length_ByteBuffer_bytes [OF assms(1)] by (auto simp: ByteBuffer_empty_def)
  then show ?thesis
    using assms ByteBuffer_inv_some [OF assms(1)]
    by (simp add: ByteBuffer_front_def ByteBuffer_empty_def hd_conv_nth)
qed

lemma ByteBuffer_eq_iff:
  assumes "ByteBuffer_inv a" "ByteBuffer_inv b"
  shows "ByteBuffer_eq a b \<longleftrightarrow> ByteBuffer_bytes a = ByteBuffer_bytes b"
proof
  assume "ByteBuffer_eq a b"
  then show "ByteBuffer_bytes a = ByteBuffer_bytes b"
    by (metis ByteBuffer_eq_def ByteBuffer_bytes_def)
next
  assume eq: "ByteBuffer_bytes a = ByteBuffer_bytes b"
  have len: "mLen a = mLen b"
    using length_ByteBuffer_bytes [OF assms(1)] length_ByteBuffer_bytes [OF assms(2)] eq by simp
  have "take (mLen a) (mBuf a) = take (mLen b) (mBuf b)"
    using ByteBuffer_inv_some [OF assms(1)] ByteBuffer_inv_some [OF assms(2)] eq by simp
  then show "ByteBuffer_eq a b"
    by (simp add: ByteBuffer_eq_def len)
qed

section \<open>ByteWriter\<close>

text \<open>The byte arrays that the writer's operations append.\<close>

definition u8_bytes :: "u8 \<Rightarrow> bytes" where
  "u8_bytes value = [value]"

definition u16_bytes :: "u16 \<Rightarrow> bytes" where
  "u16_bytes value = [ucast (drop_bit 8 value), ucast value]"

definition u24_bytes :: "u32 \<Rightarrow> bytes" where
  "u24_bytes value = [ucast (drop_bit 16 value), ucast (drop_bit 8 value), ucast value]"

definition u32_bytes :: "u32 \<Rightarrow> bytes" where
  "u32_bytes value =
     [ucast (drop_bit 24 value), ucast (drop_bit 16 value), ucast (drop_bit 8 value), ucast value]"

definition u48_bytes :: "u64 \<Rightarrow> bytes" where
  "u48_bytes value =
     [ucast (drop_bit 40 value), ucast (drop_bit 32 value), ucast (drop_bit 24 value),
      ucast (drop_bit 16 value), ucast (drop_bit 8 value), ucast value]"

definition u64_bytes :: "u64 \<Rightarrow> bytes" where
  "u64_bytes value =
     [ucast (drop_bit 56 value), ucast (drop_bit 48 value), ucast (drop_bit 40 value),
      ucast (drop_bit 32 value), ucast (drop_bit 24 value), ucast (drop_bit 16 value),
      ucast (drop_bit 8 value), ucast value]"

definition ByteWriter_write :: "ByteBuffer \<Rightarrow> bytes \<Rightarrow> ByteBuffer" where
  "ByteWriter_write w value = ByteBuffer_append w value"

definition ByteWriter_padding :: "ByteBuffer \<Rightarrow> u8 \<Rightarrow> nat \<Rightarrow> ByteBuffer" where
  "ByteWriter_padding w c n = ByteBuffer_padding w c n"

definition writeU8 :: "ByteBuffer \<Rightarrow> u8 \<Rightarrow> ByteBuffer" where
  "writeU8 w value = ByteBuffer_append w (u8_bytes value)"

definition writeU16 :: "ByteBuffer \<Rightarrow> u16 \<Rightarrow> ByteBuffer" where
  "writeU16 w value = ByteBuffer_append w (u16_bytes value)"

definition writeU24 :: "ByteBuffer \<Rightarrow> u32 \<Rightarrow> ByteBuffer" where
  "writeU24 w value = ByteBuffer_append w (u24_bytes value)"

definition writeU32 :: "ByteBuffer \<Rightarrow> u32 \<Rightarrow> ByteBuffer" where
  "writeU32 w value = ByteBuffer_append w (u32_bytes value)"

definition writeU48 :: "ByteBuffer \<Rightarrow> u64 \<Rightarrow> ByteBuffer" where
  "writeU48 w value = ByteBuffer_append w (u48_bytes value)"

definition writeU64 :: "ByteBuffer \<Rightarrow> u64 \<Rightarrow> ByteBuffer" where
  "writeU64 w value = ByteBuffer_append w (u64_bytes value)"

lemma unat_drop_bit_7: "unat (drop_bit 7 (r::u32)) = unat r div 128"
  by (subst unat_drop_bit_eq) (simp add: drop_bit_eq_div)

lemma drop_bit_7_less: "drop_bit 7 (r::u32) \<noteq> 0 \<Longrightarrow> unat (drop_bit 7 r) < unat r"
  by (simp only: word_unat_eq_iff unat_drop_bit_7) simp

text \<open>The loop of \<^verbatim>\<open>writeLEB128\<close>; the second version builds only the bytes that it appends.\<close>

function writeLEB128 :: "ByteBuffer \<Rightarrow> u32 \<Rightarrow> ByteBuffer" where
  "writeLEB128 w remaining =
     (let sevenBits = remaining AND 0x7F; remaining' = drop_bit 7 remaining
      in if remaining' = 0 then writeU8 w (ucast sevenBits)
         else writeLEB128 (writeU8 w (ucast (0x80 OR sevenBits))) remaining')"
  by pat_completeness auto
termination
  by (relation "measure (\<lambda>(w, r). unat r)") (auto simp: drop_bit_7_less)

function leb128_bytes :: "u32 \<Rightarrow> bytes" where
  "leb128_bytes remaining =
     (let sevenBits = remaining AND 0x7F; remaining' = drop_bit 7 remaining
      in if remaining' = 0 then [ucast sevenBits]
         else ucast (0x80 OR sevenBits) # leb128_bytes remaining')"
  by pat_completeness auto
termination
  by (relation "measure unat") (auto simp: drop_bit_7_less)

declare writeLEB128.simps [simp del] leb128_bytes.simps [simp del]

section \<open>ByteReader\<close>

record ByteReader =
  rBuf :: bytes
  rLen :: nat
  rPos :: nat

definition ByteReader_new :: "bytes \<Rightarrow> ByteReader" where
  "ByteReader_new buf = \<lparr>rBuf = buf, rLen = length buf, rPos = 0\<rparr>"

definition ByteReader_sized :: "bytes \<Rightarrow> nat \<Rightarrow> ByteReader" where
  "ByteReader_sized buf n = \<lparr>rBuf = buf, rLen = n, rPos = 0\<rparr>"

definition reader_size :: "ByteReader \<Rightarrow> nat" where
  "reader_size r = rLen r"

definition position :: "ByteReader \<Rightarrow> nat" where
  "position r = rPos r"

definition remaining :: "ByteReader \<Rightarrow> nat" where
  "remaining r = (if rLen r \<le> rPos r then 0 else rLen r - rPos r)"

text \<open>\<^verbatim>\<open>current\<close>: the bytes from the read position on.\<close>

definition current :: "ByteReader \<Rightarrow> bytes" where
  "current r = drop (rPos r) (rBuf r)"

text \<open>\<^verbatim>\<open>check_read\<close> calls \<^verbatim>\<open>std::abort\<close> when a read would pass the end.\<close>

definition check_read :: "nat \<Rightarrow> ByteReader \<Rightarrow> unit option" where
  "check_read n r = (if rPos r + n > rLen r then None else Some ())"

definition readU8 :: "ByteReader \<Rightarrow> (u8 \<times> ByteReader) option" where
  "readU8 r = do {
     check_read 1 r;
     Some (rBuf r ! rPos r, r\<lparr>rPos := rPos r + 1\<rparr>)
   }"

definition readU16 :: "ByteReader \<Rightarrow> (u16 \<times> ByteReader) option" where
  "readU16 r = do {
     check_read 2 r;
     let res = push_bit 8 (ucast (rBuf r ! rPos r)) OR ucast (rBuf r ! (rPos r + 1));
     Some (res, r\<lparr>rPos := rPos r + 2\<rparr>)
   }"

definition readU32 :: "ByteReader \<Rightarrow> (u32 \<times> ByteReader) option" where
  "readU32 r = do {
     check_read 4 r;
     let res = push_bit 24 (ucast (rBuf r ! rPos r)) OR push_bit 16 (ucast (rBuf r ! (rPos r + 1))) OR
               push_bit 8 (ucast (rBuf r ! (rPos r + 2))) OR ucast (rBuf r ! (rPos r + 3));
     Some (res, r\<lparr>rPos := rPos r + 4\<rparr>)
   }"

definition readU64 :: "ByteReader \<Rightarrow> (u64 \<times> ByteReader) option" where
  "readU64 r = do {
     check_read 8 r;
     let res = push_bit 56 (ucast (rBuf r ! rPos r)) OR push_bit 48 (ucast (rBuf r ! (rPos r + 1))) OR
               push_bit 40 (ucast (rBuf r ! (rPos r + 2))) OR push_bit 32 (ucast (rBuf r ! (rPos r + 3))) OR
               push_bit 24 (ucast (rBuf r ! (rPos r + 4))) OR push_bit 16 (ucast (rBuf r ! (rPos r + 5))) OR
               push_bit 8 (ucast (rBuf r ! (rPos r + 6))) OR ucast (rBuf r ! (rPos r + 7));
     Some (res, r\<lparr>rPos := rPos r + 8\<rparr>)
   }"

text \<open>The loop of \<^verbatim>\<open>readLEB128\<close> never aborts: it stops at the end of the buffer.\<close>

function readLEB128_loop :: "ByteReader \<Rightarrow> u32 \<Rightarrow> nat \<Rightarrow> u32 \<times> ByteReader" where
  "readLEB128_loop r result shift =
     (if rPos r < rLen r then
        let byte = rBuf r ! rPos r; r' = r\<lparr>rPos := rPos r + 1\<rparr>;
            result' = result OR push_bit shift (ucast (byte AND 0x7F))
        in if byte AND 0x80 = 0 then (result', r')
           else if shift + 7 \<ge> 32 then (result', r')
           else readLEB128_loop r' result' (shift + 7)
      else (result, r))"
  by pat_completeness auto
termination
  by (relation "measure (\<lambda>(r, _, _). rLen r - rPos r)") auto

declare readLEB128_loop.simps [simp del]

definition readLEB128 :: "ByteReader \<Rightarrow> u32 \<times> ByteReader" where
  "readLEB128 r = readLEB128_loop r 0 0"

definition readByteBuffer :: "nat \<Rightarrow> ByteReader \<Rightarrow> (bytes \<times> ByteReader) option" where
  "readByteBuffer n r = do {
     check_read n r;
     Some (take n (drop (rPos r) (rBuf r)), r\<lparr>rPos := rPos r + n\<rparr>)
   }"

definition readString :: "nat \<Rightarrow> ByteReader \<Rightarrow> (string \<times> ByteReader) option" where
  "readString n r = do {
     check_read n r;
     Some (map (\<lambda>b. char_of (unat b)) (take n (drop (rPos r) (rBuf r))), r\<lparr>rPos := rPos r + n\<rparr>)
   }"

definition reader_skip :: "nat \<Rightarrow> ByteReader \<Rightarrow> ByteReader option" where
  "reader_skip n r = do {
     check_read n r;
     Some (r\<lparr>rPos := rPos r + n\<rparr>)
   }"

text \<open>A reader that is in range; every read that succeeds keeps it so.\<close>

definition reader_inv :: "ByteReader \<Rightarrow> bool" where
  "reader_inv r \<longleftrightarrow> rPos r \<le> rLen r \<and> rLen r \<le> length (rBuf r)"

text \<open>What is left to read.\<close>

definition unread :: "ByteReader \<Rightarrow> bytes" where
  "unread r = take (remaining r) (current r)"

definition advance :: "nat \<Rightarrow> ByteReader \<Rightarrow> ByteReader" where
  "advance n r = r\<lparr>rPos := rPos r + n\<rparr>"

definition be16 :: "bytes \<Rightarrow> u16" where
  "be16 xs = push_bit 8 (ucast (xs ! 0)) OR ucast (xs ! 1)"

definition be32 :: "bytes \<Rightarrow> u32" where
  "be32 xs = push_bit 24 (ucast (xs ! 0)) OR push_bit 16 (ucast (xs ! 1)) OR
     push_bit 8 (ucast (xs ! 2)) OR ucast (xs ! 3)"

definition be64 :: "bytes \<Rightarrow> u64" where
  "be64 xs = push_bit 56 (ucast (xs ! 0)) OR push_bit 48 (ucast (xs ! 1)) OR
     push_bit 40 (ucast (xs ! 2)) OR push_bit 32 (ucast (xs ! 3)) OR
     push_bit 24 (ucast (xs ! 4)) OR push_bit 16 (ucast (xs ! 5)) OR
     push_bit 8 (ucast (xs ! 6)) OR ucast (xs ! 7)"

section \<open>Reading\<close>

lemma reader_inv_new [read_simps, simp]: "reader_inv (ByteReader_new buf)"
  by (simp add: reader_inv_def ByteReader_new_def)

lemma unread_new [read_simps, simp]: "unread (ByteReader_new buf) = buf"
  by (simp add: unread_def ByteReader_new_def remaining_def current_def)

lemma remaining_unread [read_simps]: "reader_inv r \<Longrightarrow> remaining r = length (unread r)"
  by (auto simp: reader_inv_def unread_def remaining_def current_def)

lemma remaining_new [simp]: "remaining (ByteReader_new buf) = length buf"
  by (simp add: remaining_unread)

lemma reader_inv_advance [read_simps]:
  "reader_inv r \<Longrightarrow> n \<le> length (unread r) \<Longrightarrow> reader_inv (advance n r)"
  by (auto simp: reader_inv_def unread_def remaining_def current_def advance_def split: if_splits)

lemma unread_advance [read_simps]:
  assumes "reader_inv r" "n \<le> length (unread r)"
  shows "unread (advance n r) = drop n (unread r)"
  using assms
  by (auto simp: reader_inv_def unread_def remaining_def current_def advance_def drop_take add.commute
      split: if_splits)

lemma position_new [read_simps, simp]: "position (ByteReader_new buf) = 0"
  by (simp add: position_def ByteReader_new_def)

lemma position_advance [read_simps, simp]: "position (advance n r) = position r + n"
  by (simp add: position_def advance_def)

lemma rBuf_advance [read_simps, simp]: "rBuf (advance n r) = rBuf r"
  by (simp add: advance_def)

lemma rBuf_new [read_simps, simp]: "rBuf (ByteReader_new buf) = buf"
  by (simp add: ByteReader_new_def)

lemma check_read_eq:
  "reader_inv r \<Longrightarrow> check_read n r = (if n \<le> length (unread r) then Some () else None)"
  by (auto simp: check_read_def reader_inv_def unread_def remaining_def current_def)

lemma unread_nth:
  "reader_inv r \<Longrightarrow> i < length (unread r) \<Longrightarrow> rBuf r ! (rPos r + i) = unread r ! i"
  by (auto simp: reader_inv_def unread_def remaining_def current_def)

lemma readU8_eq [read_simps]:
  assumes "reader_inv r"
  shows "readU8 r = (if 1 \<le> length (unread r) then Some (unread r ! 0, advance 1 r) else None)"
  using unread_nth [OF assms, of 0] 
  by (cases "unread r") (auto simp: readU8_def check_read_eq assms advance_def)

lemma readU16_eq [read_simps]:
  assumes "reader_inv r"
  shows "readU16 r = (if 2 \<le> length (unread r) then Some (be16 (unread r), advance 2 r) else None)"
proof (cases "2 \<le> length (unread r)")
  case True
  then have nth: "i < 2 \<Longrightarrow> rBuf r ! (rPos r + i) = unread r ! i" for i
    using unread_nth [OF assms] by simp
  show ?thesis
    using True nth [of 0] nth [of 1] by (simp add: readU16_def check_read_eq assms advance_def be16_def)
qed (simp add: readU16_def check_read_eq assms)

lemma readU32_eq [read_simps]:
  assumes "reader_inv r"
  shows "readU32 r = (if 4 \<le> length (unread r) then Some (be32 (unread r), advance 4 r) else None)"
proof (cases "4 \<le> length (unread r)")
  case True
  then have nth: "i < 4 \<Longrightarrow> rBuf r ! (rPos r + i) = unread r ! i" for i
    using unread_nth [OF assms] by simp
  show ?thesis
    using True nth [of 0] nth [of 1] nth [of 2] nth [of 3] by (simp add: readU32_def check_read_eq assms advance_def be32_def)
qed (simp add: readU32_def check_read_eq assms)

lemma readU64_eq [read_simps]:
  assumes "reader_inv r"
  shows "readU64 r = (if 8 \<le> length (unread r) then Some (be64 (unread r), advance 8 r) else None)"
proof (cases "8 \<le> length (unread r)")
  case True
  then have nth: "i < 8 \<Longrightarrow> rBuf r ! (rPos r + i) = unread r ! i" for i
    using unread_nth [OF assms] by simp
  show ?thesis
    using True nth [of 0] nth [of 1] nth [of 2] nth [of 3] nth [of 4] nth [of 5] nth [of 6] nth [of 7] by (simp add: readU64_def check_read_eq assms advance_def be64_def)
qed (simp add: readU64_def check_read_eq assms)

lemma readByteBuffer_eq [read_simps]:
  "reader_inv r \<Longrightarrow>
     readByteBuffer n r = (if n \<le> length (unread r) then Some (take n (unread r), advance n r) else None)"
  by (auto simp: readByteBuffer_def check_read_eq advance_def unread_def current_def min_absorb1)

lemma reader_skip_eq [read_simps]:
  "reader_inv r \<Longrightarrow>
     reader_skip n r = (if n \<le> length (unread r) then Some (advance n r) else None)"
  by (simp add: reader_skip_def check_read_eq advance_def)

section \<open>Encodings and their inverses\<close>

lemma length_int_bytes [simp]:
  "length (u8_bytes a) = 1" "length (u16_bytes b) = 2" "length (u24_bytes c) = 3"
  "length (u32_bytes c) = 4" "length (u48_bytes d) = 6" "length (u64_bytes d) = 8"
  by (simp_all add: u8_bytes_def u16_bytes_def u24_bytes_def u32_bytes_def u48_bytes_def u64_bytes_def)

lemma be16_u16_bytes [simp]: "be16 (u16_bytes v @ xs) = v"
  by (simp add: be16_def u16_bytes_def word_split_join_16)

text \<open>Joining one more byte below the part of a word that is already in place.\<close>

lemma join_byte:
  "push_bit (k + 8) (drop_bit (k + 8) v) OR push_bit k (ucast (ucast (drop_bit k v) :: u8))
     = push_bit k (drop_bit k (v :: 'a::len word))"
proof (rule bit_word_eqI)
  fix n assume "n < LENGTH('a)"
  show "bit (push_bit (k + 8) (drop_bit (k + 8) v) OR push_bit k (ucast (ucast (drop_bit k v) :: u8))) n
      = bit (push_bit k (drop_bit k v)) n"
    by (cases "n < k + 8") (auto simp: bit_simps)
qed

lemma join_top_32: "push_bit 24 (ucast (ucast (drop_bit 24 v) :: u8)) = push_bit 24 (drop_bit 24 (v :: u32))"
  by (rule bit_word_eqI) (auto simp: bit_simps)

lemma join_top_64: "push_bit 56 (ucast (ucast (drop_bit 56 v) :: u8)) = push_bit 56 (drop_bit 56 (v :: u64))"
  by (rule bit_word_eqI) (auto simp: bit_simps)

lemmas join_bytes = join_byte [of 48, simplified] join_byte [of 40, simplified] join_byte [of 32, simplified]
  join_byte [of 24, simplified] join_byte [of 16, simplified] join_byte [of 8, simplified]
  join_byte [of 0, simplified]

lemma be32_u32_bytes [simp]: "be32 (u32_bytes v @ xs) = v"
  by (simp add: be32_def u32_bytes_def or.assoc [symmetric] join_top_32 join_bytes)

lemma be64_u64_bytes [simp]: "be64 (u64_bytes v @ xs) = v"
  by (simp add: be64_def u64_bytes_def or.assoc [symmetric] join_top_64 join_bytes)

lemma u16_bytes_be16 [simp]: "u16_bytes (be16 (a # b # xs)) = [a, b]"
  unfolding u16_bytes_def be16_def nth_Cons_0 One_nat_def nth_Cons_Suc
  by (simp only: word_join_hi_16 word_join_lo_16)

section \<open>LEB128\<close>

text \<open>The value and the number of bytes that \<^verbatim>\<open>readLEB128\<close> takes from a byte string.\<close>

fun leb128_decode :: "bytes \<Rightarrow> u32 \<Rightarrow> nat \<Rightarrow> u32 \<times> nat" where
  "leb128_decode [] result shift = (result, 0)"
| "leb128_decode (b # bs) result shift =
     (let result' = result OR push_bit shift (ucast (b AND 0x7F))
      in if b AND 0x80 = 0 \<or> shift + 7 \<ge> 32 then (result', 1)
         else let (v, n) = leb128_decode bs result' (shift + 7) in (v, Suc n))"

lemma advance_simps [simp]:
  "advance 0 r = r" "advance m (advance n r) = advance (n + m) r"
  by (simp_all add: advance_def)

lemma readLEB128_loop_eq:
  "reader_inv r \<Longrightarrow>
     readLEB128_loop r result shift =
       (let (v, n) = leb128_decode (unread r) result shift in (v, advance n r))"
proof (induction r result shift rule: readLEB128_loop.induct)
  case (1 r result shift)
  show ?case
  proof (cases "unread r")
    case Nil
    then have "\<not> rPos r < rLen r"
      using "1.prems" by (auto simp: unread_def reader_inv_def remaining_def current_def)
    then show ?thesis using Nil by (simp add: readLEB128_loop.simps [of r])
  next
    case (Cons b bs)
    then have pos: "rPos r < rLen r"
      by (auto simp: unread_def remaining_def split: if_splits)
    have b: "rBuf r ! rPos r = b"
      using unread_nth [OF "1.prems", of 0] Cons by simp
    have inv: "reader_inv (advance 1 r)" and tl: "unread (advance 1 r) = bs"
      using "1.prems" Cons by (simp_all add: reader_inv_advance unread_advance)
    have adv: "r\<lparr>rPos := Suc (rPos r)\<rparr> = advance (Suc 0) r"
      by (simp add: advance_def)
    show ?thesis
      using "1.IH" [OF pos refl refl refl] inv tl pos b Cons
      by (simp add: readLEB128_loop.simps [of r] adv Let_def split: prod.splits)
  qed
qed

lemma mask7: "(0x7F :: 'a::len word) = mask 7"
  by (simp add: mask_eq_exp_minus_1)

lemma bit7: "bit (0x80 :: 'a::semiring_bits) n \<longleftrightarrow> possible_bit TYPE('a) n \<and> n = 7"
  using bit_exp_iff [where 'a = 'a and m = 7 and n = n] by simp

lemma leb128_low_bits:
  "push_bit s (v AND 0x7F) OR push_bit (s + 7) (drop_bit 7 v) = push_bit s (v :: u32)"
proof (rule bit_word_eqI)
  fix n assume "n < LENGTH(32)"
  show "bit (push_bit s (v AND 0x7F) OR push_bit (s + 7) (drop_bit 7 v)) n = bit (push_bit s v) n"
    unfolding mask7 by (cases "n < s + 7") (auto simp: bit_simps)
qed

lemma leb128_byte_value:
  "(ucast ((ucast (v AND 0x7F) :: u8) AND 0x7F) :: u32) = v AND 0x7F" for v :: u32
  unfolding mask7 by (rule bit_word_eqI) (auto simp: bit_simps)

lemma leb128_byte_value':
  "(ucast ((ucast (0x80 OR (v AND 0x7F)) :: u8) AND 0x7F) :: u32) = v AND 0x7F" for v :: u32
  unfolding mask7 by (rule bit_word_eqI) (auto simp: bit_simps bit7)

lemma leb128_flag: "(ucast (v AND 0x7F) :: u8) AND 0x80 = 0" for v :: u32
  unfolding mask7 by (rule bit_word_eqI) (auto simp: bit_simps bit7)

lemma leb128_flag': "(ucast (0x80 OR (v AND 0x7F)) :: u8) AND 0x80 \<noteq> 0" for v :: u32
proof -
  have "test_mask (ucast (0x80 OR (v AND 0x7F)) :: u8) 7"
    by (subst test_mask_bit) (simp_all add: bit_simps bit_numeral_rec)
  then show ?thesis by (simp add: test_mask_def)
qed

lemma leb128_decode_bytes:
  "unat v * 2 ^ shift < 2 ^ 32 \<Longrightarrow>
     leb128_decode (leb128_bytes v @ rest) result shift =
       (result OR push_bit shift v, length (leb128_bytes v))"
proof (induction v arbitrary: result shift rule: leb128_bytes.induct)
  case (1 v)
  show ?case
  proof (cases "drop_bit 7 v = 0")
    case True
    then have "push_bit shift v = push_bit shift (v AND 0x7F)"
      using leb128_low_bits [of shift v] by simp
    then show ?thesis
      using True by (simp add: leb128_bytes.simps [of v] leb128_byte_value leb128_flag)
  next
    case False
    then have "128 \<le> unat v"
      by (metis div_less not_le unat_drop_bit_7 unat_eq_zero)
    then have "2 ^ (shift + 7) \<le> unat v * 2 ^ shift"
      by (simp add: power_add)
    with "1.prems" have sh: "(2::nat) ^ (shift + 7) < 2 ^ 32" by linarith
    then have sh32: "shift + 7 < 32"
      by (rule power_less_imp_less_exp [rotated]) simp
    have "unat (drop_bit 7 v) * 2 ^ (shift + 7) \<le> unat v * 2 ^ shift"
      by (simp add: unat_drop_bit_7 power_add)
    then have "unat (drop_bit 7 v) * 2 ^ (shift + 7) < 2 ^ 32"
      using "1.prems" by linarith
    note IH = "1.IH" [OF refl refl False this]
    let ?b = "ucast (0x80 OR (v AND 0x7F)) :: u8"
    let ?r = "result OR push_bit shift (v AND 0x7F)"
    have bytes: "leb128_bytes v = ?b # leb128_bytes (drop_bit 7 v)"
      by (subst leb128_bytes.simps) (simp only: Let_def False if_False)
    have step: "leb128_decode (?b # leb128_bytes (drop_bit 7 v) @ rest) result shift =
        (let (w, n) = leb128_decode (leb128_bytes (drop_bit 7 v) @ rest) ?r (shift + 7) in (w, Suc n))"
      using sh32 leb128_flag' [of v]
      by (simp only: leb128_decode.simps leb128_byte_value' Let_def not_le simp_thms if_False if_True) auto
    show ?thesis
      unfolding bytes append_Cons step IH [of ?r]
      by (simp only: Let_def prod.case or.assoc leb128_low_bits list.size add_0_right add_Suc_right)
  qed
qed

section \<open>The interface of the buffer and its client, the writer\<close>

text \<open>
  What a writer relies on: appending keeps the representation invariant and extends the
  contents. The writer's operations are sequences of appends, so the laws of one append
  give those of any sequence.
\<close>

locale byte_store =
  fixes invar :: "'b \<Rightarrow> bool"
    and contents :: "'b \<Rightarrow> bytes"
    and fresh :: 'b
    and app :: "'b \<Rightarrow> bytes \<Rightarrow> 'b"
  assumes invar_fresh: "invar fresh"
    and contents_fresh: "contents fresh = []"
    and invar_app: "invar b \<Longrightarrow> invar (app b xs)"
    and contents_app: "invar b \<Longrightarrow> contents (app b xs) = contents b @ xs"
begin

lemma writes_ok:
  "invar b \<Longrightarrow> invar (foldl app b xss) \<and> contents (foldl app b xss) = contents b @ concat xss"
  by (induction xss arbitrary: b) (simp_all add: invar_app contents_app)

lemma writes_fresh: "contents (foldl app fresh xss) = concat xss"
  using writes_ok [OF invar_fresh, of xss] by (simp add: contents_fresh)

lemma writes_split: "invar b \<Longrightarrow> contents (app (app b xs) ys) = contents (app b (xs @ ys))"
  by (simp add: invar_app contents_app)

end

interpretation bb: byte_store ByteBuffer_inv ByteBuffer_bytes ByteBuffer_new ByteBuffer_append
  by unfold_locales (simp_all add: buf_simps)

lemma writer_ok [buf_simps]:
  assumes "ByteBuffer_inv w"
  shows "ByteBuffer_inv (ByteWriter_write w xs)" "ByteBuffer_bytes (ByteWriter_write w xs) = ByteBuffer_bytes w @ xs"
    "ByteBuffer_inv (ByteWriter_padding w c n)"
    "ByteBuffer_bytes (ByteWriter_padding w c n) = ByteBuffer_bytes w @ replicate n c"
    "ByteBuffer_inv (writeU8 w v8)" "ByteBuffer_bytes (writeU8 w v8) = ByteBuffer_bytes w @ u8_bytes v8"
    "ByteBuffer_inv (writeU16 w v16)" "ByteBuffer_bytes (writeU16 w v16) = ByteBuffer_bytes w @ u16_bytes v16"
    "ByteBuffer_inv (writeU24 w v32)" "ByteBuffer_bytes (writeU24 w v32) = ByteBuffer_bytes w @ u24_bytes v32"
    "ByteBuffer_inv (writeU32 w v32)" "ByteBuffer_bytes (writeU32 w v32) = ByteBuffer_bytes w @ u32_bytes v32"
    "ByteBuffer_inv (writeU48 w v64)" "ByteBuffer_bytes (writeU48 w v64) = ByteBuffer_bytes w @ u48_bytes v64"
    "ByteBuffer_inv (writeU64 w v64)" "ByteBuffer_bytes (writeU64 w v64) = ByteBuffer_bytes w @ u64_bytes v64"
  using assms
  by (simp_all add: ByteWriter_write_def ByteWriter_padding_def writeU8_def writeU16_def writeU24_def
      writeU32_def writeU48_def writeU64_def bb.invar_app bb.contents_app ByteBuffer_padding_ok)

lemma writeLEB128_ok [buf_simps]:
  assumes "ByteBuffer_inv w"
  shows "ByteBuffer_inv (writeLEB128 w v)"
    "ByteBuffer_bytes (writeLEB128 w v) = ByteBuffer_bytes w @ leb128_bytes v"
proof -
  have "ByteBuffer_inv (writeLEB128 w v) \<and>
      ByteBuffer_bytes (writeLEB128 w v) = ByteBuffer_bytes w @ leb128_bytes v"
    using assms
  proof (induction w v rule: writeLEB128.induct)
    case (1 w v)
    then show ?case
      by (cases "drop_bit 7 v = 0")
        (simp_all add: writeLEB128.simps [of w v] leb128_bytes.simps [of v] buf_simps u8_bytes_def)
  qed
  then show "ByteBuffer_inv (writeLEB128 w v)"
    "ByteBuffer_bytes (writeLEB128 w v) = ByteBuffer_bytes w @ leb128_bytes v" by simp_all
qed

lemma readLEB128_eq [read_simps]:
  "reader_inv r \<Longrightarrow>
     readLEB128 r = (let (v, n) = leb128_decode (unread r) 0 0 in (v, advance n r))"
  by (simp add: readLEB128_def readLEB128_loop_eq)

lemma leb128_decode_length: "snd (leb128_decode bs result shift) \<le> length bs"
  by (induction bs result shift rule: leb128_decode.induct) (auto simp: Let_def split: prod.splits)

text \<open>
  C22. LEB128 round trip: reading back what \<^verbatim>\<open>writeLEB128\<close> appended to a fresh buffer gives
  the value, for every 32-bit value and whatever bytes follow, and leaves the reader at the
  byte after the encoding.
\<close>

theorem leb128_roundtrip:
  "readLEB128 (ByteReader_new (ByteBuffer_bytes (writeLEB128 ByteBuffer_new v) @ rest)) =
     (v, advance (length (leb128_bytes v))
           (ByteReader_new (ByteBuffer_bytes (writeLEB128 ByteBuffer_new v) @ rest)))"
proof -
  have "unat v * 2 ^ 0 < 2 ^ 32" using unat_u32_less [of v] by simp
  note dec = leb128_decode_bytes [OF this, of rest 0]
  show ?thesis
    by (simp add: read_simps buf_simps dec)
qed

text \<open>
  C23. Buffer refinement: under the representation invariant no operation of \<^verbatim>\<open>ByteBuffer\<close>
  writes outside its allocation (the invariant is kept), and on contents they are
  concatenation, padding, truncation, replacement, copying and moving; in particular growing the allocation
  in \<^verbatim>\<open>ensureCapacity\<close> loses nothing. A \<^verbatim>\<open>resize\<close> within the capacity gives a buffer of that size; it keeps the invariant
  exactly when every cell that it adds to the contents was written before, and after a copy through \<^verbatim>\<open>data()\<close> to a
  position in the contents it appends the copied bytes there.
\<close>

theorem ByteBuffer_refines_bytes:
  assumes "ByteBuffer_inv b" "ByteBuffer_inv other" "n \<le> mCap b" "off \<le> mLen b" "off + length src \<le> mCap b"
  shows "ByteBuffer_inv (ByteBuffer_append b str) \<and>
         ByteBuffer_bytes (ByteBuffer_append b str) = ByteBuffer_bytes b @ str \<and>
         ByteBuffer_inv (ByteBuffer_append_buf b other) \<and>
         ByteBuffer_bytes (ByteBuffer_append_buf b other) = ByteBuffer_bytes b @ ByteBuffer_bytes other \<and>
         ByteBuffer_inv (ByteBuffer_padding b c k) \<and>
         ByteBuffer_bytes (ByteBuffer_padding b c k) = ByteBuffer_bytes b @ replicate k c \<and>
         ByteBuffer_inv (ByteBuffer_reserve b k) \<and>
         ByteBuffer_bytes (ByteBuffer_reserve b k) = ByteBuffer_bytes b \<and>
         k \<le> mCap (ByteBuffer_reserve b k) \<and>
         mLen (ByteBuffer_resize b n) = n \<and>
         (ByteBuffer_inv (ByteBuffer_resize b n) \<longleftrightarrow> (\<forall>c \<in> set (drop (mLen b) (take n (mBuf b))). c \<noteq> None)) \<and>
         (n \<le> mLen b \<longrightarrow> ByteBuffer_inv (ByteBuffer_resize b n) \<and>
            ByteBuffer_bytes (ByteBuffer_resize b n) = take n (ByteBuffer_bytes b)) \<and>
         ByteBuffer_inv (ByteBuffer_resize (ByteBuffer_data_copy b off src) (off + length src)) \<and>
         ByteBuffer_bytes (ByteBuffer_resize (ByteBuffer_data_copy b off src) (off + length src)) =
           take off (ByteBuffer_bytes b) @ src \<and>
         ByteBuffer_inv (ByteBuffer_assign b str) \<and>
         ByteBuffer_bytes (ByteBuffer_assign b str) = str \<and>
         ByteBuffer_inv (ByteBuffer_clear b) \<and> ByteBuffer_bytes (ByteBuffer_clear b) = [] \<and>
         ByteBuffer_inv (ByteBuffer_free b) \<and> ByteBuffer_bytes (ByteBuffer_free b) = [] \<and>
         ByteBuffer_inv (ByteBuffer_copy b) \<and> ByteBuffer_bytes (ByteBuffer_copy b) = ByteBuffer_bytes b \<and>
         ByteBuffer_move b = (b, ByteBuffer_free b) \<and> ByteBuffer_move_assign other b = (b, ByteBuffer_free b) \<and>
         (ByteBuffer_eq b other \<longleftrightarrow> ByteBuffer_bytes b = ByteBuffer_bytes other) \<and>
         (\<not> ByteBuffer_empty b \<longrightarrow> ByteBuffer_front b = Some (hd (ByteBuffer_bytes b)))"
  using assms ensureCapacity_props(2) [OF assms(1), of k] ByteBuffer_resize_inv [OF assms(1,3)]
    ByteBuffer_eq_iff [OF assms(1,2)] ByteBuffer_front_ok [OF assms(1)]
  by (simp add: buf_simps ByteBuffer_reserve_def [of b k, symmetric] ByteBuffer_move_ok) (simp add: ByteBuffer_resize_def)

theorem ByteBuffer_refines_bytes_witness:
  "ByteBuffer_bytes (ByteBuffer_append (ByteBuffer_from [1, 2, 3]) [4, 5]) = [1, 2, 3, 4, 5] \<and>
   ByteBuffer_bytes (ByteBuffer_resize (ByteBuffer_data_copy (ByteBuffer_sized 2) 0 [6, 7]) 2) = [6, 7]"
proof -
  have "mLen (ByteBuffer_from [1, 2, 3]) = 3" "mCap (ByteBuffer_from [1, 2, 3]) = 3" "mLen (ByteBuffer_sized 2) = 0" "mCap (ByteBuffer_sized 2) = 2"
    by (simp_all add: ByteBuffer_from_def ByteBuffer_sized_def)
  then show ?thesis
    using ByteBuffer_refines_bytes [OF ByteBuffer_from_ok(1) [of "[1, 2, 3]"] ByteBuffer_new_ok(1), of 0 0 "[]" "[4, 5]"]
      ByteBuffer_refines_bytes [OF ByteBuffer_sized_ok(1) [of 2] ByteBuffer_new_ok(1), of 0 0 "[6, 7]"]
    by (simp add: ByteBuffer_from_ok ByteBuffer_sized_ok numeral_2_eq_2)
qed

end
