(* ===== verification/Rtp_Extension.thy ===== *)
theory Rtp_Extension
  imports Byte_Buffer
begin

text \<open>
  \<^verbatim>\<open>src/rtp_extension.cpp\<close> and \<^verbatim>\<open>src/rtp_extension_builder.cpp\<close>: RTP header extensions in the
  one-byte and two-byte formats, the walk over their elements, and the builder of two-byte
  extensions. A pointer into the extension data together with its length is the byte string
  that it designates.
\<close>

unbundle bit_operations_syntax

section \<open>RtpExtension\<close>

record RtpExtension =
  ext_id :: u16
  ext_data :: bytes

definition kOneByte :: u16 where [const_defs]: "kOneByte = 0xBEDE"
definition kTwoByte :: u16 where [const_defs]: "kTwoByte = 0x1000"

definition RtpExtension_none :: RtpExtension where
  "RtpExtension_none = \<lparr>ext_id = 0, ext_data = []\<rparr>"

definition isValidExtensionId :: "u16 \<Rightarrow> bool" where
  "isValidExtensionId i \<longleftrightarrow> i = kOneByte \<or> (i AND 0xFFF0) = kTwoByte"

definition ext_clear :: "RtpExtension \<Rightarrow> RtpExtension" where
  "ext_clear e = e\<lparr>ext_id := 0, ext_data := []\<rparr>"

definition ext_empty :: "RtpExtension \<Rightarrow> bool" where
  "ext_empty e \<longleftrightarrow> ext_id e = 0 \<or> ext_data e = []"

definition ext_size :: "RtpExtension \<Rightarrow> nat" where
  "ext_size e = (if ext_empty e then 0 else 2 + 2 + 4 * ((length (ext_data e) + 3) div 4))"

record Element =
  el_id :: u8
  el_val :: bytes

text \<open>
  \<^verbatim>\<open>nextElement\<close>: the outer option is the reader's abort; the inner one is the returned
  flag, with the element when it is \<^verbatim>\<open>true\<close>. The reader is advanced in either case.
\<close>

definition nextElement :: "u16 \<Rightarrow> ByteReader \<Rightarrow> (Element option \<times> ByteReader) option" where
  "nextElement mid r =
     (if \<not> isValidExtensionId mid then Some (None, r)
      else if mid = kOneByte then
        (if remaining r < 1 then Some (None, r)
         else do {
           (val, r) \<leftarrow> readU8 r;
           if val = 0 then Some (None, r)
           else let i = drop_bit 4 val in
             if i = 0x0F then Some (None, r)
             else let len = unat (val AND 0x0F) + 1 in
               if remaining r < len then Some (None, r)
               else let v = take len (current r) in do {
                 r \<leftarrow> reader_skip len r;
                 Some (Some \<lparr>el_id = i, el_val = v\<rparr>, r)
               }
         })
      else if remaining r < 2 then Some (None, r)
      else do {
        (i, r) \<leftarrow> readU8 r;
        if i = 0 then Some (None, r)
        else do {
          (l, r) \<leftarrow> readU8 r;
          let len = unat l;
          if remaining r < len then Some (None, r)
          else let v = take len (current r) in do {
            r \<leftarrow> reader_skip len r;
            Some (Some \<lparr>el_id = i, el_val = v\<rparr>, r)
          }
        }
      })"

lemma reads_progress:
  "readU8 r = Some (v, r') \<Longrightarrow> rLen r' = rLen r \<and> rPos r < rPos r' \<and> rPos r' \<le> rLen r"
  "reader_skip n r = Some r' \<Longrightarrow> rLen r' = rLen r \<and> rPos r \<le> rPos r' \<and> rPos r' \<le> rLen r"
  by (auto simp: readU8_def reader_skip_def check_read_def split: if_splits)

lemma nextElement_progress:
  "nextElement mid r = Some (Some e, r') \<Longrightarrow> rLen r' = rLen r \<and> rPos r < rPos r' \<and> rPos r' \<le> rLen r"
  by (auto simp: nextElement_def Let_def bind_eq_Some_conv split: if_splits dest!: reads_progress)

function findAny_loop :: "u16 \<Rightarrow> u8 \<Rightarrow> ByteReader \<Rightarrow> bytes option option" where
  "findAny_loop mid nExtId r =
     (case nextElement mid r of
        None \<Rightarrow> None
      | Some (None, r') \<Rightarrow> Some None
      | Some (Some elem, r') \<Rightarrow>
          (if el_id elem = nExtId then Some (Some (el_val elem)) else findAny_loop mid nExtId r'))"
  by pat_completeness auto
termination
  by (relation "measure (\<lambda>(_, _, r). rLen r - rPos r)") (auto dest!: nextElement_progress)

function trimPadding_loop :: "u16 \<Rightarrow> ByteReader \<Rightarrow> nat \<Rightarrow> nat option" where
  "trimPadding_loop mid r end_pos =
     (case nextElement mid r of
        None \<Rightarrow> None
      | Some (None, r') \<Rightarrow> Some end_pos
      | Some (Some elem, r') \<Rightarrow> trimPadding_loop mid r' (position r'))"
  by pat_completeness auto
termination
  by (relation "measure (\<lambda>(_, r, _). rLen r - rPos r)") (auto dest!: nextElement_progress)

declare findAny_loop.simps [simp del] trimPadding_loop.simps [simp del]

definition findAny :: "RtpExtension \<Rightarrow> u8 \<Rightarrow> bytes option option" where
  "findAny e nExtId =
     (if \<not> ext_empty e then findAny_loop (ext_id e) nExtId (ByteReader_new (ext_data e)) else Some None)"

definition findU16 :: "RtpExtension \<Rightarrow> u8 \<Rightarrow> u16 option option" where
  "findU16 e nExtId = do {
     val \<leftarrow> findAny e nExtId;
     case val of
       Some v \<Rightarrow> (if length v \<ge> 2 then map_option (Some \<circ> fst) (readU16 (ByteReader_new v)) else Some None)
     | None \<Rightarrow> Some None
   }"

definition findU32 :: "RtpExtension \<Rightarrow> u8 \<Rightarrow> u32 option option" where
  "findU32 e nExtId = do {
     val \<leftarrow> findAny e nExtId;
     case val of
       Some v \<Rightarrow> (if length v \<ge> 4 then map_option (Some \<circ> fst) (readU32 (ByteReader_new v)) else Some None)
     | None \<Rightarrow> Some None
   }"

definition findU64 :: "RtpExtension \<Rightarrow> u8 \<Rightarrow> u64 option option" where
  "findU64 e nExtId = do {
     val \<leftarrow> findAny e nExtId;
     case val of
       Some v \<Rightarrow> (if length v \<ge> 8 then map_option (Some \<circ> fst) (readU64 (ByteReader_new v)) else Some None)
     | None \<Rightarrow> Some None
   }"

definition trimPadding :: "RtpExtension \<Rightarrow> RtpExtension option" where
  "trimPadding e =
     (if ext_empty e then Some e
      else do {
        end_pos \<leftarrow> trimPadding_loop (ext_id e) (ByteReader_new (ext_data e)) 0;
        Some (e\<lparr>ext_data := take end_pos (ext_data e)\<rparr>)
      })"

definition ext_copy :: "RtpExtension \<Rightarrow> RtpExtension" where
  "ext_copy e = (if ext_empty e then RtpExtension_none else \<lparr>ext_id = ext_id e, ext_data = ext_data e\<rparr>)"

section \<open>RtpExtensionBuilder\<close>

text \<open>The builder's state is the contents of its buffer.\<close>

type_synonym RtpExtensionBuilder = bytes

definition addStringValue :: "RtpExtensionBuilder \<Rightarrow> u8 \<Rightarrow> bytes \<Rightarrow> RtpExtensionBuilder" where
  "addStringValue b i val =
     (let len = min 255 (length val) in b @ u8_bytes i @ u8_bytes (of_nat len) @ take len val)"

definition addBinaryValue :: "RtpExtensionBuilder \<Rightarrow> u8 \<Rightarrow> bytes \<Rightarrow> RtpExtensionBuilder" where
  "addBinaryValue b i buf =
     (let len = min 255 (length buf) in b @ u8_bytes i @ u8_bytes (of_nat len) @ buf)"

definition addU16Value :: "RtpExtensionBuilder \<Rightarrow> u8 \<Rightarrow> u16 \<Rightarrow> RtpExtensionBuilder" where
  "addU16Value b i val = b @ u8_bytes i @ u8_bytes 2 @ u16_bytes val"

definition addU32Value :: "RtpExtensionBuilder \<Rightarrow> u8 \<Rightarrow> u32 \<Rightarrow> RtpExtensionBuilder" where
  "addU32Value b i val = b @ u8_bytes i @ u8_bytes 4 @ u32_bytes val"

definition addU64Value :: "RtpExtensionBuilder \<Rightarrow> u8 \<Rightarrow> u64 \<Rightarrow> RtpExtensionBuilder" where
  "addU64Value b i val = b @ u8_bytes i @ u8_bytes 8 @ u64_bytes val"

text \<open>
  The search loop of \<^verbatim>\<open>addOrReplaceU16Value\<close>: \<open>Some (Some offset)\<close> when the id is found, with
  the position after its two header bytes.
\<close>

function find_offset :: "u8 \<Rightarrow> ByteReader \<Rightarrow> nat option option" where
  "find_offset i r =
     (if remaining r > 2 then
        (case readU8 r of None \<Rightarrow> None | Some (extensionId, r1) \<Rightarrow>
        (case readU8 r1 of None \<Rightarrow> None | Some (extensionLen, r2) \<Rightarrow>
          (if extensionId = i then Some (Some (position r2))
           else (case reader_skip (unat extensionLen) r2 of
                   None \<Rightarrow> None
                 | Some r3 \<Rightarrow> find_offset i r3))))
      else Some None)"
  by pat_completeness auto
termination
  by (relation "measure (\<lambda>(_, r). rLen r - rPos r)") (auto dest!: reads_progress)

definition addOrReplaceU16Value :: "RtpExtensionBuilder \<Rightarrow> u8 \<Rightarrow> u16 \<Rightarrow> RtpExtensionBuilder option" where
  "addOrReplaceU16Value b i val =
     (case find_offset i (ByteReader_new b) of
        None \<Rightarrow> None
      | Some (Some offset) \<Rightarrow>
          Some (b[offset := ucast (drop_bit 8 val AND 0xFF), offset + 1 := ucast (val AND 0xFF)])
      | Some None \<Rightarrow> Some (addU16Value b i val))"

definition ext_build :: "RtpExtensionBuilder \<Rightarrow> RtpExtension" where
  "ext_build b = (if b = [] then \<lparr>ext_id = 0, ext_data = []\<rparr> else \<lparr>ext_id = kTwoByte, ext_data = b\<rparr>)"

definition builder_from :: "RtpExtension \<Rightarrow> RtpExtensionBuilder" where
  "builder_from e = (if ext_empty e then [] else ext_data e)"

function builder_contains_loop :: "u8 \<Rightarrow> ByteReader \<Rightarrow> bool option" where
  "builder_contains_loop i r =
     (if remaining r > 2 then
        (case readU8 r of None \<Rightarrow> None | Some (extensionId, r1) \<Rightarrow>
          (if extensionId = i then Some True
           else (case readU8 r1 of None \<Rightarrow> None | Some (extensionLen, r2) \<Rightarrow>
                  (case reader_skip (unat extensionLen) r2 of
                     None \<Rightarrow> None
                   | Some r3 \<Rightarrow> builder_contains_loop i r3))))
      else Some False)"
  by pat_completeness auto
termination
  by (relation "measure (\<lambda>(_, r). rLen r - rPos r)") (auto dest!: reads_progress)

declare find_offset.simps [simp del] builder_contains_loop.simps [simp del]

definition builder_contains :: "RtpExtensionBuilder \<Rightarrow> u8 \<Rightarrow> bool option" where
  "builder_contains b i = builder_contains_loop i (ByteReader_new b)"

section \<open>The elements of an extension\<close>

text \<open>
  What one step of the walk finds at the front of a byte string, with the number of bytes
  it takes; and the whole list of elements, with the position where the walk stops.
\<close>

definition next_el :: "u16 \<Rightarrow> bytes \<Rightarrow> (Element \<times> nat) option" where
  "next_el mid xs =
     (if \<not> isValidExtensionId mid then None
      else if mid = kOneByte then
        (case xs of
           [] \<Rightarrow> None
         | b # bs \<Rightarrow>
             let len = unat (b AND 0x0F) + 1 in
             if b = 0 \<or> drop_bit 4 b = 0x0F \<or> length bs < len then None
             else Some (\<lparr>el_id = drop_bit 4 b, el_val = take len bs\<rparr>, 1 + len))
      else
        (case xs of
           i # l # bs \<Rightarrow>
             if i = 0 \<or> length bs < unat l then None
             else Some (\<lparr>el_id = i, el_val = take (unat l) bs\<rparr>, 2 + unat l)
         | _ \<Rightarrow> None))"

lemma next_el_bounds: "next_el mid xs = Some (e, n) \<Longrightarrow> 0 < n \<and> n \<le> length xs"
  by (auto simp: next_el_def Let_def split: if_splits list.splits)

lemma next_el_Nil [simp]: "next_el mid [] = None"
  by (simp add: next_el_def)

lemma next_el_take:
  "next_el mid xs = Some (e, n) \<Longrightarrow> n \<le> k \<Longrightarrow> next_el mid (take k xs) = Some (e, n)"
  by (auto simp: next_el_def Let_def take_Cons' min_def split: if_splits list.splits)

function elements :: "u16 \<Rightarrow> bytes \<Rightarrow> Element list" where
  "elements mid xs = (case next_el mid xs of None \<Rightarrow> [] | Some (e, n) \<Rightarrow> e # elements mid (drop n xs))"
  by pat_completeness auto
termination
  by (relation "measure (\<lambda>(_, xs). length xs)") (auto dest!: next_el_bounds)

function elements_end :: "u16 \<Rightarrow> bytes \<Rightarrow> nat" where
  "elements_end mid xs = (case next_el mid xs of None \<Rightarrow> 0 | Some (e, n) \<Rightarrow> n + elements_end mid (drop n xs))"
  by pat_completeness auto
termination
  by (relation "measure (\<lambda>(_, xs). length xs)") (auto dest!: next_el_bounds)

declare elements.simps [simp del] elements_end.simps [simp del]

lemma elements_end_le: "elements_end mid xs \<le> length xs"
proof (induction mid xs rule: elements_end.induct)
  case (1 mid xs)
  show ?case
    using "1.IH" by (subst elements_end.simps) (fastforce split: option.splits dest: next_el_bounds)
qed

lemma unread_Cons:
  assumes "reader_inv r" "unread r = b # bs"
  shows "readU8 r = Some (b, advance (Suc 0) r)" "reader_inv (advance (Suc 0) r)"
    "unread (advance (Suc 0) r) = bs"
  using assms by (simp_all add: read_simps)

lemma take_current: "reader_inv r \<Longrightarrow> n \<le> length (unread r) \<Longrightarrow> take n (current r) = take n (unread r)"
  by (auto simp: unread_def min_absorb1)

lemma nextElement_eq:
  assumes "reader_inv r"
  shows "case next_el mid (unread r) of
      None \<Rightarrow> \<exists>r'. nextElement mid r = Some (None, r')
    | Some (e, n) \<Rightarrow> nextElement mid r = Some (Some e, advance n r)"
proof (cases "isValidExtensionId mid")
  case False
  then show ?thesis by (simp add: next_el_def nextElement_def)
next
  case valid: True
  show ?thesis
  proof (cases "mid = kOneByte")
    case True
    show ?thesis
    proof (cases "unread r")
      case Nil
      then show ?thesis using valid True assms by (simp add: next_el_def nextElement_def read_simps)
    next
      case (Cons b bs)
      note u = unread_Cons [OF assms Cons]
      show ?thesis
        using valid True u Cons assms
        by (auto simp: next_el_def nextElement_def remaining_unread reader_skip_eq take_current Let_def)
    qed
  next
    case False
    show ?thesis
    proof (cases "\<exists>i l bs. unread r = i # l # bs")
      case True
      then obtain i l bs where il: "unread r = i # l # bs" by auto
      note u = unread_Cons [OF assms il]
      note u2 = unread_Cons [OF u(2,3)]
      show ?thesis
        using valid False u u2 il assms
        by (auto simp: next_el_def nextElement_def remaining_unread reader_skip_eq take_current Let_def)
    next
      case short: False
      then have "length (unread r) < 2" by (metis Suc_1 Suc_leI length_Suc_conv not_less_eq less_2_cases_iff list.size(3) length_0_conv neq_Nil_conv not_less_iff_gr_or_eq)
      then show ?thesis
        using valid False assms short
        by (auto simp: next_el_def nextElement_def remaining_unread [OF assms] split: list.splits)
    qed
  qed
qed

lemma findAny_loop_eq:
  "reader_inv r \<Longrightarrow>
     findAny_loop mid i r = Some (map_option el_val (find (\<lambda>e. el_id e = i) (elements mid (unread r))))"
proof (induction mid i r rule: findAny_loop.induct)
  case (1 mid i r)
  show ?case
  proof (cases "next_el mid (unread r)")
    case None
    then obtain r' where "nextElement mid r = Some (None, r')" using nextElement_eq [OF "1.prems", of mid] by auto
    then show ?thesis
      using None by (simp add: findAny_loop.simps [of mid i r] elements.simps [of mid "unread r"])
  next
    case (Some a)
    obtain e n where a: "a = (e, n)" by force
    have ne: "nextElement mid r = Some (Some e, advance n r)"
      using nextElement_eq [OF "1.prems", of mid] Some a by simp
    have n: "n \<le> length (unread r)" using next_el_bounds Some a by blast
    have "el_id e \<noteq> i \<Longrightarrow> findAny_loop mid i (advance n r) =
        Some (map_option el_val (find (\<lambda>e. el_id e = i) (elements mid (drop n (unread r)))))"
      using "1.IH" [OF ne refl refl] reader_inv_advance [OF "1.prems" n] unread_advance [OF "1.prems" n] by simp
    then show ?thesis
      using ne Some a by (auto simp: findAny_loop.simps [of mid i r] elements.simps [of mid "unread r"])
  qed
qed

lemma trimPadding_loop_eq:
  "reader_inv r \<Longrightarrow>
     trimPadding_loop mid r p =
       Some (if elements mid (unread r) = [] then p else position r + elements_end mid (unread r))"
proof (induction mid r p rule: trimPadding_loop.induct)
  case (1 mid r p)
  show ?case
  proof (cases "next_el mid (unread r)")
    case None
    then obtain r' where "nextElement mid r = Some (None, r')" using nextElement_eq [OF "1.prems", of mid] by auto
    then show ?thesis
      using None by (simp add: trimPadding_loop.simps [of mid r] elements.simps [of mid "unread r"])
  next
    case (Some a)
    obtain e n where a: "a = (e, n)" by force
    have ne: "nextElement mid r = Some (Some e, advance n r)"
      using nextElement_eq [OF "1.prems", of mid] Some a by simp
    have n: "n \<le> length (unread r)" using next_el_bounds Some a by blast
    have u: "unread (advance n r) = drop n (unread r)" using "1.prems" n by (rule unread_advance)
    have z: "elements mid xs = [] \<Longrightarrow> elements_end mid xs = 0" for xs
      by (auto simp: elements.simps [of mid xs] elements_end.simps [of mid xs] split: option.splits)
    show ?thesis
      using "1.IH" [OF ne refl refl reader_inv_advance [OF "1.prems" n]] ne Some a z [of "drop n (unread r)"]
      by (auto simp: trimPadding_loop.simps [of mid r] elements.simps [of mid "unread r"]
          elements_end.simps [of mid "unread r"] u)
  qed
qed

text \<open>The elements that a lookup in an extension ranges over.\<close>

definition ext_elements :: "RtpExtension \<Rightarrow> Element list" where
  "ext_elements e = (if ext_empty e then [] else elements (ext_id e) (ext_data e))"

lemma findAny_eq:
  "findAny e i = Some (map_option el_val (find (\<lambda>el. el_id el = i) (ext_elements e)))"
  by (simp add: findAny_def ext_elements_def findAny_loop_eq)

lemma elements_take_end: "elements mid (take (elements_end mid xs) xs) = elements mid xs"
proof (induction mid xs rule: elements.induct)
  case (1 mid xs)
  show ?case
  proof (cases "next_el mid xs")
    case None
    then show ?thesis by (simp add: elements_end.simps [of mid xs] elements.simps [of mid])
  next
    case (Some a)
    obtain e n where a: "a = (e, n)" by force
    let ?m = "elements_end mid (drop n xs)"
    have tk: "next_el mid (take (n + ?m) xs) = Some (e, n)"
      using Some a by (auto intro: next_el_take)
    have "elements mid (take ?m (drop n xs)) = elements mid (drop n xs)"
      using "1.IH" Some a by simp
    then show ?thesis
      using Some a tk
      by (simp add: elements_end.simps [of mid xs] elements.simps [of mid xs]
          elements.simps [of mid "take (n + ?m) xs"] drop_take)
  qed
qed

lemma elements_Nil [simp]: "elements mid [] = []"
  by (simp add: elements.simps)

lemma trimPadding_eq:
  "trimPadding e = Some (if ext_empty e then e
     else e\<lparr>ext_data := take (elements_end (ext_id e) (ext_data e)) (ext_data e)\<rparr>)"
proof -
  have "elements mid xs = [] \<Longrightarrow> elements_end mid xs = 0" for mid xs
    by (auto simp: elements.simps [of mid xs] elements_end.simps [of mid xs] split: option.splits)
  then show ?thesis by (auto simp: trimPadding_def trimPadding_loop_eq)
qed

section \<open>Encoding of two-byte elements\<close>

definition enc_element :: "Element \<Rightarrow> bytes" where
  "enc_element e = el_id e # of_nat (length (el_val e)) # el_val e"

definition element_ok :: "Element \<Rightarrow> bool" where
  "element_ok e \<longleftrightarrow> el_id e \<noteq> 0 \<and> length (el_val e) \<le> 255"

definition enc_elements :: "Element list \<Rightarrow> bytes" where
  "enc_elements es = concat (map enc_element es)"

lemma unat_length_u8 [simp]: "n \<le> 255 \<Longrightarrow> unat (of_nat n :: u8) = n"
  by (simp add: unat_of_nat)

lemma kTwoByte_valid [simp]: "isValidExtensionId kTwoByte" "kTwoByte \<noteq> kOneByte" "kTwoByte \<noteq> 0"
  by (simp_all add: isValidExtensionId_def const_defs)

lemma next_el_enc: "element_ok e \<Longrightarrow> next_el kTwoByte (enc_element e @ xs) = Some (e, 2 + length (el_val e))"
  by (simp add: next_el_def enc_element_def element_ok_def)

lemma length_enc_element [simp]: "length (enc_element e) = 2 + length (el_val e)"
  by (simp add: enc_element_def)

lemma elements_enc: "list_all element_ok es \<Longrightarrow> elements kTwoByte (enc_elements es) = es"
proof (induction es)
  case Nil
  then show ?case by (simp add: enc_elements_def)
next
  case (Cons e es)
  have "next_el kTwoByte (enc_element e @ enc_elements es) = Some (e, 2 + length (el_val e))"
    using Cons.prems by (intro next_el_enc) simp
  moreover have "drop (2 + length (el_val e)) (enc_element e @ enc_elements es) = enc_elements es"
    using length_enc_element [of e] by (metis append_eq_conv_conj)
  ultimately show ?case
    using Cons by (simp add: enc_elements_def elements.simps [of kTwoByte "enc_element e @ concat (map enc_element es)"])
qed

lemma ext_elements_build: "list_all element_ok es \<Longrightarrow> ext_elements (ext_build (enc_elements es)) = es"
proof (cases es)
  case Nil
  then show ?thesis by (simp add: ext_elements_def ext_build_def enc_elements_def ext_empty_def)
next
  case (Cons e es')
  assume ok: "list_all element_ok es"
  have "enc_elements es \<noteq> []" using Cons by (simp add: enc_elements_def enc_element_def)
  then show ?thesis using elements_enc [OF ok] by (simp add: ext_elements_def ext_build_def ext_empty_def)
qed

lemma add_values_enc:
  "addStringValue (enc_elements es) i v = enc_elements (es @ [\<lparr>el_id = i, el_val = take 255 v\<rparr>])"
  "addU16Value (enc_elements es) i v16 = enc_elements (es @ [\<lparr>el_id = i, el_val = u16_bytes v16\<rparr>])"
  "addU32Value (enc_elements es) i v32 = enc_elements (es @ [\<lparr>el_id = i, el_val = u32_bytes v32\<rparr>])"
  "addU64Value (enc_elements es) i v64 = enc_elements (es @ [\<lparr>el_id = i, el_val = u64_bytes v64\<rparr>])"
  "length v \<le> 255 \<Longrightarrow> addBinaryValue (enc_elements es) i v = enc_elements (es @ [\<lparr>el_id = i, el_val = v\<rparr>])"
  by (auto simp: addStringValue_def addU16Value_def addU32Value_def addU64Value_def addBinaryValue_def
      enc_elements_def enc_element_def u8_bytes_def Let_def min_def)

section \<open>The builder's search loops\<close>

fun el_offset :: "u8 \<Rightarrow> Element list \<Rightarrow> nat option" where
  "el_offset i [] = None"
| "el_offset i (e # es) =
     (if el_id e = i then Some 2 else map_option ((+) (2 + length (el_val e))) (el_offset i es))"

fun upsert :: "u8 \<Rightarrow> bytes \<Rightarrow> Element list \<Rightarrow> Element list" where
  "upsert i v [] = [\<lparr>el_id = i, el_val = v\<rparr>]"
| "upsert i v (e # es) = (if el_id e = i then e\<lparr>el_val := v\<rparr> # es else e # upsert i v es)"

text \<open>Elements that the builder's loops see in full: they skip an empty last value.\<close>

definition element_full :: "Element \<Rightarrow> bool" where
  "element_full e \<longleftrightarrow> element_ok e \<and> el_val e \<noteq> []"

lemma enc_elements_Cons: "enc_elements (e # es) = el_id e # of_nat (length (el_val e)) # el_val e @ enc_elements es"
  by (simp add: enc_elements_def enc_element_def)

lemma enc_elements_Nil [simp]: "enc_elements [] = []"
  by (simp add: enc_elements_def)

lemma reader_at_element:
  assumes "reader_inv r" "unread r = enc_elements (e # es)" "element_full e"
  shows "remaining r > 2"
    "\<exists>r1. readU8 r = Some (el_id e, r1) \<and>
       readU8 r1 = Some (of_nat (length (el_val e)), advance 2 r) \<and>
       reader_skip (length (el_val e)) (advance 2 r) = Some (advance (2 + length (el_val e)) r) \<and>
       reader_inv (advance (2 + length (el_val e)) r) \<and>
       unread (advance (2 + length (el_val e)) r) = enc_elements es"
proof -
  note u = assms(2) [unfolded enc_elements_Cons]
  show "remaining r > 2"
    using assms(1,3) by (simp add: remaining_unread u element_full_def)
  note u1 = unread_Cons [OF assms(1) u]
  note u2 = unread_Cons [OF u1(2,3)]
  have a2: "advance 2 r = advance (Suc 0) (advance (Suc 0) r)" by (simp add: numeral_2_eq_2)
  have "reader_skip (length (el_val e)) (advance 2 r) = Some (advance (2 + length (el_val e)) r)"
    using u2(2,3) by (simp add: a2 reader_skip_eq numeral_2_eq_2)
  moreover have "reader_inv (advance (2 + length (el_val e)) r)"
    "unread (advance (2 + length (el_val e)) r) = enc_elements es"
    using reader_inv_advance [OF assms(1), of "2 + length (el_val e)"]
      unread_advance [OF assms(1), of "2 + length (el_val e)"] u by simp_all
  ultimately show "\<exists>r1. readU8 r = Some (el_id e, r1) \<and>
       readU8 r1 = Some (of_nat (length (el_val e)), advance 2 r) \<and>
       reader_skip (length (el_val e)) (advance 2 r) = Some (advance (2 + length (el_val e)) r) \<and>
       reader_inv (advance (2 + length (el_val e)) r) \<and>
       unread (advance (2 + length (el_val e)) r) = enc_elements es"
    using u1(1) u2(1) by (simp add: a2)
qed

lemma find_offset_eq:
  "reader_inv r \<Longrightarrow> unread r = enc_elements es \<Longrightarrow> list_all element_full es \<Longrightarrow>
     find_offset i r = Some (map_option ((+) (position r)) (el_offset i es))"
proof (induction es arbitrary: r)
  case Nil
  then show ?case by (simp add: find_offset.simps [of i r] remaining_unread)
next
  case (Cons e es)
  have full: "element_full e" "list_all element_full es" using Cons.prems(3) by auto
  note at = reader_at_element [OF Cons.prems(1,2) full(1)]
  have len: "unat (of_nat (length (el_val e)) :: u8) = length (el_val e)"
    using full(1) by (simp add: element_full_def element_ok_def)
  show ?case
    using at Cons.IH [OF _ _ full(2), of "advance (2 + length (el_val e)) r"] len
    by (auto simp: find_offset.simps [of i r] option.map_comp comp_def add.assoc)
qed

lemma builder_contains_eq:
  "reader_inv r \<Longrightarrow> unread r = enc_elements es \<Longrightarrow> list_all element_full es \<Longrightarrow>
     builder_contains_loop i r = Some (i \<in> el_id ` set es)"
proof (induction es arbitrary: r)
  case Nil
  then show ?case by (simp add: builder_contains_loop.simps [of i r] remaining_unread)
next
  case (Cons e es)
  have full: "element_full e" "list_all element_full es" using Cons.prems(3) by auto
  note at = reader_at_element [OF Cons.prems(1,2) full(1)]
  have len: "unat (of_nat (length (el_val e)) :: u8) = length (el_val e)"
    using full(1) by (simp add: element_full_def element_ok_def)
  show ?case
    using at Cons.IH [OF _ _ full(2), of "advance (2 + length (el_val e)) r"] len
    by (auto simp: builder_contains_loop.simps [of i r])
qed

lemma u16_bytes_split: "u16_bytes v = [ucast (drop_bit 8 v AND 0xFF), ucast (v AND 0xFF)]"
proof -
  have m: "(0xFF :: u16) = mask 8" by (simp add: mask_eq_exp_minus_1)
  have "(ucast (drop_bit 8 v AND 0xFF) :: u8) = ucast (drop_bit 8 v)" "(ucast (v AND 0xFF) :: u8) = ucast v"
    unfolding m by (rule bit_word_eqI, auto simp: bit_simps)+
  then show ?thesis by (simp add: u16_bytes_def)
qed

lemma upsert_in_place:
  "el_offset i es = Some k \<Longrightarrow> \<forall>e \<in> set es. el_id e = i \<longrightarrow> length (el_val e) = 2 \<Longrightarrow>
     (enc_elements es)[k := ucast (drop_bit 8 v AND 0xFF), k + 1 := ucast (v AND 0xFF)] =
       enc_elements (upsert i (u16_bytes v) es)"
proof (induction es arbitrary: k)
  case Nil
  then show ?case by simp
next
  case (Cons e es)
  show ?case
  proof (cases "el_id e = i")
    case True
    then obtain a b where "el_val e = [a, b]"
      using Cons.prems(2) by (auto simp: numeral_2_eq_2 length_Suc_conv)
    then show ?thesis
      using True Cons.prems(1) by (auto simp: enc_elements_Cons u16_bytes_split numeral_2_eq_2)
  next
    case False
    then obtain k' where k': "el_offset i es = Some k'" "k = 2 + length (el_val e) + k'"
      using Cons.prems(1) by auto
    have "(el_val e @ enc_elements es)[length (el_val e) + k' := x, length (el_val e) + k' + 1 := y] =
        el_val e @ (enc_elements es)[k' := x, k' + 1 := y]" for x y
      by (simp add: list_update_append)
    then show ?thesis
      using False Cons.IH [OF k'(1)] Cons.prems(2) k'(2) by (simp add: enc_elements_Cons)
  qed
qed

lemma upsert_absent: "el_offset i es = None \<Longrightarrow> upsert i v es = es @ [\<lparr>el_id = i, el_val = v\<rparr>]"
  by (induction es) (auto split: if_splits)

lemma addOrReplace_upsert:
  assumes "list_all element_full es" "\<forall>e \<in> set es. el_id e = i \<longrightarrow> length (el_val e) = 2"
  shows "addOrReplaceU16Value (enc_elements es) i v = Some (enc_elements (upsert i (u16_bytes v) es))"
proof (cases "el_offset i es")
  case None
  then show ?thesis
    using find_offset_eq [OF reader_inv_new unread_new assms(1), of i]
    by (simp add: addOrReplaceU16Value_def upsert_absent add_values_enc)
next
  case (Some k)
  then show ?thesis
    using find_offset_eq [OF reader_inv_new unread_new assms(1), of i] upsert_in_place [OF Some assms(2), of v]
    by (simp add: addOrReplaceU16Value_def)
qed

lemma upsert_full:
  "list_all element_full es \<Longrightarrow> i \<noteq> 0 \<Longrightarrow> v \<noteq> [] \<Longrightarrow> length v \<le> 255 \<Longrightarrow> list_all element_full (upsert i v es)"
  by (induction es) (auto simp: element_full_def element_ok_def)

lemma find_upsert:
  "find (\<lambda>e. el_id e = j) (upsert i v es) =
     (if j = i then Some (case find (\<lambda>e. el_id e = i) es of None \<Rightarrow> \<lparr>el_id = i, el_val = v\<rparr> | Some e \<Rightarrow> e\<lparr>el_val := v\<rparr>)
      else find (\<lambda>e. el_id e = j) es)"
  by (induction es) auto

text \<open>
  The builder as a map from extension ids to 16-bit values: what users of
  \<^verbatim>\<open>addOrReplaceU16Value\<close> rely on (the TWCC source replaces the sequence number of a packet
  that is sent again).
\<close>

locale u16_map =
  fixes inv :: "'b \<Rightarrow> bool"
    and lookup :: "'b \<Rightarrow> u8 \<Rightarrow> u16 option"
    and put :: "'b \<Rightarrow> u8 \<Rightarrow> u16 \<Rightarrow> 'b option"
  assumes put_total: "inv b \<Longrightarrow> i \<noteq> 0 \<Longrightarrow> \<exists>b'. put b i v = Some b' \<and> inv b'"
    and lookup_put: "inv b \<Longrightarrow> i \<noteq> 0 \<Longrightarrow> put b i v = Some b' \<Longrightarrow>
      lookup b' j = (if j = i then Some v else lookup b j)"
begin

lemma put_last_wins:
  assumes "inv b" "i \<noteq> 0" "put b i v = Some b1" "put b1 i w = Some b2"
  shows "lookup b2 j = (if j = i then Some w else lookup b j)"
proof -
  have "inv b1" using put_total [OF assms(1,2), of v] assms(3) by auto
  then show ?thesis using lookup_put [OF assms(1-3)] lookup_put [OF _ assms(2,4)] by simp
qed

lemma put_commutes:
  assumes "inv b" "i \<noteq> 0" "k \<noteq> 0" "i \<noteq> k"
    and "put b i v = Some b1" "put b1 k w = Some b2" "put b k w = Some c1" "put c1 i v = Some c2"
  shows "lookup b2 j = lookup c2 j"
proof -
  have "inv b1" "inv c1" using put_total [OF assms(1,2), of v] put_total [OF assms(1,3), of w] assms(5,7) by auto
  then show ?thesis
    using lookup_put [OF assms(1,2,5)] lookup_put [OF assms(1,3,7)]
      lookup_put [OF _ assms(3,6)] lookup_put [OF _ assms(2,8)] assms(4) by simp
qed

end

definition builder_u16_inv :: "RtpExtensionBuilder \<Rightarrow> bool" where
  "builder_u16_inv b \<longleftrightarrow>
     (\<exists>es. b = enc_elements es \<and> list_all element_full es \<and> (\<forall>e \<in> set es. length (el_val e) = 2))"

definition builder_u16_lookup :: "RtpExtensionBuilder \<Rightarrow> u8 \<Rightarrow> u16 option" where
  "builder_u16_lookup b i = (case findU16 (ext_build b) i of None \<Rightarrow> None | Some v \<Rightarrow> v)"

lemma findU16_elements:
  "findU16 e i = Some (case find (\<lambda>el. el_id el = i) (ext_elements e) of
       None \<Rightarrow> None
     | Some el \<Rightarrow> (if 2 \<le> length (el_val el) then Some (be16 (el_val el)) else None))"
  by (auto simp: findU16_def findAny_eq read_simps split: option.splits)

lemma list_all_ok: "list_all element_full es \<Longrightarrow> list_all element_ok es"
  by (auto simp: list_all_iff element_full_def)

lemma be16_u16_bytes_exact [simp]: "be16 (u16_bytes v) = v"
  using be16_u16_bytes [of v "[]"] by simp

interpretation ext: u16_map builder_u16_inv builder_u16_lookup addOrReplaceU16Value
proof
  fix b :: RtpExtensionBuilder and i :: u8 and v :: u16
  assume inv: "builder_u16_inv b" and i: "i \<noteq> 0"
  obtain es where es: "b = enc_elements es" "list_all element_full es" "\<forall>e \<in> set es. length (el_val e) = 2"
    using inv by (auto simp: builder_u16_inv_def)
  have put: "addOrReplaceU16Value b i v = Some (enc_elements (upsert i (u16_bytes v) es))"
    unfolding es(1) by (rule addOrReplace_upsert) (use es in auto)
  have len: "u16_bytes v \<noteq> []" "length (u16_bytes v) \<le> 255" by (simp_all add: u16_bytes_def)
  have full: "list_all element_full (upsert i (u16_bytes v) es)"
    using es(2) i len by (rule upsert_full)
  have two: "\<forall>e \<in> set (upsert i (u16_bytes v) es). length (el_val e) = 2"
    using es(3) by (induction es) auto
  show "\<exists>b'. addOrReplaceU16Value b i v = Some b' \<and> builder_u16_inv b'"
    using put full two by (auto simp: builder_u16_inv_def)
  fix b' j
  assume "addOrReplaceU16Value b i v = Some b'"
  then have b': "b' = enc_elements (upsert i (u16_bytes v) es)" using put by simp
  show "builder_u16_lookup b' j = (if j = i then Some v else builder_u16_lookup b j)"
    unfolding b' es(1) builder_u16_lookup_def findU16_elements
      ext_elements_build [OF list_all_ok [OF full]] ext_elements_build [OF list_all_ok [OF es(2)]] find_upsert
    by (auto split: option.splits)
qed

section \<open>Properties\<close>

text \<open>
  Lookups cannot fail: for every extension, with any id and any bytes, the walk over the
  elements ends and never reads outside the data (no abort); what a lookup returns is the
  value of the first element with the wanted id.
\<close>

theorem find_never_aborts:
  "findAny e i = Some (map_option el_val (find (\<lambda>el. el_id el = i) (ext_elements e))) \<and>
   findU16 e i \<noteq> None \<and> findU32 e i \<noteq> None \<and> findU64 e i \<noteq> None \<and> trimPadding e \<noteq> None"
  by (auto simp: findAny_eq findU16_def findU32_def findU64_def trimPadding_eq read_simps
      split: option.splits)

text \<open>
  Trimming the padding of a received extension changes no lookup.
\<close>

theorem trimPadding_keeps_lookups:
  assumes "trimPadding e = Some e'"
  shows "findAny e' i = findAny e i"
proof -
  have "ext_elements e' = ext_elements e"
    using assms
    by (auto simp: trimPadding_eq ext_elements_def ext_empty_def elements_take_end split: if_splits)
      (metis elements_Nil elements_take_end take_eq_Nil)
  then show ?thesis by (simp add: findAny_eq)
qed

theorem trimPadding_keeps_lookups_witness:
  "findAny \<lparr>ext_id = kTwoByte, ext_data = [5, 1, 9]\<rparr> 5 =
     findAny \<lparr>ext_id = kTwoByte, ext_data = [5, 1, 9, 0]\<rparr> 5"
proof -
  have n: "next_el kTwoByte [5, 1, 9, 0] = Some (\<lparr>el_id = 5, el_val = [9]\<rparr>, 3)" "next_el kTwoByte [0] = None"
    by (simp_all add: next_el_def)
  have "elements_end kTwoByte [0] = 0" by (subst elements_end.simps) (simp add: n)
  then have "elements_end kTwoByte [5, 1, 9, 0] = 3" by (subst elements_end.simps) (simp add: n)
  then have "trimPadding \<lparr>ext_id = kTwoByte, ext_data = [5, 1, 9, 0]\<rparr> =
      Some \<lparr>ext_id = kTwoByte, ext_data = [5, 1, 9]\<rparr>"
    by (simp add: trimPadding_eq ext_empty_def)
  from trimPadding_keeps_lookups [OF this, of 5] show ?thesis .
qed

text \<open>
  C31. Build and look up: an extension built from any sequence of values with non-zero ids
  and at most 255 bytes parses back to exactly those elements, in order.
\<close>

theorem build_lookup_roundtrip:
  assumes "list_all element_ok es"
  shows "findAny (ext_build (enc_elements es)) i = Some (map_option el_val (find (\<lambda>el. el_id el = i) es)) \<and>
    addStringValue (enc_elements es) i v = enc_elements (es @ [\<lparr>el_id = i, el_val = take 255 v\<rparr>]) \<and>
    addU16Value (enc_elements es) i v16 = enc_elements (es @ [\<lparr>el_id = i, el_val = u16_bytes v16\<rparr>]) \<and>
    addU32Value (enc_elements es) i v32 = enc_elements (es @ [\<lparr>el_id = i, el_val = u32_bytes v32\<rparr>]) \<and>
    addU64Value (enc_elements es) i v64 = enc_elements (es @ [\<lparr>el_id = i, el_val = u64_bytes v64\<rparr>])"
  using assms by (simp add: findAny_eq ext_elements_build add_values_enc)

theorem build_lookup_roundtrip_witness:
  "findAny (ext_build (enc_elements [\<lparr>el_id = 1, el_val = [65]\<rparr>, \<lparr>el_id = 4, el_val = [1, 2]\<rparr>])) 4 =
     Some (Some [1, 2])"
  using build_lookup_roundtrip [of "[\<lparr>el_id = 1, el_val = [65]\<rparr>, \<lparr>el_id = 4, el_val = [1, 2]\<rparr>]" 4]
  by (simp add: element_ok_def)

text \<open>
  Replacing a 16-bit value: on a builder that holds 16-bit values,
  \<^verbatim>\<open>addOrReplaceU16Value\<close> returns, afterwards the id reads back as the new value and every
  other id as before.
\<close>

theorem addOrReplace_lookup:
  assumes "builder_u16_inv b" "i \<noteq> 0"
  shows "\<exists>b'. addOrReplaceU16Value b i v = Some b' \<and> builder_u16_inv b' \<and>
    (\<forall>j. builder_u16_lookup b' j = (if j = i then Some v else builder_u16_lookup b j))"
  using ext.put_total [OF assms, of v] ext.lookup_put [OF assms, of v] by auto

theorem addOrReplace_lookup_witness:
  "\<exists>b'. addOrReplaceU16Value [3, 2, 0, 1] 3 0x0705 = Some b' \<and> builder_u16_lookup b' 3 = Some 0x0705"
proof -
  have "builder_u16_inv (enc_elements [\<lparr>el_id = 3, el_val = [0, 1]\<rparr>])"
    unfolding builder_u16_inv_def
    by (rule exI [of _ "[\<lparr>el_id = 3, el_val = [0, 1]\<rparr>]"]) (simp add: element_full_def element_ok_def)
  then have "builder_u16_inv [3, 2, 0, 1]" by (simp add: enc_elements_Cons)
  from addOrReplace_lookup [OF this, of 3 "0x0705"] show ?thesis by auto
qed

text \<open>
  A binary value of more than 255 bytes corrupts the extension: \<^verbatim>\<open>addBinaryValue\<close>
  declares 255 bytes but writes all of them, and the excess bytes are parsed as further
  elements.
\<close>

theorem addBinaryValue_overflow:
  assumes "i \<noteq> 0" "length v = 255" "list_all element_ok es"
  shows "ext_elements (ext_build (addBinaryValue [] i (v @ enc_elements es))) =
    \<lparr>el_id = i, el_val = v\<rparr> # es"
proof (cases es)
  case Nil
  then have "addBinaryValue [] i (v @ enc_elements es) = enc_elements (\<lparr>el_id = i, el_val = v\<rparr> # es)"
    using assms(2) add_values_enc(5) [of v "[]" i] by simp
  then show ?thesis using assms by (simp add: ext_elements_build element_ok_def del: enc_elements_Nil)
next
  case (Cons e es')
  have "addBinaryValue [] i (v @ enc_elements es) = enc_elements (\<lparr>el_id = i, el_val = v\<rparr> # es)"
    using assms(2) by (simp add: addBinaryValue_def u8_bytes_def enc_elements_Cons)
  then show ?thesis using assms by (simp add: ext_elements_build element_ok_def)
qed

theorem addBinaryValue_overflow_witness:
  "findAny (ext_build (addBinaryValue [] 1 (replicate 255 0 @ [7, 1, 9]))) 7 = Some (Some [9])"
  using addBinaryValue_overflow [of 1 "replicate 255 0" "[\<lparr>el_id = 7, el_val = [9]\<rparr>]"]
  by (simp add: findAny_eq element_ok_def enc_elements_Cons)

end
