(* ===== verification/Extension_Map.thy ===== *)
theory Extension_Map
  imports Prelude
begin

text \<open>
  \<^verbatim>\<open>src/extension_map.cpp\<close>: the ids that an SDP answer assigns to the names of RTP header
  extensions. Both lookups keep the last hit in a cache.
\<close>

record ExtensionMap =
  mEntryList :: "(u8 \<times> string) list"
  mLastName :: string
  mLastId :: u8

definition ExtensionMap_new :: ExtensionMap where
  "ExtensionMap_new = \<lparr>mEntryList = [], mLastName = '''', mLastId = 0\<rparr>"

definition extmap_add :: "ExtensionMap \<Rightarrow> u8 \<Rightarrow> string \<Rightarrow> ExtensionMap" where
  "extmap_add m i name = m\<lparr>mEntryList := mEntryList m @ [(i, name)]\<rparr>"

definition findByName :: "ExtensionMap \<Rightarrow> string \<Rightarrow> u8 \<times> ExtensionMap" where
  "findByName m name =
     (if mLastName m = name \<and> mLastId m \<noteq> 0 then (mLastId m, m)
      else case find (\<lambda>e. snd e = name) (mEntryList m) of
        Some (i, n) \<Rightarrow> (i, m\<lparr>mLastName := name, mLastId := i\<rparr>)
      | None \<Rightarrow> (0, m))"

definition findById :: "ExtensionMap \<Rightarrow> u8 \<Rightarrow> string \<times> ExtensionMap" where
  "findById m i =
     (if mLastId m = i \<and> mLastName m \<noteq> '''' then (mLastName m, m)
      else case find (\<lambda>e. fst e = i) (mEntryList m) of
        Some (j, n) \<Rightarrow> (n, m\<lparr>mLastName := n, mLastId := j\<rparr>)
      | None \<Rightarrow> ('''', m))"

definition extmap_clear :: "ExtensionMap \<Rightarrow> ExtensionMap" where
  "extmap_clear m = m\<lparr>mLastName := '''', mLastId := 0, mEntryList := []\<rparr>"

text \<open>The uncached lookups.\<close>

definition id_of :: "(u8 \<times> string) list \<Rightarrow> string \<Rightarrow> u8" where
  "id_of es name = (case find (\<lambda>e. snd e = name) es of Some (i, n) \<Rightarrow> i | None \<Rightarrow> 0)"

definition name_of :: "(u8 \<times> string) list \<Rightarrow> u8 \<Rightarrow> string" where
  "name_of es i = (case find (\<lambda>e. fst e = i) es of Some (j, n) \<Rightarrow> n | None \<Rightarrow> '''')"

text \<open>The cache holds nothing, or an entry of the list that both searches would find first.\<close>

definition extmap_inv :: "ExtensionMap \<Rightarrow> bool" where
  "extmap_inv m \<longleftrightarrow>
     (mLastId m = 0 \<and> mLastName m = '''') \<or> 
     ((mLastId m, mLastName m) \<in> set (mEntryList m))"

definition extmap_ok :: "(u8 \<times> string) list \<Rightarrow> bool" where
  "extmap_ok es \<longleftrightarrow> distinct (map fst es) \<and> distinct (map snd es)"

lemma find_unique:
  assumes "distinct (map f xs)" "x \<in> set xs"
  shows "find (\<lambda>y. f y = f x) xs = Some x"
  using assms
proof (induction xs)
  case (Cons y ys)
  then show ?case by (cases "f y = f x") (auto simp: image_iff)
qed simp

lemma find_name: "extmap_ok es \<Longrightarrow> (i, n) \<in> set es \<Longrightarrow> find (\<lambda>e. snd e = n) es = Some (i, n)"
  using find_unique [of snd es "(i, n)"] by (simp add: extmap_ok_def case_prod_beta)

lemma find_id: "extmap_ok es \<Longrightarrow> (i, n) \<in> set es \<Longrightarrow> find (\<lambda>e. fst e = i) es = Some (i, n)"
  using find_unique [of fst es "(i, n)"] by (simp add: extmap_ok_def case_prod_beta)

lemma find_set: "find P xs = Some x \<Longrightarrow> x \<in> set xs \<and> P x"
  by (auto simp: find_Some_iff)

lemma extmap_find:
  assumes "extmap_inv m" "extmap_ok (mEntryList m)"
  shows "fst (findByName m name) = id_of (mEntryList m) name" "extmap_inv (snd (findByName m name))"
    "mEntryList (snd (findByName m name)) = mEntryList m"
    "fst (findById m i) = name_of (mEntryList m) i" "extmap_inv (snd (findById m i))"
    "mEntryList (snd (findById m i)) = mEntryList m"
proof -
  have *: "mLastId m \<noteq> 0 \<or> mLastName m \<noteq> '''' \<Longrightarrow> (mLastId m, mLastName m) \<in> set (mEntryList m)"
    using assms(1) by (auto simp: extmap_inv_def)
  show "fst (findByName m name) = id_of (mEntryList m) name"
    using * find_name [OF assms(2)] by (fastforce simp: findByName_def id_of_def split: option.splits)
  show "fst (findById m i) = name_of (mEntryList m) i"
    using * find_id [OF assms(2)] by (fastforce simp: findById_def name_of_def split: option.splits)
  show "extmap_inv (snd (findByName m name))" "extmap_inv (snd (findById m i))"
    using assms(1) by (fastforce simp: extmap_inv_def findByName_def findById_def dest: find_set split: option.splits)+
  show "mEntryList (snd (findByName m name)) = mEntryList m" "mEntryList (snd (findById m i)) = mEntryList m"
    by (auto simp: findByName_def findById_def split: option.splits)
qed

text \<open>A lookup by name or by id, as a transition of the map.\<close>

fun extmap_query :: "string + u8 \<Rightarrow> ExtensionMap \<Rightarrow> ExtensionMap" where
  "extmap_query (Inl name) m = snd (findByName m name)"
| "extmap_query (Inr i) m = snd (findById m i)"

definition extmap_of :: "(u8 \<times> string) list \<Rightarrow> ExtensionMap" where
  "extmap_of es = fold (\<lambda>(i, n) m. extmap_add m i n) es ExtensionMap_new"

lemma extmap_of_eq: "extmap_of es = ExtensionMap_new\<lparr>mEntryList := es\<rparr>"
proof -
  have "fold (\<lambda>(i, n) m. extmap_add m i n) es m = m\<lparr>mEntryList := mEntryList m @ es\<rparr>" for m
    by (induction es arbitrary: m) (auto simp: extmap_add_def)
  then show ?thesis by (simp add: extmap_of_def ExtensionMap_new_def)
qed

lemma extmap_queries:
  "extmap_inv m \<Longrightarrow> extmap_ok (mEntryList m) \<Longrightarrow>
     extmap_inv (fold extmap_query qs m) \<and> mEntryList (fold extmap_query qs m) = mEntryList m"
proof (induction qs arbitrary: m)
  case (Cons q qs)
  have "extmap_inv (extmap_query q m) \<and> mEntryList (extmap_query q m) = mEntryList m"
    using extmap_find [OF Cons.prems] by (cases q) simp_all
  then show ?case using Cons by simp
qed simp

text \<open>
  The cache is invisible: in a map built from entries with distinct ids and distinct
  names, after any sequence of lookups both lookups return what a search of the list of
  entries returns.
\<close>
theorem extension_map_cache_transparent:
  assumes "extmap_ok es"
  shows "fst (findByName (fold extmap_query qs (extmap_of es)) name) = id_of es name \<and>
    fst (findById (fold extmap_query qs (extmap_of es)) i) = name_of es i"
proof -
  have "extmap_inv (extmap_of es)" "mEntryList (extmap_of es) = es"
    by (simp_all add: extmap_of_eq extmap_inv_def ExtensionMap_new_def)
  then show ?thesis
    using extmap_find(1,4) [of "fold extmap_query qs (extmap_of es)"] extmap_queries [of "extmap_of es" qs] assms
    by auto
qed

lemma extension_map_cache_transparent_witness:
  "fst (findById (fold extmap_query [Inl ''b'', Inr 9] (extmap_of [(3, ''a''), (4, ''b'')])) 3) = ''a''"
  using extension_map_cache_transparent [of "[(3, ''a''), (4, ''b'')]" "[Inl ''b'', Inr 9]" _ 3]
  by (simp add: extmap_ok_def name_of_def)

end
