(* ===== verification/Rtp_Track.thy ===== *)
theory Rtp_Track
  imports Extension_Map
begin

text \<open>
  \<^verbatim>\<open>src/rtp_packet_source.cpp\<close>, \<^verbatim>\<open>src/rtp_time_source.cpp\<close> and \<^verbatim>\<open>src/track.cpp\<close>: the sequence
  number and timestamp sources of an RTP stream, and the track that owns them. The values
  drawn from \<^verbatim>\<open>RandomGenerator\<close> and the clock readings are arguments.
\<close>

section \<open>RtpPacketSource\<close>

record RtpPacketSource =
  src_ssrc :: u32
  src_payloadId :: u8
  mGeneratedCount :: u32
  mRollover :: u32
  mNextSequence :: u16

definition RtpPacketSource_new :: "u32 \<Rightarrow> u8 \<Rightarrow> u16 \<Rightarrow> RtpPacketSource" where
  "RtpPacketSource_new ssrc payloadId rnd =
     \<lparr>src_ssrc = ssrc, src_payloadId = payloadId, mGeneratedCount = 0, mRollover = 0,
      mNextSequence = rnd\<rparr>"

definition getNextSequence :: "RtpPacketSource \<Rightarrow> (u32 \<times> u16) \<times> RtpPacketSource" where
  "getNextSequence s =
     (let s = s\<lparr>mGeneratedCount := mGeneratedCount s + 1, mNextSequence := mNextSequence s + 1\<rparr>;
          s = (if mGeneratedCount s > 1 \<and> mNextSequence s = 0
               then s\<lparr>mRollover := mRollover s + 1\<rparr> else s)
      in ((mRollover s, mNextSequence s), s))"

definition source_clear :: "RtpPacketSource \<Rightarrow> u16 \<Rightarrow> RtpPacketSource" where
  "source_clear s rnd = s\<lparr>mGeneratedCount := 0, mRollover := 0, mNextSequence := rnd\<rparr>"

section \<open>RtpTimeSource\<close>

record RtpTimeSource =
  ts_clockRate :: u32
  mCurrPts :: "int option"
  mCurrTime :: int
  mCurrRtp :: u32

definition RtpTimeSource_new :: "u32 \<Rightarrow> int \<Rightarrow> u32 \<Rightarrow> RtpTimeSource" where
  "RtpTimeSource_new clockRate now rnd =
     \<lparr>ts_clockRate = clockRate, mCurrPts = None, mCurrTime = now, mCurrRtp = rnd\<rparr>"

text \<open>\<^verbatim>\<open>elapsed_usec * mClockRate / 1000000\<close>, a product of signed 64-bit numbers.\<close>

definition elapsed_ticks :: "int \<Rightarrow> u32 \<Rightarrow> int" where
  "elapsed_ticks elapsed_usec clockRate = trunc_div (wrap64 (elapsed_usec * uint clockRate)) 1000000"

definition getFrameTimestamp :: "int \<Rightarrow> int \<Rightarrow> RtpTimeSource \<Rightarrow> u32 \<times> RtpTimeSource" where
  "getFrameTimestamp now pts s =
     (let s = (if mCurrPts s = None then s\<lparr>mCurrPts := Some pts\<rparr> else s);
          elapsed_usec = wrap64 (pts - (case mCurrPts s of Some p \<Rightarrow> p | None \<Rightarrow> pts))
      in if elapsed_usec < 0 then (mCurrRtp s, s)
         else let s = s\<lparr>mCurrRtp := mCurrRtp s + of_int (elapsed_ticks elapsed_usec (ts_clockRate s)),
                        mCurrPts := Some pts, mCurrTime := now\<rparr>
              in (mCurrRtp s, s))"

definition getCurrentTimestamp :: "int \<Rightarrow> RtpTimeSource \<Rightarrow> u32" where
  "getCurrentTimestamp now s =
     (let elapsed_usec = trunc_div (now - mCurrTime s) 1000
      in of_int (uint (mCurrRtp s) + elapsed_ticks elapsed_usec (ts_clockRate s)))"

section \<open>Track\<close>

datatype MediaType = Video | Audio
datatype Direction = Publish | Subscribe
datatype Codec = VP8 | VP9 | H264 | H265 | AV1 | Opus | Rtx

record Media =
  media_id :: bytes
  media_type :: MediaType
  media_extensionMap :: ExtensionMap

record SimulcastLayer =
  sl_name :: bytes
  sl_width :: u16
  sl_height :: u16
  sl_frames_per_second :: u16
  sl_kilobits_per_second :: u32

text \<open>A track's layer also has its index in the list of layers.\<close>

record Track =
  track_media :: Media
  track_direction :: Direction
  track_ssrc :: u32
  track_payloadId :: u8
  track_rtxSsrc :: u32
  track_rtxPayloadId :: u8
  track_codec :: Codec
  track_simulcastLayer :: "(SimulcastLayer \<times> u8) option"
  track_clockRate :: u32
  track_hasNack :: bool
  track_hasPli :: bool
  track_rtpTimeSource :: RtpTimeSource
  track_rtpPacketSource :: RtpPacketSource
  track_rtxPacketSource :: RtpPacketSource

text \<open>
  \<^verbatim>\<open>Track::Track\<close>: \<open>rnd1\<close>, \<open>rnd2\<close> and \<open>rnd3\<close> are the random start values of the time source
  and of the two packet sources.
\<close>

definition Track_new ::
  "Media \<Rightarrow> Direction \<Rightarrow> u32 \<Rightarrow> u8 \<Rightarrow> u32 \<Rightarrow> u8 \<Rightarrow> Codec \<Rightarrow> (SimulcastLayer \<times> u8) option \<Rightarrow> u32 \<Rightarrow> bool \<Rightarrow> bool \<Rightarrow>
   int \<Rightarrow> u32 \<Rightarrow> u16 \<Rightarrow> u16 \<Rightarrow> Track" where
  "Track_new media dir ssrc payloadId rtxSsrc rtxPayloadId codec simulcastLayer clockRate hasNack hasPli
     now rnd1 rnd2 rnd3 =
     \<lparr>track_media = media, track_direction = dir, track_ssrc = ssrc,
      track_payloadId = payloadId, track_rtxSsrc = rtxSsrc, track_rtxPayloadId = rtxPayloadId,
      track_codec = codec, track_simulcastLayer = simulcastLayer, track_clockRate = clockRate, track_hasNack = hasNack,
      track_hasPli = hasPli,
      track_rtpTimeSource = RtpTimeSource_new clockRate now rnd1,
      track_rtpPacketSource = RtpPacketSource_new ssrc payloadId rnd2,
      track_rtxPacketSource = RtpPacketSource_new rtxSsrc rtxPayloadId rnd3\<rparr>"

definition isSimulcast :: "Track \<Rightarrow> bool" where
  "isSimulcast track \<longleftrightarrow> track_simulcastLayer track \<noteq> None"

section \<open>Sequence numbers\<close>

text \<open>The unbounded packet index that a rollover count and a sequence number stand for.\<close>

definition packet_index :: "u32 \<times> u16 \<Rightarrow> nat" where
  "packet_index rs = unat (fst rs) * 65536 + unat (snd rs)"

fun next_sequences :: "nat \<Rightarrow> RtpPacketSource \<Rightarrow> (u32 \<times> u16) list" where
  "next_sequences 0 s = []"
| "next_sequences (Suc n) s = fst (getNextSequence s) # next_sequences n (snd (getNextSequence s))"

lemma wrap_16: "Suc (unat (x :: u16)) mod 65536 = 0 \<longleftrightarrow> unat x = 65535"
proof (cases "unat x = 65535")
  case False
  moreover have "unat x < 65536" by (rule unat_u16_less)
  ultimately have "Suc (unat x) < 65536" by linarith
  then show ?thesis using False by simp
qed simp

lemma getNextSequence_step:
  assumes "1 \<le> unat (mGeneratedCount s)" "unat (mGeneratedCount s) + 1 < 2 ^ 32"
    and "packet_index (mRollover s, mNextSequence s) + 1 < 2 ^ 48"
  shows "packet_index (fst (getNextSequence s)) = packet_index (mRollover s, mNextSequence s) + 1"
    "mRollover (snd (getNextSequence s)) = fst (fst (getNextSequence s))"
    "mNextSequence (snd (getNextSequence s)) = snd (fst (getNextSequence s))"
    "unat (mGeneratedCount (snd (getNextSequence s))) = unat (mGeneratedCount s) + 1"
proof -
  have cnt: "unat (mGeneratedCount s + 1) = unat (mGeneratedCount s) + 1"
    using assms(2) by (simp add: unat_word_ariths)
  then have gt: "mGeneratedCount s + 1 > 1" using assms(1) by (simp add: word_less_nat_alt)
  have seq: "mNextSequence s + 1 = 0 \<longleftrightarrow> unat (mNextSequence s) = 65535"
    by (simp only: word_unat_eq_iff unat_word_ariths) (simp add: wrap_16 del: mod_0_imp_dvd dvd_imp_mod_0 mod_eq_0_iff_dvd)
  have seq': "unat (mNextSequence s) \<noteq> 65535 \<Longrightarrow> unat (mNextSequence s + 1) = unat (mNextSequence s) + 1"
  proof -
    assume ne: "unat (mNextSequence s) \<noteq> 65535"
    have "unat (mNextSequence s) < 65536" by (rule unat_u16_less)
    with ne have "unat (mNextSequence s) + 1 < 65536" by linarith
    then show ?thesis by (simp add: unat_word_ariths)
  qed
  have roll: "unat (mNextSequence s) = 65535 \<Longrightarrow> unat (mRollover s + 1) = unat (mRollover s) + 1"
    using assms(3) by (auto simp: packet_index_def unat_word_ariths)
  show "packet_index (fst (getNextSequence s)) = packet_index (mRollover s, mNextSequence s) + 1"
    using gt seq seq' roll by (auto simp: getNextSequence_def Let_def packet_index_def)
  show "mRollover (snd (getNextSequence s)) = fst (fst (getNextSequence s))"
    "mNextSequence (snd (getNextSequence s)) = snd (fst (getNextSequence s))"
    "unat (mGeneratedCount (snd (getNextSequence s))) = unat (mGeneratedCount s) + 1"
    using cnt by (auto simp: getNextSequence_def Let_def)
qed

lemma next_sequences_run:
  "1 \<le> unat (mGeneratedCount s) \<Longrightarrow> unat (mGeneratedCount s) + n < 2 ^ 32 \<Longrightarrow>
   packet_index (mRollover s, mNextSequence s) + n < 2 ^ 48 \<Longrightarrow>
   map packet_index (next_sequences n s) =
     map (\<lambda>k. packet_index (mRollover s, mNextSequence s) + k) [1..<Suc n]"
proof (induction n arbitrary: s)
  case 0
  then show ?case by simp
next
  case (Suc n)
  let ?s = "snd (getNextSequence s)" and ?i = "packet_index (mRollover s, mNextSequence s)"
  note st = getNextSequence_step [of s]
  have i: "packet_index (mRollover ?s, mNextSequence ?s) = ?i + 1" using Suc.prems st by simp
  have "map packet_index (next_sequences n ?s) = map (\<lambda>k. ?i + 1 + k) [1..<Suc n]"
    using Suc.IH [of ?s] Suc.prems st(4) i by simp
  also have "\<dots> = map ((\<lambda>k. ?i + k) \<circ> Suc) [1..<Suc n]" by simp
  also have "\<dots> = map (\<lambda>k. ?i + k) [2..<Suc (Suc n)]"
    by (simp only: map_map [symmetric] map_Suc_upt numeral_2_eq_2 One_nat_def)
  finally have "map packet_index (next_sequences n ?s) = map (\<lambda>k. ?i + k) [2..<Suc (Suc n)]" .
  moreover have "[1..<Suc (Suc n)] = 1 # [2..<Suc (Suc n)]" by (simp add: upt_conv_Cons numeral_2_eq_2)
  ultimately show ?case using st(1) Suc.prems by simp
qed

lemma first_sequence:
  "fst (getNextSequence (RtpPacketSource_new ssrc pt rnd)) = (0, rnd + 1)"
  "mRollover (snd (getNextSequence (RtpPacketSource_new ssrc pt rnd))) = 0"
  "mNextSequence (snd (getNextSequence (RtpPacketSource_new ssrc pt rnd))) = rnd + 1"
  "mGeneratedCount (snd (getNextSequence (RtpPacketSource_new ssrc pt rnd))) = 1"
  by (simp_all add: getNextSequence_def RtpPacketSource_new_def Let_def)

text \<open>
  Packet indices are consecutive: a fresh source (start value at most 30000, as its
  generator is configured) hands out, over up to \<open>2 ^ 32 - 1\<close> packets, rollover counts and
  sequence numbers that together count up by exactly one from the start value, through every
  wrap of the 16-bit number.
\<close>

theorem sequences_consecutive:
  assumes "unat rnd \<le> 30000" "n < 2 ^ 32"
  shows "map packet_index (next_sequences n (RtpPacketSource_new ssrc pt rnd)) =
    map (\<lambda>k. unat rnd + k) [1..<Suc n]"
proof (cases n)
  case 0
  then show ?thesis by simp
next
  case (Suc m)
  let ?s0 = "RtpPacketSource_new ssrc pt rnd"
  let ?s = "snd (getNextSequence ?s0)"
  have r: "unat (rnd + 1) = unat rnd + 1" using assms(1) by (simp add: unat_word_ariths)
  note first = first_sequence [of ssrc pt rnd]
  have "map packet_index (next_sequences m ?s) = map (\<lambda>k. unat rnd + 1 + k) [1..<Suc m]"
    using next_sequences_run [of ?s m] first assms Suc r by (simp add: packet_index_def)
  also have "\<dots> = map ((\<lambda>k. unat rnd + k) \<circ> Suc) [1..<Suc m]" by simp
  also have "\<dots> = map (\<lambda>k. unat rnd + k) [2..<Suc (Suc m)]"
    by (simp only: map_map [symmetric] map_Suc_upt numeral_2_eq_2 One_nat_def)
  moreover have "[1..<Suc n] = 1 # [2..<Suc n]" using Suc by (simp add: upt_conv_Cons numeral_2_eq_2)
  ultimately show ?thesis using Suc first r by (simp add: packet_index_def)
qed

theorem sequences_consecutive_witness:
  "map packet_index (next_sequences 3 (RtpPacketSource_new 7 96 10)) = [11, 12, 13]"
  using sequences_consecutive [of 10 3 7 96] by (simp add: upt_conv_Cons)

section \<open>Timestamps\<close>

fun frame_timestamps :: "RtpTimeSource \<Rightarrow> (int \<times> int) list \<Rightarrow> u32 list" where
  "frame_timestamps s [] = []"
| "frame_timestamps s ((now, pts) # fs) =
     fst (getFrameTimestamp now pts s) # frame_timestamps (snd (getFrameTimestamp now pts s)) fs"

text \<open>The ticks between two presentation times, each step rounded down as the code does.\<close>

fun rounded_ticks :: "u32 \<Rightarrow> int \<Rightarrow> int list \<Rightarrow> int" where
  "rounded_ticks rate p [] = 0"
| "rounded_ticks rate p (q # qs) = (q - p) * uint rate div 1000000 + rounded_ticks rate q qs"

text \<open>The elapsed time and its product with the clock rate are numbers of 63 bits.\<close>

definition elapsed_fits :: "int \<Rightarrow> u32 \<Rightarrow> bool" where
  "elapsed_fits d rate \<longleftrightarrow> d < 2 ^ 63 \<and> d * uint rate < 2 ^ 63"

lemma elapsed_fits_le: "elapsed_fits d rate \<Longrightarrow> e \<le> d \<Longrightarrow> elapsed_fits e rate"
  using mult_right_mono [of e d "uint rate"] by (auto simp: elapsed_fits_def)

lemma elapsed_exact:
  assumes "0 \<le> d" "elapsed_fits d rate"
  shows "wrap64 d = d" "elapsed_ticks d rate = d * uint rate div 1000000"
proof -
  have "0 \<le> d * uint rate" using assms(1) by simp
  then have "wrap64 (d * uint rate) = d * uint rate"
    using assms(2) by (intro wrap64_id) (auto simp: elapsed_fits_def)
  then show "elapsed_ticks d rate = d * uint rate div 1000000"
    using \<open>0 \<le> d * uint rate\<close> by (simp add: elapsed_ticks_def trunc_div_def)
  show "wrap64 d = d" using assms by (intro wrap64_id) (auto simp: elapsed_fits_def)
qed

lemma getFrameTimestamp_forward:
  assumes "mCurrPts s = Some p" "p \<le> pts" "elapsed_fits (pts - p) (ts_clockRate s)"
  shows "getFrameTimestamp now pts s =
    (mCurrRtp s + of_int ((pts - p) * uint (ts_clockRate s) div 1000000),
     s\<lparr>mCurrRtp := mCurrRtp s + of_int ((pts - p) * uint (ts_clockRate s) div 1000000),
       mCurrPts := Some pts, mCurrTime := now\<rparr>)"
  using assms elapsed_exact [of "pts - p" "ts_clockRate s"] by (simp add: getFrameTimestamp_def Let_def)

lemma frame_timestamps_last:
  "mCurrPts s = Some p \<Longrightarrow> sorted (p # map snd fs) \<Longrightarrow> fs \<noteq> [] \<Longrightarrow> elapsed_fits (snd (last fs) - p) (ts_clockRate s) \<Longrightarrow>
   last (frame_timestamps s fs) =
     mCurrRtp s + of_int (rounded_ticks (ts_clockRate s) p (map snd fs))"
proof (induction fs arbitrary: s p)
  case Nil
  then show ?case by simp
next
  case (Cons f fs)
  obtain now pts where f: "f = (now, pts)" by force
  have le: "p \<le> pts" "sorted (pts # map snd fs)" using Cons.prems(2) f by auto
  have "pts \<le> snd (last (f # fs))" using le(2) f by (cases fs rule: rev_cases) auto
  then have fits: "elapsed_fits (pts - p) (ts_clockRate s)" "fs \<noteq> [] \<Longrightarrow> elapsed_fits (snd (last fs) - pts) (ts_clockRate s)"
    using elapsed_fits_le [OF Cons.prems(4)] le(1) by auto
  note g = getFrameTimestamp_forward [OF Cons.prems(1) le(1) fits(1), of now]
  show ?case
  proof (cases "fs = []")
    case True
    then show ?thesis using f g by simp
  next
    case False
    then have "frame_timestamps s' fs \<noteq> []" for s' by (cases fs) auto
    then show ?thesis
      using Cons.IH [of "snd (getFrameTimestamp now pts s)" pts] f g le(2) fits(2) False by simp
  qed
qed

lemma rounded_ticks_bounds:
  "sorted (p # qs) \<Longrightarrow> qs \<noteq> [] \<Longrightarrow>
     rounded_ticks rate p qs \<le> (last qs - p) * uint rate div 1000000 \<and>
     (last qs - p) * uint rate div 1000000 < rounded_ticks rate p qs + int (length qs)"
proof (induction qs arbitrary: p)
  case Nil
  then show ?case by simp
next
  case (Cons q qs)
  show ?case
  proof (cases "qs = []")
    case True
    then show ?thesis by simp
  next
    case False
    let ?a = "(q - p) * uint rate" and ?b = "(last qs - q) * uint rate"
    have IH: "rounded_ticks rate q qs \<le> ?b div 1000000" "?b div 1000000 < rounded_ticks rate q qs + int (length qs)"
      using Cons.IH [of q] Cons.prems False by auto
    have "(last qs - p) * uint rate = ?a + ?b" by (simp add: algebra_simps)
    moreover have "?a div 1000000 + ?b div 1000000 \<le> (?a + ?b) div 1000000"
      "(?a + ?b) div 1000000 \<le> ?a div 1000000 + ?b div 1000000 + 1" by linarith+
    ultimately show ?thesis using IH False by simp
  qed
qed

text \<open>
  C33. Timestamp drift: each frame's timestamp is the previous one plus the elapsed time in
  ticks rounded down, so over a run of frames with non-decreasing presentation times the
  timestamp never runs ahead of the exact elapsed ticks and lags them by less than one tick
  per frame. The time from the first to the last frame and its product with the clock rate
  stay below \<open>2 ^ 63\<close>, where the arithmetic of the code does not overflow.
\<close>

theorem timestamp_drift_bounded:
  assumes "mCurrPts s = Some p" "sorted (p # map snd fs)" "fs \<noteq> []"
    "snd (last fs) - p < 2 ^ 63" "(snd (last fs) - p) * uint (ts_clockRate s) < 2 ^ 63"
  shows "\<exists>lag. last (frame_timestamps s fs) =
      mCurrRtp s + of_int ((snd (last fs) - p) * uint (ts_clockRate s) div 1000000 - lag) \<and>
    0 \<le> lag \<and> lag < int (length fs)"
proof -
  let ?r = "rounded_ticks (ts_clockRate s) p (map snd fs)"
    and ?e = "(snd (last fs) - p) * uint (ts_clockRate s) div 1000000"
  have "?r \<le> ?e" "?e < ?r + int (length fs)"
    using rounded_ticks_bounds [OF assms(2), of "ts_clockRate s"] assms(3) by (auto simp: last_map)
  moreover have "elapsed_fits (snd (last fs) - p) (ts_clockRate s)" using assms(4,5) by (simp add: elapsed_fits_def)
  ultimately show ?thesis
    using frame_timestamps_last [OF assms(1-3)] by (intro exI [of _ "?e - ?r"]) auto
qed

theorem timestamp_drift_bounded_witness:
  "\<exists>lag. last (frame_timestamps \<lparr>ts_clockRate = 90000, mCurrPts = Some 0, mCurrTime = 0, mCurrRtp = 5\<rparr>
        [(1, 33366), (2, 66733)]) = 5 + of_int (6005 - lag) \<and> 0 \<le> lag \<and> lag < 2"
  using timestamp_drift_bounded
    [of "\<lparr>ts_clockRate = 90000, mCurrPts = Some 0, mCurrTime = 0, mCurrRtp = 5\<rparr>" 0 "[(1, 33366), (2, 66733)]"]
  by simp

end
