(* ===== verification/Rtp_Packet.thy ===== *)
theory Rtp_Packet
  imports Rtp_Extension Rtp_Track
begin

text \<open>
  \<^verbatim>\<open>src/rtp_packet.cpp\<close>: RTP packets, their serialisation (plain and as an RTX
  retransmission) and the parser of received packets. The track that a packet points to is
  an argument of the operations that use it.
\<close>

unbundle bit_operations_syntax

record RtpPacket =
  pkt_ssrc :: u32
  pkt_payloadId :: u8
  pkt_marker :: bool
  pkt_rollover :: u32
  pkt_sequence :: u16
  pkt_timestamp :: u32
  pkt_paddingSize :: u8
  pkt_payload :: bytes
  pkt_extension :: RtpExtension
  pkt_lastInFrame :: "bool option"

definition kMaxPayloadSize :: nat where [const_defs]: "kMaxPayloadSize = 1200"
definition kHeaderSize :: nat where [const_defs]: "kHeaderSize = 12"

definition RtpPacket_new ::
  "Track \<Rightarrow> bool \<Rightarrow> u32 \<Rightarrow> u16 \<Rightarrow> u32 \<Rightarrow> u8 \<Rightarrow> RtpExtension \<Rightarrow> bytes \<Rightarrow> RtpPacket" where
  "RtpPacket_new track marker rollover seq timestamp padding extension payload =
     \<lparr>pkt_ssrc = track_ssrc track, pkt_payloadId = track_payloadId track, pkt_marker = marker,
      pkt_rollover = rollover, pkt_sequence = seq, pkt_timestamp = timestamp,
      pkt_paddingSize = padding, pkt_payload = payload, pkt_extension = extension,
      pkt_lastInFrame = None\<rparr>"

definition RtpPacket_full ::
  "u32 \<Rightarrow> u8 \<Rightarrow> bool \<Rightarrow> u32 \<Rightarrow> u16 \<Rightarrow> u32 \<Rightarrow> u8 \<Rightarrow> RtpExtension \<Rightarrow> bytes \<Rightarrow> RtpPacket" where
  "RtpPacket_full ssrc payloadId marker rollover seq timestamp padding extension payload =
     \<lparr>pkt_ssrc = ssrc, pkt_payloadId = payloadId, pkt_marker = marker,
      pkt_rollover = rollover, pkt_sequence = seq, pkt_timestamp = timestamp,
      pkt_paddingSize = padding, pkt_payload = payload, pkt_extension = extension,
      pkt_lastInFrame = None\<rparr>"

lemma pad4_step:
  assumes "n mod 4 \<noteq> (0::nat)"
  shows "(4 - n mod 4) mod 4 = Suc ((4 - Suc n mod 4) mod 4)"
proof -
  have "n mod 4 < 4" by simp
  then consider "n mod 4 = 1" | "n mod 4 = 2" | "n mod 4 = 3" using assms by linarith
  then show ?thesis by cases (simp_all add: mod_Suc)
qed

text \<open>The padding loop of \<^verbatim>\<open>writeExtension\<close>: zero bytes up to a multiple of four.\<close>

function pad4_loop :: "ByteBuffer \<Rightarrow> nat \<Rightarrow> ByteBuffer" where
  "pad4_loop w padding = (if padding mod 4 \<noteq> 0 then pad4_loop (writeU8 w 0) (padding + 1) else w)"
  by pat_completeness auto
termination
proof (relation "measure (\<lambda>(_, p). (4 - p mod 4) mod 4)")
  fix w :: ByteBuffer and p :: nat
  assume "p mod 4 \<noteq> 0"
  then show "((writeU8 w 0, p + 1), (w, p)) \<in> measure (\<lambda>(_, p). (4 - p mod 4) mod 4)"
    using pad4_step [of p] by (simp del: mod_less mod_self)
qed simp

declare pad4_loop.simps [simp del]

definition writeExtension :: "ByteBuffer \<Rightarrow> RtpExtension \<Rightarrow> ByteBuffer" where
  "writeExtension writer extension =
     (if ext_empty extension then writer
      else let writer = writeU16 writer (ext_id extension);
               extensionSize = length (ext_data extension);
               writer = writeU16 writer (of_nat ((extensionSize + 3) div 4));
               writer = ByteWriter_write writer (ext_data extension)
           in pad4_loop writer extensionSize)"

definition writePayload :: "ByteBuffer \<Rightarrow> bytes \<Rightarrow> ByteBuffer" where
  "writePayload writer payload = ByteWriter_write writer payload"

definition writePadding :: "ByteBuffer \<Rightarrow> u8 \<Rightarrow> ByteBuffer" where
  "writePadding writer padding =
     (if padding = 0 then writer
      else writeU8 (ByteWriter_padding writer 0 (unat padding - 1)) padding)"

definition rtp_header :: "bool \<Rightarrow> bool \<Rightarrow> bool \<Rightarrow> u8 \<Rightarrow> u16" where
  "rtp_header pad ext marker payloadId =
     push_bit 14 2 OR (if pad then push_bit 13 1 else 0) OR (if ext then push_bit 12 1 else 0) OR
     (if marker then push_bit 7 1 else 0) OR (ucast payloadId AND 0x7F)"

definition RtpPacket_generate :: "RtpPacket \<Rightarrow> ByteBuffer \<times> u32" where
  "RtpPacket_generate p =
     (let writer = ByteBuffer_new;
          pad = (pkt_paddingSize p \<noteq> 0);
          ext = (\<not> ext_empty (pkt_extension p));
          writer = writeU16 writer (rtp_header pad ext (pkt_marker p) (pkt_payloadId p));
          writer = writeU16 writer (pkt_sequence p);
          writer = writeU32 writer (pkt_timestamp p);
          writer = writeU32 writer (pkt_ssrc p);
          writer = writeExtension writer (pkt_extension p);
          writer = writePayload writer (pkt_payload p);
          writer = writePadding writer (pkt_paddingSize p)
      in (writer, pkt_rollover p))"

text \<open>\<^verbatim>\<open>generateRtx\<close> also advances the track's RTX packet source.\<close>

definition RtpPacket_generateRtx ::
  "Track \<Rightarrow> RtpPacket \<Rightarrow> RtpExtension \<Rightarrow> (ByteBuffer \<times> u32) \<times> Track" where
  "RtpPacket_generateRtx track p extension =
     (let writer = ByteBuffer_new;
          pad = (pkt_paddingSize p \<noteq> 0);
          ext = (\<not> ext_empty extension);
          writer = writeU16 writer (rtp_header pad ext (pkt_marker p) (track_rtxPayloadId track));
          ((rtxRollover, rtxSequence), source) = getNextSequence (track_rtxPacketSource track);
          writer = writeU16 writer rtxSequence;
          writer = writeU32 writer (pkt_timestamp p);
          writer = writeU32 writer (track_rtxSsrc track);
          writer = writeExtension writer extension;
          writer = writeU16 writer (pkt_sequence p);
          writer = writePayload writer (pkt_payload p);
          writer = writePadding writer (pkt_paddingSize p)
      in ((writer, rtxRollover), track\<lparr>track_rtxPacketSource := source\<rparr>))"

text \<open>
  \<^verbatim>\<open>payload.resize\<close> to a size that is not more than the bytes that were read; \<^const>\<open>None\<close>: the size reaches
  behind the allocation.
\<close>

definition payload_resize :: "bytes \<Rightarrow> nat \<Rightarrow> bytes option" where
  "payload_resize payload n = (if n \<le> length payload then Some (take n payload) else None)"

text \<open>
  The removal of the padding: the outer \<^const>\<open>None\<close> is a read outside of the payload or a size that wraps around,
  the inner one the null pointer that is returned.
\<close>

definition remove_padding :: "bool \<Rightarrow> nat \<Rightarrow> bytes \<Rightarrow> (bytes option) option" where
  "remove_padding padding payloadSize payload =
     (if padding then
        (if payload = [] then Some None
         else do {
           paddingCount \<leftarrow> read_at payload (size_sub payloadSize 1);
           if unat paddingCount > payloadSize then Some None
           else do {
             payload \<leftarrow> payload_resize payload (size_sub payloadSize (unat paddingCount));
             Some (Some payload)
           }
         })
      else Some (Some payload))"

text \<open>
  \<^verbatim>\<open>fromUdpPacket\<close>: the outer option is the reader's abort, a read of \<^verbatim>\<open>payload.data()\<close> outside of the payload or
  a size of the payload that wraps around; the inner one is the null pointer that is returned for a malformed packet.
\<close>

definition fromUdpPacket :: "bytes \<Rightarrow> RtpPacket option option" where
  "fromUdpPacket data =
     (let reader = ByteReader_new data in
      if remaining reader < 4 + 4 + 4 then Some None
      else do {
        (header, reader) \<leftarrow> readU16 reader;
        let padding = test_mask header 13;
        let marker = test_mask header 7;
        let payloadId = header AND 0x7F;
        (seq, reader) \<leftarrow> readU16 reader;
        (timestamp, reader) \<leftarrow> readU32 reader;
        (ssrc, reader) \<leftarrow> readU32 reader;
        extResult \<leftarrow>
          (if test_mask header 12 then
             (if remaining reader < 4 then Some None
              else do {
                (extId, reader) \<leftarrow> readU16 reader;
                (extWords, reader) \<leftarrow> readU16 reader;
                let extSize = unat extWords * 4;
                if remaining reader < extSize then Some None
                else do {
                  (extData, reader) \<leftarrow> readByteBuffer extSize reader;
                  if isValidExtensionId extId then do {
                    extension \<leftarrow> trimPadding \<lparr>ext_id = extId, ext_data = extData\<rparr>;
                    Some (Some (extension, reader))
                  } else Some (Some (RtpExtension_none, reader))
                }
              })
           else Some (Some (RtpExtension_none, reader)));
        case extResult of
          None \<Rightarrow> Some None
        | Some (extension, reader) \<Rightarrow> do {
            let payloadSize = remaining reader;
            (payload, reader) \<leftarrow> readByteBuffer payloadSize reader;
            payload \<leftarrow> remove_padding padding payloadSize payload;
            Some (map_option (RtpPacket_full ssrc (ucast payloadId) marker 0 seq timestamp 0 extension) payload)
          }
      })"

section \<open>Serialised form\<close>

definition ext_bytes :: "RtpExtension \<Rightarrow> bytes" where
  "ext_bytes e = (if ext_empty e then []
     else u16_bytes (ext_id e) @ u16_bytes (of_nat ((length (ext_data e) + 3) div 4)) @ ext_data e @
          replicate ((4 - length (ext_data e) mod 4) mod 4) 0)"

definition padding_bytes :: "u8 \<Rightarrow> bytes" where
  "padding_bytes p = (if p = 0 then [] else replicate (unat p - 1) 0 @ [p])"

lemma pad4_loop_ok:
  "ByteBuffer_inv w \<Longrightarrow> ByteBuffer_inv (pad4_loop w n) \<and>
     ByteBuffer_bytes (pad4_loop w n) = ByteBuffer_bytes w @ replicate ((4 - n mod 4) mod 4) 0"
proof (induction w n rule: pad4_loop.induct)
  case (1 w n)
  show ?case
  proof (cases "n mod 4 = 0")
    case True
    then show ?thesis using "1.prems" by (simp add: pad4_loop.simps [of w n])
  next
    case False
    have step: "(4 - n mod 4) mod 4 = Suc ((4 - Suc n mod 4) mod 4)" by (rule pad4_step [OF False])
    have "ByteBuffer_bytes (pad4_loop (writeU8 w 0) (n + 1)) =
        ByteBuffer_bytes w @ [0] @ replicate ((4 - Suc n mod 4) mod 4) 0 \<and>
        ByteBuffer_inv (pad4_loop (writeU8 w 0) (n + 1))"
      using "1.IH" [OF False] "1.prems" by (simp add: buf_simps u8_bytes_def)
    then show ?thesis using False unfolding step by (simp add: pad4_loop.simps [of w n])
  qed
qed

lemma writeExtension_ok [buf_simps]:
  assumes "ByteBuffer_inv w"
  shows "ByteBuffer_inv (writeExtension w e)"
    "ByteBuffer_bytes (writeExtension w e) = ByteBuffer_bytes w @ ext_bytes e"
  using assms
    pad4_loop_ok [of "ByteWriter_write (writeU16 (writeU16 w (ext_id e)) (of_nat ((length (ext_data e) + 3) div 4)))
      (ext_data e)" "length (ext_data e)"]
  by (auto simp: writeExtension_def ext_bytes_def Let_def buf_simps)

lemma writePayload_ok [buf_simps]:
  assumes "ByteBuffer_inv w"
  shows "ByteBuffer_inv (writePayload w xs)" "ByteBuffer_bytes (writePayload w xs) = ByteBuffer_bytes w @ xs"
    "ByteBuffer_inv (writePadding w p)"
    "ByteBuffer_bytes (writePadding w p) = ByteBuffer_bytes w @ padding_bytes p"
  using assms by (auto simp: writePayload_def writePadding_def padding_bytes_def u8_bytes_def buf_simps)

lemma RtpPacket_generate_bytes:
  "ByteBuffer_bytes (fst (RtpPacket_generate p)) =
     u16_bytes (rtp_header (pkt_paddingSize p \<noteq> 0) (\<not> ext_empty (pkt_extension p)) (pkt_marker p) (pkt_payloadId p)) @
     u16_bytes (pkt_sequence p) @ u32_bytes (pkt_timestamp p) @ u32_bytes (pkt_ssrc p) @
     ext_bytes (pkt_extension p) @ pkt_payload p @ padding_bytes (pkt_paddingSize p)"
  by (simp add: RtpPacket_generate_def Let_def buf_simps)

section \<open>Parsing what was written\<close>

text \<open>What the parser makes of the bytes after the fixed header.\<close>

definition parse_payload :: "bool \<Rightarrow> bytes \<Rightarrow> bytes option" where
  "parse_payload padding xs =
     (if padding then (if xs = [] \<or> length xs < unat (last xs) then None
                       else Some (take (length xs - unat (last xs)) xs))
      else Some xs)"

lemma remove_padding_eq: "n = length payload \<Longrightarrow> remove_padding padding n payload = Some (parse_payload padding payload)"
  by (cases payload rule: rev_cases) (auto simp: remove_padding_def parse_payload_def read_at_def payload_resize_def)

text \<open>
  C30. Safety of the parser: whatever bytes arrive from the network, \<^verbatim>\<open>RtpPacket::fromUdpPacket\<close> never aborts in the
  reader, reads the padding count from inside of the payload, and removes no more padding than there is payload.
\<close>
theorem fromUdpPacket_total: "fromUdpPacket data \<noteq> None"
  by (auto simp: fromUdpPacket_def Let_def read_simps trimPadding_eq remove_padding_eq split: if_splits)

lemma next_el_zeros [simp]: "next_el kTwoByte (replicate n 0) = None"
  by (cases n; cases "n - 1") (auto simp: next_el_def const_defs)

lemma elements_end_padded:
  "list_all element_ok es \<Longrightarrow> elements_end kTwoByte (enc_elements es @ replicate n 0) = length (enc_elements es)"
proof (induction es)
  case Nil
  then show ?case by (simp add: elements_end.simps [of kTwoByte "replicate n 0"])
next
  case (Cons e es)
  have "enc_elements (e # es) = enc_element e @ enc_elements es" by (simp add: enc_elements_def)
  moreover have "drop (2 + length (el_val e)) (enc_element e @ enc_elements es @ replicate n 0) = enc_elements es @ replicate n 0"
    using length_enc_element [of e] by (metis append_eq_conv_conj)
  ultimately show ?case
    using Cons next_el_enc [of e "enc_elements es @ replicate n 0"]
    by (simp add: elements_end.simps [of kTwoByte "enc_element e @ enc_elements es @ replicate n 0"])
qed

lemma rtp_header_alt:
  "rtp_header p x m i = push_bit 15 1 OR (if p then push_bit 13 1 else 0) OR (if x then push_bit 12 1 else 0) OR
     (if m then push_bit 7 1 else 0) OR (ucast i AND mask 7)"
  by (simp add: rtp_header_def mask7)

lemma rtp_header_bits [simp]:
  "bit (rtp_header p x m i) 13 = p" "bit (rtp_header p x m i) 12 = x" "bit (rtp_header p x m i) 7 = m"
  by (cases p; cases x; cases m; simp only: rtp_header_alt bit_or_iff bit_and_iff bit_push_bit_iff bit_mask_iff; simp)+

lemma rtp_header_payloadId: "ucast (rtp_header p x m i AND 0x7F) = i AND 0x7F"
proof (rule bit_word_eqI)
  fix n assume n: "n < LENGTH(8)"
  show "bit (ucast (rtp_header p x m i AND 0x7F) :: u8) n = bit (i AND 0x7F) n"
  proof (cases "n < 7")
    case True
    have "bit (rtp_header p x m i) n = bit i n"
      using True n unfolding rtp_header_alt by (cases p; cases x; cases m; simp add: bit_simps del: push_bit_of_1)
    then show ?thesis using True unfolding mask7 by (simp add: bit_simps)
  next
    case False then show ?thesis unfolding mask7 by (simp add: bit_simps)
  qed
qed

lemma pad4_total: "(n + 3) div 4 * 4 = n + (4 - n mod 4) mod (4::nat)"
proof -
  have "n mod 4 < 4" by simp
  then consider "n mod 4 = 0" | "n mod 4 = 1" | "n mod 4 = 2" | "n mod 4 = 3" by linarith
  then show ?thesis
  proof cases
    case 1 then show ?thesis using div_mult_mod_eq [of n 4] by (simp add: div_add1_eq [of n 3])
  next
    case 2 then show ?thesis using div_mult_mod_eq [of n 4] by (simp add: div_add1_eq [of n 3])
  next
    case 3 then show ?thesis using div_mult_mod_eq [of n 4] by (simp add: div_add1_eq [of n 3])
  next
    case 4 then show ?thesis using div_mult_mod_eq [of n 4] by (simp add: div_add1_eq [of n 3])
  qed
qed

lemma drop_header:
  "drop 2 (u16_bytes h @ xs) = xs" "drop 4 (u32_bytes s @ xs) = xs"
  by simp_all

lemma parse_header:
  assumes "data = u16_bytes h @ u16_bytes s @ u32_bytes t @ u32_bytes q @ rest"
  shows "be16 data = h" "be16 (drop 2 data) = s" "be32 (drop 4 data) = t" "be32 (drop 8 data) = q"
    "drop 12 data = rest" "length data = 12 + length rest"
proof -
  have d: "drop 2 data = u16_bytes s @ u32_bytes t @ u32_bytes q @ rest"
    using drop_header(1) [of h] assms by simp
  have d4: "drop 4 data = u32_bytes t @ u32_bytes q @ rest"
    using drop_drop [of 2 2 data] d drop_header(1) [of s] by simp
  have d8: "drop 8 data = u32_bytes q @ rest"
    using drop_drop [of 4 4 data] d4 drop_header(2) [of t] by simp
  show "drop 12 data = rest" using drop_drop [of 4 8 data] d8 drop_header(2) [of q] by simp
  show "be16 data = h" "be16 (drop 2 data) = s" "be32 (drop 4 data) = t" "be32 (drop 8 data) = q" "length data = 12 + length rest"
    using d d4 d8 assms by simp_all
qed

lemma fromUdpPacket_no_ext:
  assumes "data = u16_bytes h @ u16_bytes s @ u32_bytes t @ u32_bytes q @ rest" "\<not> bit h 12"
  shows "fromUdpPacket data = Some (map_option
     (RtpPacket_full q (ucast (h AND 0x7F)) (bit h 7) 0 s t 0 RtpExtension_none) (parse_payload (bit h 13) rest))"
  using assms(2)
  by (auto simp: fromUdpPacket_def Let_def read_simps parse_header [OF assms(1)] test_mask_bit remove_padding_eq)

lemma fromUdpPacket_ext:
  assumes "data = u16_bytes h @ u16_bytes s @ u32_bytes t @ u32_bytes q @ u16_bytes i @ u16_bytes w @ ext @ rest"
    "bit h 12" "length ext = unat w * 4" "isValidExtensionId i" "i \<noteq> 0" "ext \<noteq> []"
  shows "fromUdpPacket data = Some (map_option
     (RtpPacket_full q (ucast (h AND 0x7F)) (bit h 7) 0 s t 0 \<lparr>ext_id = i, ext_data = take (elements_end i ext) ext\<rparr>)
       (parse_payload (bit h 13) rest))"
proof -
  note p = parse_header [OF assms(1)]
  have d: "drop 14 data = u16_bytes w @ ext @ rest"
    using p(5) drop_drop [of 2 12 data] drop_header(1) [of i] by simp
  then have d': "drop 16 data = ext @ rest"
    using drop_drop [of 2 14 data] drop_header(1) [of w] by simp
  have e: "drop (16 + length ext) data = rest"
    using d' drop_drop [of "length ext" 16 data] by (simp add: add.commute)
  show ?thesis
    using assms(2-) e
    by (auto simp: fromUdpPacket_def Let_def read_simps p d d' test_mask_bit remove_padding_eq
        trimPadding_eq ext_empty_def add.commute mult.commute)
qed

lemma parse_padding: "parse_payload (n \<noteq> 0) (xs @ padding_bytes n) = Some xs"
proof (cases "n = 0")
  case False
  then have "0 < unat n" by (simp add: unat_gt_0)
  then show ?thesis using False by (simp add: parse_payload_def padding_bytes_def Suc_diff_Suc)
qed (simp add: parse_payload_def padding_bytes_def)

text \<open>The parser on a whole serialised packet.\<close>

lemma parse_wire:
  assumes "unat i < 128" "e = ext_build (enc_elements es)" "list_all element_ok es"
    "length (enc_elements es) \<le> 262140"
  shows "fromUdpPacket (u16_bytes (rtp_header (n \<noteq> 0) (\<not> ext_empty e) m i) @ u16_bytes s @ u32_bytes t @
      u32_bytes q @ ext_bytes e @ payload @ padding_bytes n) = Some (Some (RtpPacket_full q i m 0 s t 0 e payload))"
proof -
  let ?n = "length (enc_elements es)"
  have id: "i AND 0x7F = i"
    using assms(1) unfolding mask7
    by (simp add: word_unat_eq_iff unsigned_take_bit_eq take_bit_nat_eq_self flip: take_bit_eq_mask)
  show ?thesis
  proof (cases "enc_elements es = []")
    case True
    then have e: "e = RtpExtension_none" using assms(2) by (simp add: ext_build_def RtpExtension_none_def)
    then have "ext_empty e" by (simp add: RtpExtension_none_def ext_empty_def)
    then show ?thesis
      by (simp add: fromUdpPacket_no_ext [OF refl] ext_bytes_def parse_padding rtp_header_payloadId id flip: e)
  next
    case False
    let ?pad = "replicate ((4 - ?n mod 4) mod 4) 0 :: bytes"
    have e: "e = \<lparr>ext_id = kTwoByte, ext_data = enc_elements es\<rparr>"
      using False assms(2) by (simp add: ext_build_def)
    have ne: "\<not> ext_empty e" using e False by (simp add: ext_empty_def)
    have len: "length (enc_elements es @ ?pad) = unat (of_nat ((?n + 3) div 4) :: u16) * 4"
      using pad4_total [of ?n] assms(4) by (simp add: unat_of_nat)
    show ?thesis
      using False len fromUdpPacket_ext [OF _ _ len kTwoByte_valid(1,3)] ne
      by (simp add: ext_bytes_def e elements_end_padded [OF assms(3)] parse_padding rtp_header_payloadId id)
  qed
qed

text \<open>
  C29. Packet round trip: parsing what \<^verbatim>\<open>RtpPacket::generate\<close> wrote gives the packet
  back, extension elements, marker and payload included, for every padding size; only the
  rollover counter, which is not on the wire, and the padding, which is removed, are reset.
\<close>
theorem rtp_packet_roundtrip:
  assumes "unat (pkt_payloadId p) < 128" "pkt_extension p = ext_build (enc_elements es)" "list_all element_ok es"
    "length (enc_elements es) \<le> 262140"
  shows "fromUdpPacket (ByteBuffer_bytes (fst (RtpPacket_generate p))) =
     Some (Some (p\<lparr>pkt_rollover := 0, pkt_paddingSize := 0, pkt_lastInFrame := None\<rparr>))"
  by (simp add: RtpPacket_generate_bytes parse_wire [OF assms] RtpPacket_full_def)

definition example_packet :: RtpPacket where
  "example_packet = \<lparr>pkt_ssrc = 0x12345678, pkt_payloadId = 96, pkt_marker = True, pkt_rollover = 3, pkt_sequence = 7,
     pkt_timestamp = 90000, pkt_paddingSize = 5, pkt_payload = [1, 2, 3],
     pkt_extension = ext_build (enc_elements [\<lparr>el_id = 4, el_val = [9]\<rparr>]), pkt_lastInFrame = None\<rparr>"

lemma rtp_packet_roundtrip_witness:
  "fromUdpPacket (ByteBuffer_bytes (fst (RtpPacket_generate example_packet))) =
     Some (Some (example_packet\<lparr>pkt_rollover := 0, pkt_paddingSize := 0\<rparr>))"
  using rtp_packet_roundtrip [of example_packet "[\<lparr>el_id = 4, el_val = [9]\<rparr>]"]
  by (simp add: example_packet_def element_ok_def enc_elements_def enc_element_def)

lemma generateRtx_parse:
  assumes "unat (track_rtxPayloadId track) < 128" "e = ext_build (enc_elements es)" "list_all element_ok es"
    "length (enc_elements es) \<le> 262140"
    "RtpPacket_generateRtx track p e = ((buf, rollover), track')"
  shows "fromUdpPacket (ByteBuffer_bytes buf) =
       Some (Some (RtpPacket_full (track_rtxSsrc track) (track_rtxPayloadId track) (pkt_marker p) 0
         (snd (fst (getNextSequence (track_rtxPacketSource track)))) (pkt_timestamp p) 0 e
         (u16_bytes (pkt_sequence p) @ pkt_payload p)))
     \<and> rollover = fst (fst (getNextSequence (track_rtxPacketSource track)))
     \<and> track' = track\<lparr>track_rtxPacketSource := snd (getNextSequence (track_rtxPacketSource track))\<rparr>"
proof -
  obtain ro s src where g: "getNextSequence (track_rtxPacketSource track) = ((ro, s), src)"
    by (metis surj_pair)
  have "ByteBuffer_bytes buf = u16_bytes (rtp_header (pkt_paddingSize p \<noteq> 0) (\<not> ext_empty e) (pkt_marker p)
      (track_rtxPayloadId track)) @ u16_bytes s @ u32_bytes (pkt_timestamp p) @ u32_bytes (track_rtxSsrc track) @
      ext_bytes e @ (u16_bytes (pkt_sequence p) @ pkt_payload p) @ padding_bytes (pkt_paddingSize p)"
    using assms(5) g by (auto simp: RtpPacket_generateRtx_def Let_def buf_simps)
  then have "fromUdpPacket (ByteBuffer_bytes buf) = Some (Some (RtpPacket_full (track_rtxSsrc track)
      (track_rtxPayloadId track) (pkt_marker p) 0 s (pkt_timestamp p) 0 e (u16_bytes (pkt_sequence p) @ pkt_payload p)))"
    by (simp only: parse_wire [OF assms(1-4)])
  then show ?thesis using assms(5) g by (auto simp: RtpPacket_generateRtx_def Let_def)
qed

text \<open>
  Retransmission: an RTX packet is a well-formed RTP packet on the RTX stream (its own
  ssrc, payload id and next sequence number) whose payload is the original sequence number
  followed by the original payload; marker and timestamp are kept. The RTX packet source
  is the only part of the track that changes.
\<close>
theorem generateRtx_carries_original:
  assumes "unat (track_rtxPayloadId track) < 128" "e = ext_build (enc_elements es)" "list_all element_ok es"
    "length (enc_elements es) \<le> 262140"
    "RtpPacket_generateRtx track p e = ((buf, rollover), track')"
  shows "fromUdpPacket (ByteBuffer_bytes buf) =
       Some (Some (RtpPacket_full (track_rtxSsrc track) (track_rtxPayloadId track) (pkt_marker p) 0
         (snd (fst (getNextSequence (track_rtxPacketSource track)))) (pkt_timestamp p) 0 e
         (u16_bytes (pkt_sequence p) @ pkt_payload p)))
     \<and> rollover = fst (fst (getNextSequence (track_rtxPacketSource track)))
     \<and> track' = track\<lparr>track_rtxPacketSource := snd (getNextSequence (track_rtxPacketSource track))\<rparr>"
  using assms by (rule generateRtx_parse)

definition example_track :: Track where
  "example_track = Track_new \<lparr>media_id = [0x30], media_type = Video, media_extensionMap = ExtensionMap_new\<rparr>
     Publish 1 96 2 97 H264 None 90000 True True 0 0 100 41"

lemma generateRtx_carries_original_witness:
  "fromUdpPacket (ByteBuffer_bytes (fst (fst (RtpPacket_generateRtx example_track example_packet RtpExtension_none)))) =
     Some (Some (RtpPacket_full 2 97 True 0 42 90000 0 RtpExtension_none [0, 7, 1, 2, 3]))"
  using generateRtx_carries_original [of example_track RtpExtension_none "[]" example_packet
      "fst (fst (RtpPacket_generateRtx example_track example_packet RtpExtension_none))"
      "snd (fst (RtpPacket_generateRtx example_track example_packet RtpExtension_none))"
      "snd (RtpPacket_generateRtx example_track example_packet RtpExtension_none)"]
  by (simp add: example_track_def Track_new_def example_packet_def ext_build_def RtpExtension_none_def
      RtpPacketSource_new_def getNextSequence_def u16_bytes_def)

end
