(* ===== verification/Extension_Sources.thy ===== *)
theory Extension_Sources
  imports Rtp_Packet
begin

text \<open>
  The RTP header extension sources: the virtual interface \<^verbatim>\<open>RtpExtensionSource\<close>, its three
  implementations (simulcast, absolute capture time and transport-wide congestion control,
  the latter as far as the interface goes), and \<^verbatim>\<open>Packetizer::buildExtension\<close> and
  \<^verbatim>\<open>PacketizerVideo::getPadding\<close>, which call it.
\<close>

unbundle bit_operations_syntax

section \<open>The interface\<close>

text \<open>A source is its three virtual functions; the objects' states are together the state \<open>'s\<close>.\<close>

record 's RtpExtensionSource =
  src_getPadding :: "'s \<Rightarrow> Track \<Rightarrow> nat \<Rightarrow> u8 \<times> 's"
  src_wantsExtension :: "'s \<Rightarrow> Track \<Rightarrow> bool \<Rightarrow> nat \<Rightarrow> bool"
  src_addExtension :: "'s \<Rightarrow> RtpExtensionBuilder \<Rightarrow> Track \<Rightarrow> bool \<Rightarrow> nat \<Rightarrow> RtpExtensionBuilder \<times> 's"

fun extension_mask ::
  "'s RtpExtensionSource list \<Rightarrow> nat \<Rightarrow> u32 \<Rightarrow> 's \<Rightarrow> Track \<Rightarrow> bool \<Rightarrow> nat \<Rightarrow> u32" where
  "extension_mask [] i m st track isKeyFrame packetNumber = m"
| "extension_mask (src # srcs) i m st track isKeyFrame packetNumber =
     extension_mask srcs (i + 1)
       (if src_wantsExtension src st track isKeyFrame packetNumber then m OR push_bit i 1 else m)
       st track isKeyFrame packetNumber"

fun add_extensions ::
  "'s RtpExtensionSource list \<Rightarrow> nat \<Rightarrow> u32 \<Rightarrow> 's \<Rightarrow> RtpExtensionBuilder \<Rightarrow> Track \<Rightarrow> bool \<Rightarrow> nat \<Rightarrow>
   RtpExtensionBuilder \<times> 's" where
  "add_extensions [] i m st builder track isKeyFrame packetNumber = (builder, st)"
| "add_extensions (src # srcs) i m st builder track isKeyFrame packetNumber =
     (if test_mask m i then
        (let (builder, st) = src_addExtension src st builder track isKeyFrame packetNumber
         in add_extensions srcs (i + 1) m st builder track isKeyFrame packetNumber)
      else add_extensions srcs (i + 1) m st builder track isKeyFrame packetNumber)"

definition buildExtension ::
  "'s RtpExtensionSource list \<Rightarrow> 's \<Rightarrow> Track \<Rightarrow> bool \<Rightarrow> nat \<Rightarrow> RtpExtension \<times> 's" where
  "buildExtension srcs st track isKeyFrame packetNumber =
     (let m = extension_mask srcs 0 0 st track isKeyFrame packetNumber in
      if m \<noteq> 0 then
        (let (builder, st) = add_extensions srcs 0 m st [] track isKeyFrame packetNumber
         in (ext_build builder, st))
      else (RtpExtension_none, st))"

fun max_padding :: "'s RtpExtensionSource list \<Rightarrow> u8 \<Rightarrow> 's \<Rightarrow> Track \<Rightarrow> nat \<Rightarrow> u8 \<times> 's" where
  "max_padding [] padding st track remainingDataSize = (padding, st)"
| "max_padding (src # srcs) padding st track remainingDataSize =
     (let (p, st) = src_getPadding src st track remainingDataSize
      in max_padding srcs (max padding p) st track remainingDataSize)"

definition getPadding :: "'s RtpExtensionSource list \<Rightarrow> 's \<Rightarrow> Track \<Rightarrow> nat \<Rightarrow> u8 \<times> 's" where
  "getPadding srcs st track remainingDataSize =
     (if remainingDataSize < 300 then (0, st) else max_padding srcs 0 st track remainingDataSize)"

section \<open>The three sources\<close>

definition kExtSdesMid :: string where
  [const_defs]: "kExtSdesMid = ''urn:ietf:params:rtp-hdrext:sdes:mid''"
definition kExtSdesRtpStreamId :: string where
  [const_defs]: "kExtSdesRtpStreamId = ''urn:ietf:params:rtp-hdrext:sdes:rtp-stream-id''"
definition kExtSdesRtpRepairedStreamId :: string where
  [const_defs]: "kExtSdesRtpRepairedStreamId = ''urn:ietf:params:rtp-hdrext:sdes:repaired-rtp-stream-id''"
definition kExtGoogleVLA :: string where
  [const_defs]: "kExtGoogleVLA = ''http://www.webrtc.org/experiments/rtp-hdrext/video-layers-allocation00''"
definition kExtGoogleTWCC :: string where
  [const_defs]: "kExtGoogleTWCC = ''http://www.ietf.org/id/draft-holmer-rmcat-transport-wide-cc-extensions-01''"
definition kExtAbsCaptureTime :: string where
  [const_defs]: "kExtAbsCaptureTime = ''http://www.webrtc.org/experiments/rtp-hdrext/abs-capture-time''"

text \<open>
  A lookup in the track's extension map. The map's cache does not change what lookups
  return (theory \<^verbatim>\<open>Extension_Map\<close>), so its update is left out here.
\<close>

definition track_ext_id :: "Track \<Rightarrow> string \<Rightarrow> u8" where
  "track_ext_id track name = fst (findByName (media_extensionMap (track_media track)) name)"

text \<open>The states of the three objects.\<close>

record SimulcastState =
  mCurMediaId :: bytes
  mCurLayerName :: bytes
  mCurGoogleVLA :: bytes
  mCurExtMediaId :: u8
  mCurExtStreamId :: u8
  mCurExtGoogleVLA :: u8

record AbsCaptureState =
  mAbsCaptureTimeNTP :: u64
  mAbsExtensionId :: u8

record ProbeState =
  mIsProbing :: bool
  mProbingPacketCount :: u32

record SourcesState =
  st_sim :: SimulcastState
  st_abs :: AbsCaptureState
  st_twcc :: ProbeState

definition SourcesState_new :: SourcesState where
  "SourcesState_new =
     \<lparr>st_sim = \<lparr>mCurMediaId = [], mCurLayerName = [], mCurGoogleVLA = [], mCurExtMediaId = 0, mCurExtStreamId = 0,
        mCurExtGoogleVLA = 0\<rparr>,
      st_abs = \<lparr>mAbsCaptureTimeNTP = 0, mAbsExtensionId = 0\<rparr>,
      st_twcc = \<lparr>mIsProbing = False, mProbingPacketCount = 0\<rparr>\<rparr>"

subsection \<open>Simulcast\<close>

definition buildGoogleVLA :: "u8 \<Rightarrow> SimulcastLayer list \<Rightarrow> bytes" where
  "buildGoogleVLA ridId layers =
     (if length layers = 0 \<or> length layers > 4 then []
      else if ridId > 3 then []
      else
        [ucast (push_bit 6 (ucast ridId) OR push_bit 4 (of_nat (length layers - 1)) OR (1 :: u16)), 0] @
        concat (map (\<lambda>l. leb128_bytes (sl_kilobits_per_second l)) layers) @
        concat (map (\<lambda>l. u16_bytes (sl_width l - 1) @ u16_bytes (sl_height l - 1) @
                 u8_bytes (ucast (min (sl_frames_per_second l) 255))) layers))"

text \<open>\<open>sentPackets\<close> and \<open>isKeyFrame\<close> are the results of the calls to the track's statistics and to
  the packetizer.\<close>

definition sim_shouldAdd :: "SimulcastState \<Rightarrow> Track \<Rightarrow> nat \<Rightarrow> bool \<Rightarrow> bool \<times> SimulcastState" where
  "sim_shouldAdd s track sentPackets isKeyFrame =
     (if isSimulcast track then
        (let s = s\<lparr>mCurExtMediaId := track_ext_id track kExtSdesMid,
                   mCurExtStreamId := track_ext_id track kExtSdesRtpStreamId,
                   mCurExtGoogleVLA := track_ext_id track kExtGoogleVLA\<rparr>
         in (mCurExtMediaId s > 0 \<and> mCurExtStreamId s > 0 \<and> mCurExtGoogleVLA s > 0 \<and>
             (sentPackets < 100 \<or> isKeyFrame), s))
      else (False, s))"

text \<open>\<^const>\<open>None\<close>: the track has no layer and the code dereferences a null pointer.\<close>

definition sim_prepare :: "SimulcastState \<Rightarrow> Track \<Rightarrow> SimulcastLayer list \<Rightarrow> SimulcastState option" where
  "sim_prepare s track layerList = do {
     (layer, idx) \<leftarrow> track_simulcastLayer track;
     Some (s\<lparr>mCurMediaId := media_id (track_media track), mCurLayerName := sl_name layer,
             mCurGoogleVLA := buildGoogleVLA idx layerList\<rparr>)
   }"

definition sim_clear :: "SimulcastState \<Rightarrow> SimulcastState" where
  "sim_clear s = s\<lparr>mCurMediaId := [], mCurLayerName := [], mCurGoogleVLA := []\<rparr>"

definition sim_wantsExtension :: "SimulcastState \<Rightarrow> Track \<Rightarrow> bool \<Rightarrow> nat \<Rightarrow> bool" where
  "sim_wantsExtension s track isKeyFrame packetNumber \<longleftrightarrow> mCurGoogleVLA s \<noteq> []"

definition sim_addExtension ::
  "SimulcastState \<Rightarrow> RtpExtensionBuilder \<Rightarrow> Track \<Rightarrow> bool \<Rightarrow> nat \<Rightarrow> RtpExtensionBuilder" where
  "sim_addExtension s builder track isKeyFrame packetNumber =
     (let builder = addStringValue builder (mCurExtMediaId s) (mCurMediaId s);
          builder = addStringValue builder (mCurExtStreamId s) (mCurLayerName s)
      in addBinaryValue builder (mCurExtGoogleVLA s) (mCurGoogleVLA s))"

text \<open>\<open>None\<close> is an abort of the builder's reader or the missing layer.\<close>

definition add_if_missing :: "RtpExtensionBuilder \<Rightarrow> u8 \<Rightarrow> bytes \<Rightarrow> RtpExtensionBuilder option" where
  "add_if_missing builder i val =
     (if i \<noteq> 0 then do {
        c \<leftarrow> builder_contains builder i;
        Some (if c then builder else addStringValue builder i val)
      } else Some builder)"

definition sim_updateForRtx :: "RtpExtensionBuilder \<Rightarrow> Track \<Rightarrow> RtpExtensionBuilder option" where
  "sim_updateForRtx builder track = do {
     builder \<leftarrow> add_if_missing builder (track_ext_id track kExtSdesMid) (media_id (track_media track));
     let i = track_ext_id track kExtSdesRtpRepairedStreamId;
     if i \<noteq> 0 then do {
       c \<leftarrow> builder_contains builder i;
       if c then Some builder
       else do { (layer, idx) \<leftarrow> track_simulcastLayer track; Some (addStringValue builder i (sl_name layer)) }
     } else Some builder
   }"

subsection \<open>Absolute capture time\<close>

definition abs_prepare :: "AbsCaptureState \<Rightarrow> Track \<Rightarrow> u64 \<Rightarrow> AbsCaptureState" where
  "abs_prepare s track ntp =
     s\<lparr>mAbsCaptureTimeNTP := ntp,
       mAbsExtensionId := (if ntp \<noteq> 0 then track_ext_id track kExtAbsCaptureTime else 0)\<rparr>"

definition abs_wantsExtension :: "AbsCaptureState \<Rightarrow> Track \<Rightarrow> bool \<Rightarrow> nat \<Rightarrow> bool" where
  "abs_wantsExtension s track isKeyFrame packetNumber \<longleftrightarrow>
     mAbsCaptureTimeNTP s \<noteq> 0 \<and> mAbsExtensionId s \<noteq> 0 \<and> packetNumber = 0"

definition abs_addExtension ::
  "AbsCaptureState \<Rightarrow> RtpExtensionBuilder \<Rightarrow> Track \<Rightarrow> bool \<Rightarrow> nat \<Rightarrow> RtpExtensionBuilder" where
  "abs_addExtension s builder track isKeyFrame packetNumber =
     (if mAbsCaptureTimeNTP s \<noteq> 0 \<and> mAbsExtensionId s \<noteq> 0 \<and> packetNumber = 0
      then addU64Value builder (mAbsExtensionId s) (mAbsCaptureTimeNTP s) else builder)"

subsection \<open>Transport-wide congestion control\<close>

definition twcc_getPadding :: "ProbeState \<Rightarrow> Track \<Rightarrow> nat \<Rightarrow> u8 \<times> ProbeState" where
  "twcc_getPadding s track remainingDataSize =
     (if mIsProbing s then
        (if remainingDataSize < 500 then (50, s)
         else case media_type (track_media track) of
           Video \<Rightarrow> (120, s\<lparr>mProbingPacketCount := mProbingPacketCount s + 1\<rparr>)
         | Audio \<Rightarrow>
             if remainingDataSize < 1060
             then (of_nat (remainingDataSize div 10), s\<lparr>mProbingPacketCount := mProbingPacketCount s + 1\<rparr>)
             else (0, s))
      else (0, s))"

definition twcc_wantsExtension :: "ProbeState \<Rightarrow> Track \<Rightarrow> bool \<Rightarrow> nat \<Rightarrow> bool" where
  "twcc_wantsExtension s track isKeyFrame packetNumber \<longleftrightarrow> track_ext_id track kExtGoogleTWCC \<noteq> 0"

definition twcc_addExtension ::
  "ProbeState \<Rightarrow> RtpExtensionBuilder \<Rightarrow> Track \<Rightarrow> bool \<Rightarrow> nat \<Rightarrow> RtpExtensionBuilder" where
  "twcc_addExtension s builder track isKeyFrame packetNumber =
     (let i = track_ext_id track kExtGoogleTWCC in if i \<noteq> 0 then addU16Value builder i 0 else builder)"

definition twcc_onStartProbing :: "ProbeState \<Rightarrow> ProbeState" where
  "twcc_onStartProbing s = s\<lparr>mIsProbing := True, mProbingPacketCount := 0\<rparr>"

definition twcc_onEndProbing :: "ProbeState \<Rightarrow> ProbeState" where
  "twcc_onEndProbing s = s\<lparr>mIsProbing := False\<rparr>"

section \<open>The objects as sources\<close>

definition source_simulcast :: "SourcesState RtpExtensionSource" where
  "source_simulcast =
     \<lparr>src_getPadding = \<lambda>st _ _. (0, st),
      src_wantsExtension = \<lambda>st. sim_wantsExtension (st_sim st),
      src_addExtension = \<lambda>st b t k n. (sim_addExtension (st_sim st) b t k n, st)\<rparr>"

definition source_abs :: "SourcesState RtpExtensionSource" where
  "source_abs =
     \<lparr>src_getPadding = \<lambda>st _ _. (0, st),
      src_wantsExtension = \<lambda>st. abs_wantsExtension (st_abs st),
      src_addExtension = \<lambda>st b t k n. (abs_addExtension (st_abs st) b t k n, st)\<rparr>"

definition source_twcc :: "SourcesState RtpExtensionSource" where
  "source_twcc =
     \<lparr>src_getPadding = \<lambda>st t n. (let (p, s) = twcc_getPadding (st_twcc st) t n in (p, st\<lparr>st_twcc := s\<rparr>)),
      src_wantsExtension = \<lambda>st. twcc_wantsExtension (st_twcc st),
      src_addExtension = \<lambda>st b t k n. (twcc_addExtension (st_twcc st) b t k n, st)\<rparr>"

section \<open>What the packetizers rely on\<close>

lemma bit_extension_mask:
  "i + length srcs \<le> 32 \<Longrightarrow>
     bit (extension_mask srcs i m st track kf pn) j \<longleftrightarrow>
       bit m j \<or> (i \<le> j \<and> j < i + length srcs \<and> src_wantsExtension (srcs ! (j - i)) st track kf pn)"
proof (induction srcs arbitrary: i m)
  case (Cons src srcs)
  have i: "i < 32" using Cons.prems by simp
  have b: "bit (m OR push_bit i 1) j \<longleftrightarrow> bit m j \<or> j = i"
    using i by (auto simp: bit_or_iff bit_push_bit_iff bit_1_iff simp del: push_bit_of_1)
  have "srcs ! (j - Suc i) = (src # srcs) ! (j - i)" if "Suc i \<le> j"
    using that by (simp add: nth_Cons' Suc_diff_le [symmetric])
  then show ?case
    using Cons b by (cases "j = i") (auto simp: Suc_le_eq)
qed auto

text \<open>
  The contract of a list of sources: at most 32 of them (the code keeps one mask bit for
  each); every call keeps the joint invariant; a source that wants to add an extension
  appends well-formed elements of bounded size, and adding does not change what the other
  sources want.
\<close>

locale extension_sources =
  fixes srcs :: "'s RtpExtensionSource list" and I :: "'s \<Rightarrow> bool"
  assumes few: "length srcs \<le> 32"
    and padding_inv: "src \<in> set srcs \<Longrightarrow> I s \<Longrightarrow> I (snd (src_getPadding src s track n))"
    and add_inv: "src \<in> set srcs \<Longrightarrow> I s \<Longrightarrow> I (snd (src_addExtension src s b track kf pn))"
    and add_wants: "src \<in> set srcs \<Longrightarrow> src' \<in> set srcs \<Longrightarrow>
      src_wantsExtension src' (snd (src_addExtension src s b track kf pn)) track kf pn =
      src_wantsExtension src' s track kf pn"
    and add_elements: "src \<in> set srcs \<Longrightarrow> I s \<Longrightarrow> src_wantsExtension src s track kf pn \<Longrightarrow>
      \<exists>es'. fst (src_addExtension src s (enc_elements es) track kf pn) = enc_elements (es @ es') \<and>
        list_all element_ok es' \<and> length (enc_elements es') \<le> 600"
begin

lemma max_padding_inv: "set xs \<subseteq> set srcs \<Longrightarrow> I s \<Longrightarrow> I (snd (max_padding xs p s track n))"
proof (induction xs arbitrary: p s)
  case (Cons x xs)
  then show ?case using padding_inv [of x s track n] by (auto simp: case_prod_beta)
qed simp

lemma getPadding_inv: "I s \<Longrightarrow> I (snd (getPadding srcs s track n))"
  using max_padding_inv [of srcs] by (auto simp: getPadding_def)

lemma add_extensions_ok:
  "set xs \<subseteq> set srcs \<Longrightarrow> I s \<Longrightarrow> list_all element_ok es \<Longrightarrow>
   (\<And>j. j < length xs \<Longrightarrow> test_mask m (i + j) \<Longrightarrow> src_wantsExtension (xs ! j) s track kf pn) \<Longrightarrow>
   \<exists>es'. fst (add_extensions xs i m s (enc_elements es) track kf pn) = enc_elements es' \<and> list_all element_ok es' \<and>
     length (enc_elements es') \<le> length (enc_elements es) + 600 * length xs \<and>
     I (snd (add_extensions xs i m s (enc_elements es) track kf pn))"
proof (induction xs arbitrary: i s es)
  case (Cons x xs)
  have x: "x \<in> set srcs" using Cons.prems(1) by simp
  have later: "j < length xs \<Longrightarrow> test_mask m (Suc i + j) \<Longrightarrow> src_wantsExtension (xs ! j) s track kf pn" for j
    using Cons.prems(4) [of "Suc j"] by simp
  show ?case
  proof (cases "test_mask m i")
    case True
    then have w: "src_wantsExtension x s track kf pn" using Cons.prems(4) [of 0] by simp
    obtain es' where es': "fst (src_addExtension x s (enc_elements es) track kf pn) = enc_elements (es @ es')"
      "list_all element_ok es'" "length (enc_elements es') \<le> 600"
      using add_elements [OF x Cons.prems(2) w] by blast
    obtain b s' where bs: "src_addExtension x s (enc_elements es) track kf pn = (b, s')" by fastforce
    have s': "I s'" using add_inv [OF x Cons.prems(2), of "enc_elements es" track kf pn] bs by simp
    have later': "j < length xs \<Longrightarrow> test_mask m (Suc i + j) \<Longrightarrow> src_wantsExtension (xs ! j) s' track kf pn" for j
      using later [of j] add_wants [OF x, of "xs ! j" s "enc_elements es" track kf pn] bs Cons.prems(1) by (auto dest: nth_mem)
    have len: "length (enc_elements (es @ es')) = length (enc_elements es) + length (enc_elements es')"
      by (simp add: enc_elements_def)
    have ok: "list_all element_ok (es @ es')" using Cons.prems(3) es'(2) by simp
    show ?thesis
      using Cons.IH [of s' "es @ es'" "Suc i", OF _ s' ok later'] Cons.prems(1) es' bs True len by fastforce
  next
    case False
    then show ?thesis using Cons.IH [of s es "Suc i", OF _ Cons.prems(2,3) later] Cons.prems(1) by fastforce
  qed
qed auto

lemma buildExtension_ok:
  assumes "I s"
  obtains es where "fst (buildExtension srcs s track kf pn) = ext_build (enc_elements es)" "list_all element_ok es"
    "length (enc_elements es) \<le> 19200" "I (snd (buildExtension srcs s track kf pn))"
proof -
  let ?m = "extension_mask srcs 0 0 s track kf pn"
  have m: "j < length srcs \<Longrightarrow> test_mask ?m j \<Longrightarrow> src_wantsExtension (srcs ! j) s track kf pn" for j
    using bit_extension_mask [of 0 srcs 0 s track kf pn j] few test_mask_bit [of j ?m] by simp
  obtain es where es: "fst (add_extensions srcs 0 ?m s [] track kf pn) = enc_elements es" "list_all element_ok es"
    "length (enc_elements es) \<le> 600 * length srcs" "I (snd (add_extensions srcs 0 ?m s [] track kf pn))"
    using add_extensions_ok [of srcs s "[]" ?m 0 track kf pn] assms m by auto
  show ?thesis
  proof (cases "?m = 0")
    case True
    then show ?thesis
      using that [of "[]"] assms by (simp add: buildExtension_def RtpExtension_none_def ext_build_def)
  next
    case False
    then show ?thesis using that [of es] es few by (simp add: buildExtension_def case_prod_beta)
  qed
qed

end

section \<open>The three sources satisfy the contract\<close>

lemma length_leb128_bound: "0 < k \<Longrightarrow> unat v < 2 ^ (7 * k) \<Longrightarrow> length (leb128_bytes v) \<le> k"
proof (induction k arbitrary: v)
  case (Suc k)
  have "unat (drop_bit 7 v) = unat v div 128"
    by (simp add: drop_bit_eq_div unat_div)
  moreover have "unat v < 2 ^ (7 * k) * 128" using Suc.prems by (simp add: power_add mult.commute)
  ultimately have d: "unat (drop_bit 7 v) < 2 ^ (7 * k)" by (simp add: less_mult_imp_div_less)
  show ?case
  proof (cases "k = 0")
    case True
    then show ?thesis using d by (simp add: leb128_bytes.simps [of v] Let_def unat_eq_0)
  next
    case False
    then show ?thesis using Suc.IH [OF _ d] by (simp add: leb128_bytes.simps [of v] Let_def)
  qed
qed simp

lemma length_leb128: "length (leb128_bytes v) \<le> 5"
proof -
  have "unat v < 4294967296" by (rule unat_u32_less)
  also have "(4294967296 :: nat) \<le> 2 ^ (7 * 5)" by simp
  finally have "unat v < 2 ^ (7 * 5)" .
  then show ?thesis using length_leb128_bound [of 5 v] by (simp del: numeral_times_numeral)
qed

lemma length_concat_bound: "(\<And>x. x \<in> set xs \<Longrightarrow> length (f x) \<le> n) \<Longrightarrow> length (concat (map f xs)) \<le> n * length xs"
  by (induction xs) (auto intro: add_mono)

lemma length_buildGoogleVLA: "length (buildGoogleVLA r ls) \<le> 42"
proof (cases "length ls \<le> 4")
  case True
  have "length (concat (map (\<lambda>l. leb128_bytes (sl_kilobits_per_second l)) ls)) \<le> 5 * length ls"
    by (rule length_concat_bound) (rule length_leb128)
  moreover have "length (concat (map (\<lambda>l. u16_bytes (sl_width l - 1) @ u16_bytes (sl_height l - 1) @
      u8_bytes (ucast (min (sl_frames_per_second l) 255))) ls)) \<le> 5 * length ls"
    by (rule length_concat_bound) simp
  ultimately show ?thesis using True unfolding buildGoogleVLA_def by (simp only: length_append split: if_splits) simp
qed (simp add: buildGoogleVLA_def)

text \<open>The invariant: the extension ids of the simulcast source are set whenever it has a
  video layers allocation to send, and that allocation is short.\<close>

definition sources_inv :: "SourcesState \<Rightarrow> bool" where
  "sources_inv st \<longleftrightarrow> length (mCurGoogleVLA (st_sim st)) \<le> 42 \<and>
     (mCurGoogleVLA (st_sim st) \<noteq> [] \<longrightarrow>
        mCurExtMediaId (st_sim st) \<noteq> 0 \<and> mCurExtStreamId (st_sim st) \<noteq> 0 \<and> mCurExtGoogleVLA (st_sim st) \<noteq> 0)"

interpretation srtc_sources: extension_sources "[source_simulcast, source_twcc, source_abs]" sources_inv
proof unfold_locales
  show "length [source_simulcast, source_twcc, source_abs] \<le> 32" by simp
next
  fix src s track n assume "src \<in> set [source_simulcast, source_twcc, source_abs]" "sources_inv s"
  then show "sources_inv (snd (src_getPadding src s track n))"
    by (auto simp: source_simulcast_def source_twcc_def source_abs_def case_prod_beta sources_inv_def)
next
  fix src s b track kf pn assume "src \<in> set [source_simulcast, source_twcc, source_abs]" "sources_inv s"
  then show "sources_inv (snd (src_addExtension src s b track kf pn))"
    by (auto simp: source_simulcast_def source_twcc_def source_abs_def)
next
  fix src src' :: "SourcesState RtpExtensionSource" and s b track kf pn
  assume "src \<in> set [source_simulcast, source_twcc, source_abs]" "src' \<in> set [source_simulcast, source_twcc, source_abs]"
  then show "src_wantsExtension src' (snd (src_addExtension src s b track kf pn)) track kf pn =
      src_wantsExtension src' s track kf pn"
    by (auto simp: source_simulcast_def source_twcc_def source_abs_def)
next
  fix src s track kf pn es
  assume src: "src \<in> set [source_simulcast, source_twcc, source_abs]" and inv: "sources_inv s"
    and wants: "src_wantsExtension src s track kf pn"
  consider "src = source_simulcast" | "src = source_twcc" | "src = source_abs" using src by auto
  then show "\<exists>es'. fst (src_addExtension src s (enc_elements es) track kf pn) = enc_elements (es @ es') \<and>
        list_all element_ok es' \<and> length (enc_elements es') \<le> 600"
  proof cases
    case 1
    let ?st = "st_sim s"
    let ?es = "[\<lparr>el_id = mCurExtMediaId ?st, el_val = take 255 (mCurMediaId ?st)\<rparr>,
        \<lparr>el_id = mCurExtStreamId ?st, el_val = take 255 (mCurLayerName ?st)\<rparr>,
        \<lparr>el_id = mCurExtGoogleVLA ?st, el_val = mCurGoogleVLA ?st\<rparr>]"
    have "fst (src_addExtension src s (enc_elements es) track kf pn) = enc_elements (es @ ?es)"
      using 1 inv by (simp add: source_simulcast_def sim_addExtension_def add_values_enc sources_inv_def)
    moreover have "list_all element_ok ?es \<and> length (enc_elements ?es) \<le> 600"
      using 1 inv wants by (simp add: source_simulcast_def sim_wantsExtension_def sources_inv_def element_ok_def
          enc_elements_def min_def)
    ultimately show ?thesis by blast
  next
    case 2
    let ?es = "[\<lparr>el_id = track_ext_id track kExtGoogleTWCC, el_val = u16_bytes 0\<rparr>]"
    have "fst (src_addExtension src s (enc_elements es) track kf pn) = enc_elements (es @ ?es)"
      "list_all element_ok ?es \<and> length (enc_elements ?es) \<le> 600"
      using 2 wants by (simp_all add: source_twcc_def twcc_addExtension_def twcc_wantsExtension_def add_values_enc
          element_ok_def enc_elements_Cons Let_def)
    then show ?thesis by blast
  next
    case 3
    let ?es = "[\<lparr>el_id = mAbsExtensionId (st_abs s), el_val = u64_bytes (mAbsCaptureTimeNTP (st_abs s))\<rparr>]"
    have "fst (src_addExtension src s (enc_elements es) track kf pn) = enc_elements (es @ ?es)"
      "list_all element_ok ?es \<and> length (enc_elements ?es) \<le> 600"
      using 3 wants by (simp_all add: source_abs_def abs_addExtension_def abs_wantsExtension_def add_values_enc
          element_ok_def enc_elements_Cons)
    then show ?thesis by blast
  qed
qed


text \<open>
  C32. Extensions that go on the wire are well formed: after the simulcast source was
  prepared for a frame (its ids found, the layers allocation built), the header extension
  that the three sources build for any packet of the frame is the encoding of elements with
  valid ids and lengths, and has a bounded size.
\<close>
theorem built_extension_wellformed:
  assumes "sim_shouldAdd (st_sim st) track sent kf = (True, sim)" "sim_prepare sim track layers = Some sim'"
  shows "\<exists>es. fst (buildExtension [source_simulcast, source_twcc, source_abs] (st\<lparr>st_sim := sim'\<rparr>) track kf' pn) =
      ext_build (enc_elements es) \<and> list_all element_ok es \<and> length (enc_elements es) \<le> 19200"
proof -
  have "sources_inv (st\<lparr>st_sim := sim'\<rparr>)"
    using assms length_buildGoogleVLA
    by (auto simp: sources_inv_def sim_shouldAdd_def sim_prepare_def Let_def word_gt_0 split: if_splits bind_splits)
  then show ?thesis using srtc_sources.buildExtension_ok [of "st\<lparr>st_sim := sim'\<rparr>" track kf' pn] by metis
qed

definition example_layer :: SimulcastLayer where
  "example_layer = \<lparr>sl_name = [0x68, 0x69], sl_width = 1280, sl_height = 720, sl_frames_per_second = 30,
     sl_kilobits_per_second = 1000\<rparr>"

definition example_simulcast_track :: Track where
  "example_simulcast_track = Track_new
     \<lparr>media_id = [0x30], media_type = Video,
      media_extensionMap = extmap_of [(1, kExtSdesMid), (2, kExtSdesRtpStreamId), (3, kExtGoogleVLA)]\<rparr>
     Publish 1 96 2 97 H264
     (Some (example_layer, 0)) 90000 True True 0 0 100 41"

lemma built_extension_wellformed_witness:
  "\<exists>sim' es. sim_prepare (snd (sim_shouldAdd (st_sim SourcesState_new) example_simulcast_track 0 True))
       example_simulcast_track [example_layer] = Some sim' \<and>
     fst (buildExtension [source_simulcast, source_twcc, source_abs] (SourcesState_new\<lparr>st_sim := sim'\<rparr>)
       example_simulcast_track True 0) = ext_build (enc_elements es) \<and> list_all element_ok es"
proof -
  have ids: "track_ext_id example_simulcast_track kExtSdesMid = 1"
    "track_ext_id example_simulcast_track kExtSdesRtpStreamId = 2"
    "track_ext_id example_simulcast_track kExtGoogleVLA = 3"
    by (simp_all add: track_ext_id_def example_simulcast_track_def Track_new_def findByName_def extmap_of_eq
        ExtensionMap_new_def const_defs)
  have "track_simulcastLayer example_simulcast_track \<noteq> None"
    by (simp add: example_simulcast_track_def Track_new_def)
  then obtain layer idx where layer: "track_simulcastLayer example_simulcast_track = Some (layer, idx)" by auto
  let ?r = "sim_shouldAdd (st_sim SourcesState_new) example_simulcast_track 0 True"
  have "fst ?r" by (simp add: sim_shouldAdd_def ids isSimulcast_def Let_def layer word_gt_0)
  then have "?r = (True, snd ?r)" by (simp add: prod_eq_iff)
  moreover obtain sim' where "sim_prepare (snd ?r) example_simulcast_track [example_layer] = Some sim'"
    by (simp add: sim_prepare_def layer)
  ultimately show ?thesis using built_extension_wellformed by fastforce
qed

end
