(* ===== verification/Packetizer.thy ===== *)
theory Packetizer
  imports Extension_Sources
begin

text \<open>
  \<^verbatim>\<open>src/packetizer.cpp\<close>, \<^verbatim>\<open>src/packetizer_video.cpp\<close> and \<^verbatim>\<open>src/packetizer_opus.cpp\<close>: how much
  payload fits in a packet next to its header, extension and padding, and the packetizer of
  Opus frames. The \<^verbatim>\<open>size_t\<close> subtractions wrap around as in the code.
\<close>

definition kMinPayloadSize :: nat where [const_defs]: "kMinPayloadSize = 600"

definition getBasicPacketSize :: "nat \<Rightarrow> nat" where
  "getBasicPacketSize mediaProtectionOverhead =
     size_sub (size_sub kMaxPayloadSize kHeaderSize) mediaProtectionOverhead"

definition adjustPacketSize :: "nat \<Rightarrow> nat \<Rightarrow> RtpExtension \<Rightarrow> nat" where
  "adjustPacketSize basicPacketSize padding extension =
     (let sizeLessPadding =
            (if padding > 0 \<and> padding \<le> basicPacketSize div 2 then basicPacketSize - padding else basicPacketSize);
          extensionSize = ext_size extension
      in if extensionSize = 0 then sizeLessPadding
         else if extensionSize + kMinPayloadSize > basicPacketSize then sizeLessPadding
         else size_sub sizeLessPadding extensionSize)"

text \<open>
  The frame timestamp: \<^verbatim>\<open>getFrameTimestamp\<close> updates the track's time source; packet sequence
  numbers come from the track's packet source.
\<close>

definition track_frameTimestamp :: "Track \<Rightarrow> int \<Rightarrow> int \<Rightarrow> u32 \<times> Track" where
  "track_frameTimestamp track now pts =
     (let (ts, src) = getFrameTimestamp now pts (track_rtpTimeSource track) in (ts, track\<lparr>track_rtpTimeSource := src\<rparr>))"

definition track_nextSequence :: "Track \<Rightarrow> (u32 \<times> u16) \<times> Track" where
  "track_nextSequence track =
     (let (rs, src) = getNextSequence (track_rtpPacketSource track) in (rs, track\<lparr>track_rtpPacketSource := src\<rparr>))"

definition opus_generate ::
  "'s RtpExtensionSource list \<Rightarrow> 's \<Rightarrow> Track \<Rightarrow> int \<Rightarrow> int \<Rightarrow> bytes \<Rightarrow> RtpPacket list \<times> Track \<times> 's" where
  "opus_generate srcs st track now pts_usec frame =
     (let (frameTimestamp, track) = track_frameTimestamp track now pts_usec;
          payload = (if length frame > kMaxPayloadSize then take kMaxPayloadSize frame else frame);
          (extension, st) = buildExtension srcs st track False 0;
          ((rollover, seq), track) = track_nextSequence track
      in ([RtpPacket_new track False rollover seq frameTimestamp 0
             (if ext_empty extension then RtpExtension_none else extension) payload], track, st))"

section \<open>Bounds\<close>

lemma ext_size_bytes: "ext_size e = length (ext_bytes e)"
  using pad4_total [of "length (ext_data e)"] by (simp add: ext_size_def ext_bytes_def)

text \<open>
  Packet size: for padding of at most 255 bytes the adjusted packet size never wraps
  around, leaves room for at least half of the basic size or 345 bytes, and, when the
  extension leaves the minimum payload, the payload, padding and extension together stay
  within the basic size.
\<close>
theorem adjustPacketSize_bounds:
  assumes "padding \<le> 255" "2 \<le> basic"
  shows "0 < adjustPacketSize basic padding extension \<and>
    adjustPacketSize basic padding extension \<le> basic \<and>
    min (basic div 2) 345 \<le> adjustPacketSize basic padding extension \<and>
    (padding \<le> basic div 2 \<and> ext_size extension + kMinPayloadSize \<le> basic \<longrightarrow>
       adjustPacketSize basic padding extension + padding + ext_size extension = basic)"
  using assms by (auto simp: adjustPacketSize_def Let_def const_defs)

lemma adjustPacketSize_bounds_witness:
  "0 < adjustPacketSize 1178 120 (ext_build [3, 2, 0, 0]) \<and>
   adjustPacketSize 1178 120 (ext_build [3, 2, 0, 0]) + 120 + ext_size (ext_build [3, 2, 0, 0]) = 1178"
  using adjustPacketSize_bounds [of 120 1178 "ext_build [3, 2, 0, 0]"]
  by (simp add: ext_size_def ext_build_def ext_empty_def const_defs)

lemmas adjust_size = adjustPacketSize_def Let_def const_defs

lemma adjustPacketSize_pos: "padding \<le> 255 \<Longrightarrow> 2 \<le> basic \<Longrightarrow> 0 < adjustPacketSize basic padding extension"
  by (auto simp: adjust_size)

lemma adjustPacketSize_le: "padding \<le> 255 \<Longrightarrow> 2 \<le> basic \<Longrightarrow> adjustPacketSize basic padding extension \<le> basic"
  by (auto simp: adjust_size)

end
