(* ===== verification/Depacketizer.thy ===== *)
theory Depacketizer
  imports Rtp_Packet
begin

text \<open>
  \<^verbatim>\<open>jitter_buffer_item.h\<close>, \<^verbatim>\<open>src/depacketizer.cpp\<close>, \<^verbatim>\<open>src/depacketizer_video.cpp\<close> and
  \<^verbatim>\<open>src/depacketizer_opus.cpp\<close>: the items of the jitter buffer, the kinds of packets, and the
  Opus depacketizer. A depacketizer is its virtual functions over a state of its own.
\<close>

datatype PacketKind = Standalone | Start | Middle | End

record JitterBufferItem =
  when_received :: int
  when_dequeue :: int
  when_nack_request :: int
  when_nack_abandon :: int
  it_received :: bool
  nack_needed :: bool
  it_kind :: PacketKind
  seq_ext :: nat
  rtp_timestamp_ext :: u64
  it_marker :: bool
  it_extension :: RtpExtension
  it_payload :: bytes

text \<open>\<^const>\<open>None\<close> in the results: the code has no defined behaviour.\<close>

record 'd Depacketizer =
  dp_getPacketKind :: "bytes \<Rightarrow> bool \<Rightarrow> PacketKind option"
  dp_reset :: "'d \<Rightarrow> 'd"
  dp_extract :: "JitterBufferItem list \<Rightarrow> 'd \<Rightarrow> (bytes list \<times> 'd) option"

definition video_getPacketKind :: "(bytes \<Rightarrow> bool option) \<Rightarrow> bytes \<Rightarrow> bool \<Rightarrow> PacketKind option" where
  "video_getPacketKind isFrameStart payload marker = do {
     s \<leftarrow> isFrameStart payload;
     Some (if s then (if marker then Standalone else Start)
           else if marker then End else Middle)
   }"

definition opus_getPacketKind :: "bytes \<Rightarrow> bool \<Rightarrow> PacketKind option" where
  "opus_getPacketKind payload marker = Some Standalone"

definition opus_extract :: "JitterBufferItem list \<Rightarrow> bytes list option" where
  "opus_extract packetList =
     (case packetList of
        [] \<Rightarrow> None
      | packet # _ \<Rightarrow> Some (if it_payload packet \<noteq> [] then [it_payload packet] else []))"

definition depacketizer_opus :: "unit Depacketizer" where
  "depacketizer_opus =
     \<lparr>dp_getPacketKind = opus_getPacketKind, dp_reset = \<lambda>d. d,
      dp_extract = \<lambda>ps d. map_option (\<lambda>out. (out, d)) (opus_extract ps)\<rparr>"

end
