(* ===== verification/Bit_Reader.thy ===== *)
theory Bit_Reader
  imports Prelude
begin

text \<open>
  \<^verbatim>\<open>src/bit_reader.cpp\<close>: the bit-wise reader that the codecs use on slice headers, and the
  unsigned Exp-Golomb code. Reading past the end gives zero bits and does not advance.
\<close>

unbundle bit_operations_syntax

record BitReader =
  brData :: bytes
  bitPos :: nat

definition BitReader_new :: "bytes \<Rightarrow> BitReader" where
  "BitReader_new buffer = \<lparr>brData = buffer, bitPos = 0\<rparr>"

definition readBit :: "BitReader \<Rightarrow> u32 \<times> BitReader" where
  "readBit r =
     (if bitPos r div 8 \<ge> length (brData r) then (0, r)
      else let byte = brData r ! (bitPos r div 8);
               bit = ucast (drop_bit (7 - bitPos r mod 8) byte AND 1)
           in (bit, r\<lparr>bitPos := bitPos r + 1\<rparr>))"

fun readBits_loop :: "nat \<Rightarrow> u32 \<Rightarrow> BitReader \<Rightarrow> u32 \<times> BitReader" where
  "readBits_loop 0 v r = (v, r)"
| "readBits_loop (Suc n) v r =
     (let (b, r) = readBit r in readBits_loop n (push_bit 1 v OR b) r)"

definition readBits :: "nat \<Rightarrow> BitReader \<Rightarrow> u32 \<times> BitReader" where
  "readBits n r = readBits_loop n 0 r"

text \<open>The count of leading zeros; the bit that ends the loop is consumed.\<close>

function leadingZeros_loop :: "nat \<Rightarrow> BitReader \<Rightarrow> nat \<times> BitReader" where
  "leadingZeros_loop leadingZeros r =
     (let (b, r) = readBit r in
      if b = 0 \<and> leadingZeros < 32 then leadingZeros_loop (leadingZeros + 1) r
      else (leadingZeros, r))"
  by pat_completeness auto
termination
  by (relation "measure (\<lambda>(n, _). 32 - n)") auto

declare leadingZeros_loop.simps [simp del]

text \<open>
  \<^verbatim>\<open>(1 << leadingZeros) - 1\<close> is signed 32-bit arithmetic: with 31 leading zeros the
  subtraction overflows and with 32 the shift is out of range. Both are undefined behaviour,
  modelled as \<^const>\<open>None\<close>.
\<close>

definition readUnsignedExpGolomb :: "BitReader \<Rightarrow> (u32 \<times> BitReader) option" where
  "readUnsignedExpGolomb r =
     (let (leadingZeros, r) = leadingZeros_loop 0 r in
      if leadingZeros = 0 then Some (0, r)
      else let (remainingBits, r) = readBits leadingZeros r in
        if leadingZeros \<ge> 31 then None
        else Some (push_bit leadingZeros 1 - 1 + remainingBits, r))"

section \<open>The bits ahead of the reader\<close>

definition byte_bits :: "u8 \<Rightarrow> bool list" where
  "byte_bits b = map (\<lambda>i. bit b (7 - i)) [0..<8]"

definition bits_of :: "bytes \<Rightarrow> bool list" where
  "bits_of bs = concat (map byte_bits bs)"

definition br_unread :: "BitReader \<Rightarrow> bool list" where
  "br_unread r = drop (bitPos r) (bits_of (brData r))"

definition br_advance :: "nat \<Rightarrow> BitReader \<Rightarrow> BitReader" where
  "br_advance n r = r\<lparr>bitPos := bitPos r + n\<rparr>"

lemma br_advance_simps [simp]:
  "br_advance 0 r = r" "br_advance m (br_advance n r) = br_advance (n + m) r"
  by (simp_all add: br_advance_def)

lemma br_unread_advance: "br_unread (br_advance n r) = drop n (br_unread r)"
  by (simp add: br_unread_def br_advance_def add.commute)

lemma length_byte_bits [simp]: "length (byte_bits b) = 8"
  by (simp add: byte_bits_def)

lemma length_bits_of [simp]: "length (bits_of bs) = 8 * length bs"
  by (induction bs) (simp_all add: bits_of_def)

lemma bits_of_nth:
  "i < 8 * length bs \<Longrightarrow> bits_of bs ! i = bit (bs ! (i div 8)) (7 - i mod 8)"
proof (induction bs arbitrary: i)
  case (Cons b bs)
  show ?case
  proof (cases "i < 8")
    case True
    then show ?thesis by (simp add: bits_of_def nth_append byte_bits_def)
  next
    case False
    then obtain j where j: "i = 8 + j" using le_Suc_ex not_le by blast
    then have "bits_of (b # bs) ! i = bits_of bs ! j"
      by (simp add: bits_of_def nth_append)
    moreover have "i div 8 = Suc (j div 8)" "i mod 8 = j mod 8" using j by simp_all
    ultimately show ?thesis using Cons j by simp
  qed
qed simp

lemma readBit_eq:
  "readBit r = (case br_unread r of [] \<Rightarrow> (0, r) | b # bs \<Rightarrow> (of_bool b, br_advance 1 r))"
proof (cases "bitPos r < 8 * length (brData r)")
  case True
  then have u: "br_unread r = bits_of (brData r) ! bitPos r # drop (Suc (bitPos r)) (bits_of (brData r))"
    by (simp add: br_unread_def Cons_nth_drop_Suc)
  have "ucast (drop_bit n byte AND 1) = (of_bool (bit byte n) :: u32)" for n and byte :: u8
    by (rule bit_word_eqI) (auto simp: bit_simps)
  moreover have "bitPos r div 8 < length (brData r)" using True by simp
  ultimately show ?thesis
    using True by (simp add: u readBit_def bits_of_nth br_advance_def Let_def)
next
  case False
  then show ?thesis by (simp add: readBit_def br_unread_def less_mult_imp_div_less)
qed

lemma readBit_Cons:
  "br_unread r = b # bs \<Longrightarrow> readBit r = (of_bool b, br_advance 1 r) \<and> br_unread (br_advance 1 r) = bs"
  by (simp add: readBit_eq br_unread_advance)

fun bits_val :: "nat \<Rightarrow> bool list \<Rightarrow> nat" where
  "bits_val v [] = v"
| "bits_val v (b # bs) = bits_val (2 * v + of_bool b) bs"

lemma push_or_bit: "push_bit 1 v OR of_bool b = 2 * v + (of_bool b :: 'a::len word)"
proof -
  have "push_bit 1 v AND of_bool b = (0 :: 'a word)"
    by (rule bit_word_eqI) (auto simp: bit_and_iff bit_push_bit_iff bit_of_bool_iff simp del: push_bit_Suc)
  then have "push_bit 1 v OR of_bool b = push_bit 1 v + (of_bool b :: 'a word)"
    by (rule disjunctive_add_eq_or [symmetric])
  then show ?thesis by (simp add: push_bit_eq_mult mult.commute)
qed

lemma readBits_loop_eq:
  "br_unread r = bs @ rest \<Longrightarrow> length bs = n \<Longrightarrow>
     readBits_loop n (of_nat v) r = (of_nat (bits_val v bs), br_advance n r)"
proof (induction n arbitrary: v bs r)
  case (Suc n)
  then obtain b bs' where bs: "bs = b # bs'" "length bs' = n" by (cases bs) auto
  then have rb: "readBit r = (of_bool b, br_advance 1 r)" "br_unread (br_advance 1 r) = bs' @ rest"
    using readBit_Cons [of r b "bs' @ rest"] Suc.prems by auto
  have "push_bit 1 (of_nat v) OR of_bool b = (of_nat (2 * v + of_bool b) :: u32)"
    by (simp add: push_or_bit [simplified])
  then show ?case
    using Suc.IH [OF rb(2) bs(2), of "2 * v + of_bool b"] rb(1) bs by simp
qed simp

lemma readBits_eq:
  "br_unread r = bs @ rest \<Longrightarrow> readBits (length bs) r = (of_nat (bits_val 0 bs), br_advance (length bs) r)"
  using readBits_loop_eq [of r bs rest "length bs" 0] by (simp add: readBits_def)

lemma leadingZeros_loop_eq:
  "br_unread r = replicate k False @ True # rest \<Longrightarrow> n + k \<le> 32 \<Longrightarrow>
     leadingZeros_loop n r = (n + k, br_advance (Suc k) r)"
proof (induction k arbitrary: n r)
  case 0
  then show ?case using readBit_Cons [of r True rest] by (simp add: leadingZeros_loop.simps [of n])
next
  case (Suc k)
  then have "readBit r = (0, br_advance 1 r)" "br_unread (br_advance 1 r) = replicate k False @ True # rest"
    using readBit_Cons [of r False "replicate k False @ True # rest"] by auto
  then show ?case using Suc.IH [of "br_advance 1 r" "Suc n"] Suc.prems
    by (simp add: leadingZeros_loop.simps [of n])
qed

section \<open>The Exp-Golomb code\<close>

text \<open>The encoding of the standard: the binary digits of \<open>v + 1\<close> after as many zeros as
  there are digits below the leading one.\<close>

function floor_log2 :: "nat \<Rightarrow> nat" where
  "floor_log2 n = (if n \<le> 1 then 0 else Suc (floor_log2 (n div 2)))"
  by pat_completeness auto
termination by (relation "measure id") auto

declare floor_log2.simps [simp del]

fun low_bits :: "nat \<Rightarrow> nat \<Rightarrow> bool list" where
  "low_bits 0 x = []"
| "low_bits (Suc n) x = low_bits n (x div 2) @ [odd x]"

definition ue_bits :: "nat \<Rightarrow> bool list" where
  "ue_bits v = (let k = floor_log2 (v + 1) in replicate k False @ True # low_bits k (v + 1))"

lemma floor_log2_bounds: "0 < n \<Longrightarrow> 2 ^ floor_log2 n \<le> n \<and> n < 2 ^ Suc (floor_log2 n)"
proof (induction n rule: floor_log2.induct)
  case (1 n)
  show ?case
  proof (cases "n \<le> 1")
    case True then show ?thesis using "1.prems" by (simp add: floor_log2.simps [of n])
  next
    case False
    then have "0 < n div 2" by simp
    then have "2 ^ floor_log2 (n div 2) \<le> n div 2 \<and> n div 2 < 2 ^ Suc (floor_log2 (n div 2))"
      using "1.IH" False by blast
    then have "2 * 2 ^ floor_log2 (n div 2) \<le> n \<and> n < 2 * (2 * 2 ^ floor_log2 (n div 2))"
      unfolding power_Suc by linarith
    then show ?thesis using False by (simp add: floor_log2.simps [of n])
  qed
qed

lemma length_low_bits [simp]: "length (low_bits n x) = n"
  by (induction n arbitrary: x) auto

lemma bits_val_append: "bits_val v (xs @ ys) = bits_val (bits_val v xs) ys"
  by (induction xs arbitrary: v) auto

lemma bits_val_low_bits: "bits_val 0 (low_bits n x) = x mod 2 ^ n"
proof (induction n arbitrary: x)
  case (Suc n)
  have "x mod 2 ^ Suc n = 2 * (x div 2 mod 2 ^ n) + x mod 2"
    by (simp add: mod_mult2_eq add.commute)
  then show ?case using Suc by (simp add: bits_val_append mod_2_eq_odd)
qed simp

text \<open>
  Exp-Golomb round trip: on the encoding of any value below \<open>2 ^ 31 - 1\<close>, followed by
  any bits, \<^verbatim>\<open>readUnsignedExpGolomb\<close> returns the value and stops right after the code.
\<close>
theorem exp_golomb_roundtrip:
  assumes "br_unread r = ue_bits v @ rest" "v < 2 ^ 31 - 1"
  shows "\<exists>r'. readUnsignedExpGolomb r = Some (of_nat v, r') \<and> br_unread r' = rest"
proof -
  let ?k = "floor_log2 (v + 1)"
  have b: "2 ^ ?k \<le> v + 1" "v + 1 < 2 ^ Suc ?k" using floor_log2_bounds [of "v + 1"] by simp_all
  have k: "?k < 31"
  proof (rule ccontr)
    assume "\<not> ?k < 31"
    then have "(2::nat) ^ 31 \<le> 2 ^ ?k" by (intro power_increasing) auto
    then show False using b(1) assms(2) by linarith
  qed
  have u: "br_unread r = replicate ?k False @ True # (low_bits ?k (v + 1) @ rest)"
    using assms(1) by (simp add: ue_bits_def Let_def)
  have lz: "leadingZeros_loop 0 r = (?k, br_advance (Suc ?k) r)"
    using leadingZeros_loop_eq [OF u, of 0] k by simp
  have u': "br_unread (br_advance (Suc ?k) r) = low_bits ?k (v + 1) @ rest"
    using u by (simp add: br_unread_advance)
  have rb: "readBits ?k (br_advance (Suc ?k) r) = (of_nat ((v + 1) mod 2 ^ ?k), br_advance (Suc ?k + ?k) r)"
    using readBits_eq [OF u'] by (simp add: bits_val_low_bits)
  have rest: "br_unread (br_advance (Suc ?k + ?k) r) = rest"
    using u' br_unread_advance [of ?k "br_advance (Suc ?k) r"] by simp
  have "2 ^ ?k + (v + 1) mod 2 ^ ?k = v + 1"
  proof -
    have "(v + 1) mod 2 ^ ?k = v + 1 - 2 ^ ?k" using b by (simp add: mod_if)
    then show ?thesis using b(1) by linarith
  qed
  then have "push_bit ?k 1 - 1 + of_nat ((v + 1) mod 2 ^ ?k) = (of_nat v :: u32)"
    by (metis (no_types, lifting) add_diff_cancel_right' add_diff_eq diff_add_eq of_nat_1 of_nat_add
        of_nat_numeral of_nat_power push_bit_of_1)
  then show ?thesis
    using lz rb rest k b by (cases "?k = 0") (auto simp: readUnsignedExpGolomb_def)
qed

lemma exp_golomb_roundtrip_witness:
  "\<exists>r'. readUnsignedExpGolomb (BitReader_new [0x28]) = Some (4, r') \<and> br_unread r' = [False, False, False]"
proof -
  have "bits_of [0x28] = [False, False, True, False, True, False, False, False]"
    by (simp add: bits_of_def byte_bits_def upt_conv_Cons)
  moreover have "ue_bits 4 = [False, False, True, False, True]"
    by code_simp
  ultimately have "br_unread (BitReader_new [0x28]) = ue_bits 4 @ [False, False, False]"
    by (simp add: br_unread_def BitReader_new_def)
  then show ?thesis using exp_golomb_roundtrip [of "BitReader_new [0x28]" 4] by simp
qed

lemma leadingZeros_all_zero:
  "\<forall>b\<in>set (br_unread r). \<not> b \<Longrightarrow> n \<le> 32 \<Longrightarrow> fst (leadingZeros_loop n r) = 32"
proof (induction "32 - n" arbitrary: n r)
  case 0
  then show ?case by (subst leadingZeros_loop.simps) (simp add: case_prod_beta)
next
  case (Suc k)
  obtain r' where r': "readBit r = (0, r')" "\<forall>b\<in>set (br_unread r'). \<not> b"
    using Suc.prems(1) by (cases "br_unread r") (auto simp: readBit_eq br_unread_advance)
  show ?case using Suc.hyps(1) [of "Suc n" r'] Suc.hyps(2) Suc.prems(2) r'
    by (simp add: leadingZeros_loop.simps [of n])
qed

text \<open>
  On data that is all zero bytes the decoder counts 32 leading zeros and the shift
  \<^verbatim>\<open>1 << leadingZeros\<close> is undefined; received slice data can be all zeros.
\<close>
theorem exp_golomb_zeros_undefined: "readUnsignedExpGolomb (BitReader_new (replicate n 0)) = None"
proof -
  have "set (bits_of (replicate n 0)) \<subseteq> {False}"
    by (induction n) (auto simp: bits_of_def byte_bits_def)
  then have "fst (leadingZeros_loop 0 (BitReader_new (replicate n 0))) = 32"
    by (intro leadingZeros_all_zero) (auto simp: br_unread_def BitReader_new_def)
  then show ?thesis by (auto simp: readUnsignedExpGolomb_def Let_def split: prod.splits)
qed

end
