(* ===== verification/Codec_H264.thy ===== *)
theory Codec_H264
  imports Bit_Reader "HOL-Library.Monad_Syntax"
begin

text \<open>
  \<^verbatim>\<open>src/codec_h264.cpp\<close>: the Annex B parser that splits an encoded frame into NAL units and
  the classification of NAL units. A read outside of the frame is \<^const>\<open>None\<close>.
\<close>

unbundle bit_operations_syntax

definition kPacket_STAP_A :: u8 where [const_defs]: "kPacket_STAP_A = 24"
definition kPacket_FU_A :: u8 where [const_defs]: "kPacket_FU_A = 28"
definition NonKeyFrame :: u8 where [const_defs]: "NonKeyFrame = 1"
definition KeyFrame :: u8 where [const_defs]: "KeyFrame = 5"
definition SEI :: u8 where [const_defs]: "SEI = 6"
definition SPS :: u8 where [const_defs]: "SPS = 7"
definition PPS :: u8 where [const_defs]: "PPS = 8"

section \<open>Start codes\<close>

text \<open>The conjunctions of the code short-circuit: a later byte is read only if the earlier
  ones match.\<close>

fun match_at :: "bytes \<Rightarrow> nat \<Rightarrow> bytes \<Rightarrow> bool option" where
  "match_at buf pos [] = Some True"
| "match_at buf pos (c # cs) = do {
     b \<leftarrow> read_at buf pos;
     if b = c then match_at buf (pos + 1) cs else Some False
   }"

definition is_nalu_4 :: "bytes \<Rightarrow> nat \<Rightarrow> nat \<Rightarrow> bool option" where
  "is_nalu_4 buf pos end_pos =
     (if pos < size_sub end_pos 4 then match_at buf pos [0, 0, 0, 1] else Some False)"

definition is_nalu_3 :: "bytes \<Rightarrow> nat \<Rightarrow> nat \<Rightarrow> bool option" where
  "is_nalu_3 buf pos end_pos =
     (if pos < size_sub end_pos 3 then match_at buf pos [0, 0, 1] else Some False)"

text \<open>The position and the length of the next start code.\<close>

function find_next_nalu :: "bytes \<Rightarrow> nat \<Rightarrow> nat \<Rightarrow> (nat \<times> nat) option" where
  "find_next_nalu buf pos end_pos =
     (if pos < end_pos then do {
        is4 \<leftarrow> is_nalu_4 buf pos end_pos;
        if is4 then Some (pos, 4)
        else do {
          is3 \<leftarrow> is_nalu_3 buf pos end_pos;
          if is3 then Some (pos, 3) else find_next_nalu buf (pos + 1) end_pos
        }
      } else Some (end_pos, 0))"
  by pat_completeness auto
termination
  by (relation "measure (\<lambda>(_, pos, e). e - pos)") auto

declare find_next_nalu.simps [simp del]

section \<open>NaluParser\<close>

record NaluParser =
  npBuf :: bytes
  npPos :: nat
  npSkip :: nat
  npNextPos :: nat
  npNextSkip :: nat

definition NaluParser_new :: "bytes \<Rightarrow> NaluParser option" where
  "NaluParser_new buf = do {
     (pos, skip) \<leftarrow> find_next_nalu buf 0 (length buf);
     (nextPos, nextSkip) \<leftarrow> find_next_nalu buf (pos + skip) (length buf);
     Some \<lparr>npBuf = buf, npPos = pos, npSkip = skip, npNextPos = nextPos, npNextSkip = nextSkip\<rparr>
   }"

definition np_valid :: "NaluParser \<Rightarrow> bool" where
  "np_valid p \<longleftrightarrow> npPos p < length (npBuf p)"

definition isAtStart :: "NaluParser \<Rightarrow> bool" where "isAtStart p \<longleftrightarrow> npPos p = 0"

definition isAtEnd :: "NaluParser \<Rightarrow> bool" where
  "isAtEnd p \<longleftrightarrow> npNextPos p \<ge> length (npBuf p)"

definition np_next :: "NaluParser \<Rightarrow> NaluParser option" where
  "np_next p = do {
     let p' = p\<lparr>npPos := npNextPos p, npSkip := npNextSkip p\<rparr>;
     (nextPos, nextSkip) \<leftarrow> find_next_nalu (npBuf p') (npNextPos p' + npSkip p') (length (npBuf p'));
     Some (p'\<lparr>npNextPos := nextPos, npNextSkip := nextSkip\<rparr>)
   }"

definition currType :: "NaluParser \<Rightarrow> u8 option" where
  "currType p = map_option (\<lambda>b. b AND 0x1F) (read_at (npBuf p) (npPos p + npSkip p))"

definition currNaluSize :: "NaluParser \<Rightarrow> nat" where
  "currNaluSize p = size_sub (npNextPos p) (npPos p)"

definition currNalu :: "NaluParser \<Rightarrow> bytes" where
  "currNalu p = take (currNaluSize p) (drop (npPos p) (npBuf p))"

definition currDataSize :: "NaluParser \<Rightarrow> nat" where
  "currDataSize p = size_sub (size_sub (npNextPos p) (npPos p)) (npSkip p)"

definition currData :: "NaluParser \<Rightarrow> bytes" where
  "currData p = take (currDataSize p) (drop (npPos p + npSkip p) (npBuf p))"

text \<open>
  The states that a loop \<^verbatim>\<open>for (NaluParser parser(frame); parser; parser.next())\<close> goes
  through; the loop bodies do not touch the parser.
\<close>

partial_function (option) np_states :: "NaluParser \<Rightarrow> NaluParser list option" where
  "np_states p =
     (if np_valid p then do { p' \<leftarrow> np_next p; ps \<leftarrow> np_states p'; Some (p # ps) } else Some [])"

definition nalu_states :: "bytes \<Rightarrow> NaluParser list option" where
  "nalu_states frame = do { p \<leftarrow> NaluParser_new frame; np_states p }"

section \<open>Classification\<close>

definition isParameterNalu :: "u8 \<Rightarrow> bool" where
  "isParameterNalu t \<longleftrightarrow> t = SPS \<or> t = PPS"

definition isKeyFrameNalu :: "u8 \<Rightarrow> bool" where
  "isKeyFrameNalu t \<longleftrightarrow> t = KeyFrame"

definition isSliceFrameStart :: "bytes \<Rightarrow> bool option" where
  "isSliceFrameStart data =
     (if length data > 0
      then map_option (\<lambda>(v, _). v = 0) (readUnsignedExpGolomb (BitReader_new data))
      else Some False)"

definition isFrameStart :: "bytes \<Rightarrow> bool option" where
  "isFrameStart nalu =
     (if length nalu > 0 then
        (let naluType = nalu ! 0 AND 0x1F in
         if (naluType = KeyFrame \<or> naluType = NonKeyFrame) \<and> length nalu > 1
         then map_option (\<lambda>(v, _). v = 0) (readUnsignedExpGolomb (BitReader_new (drop 1 nalu)))
         else Some False)
      else Some False)"

definition isSliceNalu :: "u8 \<Rightarrow> bool" where
  "isSliceNalu t \<longleftrightarrow> t = NonKeyFrame \<or> t = KeyFrame"

section \<open>What the parser finds\<close>

text \<open>The distance to the next start code in a byte string, and the length of the code.\<close>

fun next_code :: "bytes \<Rightarrow> nat \<times> nat" where
  "next_code [] = (0, 0)"
| "next_code (b # bs) =
     (if 4 \<le> length bs \<and> take 4 (b # bs) = [0, 0, 0, 1] then (0, 4)
      else if 3 \<le> length bs \<and> take 3 (b # bs) = [0, 0, 1] then (0, 3)
      else (let (k, s) = next_code bs in (Suc k, s)))"

lemma match_at_eq:
  "length cs = n \<Longrightarrow> n + pos \<le> length buf \<Longrightarrow> match_at buf pos cs = Some (take n (drop pos buf) = cs)"
proof (induction cs arbitrary: pos n)
  case (Cons c cs)
  then have "drop pos buf = buf ! pos # drop (Suc pos) buf" by (simp add: Cons_nth_drop_Suc)
  then show ?case using Cons.IH [of "n - 1" "Suc pos"] Cons.prems by (auto simp: read_at_def)
qed simp

lemma find_next_nalu_eq:
  "4 \<le> length buf \<Longrightarrow> pos \<le> length buf \<Longrightarrow>
     find_next_nalu buf pos (length buf) =
       Some (pos + fst (next_code (drop pos buf)), snd (next_code (drop pos buf)))"
proof (induction "length buf - pos" arbitrary: pos)
  case 0
  then show ?case by (simp add: find_next_nalu.simps [of buf pos])
next
  case (Suc n)
  then have pos: "pos < length buf" by simp
  have d: "drop pos buf = buf ! pos # drop (Suc pos) buf" using pos by (simp add: Cons_nth_drop_Suc)
  have len: "length (drop (Suc pos) buf) = length buf - Suc pos" by simp
  have i4: "is_nalu_4 buf pos (length buf) =
      Some (4 \<le> length (drop (Suc pos) buf) \<and> take 4 (drop pos buf) = [0, 0, 0, 1])"
    using Suc.prems pos match_at_eq [of "[0, 0, 0, 1]" 4 pos buf] by (auto simp: is_nalu_4_def simp del: match_at.simps)
  have i3: "is_nalu_3 buf pos (length buf) =
      Some (3 \<le> length (drop (Suc pos) buf) \<and> take 3 (drop pos buf) = [0, 0, 1])"
    using Suc.prems pos match_at_eq [of "[0, 0, 1]" 3 pos buf] by (auto simp: is_nalu_3_def simp del: match_at.simps)
  have "find_next_nalu buf (Suc pos) (length buf) =
      Some (Suc pos + fst (next_code (drop (Suc pos) buf)), snd (next_code (drop (Suc pos) buf)))"
    using Suc by simp
  then show ?case
    using pos by (simp add: find_next_nalu.simps [of buf pos] i4 i3 case_prod_beta) (simp add: d case_prod_beta)
qed

lemma next_code_cases:
  "(snd (next_code xs) = 0 \<and> fst (next_code xs) = length xs) \<or>
   ((snd (next_code xs) = 3 \<or> snd (next_code xs) = 4) \<and> fst (next_code xs) + snd (next_code xs) < length xs \<and>
    xs ! fst (next_code xs) = 0)"
  by (induction xs) (auto simp: case_prod_beta take_Cons')

lemma next_code_progress:
  "next_code xs = (k, s) \<Longrightarrow> s \<noteq> 0 \<Longrightarrow> 0 < k + s \<and> k + s < length xs"
  using next_code_cases [of xs] by auto

text \<open>The NAL units of a byte string that starts right after a start code, and of a frame.\<close>

function split_nalus :: "bytes \<Rightarrow> bytes list" where
  "split_nalus xs =
     (let (k, s) = next_code xs in
      if s = 0 then [xs] else take k xs # split_nalus (drop (k + s) xs))"
  by pat_completeness auto
termination
  by (relation "measure length") (auto dest!: next_code_progress [OF sym])

declare split_nalus.simps [simp del]

definition nalus :: "bytes \<Rightarrow> bytes list" where
  "nalus frame =
     (let (k, s) = next_code frame in if s = 0 then [] else split_nalus (drop (k + s) frame))"

fun mark_last :: "'a list \<Rightarrow> ('a \<times> bool) list" where
  "mark_last [] = []"
| "mark_last [x] = [(x, True)]"
| "mark_last (x # y # zs) = (x, False) # mark_last (y # zs)"

lemma split_nalus_not_Nil [simp]: "split_nalus xs \<noteq> []"
  by (subst split_nalus.simps) (simp add: case_prod_beta)

lemma mark_last_Cons: "ys \<noteq> [] \<Longrightarrow> mark_last (x # ys) = (x, False) # mark_last ys"
  by (cases ys) simp_all

definition nalu_type :: "bytes \<Rightarrow> u8" where
  "nalu_type nalu = (if nalu = [] then 0 else hd nalu AND 0x1F)"

definition nalu_view :: "NaluParser \<Rightarrow> (bytes \<times> bool) \<times> u8 option" where
  "nalu_view p = ((currData p, isAtEnd p), currType p)"

definition typed :: "(bytes \<times> bool) list \<Rightarrow> ((bytes \<times> bool) \<times> u8 option) list" where
  "typed = map (\<lambda>(n, e). ((n, e), Some (nalu_type n)))"

text \<open>The parser stands on a start code and has looked up the next one.\<close>

definition np_at :: "NaluParser \<Rightarrow> bytes \<Rightarrow> bool" where
  "np_at p xs \<longleftrightarrow> 4 \<le> length (npBuf p) \<and> npPos p + npSkip p < length (npBuf p) \<and> 
     xs = drop (npPos p + npSkip p) (npBuf p) \<and>
     npNextPos p = npPos p + npSkip p + fst (next_code xs) \<and> npNextSkip p = snd (next_code xs)"

lemma np_at_view:
  assumes "np_at p xs"
  shows "nalu_view p = ((take (fst (next_code xs)) xs, snd (next_code xs) = 0),
    Some (nalu_type (take (fst (next_code xs)) xs)))"
proof -
  let ?k = "fst (next_code xs)"
  have xs: "xs \<noteq> []" "drop (npPos p + npSkip p) (npBuf p) = xs" using assms by (auto simp: np_at_def)
  have len: "length xs = length (npBuf p) - (npPos p + npSkip p)" using xs(2) by auto
  have d: "currData p = take ?k xs"
    using assms by (simp add: np_at_def currData_def currDataSize_def)
  have e: "isAtEnd p = (snd (next_code xs) = 0)"
    using assms len next_code_cases [of xs] by (auto simp: np_at_def isAtEnd_def)
  have "npBuf p ! (npPos p + npSkip p) = hd xs"
    using assms hd_drop_conv_nth [of "npPos p + npSkip p" "npBuf p"] xs(2) unfolding np_at_def by metis
  moreover have "?k = 0 \<Longrightarrow> hd xs = 0" using next_code_cases [of xs] xs by (auto simp: hd_conv_nth)
  ultimately have "currType p = Some (nalu_type (take ?k xs))"
    using assms xs(1) by (auto simp: currType_def np_at_def read_at_def nalu_type_def hd_take)
  then show ?thesis by (simp add: nalu_view_def d e)
qed

lemma np_states_eq:
  "np_at p xs \<Longrightarrow> \<exists>ps. np_states p = Some ps \<and> map nalu_view ps = typed (mark_last (split_nalus xs))"
proof (induction xs arbitrary: p rule: split_nalus.induct)
  case (1 xs)
  obtain k s where ks: "next_code xs = (k, s)" by fastforce
  have v: "np_valid p" using "1.prems" by (simp add: np_at_def np_valid_def)
  have view: "nalu_view p = ((take k xs, s = 0), Some (nalu_type (take k xs)))"
    using np_at_view [OF "1.prems"] ks by simp
  have len: "npNextPos p + npNextSkip p \<le> length (npBuf p)" "length xs = length (npBuf p) - (npPos p + npSkip p)"
    using "1.prems" ks next_code_cases [of xs] by (auto simp: np_at_def)
  let ?ys = "drop (npNextPos p + npNextSkip p) (npBuf p)"
  define p' where "p' = p\<lparr>npPos := npNextPos p, npSkip := npNextSkip p,
    npNextPos := npNextPos p + npNextSkip p + fst (next_code ?ys), npNextSkip := snd (next_code ?ys)\<rparr>"
  have nx: "np_next p = Some p'"
    using "1.prems" len find_next_nalu_eq [of "npBuf p" "npNextPos p + npNextSkip p"]
    by (simp add: np_next_def np_at_def p'_def)
  show ?case
  proof (cases "s = 0")
    case True
    then have "\<not> np_valid p'" "k = length xs"
      using "1.prems" ks next_code_cases [of xs] len by (auto simp: np_at_def np_valid_def p'_def)
    then show ?thesis
      using True ks v nx view
      by (simp add: np_states.simps [of p] np_states.simps [of p'] split_nalus.simps [of xs] typed_def)
  next
    case False
    have ys: "?ys = drop (k + s) xs"
      using "1.prems" ks by (auto simp: np_at_def add.commute add.left_commute)
    have "np_at p' (drop (k + s) xs)"
      using "1.prems" ks False len next_code_cases [of xs] unfolding ys [symmetric]
      by (auto simp: np_at_def p'_def)
    then obtain ps where "np_states p' = Some ps" "map nalu_view ps = typed (mark_last (split_nalus (drop (k + s) xs)))"
      using "1.IH" [OF ks [symmetric] refl False] by blast
    then show ?thesis
      using False ks v nx view
      by (simp add: np_states.simps [of p] split_nalus.simps [of xs] mark_last_Cons typed_def)
  qed
qed

lemma nalu_states_eq:
  assumes "4 \<le> length frame"
  shows "\<exists>ps. nalu_states frame = Some ps \<and> map nalu_view ps = typed (mark_last (nalus frame))"
proof -
  obtain k s where ks: "next_code frame = (k, s)" by fastforce
  have b: "k + s \<le> length frame" using next_code_cases [of frame] ks by auto
  obtain k' s' where ks': "next_code (drop (k + s) frame) = (k', s')" by fastforce
  define p where "p = \<lparr>npBuf = frame, npPos = k, npSkip = s, npNextPos = k + s + k', npNextSkip = s'\<rparr>"
  have new: "NaluParser_new frame = Some p"
    using find_next_nalu_eq [OF assms, of 0] find_next_nalu_eq [OF assms b] ks ks'
    by (simp add: NaluParser_new_def p_def)
  show ?thesis
  proof (cases "s = 0")
    case True
    then have "\<not> np_valid p" using ks next_code_cases [of frame] by (simp add: np_valid_def p_def)
    then show ?thesis
      using True ks new by (simp add: nalu_states_def np_states.simps [of p] nalus_def typed_def)
  next
    case False
    then have "np_at p (drop (k + s) frame)"
      using ks ks' assms next_code_cases [of frame] by (auto simp: np_at_def p_def)
    then show ?thesis using np_states_eq new False ks by (simp add: nalu_states_def nalus_def)
  qed
qed

text \<open>An Annex B stream with four-byte start codes.\<close>

definition annexb :: "bytes list \<Rightarrow> bytes" where
  "annexb ns = concat (map (\<lambda>n. [0, 0, 0, 1] @ n) ns)"

text \<open>What emulation prevention guarantees of a NAL unit: no start code in it, no zero at its end.\<close>

fun no_code :: "bytes \<Rightarrow> bool" where
  "no_code (a # b # c # xs) \<longleftrightarrow> \<not> (a = 0 \<and> b = 0 \<and> c = 1) \<and> no_code (b # c # xs)"
| "no_code _ \<longleftrightarrow> True"

definition nalu_ok :: "bytes \<Rightarrow> bool" where
  "nalu_ok n \<longleftrightarrow> n \<noteq> [] \<and> last n \<noteq> 0 \<and> no_code n"

lemma no_code_ConsD: "no_code (a # xs) \<Longrightarrow> no_code xs"
  by (cases xs rule: no_code.cases) auto

lemma nalu_ok_tl: "nalu_ok (a # xs) \<Longrightarrow> xs \<noteq> [] \<Longrightarrow> nalu_ok xs"
  by (auto simp: nalu_ok_def dest: no_code_ConsD)

lemma nalu_ok_no_match:
  assumes "nalu_ok n"
  shows "take 3 (n @ ys) \<noteq> [0, 0, 1]" "take 4 (n @ ys) \<noteq> [0, 0, 0, 1]"
proof -
  consider a where "n = [a]" "a \<noteq> 0" | a b where "n = [a, b]" "b \<noteq> 0"
    | a b c where "n = [a, b, c]" "\<not> (a = 0 \<and> b = 0 \<and> c = 1)" "c \<noteq> 0"
    | a b c d xs where "n = a # b # c # d # xs" "\<not> (a = 0 \<and> b = 0 \<and> c = 1)" "\<not> (b = 0 \<and> c = 0 \<and> d = 1)"
    using assms by (cases n rule: no_code.cases; cases "tl (tl (tl n))") (auto simp: nalu_ok_def)
  then show "take 3 (n @ ys) \<noteq> [0, 0, 1]" "take 4 (n @ ys) \<noteq> [0, 0, 0, 1]"
    by (cases; auto simp: numeral_eq_Suc)+
qed

lemma next_code_nalu:
  "nalu_ok n \<Longrightarrow> next_code n = (length n, 0)"
  "nalu_ok n \<Longrightarrow> rest \<noteq> [] \<Longrightarrow> next_code (n @ [0, 0, 0, 1] @ rest) = (length n, 4)"
proof -
  have code: "rest \<noteq> [] \<Longrightarrow> next_code ([0, 0, 0, 1] @ rest) = (0, 4)" for rest
    by (cases rest) auto
  show "nalu_ok n \<Longrightarrow> next_code n = (length n, 0)"
  proof (induction n)
    case (Cons a n)
    then show ?case
      using nalu_ok_no_match [of "a # n" "[]"] nalu_ok_tl [of a n]
      by (cases "n = []") (auto simp del: take_Suc_Cons)
  qed simp
  show "nalu_ok n \<Longrightarrow> rest \<noteq> [] \<Longrightarrow> next_code (n @ [0, 0, 0, 1] @ rest) = (length n, 4)"
  proof (induction n)
    case (Cons a n)
    then show ?case
      using nalu_ok_no_match [of "a # n" "[0, 0, 0, 1] @ rest"] nalu_ok_tl [of a n] code [of rest]
      by (cases "n = []") (auto simp del: take_Suc_Cons)
  qed (simp add: nalu_ok_def)
qed

lemma split_nalus_annexb:
  "list_all nalu_ok (n # ns) \<Longrightarrow> split_nalus (n @ annexb ns) = n # ns"
proof (induction ns arbitrary: n)
  case Nil
  then show ?case using next_code_nalu(1) [of n] by (simp add: annexb_def split_nalus.simps [of n])
next
  case (Cons m ns)
  then have "m @ annexb ns \<noteq> []" by (simp add: nalu_ok_def)
  moreover have a: "annexb (m # ns) = [0, 0, 0, 1] @ m @ annexb ns" by (simp add: annexb_def)
  ultimately have "next_code (n @ annexb (m # ns)) = (length n, 4)"
    unfolding a using next_code_nalu(2) [of n "m @ annexb ns"] Cons.prems by simp
  moreover have "drop (length n + 4) (n @ annexb (m # ns)) = m @ annexb ns" unfolding a by simp
  ultimately show ?case
    using Cons by (simp add: split_nalus.simps [of "n @ annexb (m # ns)"])
qed

lemma nalus_annexb: "list_all nalu_ok ns \<Longrightarrow> nalus (annexb ns) = ns"
proof (cases ns)
  case Nil
  then show ?thesis by (simp add: nalus_def annexb_def)
next
  case (Cons n ms)
  assume ok: "list_all nalu_ok ns"
  have a: "annexb ns = [0, 0, 0, 1] @ n @ annexb ms" using Cons by (simp add: annexb_def)
  have "n \<noteq> []" using ok Cons by (simp add: nalu_ok_def)
  then have "next_code (annexb ns) = (0, 4)" unfolding a by (cases n) auto
  moreover have "drop 4 (annexb ns) = n @ annexb ms" unfolding a by simp
  ultimately show ?thesis
    using split_nalus_annexb [of n ms] ok Cons by (simp add: nalus_def)
qed

text \<open>
  The NAL unit parser splits an Annex B frame into exactly its NAL units: on the
  concatenation of start codes and NAL units that obey emulation prevention, the loop over
  the parser ends, visits the units in order with their types, reads nothing outside of the
  frame, and is at its end exactly on the last one.
\<close>
theorem nalu_parser_splits_annexb:
  assumes "list_all nalu_ok ns" "ns \<noteq> []"
  shows "\<exists>ps. nalu_states (annexb ns) = Some ps \<and> map currData ps = ns \<and>
    map currType ps = map (\<lambda>n. Some (hd n AND 0x1F)) ns \<and>
    map isAtEnd ps = replicate (length ns - 1) False @ [True]"
proof -
  have "4 \<le> length (annexb ns)" using assms(2) by (cases ns) (auto simp: annexb_def)
  then obtain ps where ps: "nalu_states (annexb ns) = Some ps" "map nalu_view ps = typed (mark_last ns)"
    using nalu_states_eq nalus_annexb [OF assms(1)] by metis
  have ml: "map fst (mark_last xs) = xs" for xs :: "'b list"
    by (induction xs rule: mark_last.induct) auto
  have ml2: "xs \<noteq> [] \<Longrightarrow> map snd (mark_last xs) = replicate (length xs - 1) False @ [True]" for xs :: "'b list"
    by (induction xs rule: mark_last.induct) auto
  have "map (fst \<circ> fst \<circ> nalu_view) ps = map fst (mark_last ns)"
    "map (snd \<circ> fst \<circ> nalu_view) ps = map snd (mark_last ns)"
    "map (snd \<circ> nalu_view) ps = map (\<lambda>n. Some (nalu_type n)) (map fst (mark_last ns))"
    using arg_cong [OF ps(2), of "map (fst \<circ> fst)"] arg_cong [OF ps(2), of "map (snd \<circ> fst)"]
      arg_cong [OF ps(2), of "map snd"] by (simp_all add: typed_def comp_def case_prod_beta)
  moreover have "map (\<lambda>n. Some (nalu_type n)) ns = map (\<lambda>n. Some (hd n AND 0x1F)) ns"
    using assms(1) by (auto simp: nalu_type_def nalu_ok_def list_all_iff)
  ultimately show ?thesis
    using ps(1) ml [of ns] ml2 [OF assms(2)] by (simp add: nalu_view_def comp_def)
qed

lemma nalu_parser_splits_annexb_witness:
  "\<exists>ps. nalu_states [0, 0, 0, 1, 0x67, 9, 0, 0, 0, 1, 0x65, 0, 3] = Some ps \<and> map currData ps = [[0x67, 9], [0x65, 0, 3]]"
  using nalu_parser_splits_annexb [of "[[0x67, 9], [0x65, 0, 3]]"]
  by (auto simp: annexb_def nalu_ok_def)

text \<open>
  A buffer of one zero byte makes the parser read past its end: the bound \<^verbatim>\<open>end - 4\<close>
  wraps around for buffers shorter than four bytes.
\<close>
theorem nalu_parser_short_buffer: "NaluParser_new [0] = None"
  by (simp add: NaluParser_new_def find_next_nalu.simps is_nalu_4_def size_sub_def read_at_def)

end
