(* ===== verification/Nal_Fragments.thy ===== *)
theory Nal_Fragments
  imports Packetizer Depacketizer Codec_H264
begin

text \<open>
  What the H.264 and H.265 packetizers and depacketizers share: packets that are numbered and framed, the loop that cuts
  a NAL unit into fragments (the locales \<open>fu_loop\<close> and \<open>nal_packets\<close>), and what it means that packets hand NAL units over
  to a receiver (\<open>nal_receiver\<close>).
\<close>

unbundle bit_operations_syntax

section \<open>Numbered and framed packets\<close>

text \<open>The packets carry the sequence numbers that the source hands out next.\<close>

fun source_after :: "nat \<Rightarrow> RtpPacketSource \<Rightarrow> RtpPacketSource" where
  "source_after 0 s = s"
| "source_after (Suc n) s = source_after n (snd (getNextSequence s))"

definition numbered :: "Track \<Rightarrow> RtpPacket list \<Rightarrow> Track \<Rightarrow> bool" where
  "numbered track ps track' \<longleftrightarrow>
     map (\<lambda>p. (pkt_rollover p, pkt_sequence p)) ps = next_sequences (length ps) (track_rtpPacketSource track) \<and>
     track' = track\<lparr>track_rtpPacketSource := source_after (length ps) (track_rtpPacketSource track)\<rparr>"

lemma numbered_Nil: "numbered track [] track"
  by (simp add: numbered_def)

lemma numbered_append: "numbered a xs b \<Longrightarrow> numbered b ys c \<Longrightarrow> numbered a (xs @ ys) c"
proof -
  have "next_sequences (m + n) s = next_sequences m s @ next_sequences n (source_after m s)"
    "source_after (m + n) s = source_after n (source_after m s)" for m n s
    by (induction m arbitrary: s) auto
  then show "numbered a xs b \<Longrightarrow> numbered b ys c \<Longrightarrow> numbered a (xs @ ys) c" by (auto simp: numbered_def)
qed

lemma numbered_single:
  assumes "track_nextSequence track = ((r, s), track')" "pkt_rollover p = r" "pkt_sequence p = s"
  shows "numbered track [p] track'"
  using assms by (auto simp: numbered_def track_nextSequence_def split: prod.splits)

lemma RtpPacket_new_fields [simp]:
  "pkt_payload (RtpPacket_new t m r s ts pad e pl) = pl" "pkt_marker (RtpPacket_new t m r s ts pad e pl) = m"
  "pkt_timestamp (RtpPacket_new t m r s ts pad e pl) = ts" "pkt_rollover (RtpPacket_new t m r s ts pad e pl) = r"
  "pkt_sequence (RtpPacket_new t m r s ts pad e pl) = s" "pkt_paddingSize (RtpPacket_new t m r s ts pad e pl) = pad"
  "pkt_extension (RtpPacket_new t m r s ts pad e pl) = e"
  by (simp_all add: RtpPacket_new_def)

text \<open>All packets have the timestamp, and only the last one the marker.\<close>

definition framed :: "u32 \<Rightarrow> bool \<Rightarrow> RtpPacket list \<Rightarrow> bool" where
  "framed ts m ps \<longleftrightarrow> list_all (\<lambda>p. pkt_timestamp p = ts) ps \<and>
     (ps \<noteq> [] \<longrightarrow> map pkt_marker ps = replicate (length ps - 1) False @ [m])"

lemma framed_append: "framed ts False xs \<Longrightarrow> framed ts m ys \<Longrightarrow> ys \<noteq> [] \<Longrightarrow> framed ts m (xs @ ys)"
proof -
  assume a: "framed ts False xs" "framed ts m ys" "ys \<noteq> []"
  have "map pkt_marker xs = replicate (length xs) False"
    using a(1) by (cases xs) (auto simp: framed_def replicate_append_same simp flip: replicate_Suc)
  moreover have "length xs + length ys - 1 = length xs + (length ys - 1)" using a(3) by (cases ys) auto
  ultimately show "framed ts m (xs @ ys)"
    using a by (auto simp: framed_def replicate_add)
qed

section \<open>Fragments\<close>

text \<open>
  The payloads of a NAL unit that is cut into pieces: each piece follows a header, which says whether it is the first and
  whether it is the last one.
\<close>

fun pieces :: "(bool \<Rightarrow> bool \<Rightarrow> bytes) \<Rightarrow> bool \<Rightarrow> bytes list \<Rightarrow> bytes list" where
  "pieces hdr isStart [] = []"
| "pieces hdr isStart [c] = [hdr isStart True @ c]"
| "pieces hdr isStart (c # d # cs) = (hdr isStart False @ c) # pieces hdr False (d # cs)"

lemma pieces_Nil [simp]: "pieces hdr isStart cs = [] \<longleftrightarrow> cs = []"
  by (cases "(hdr, isStart, cs)" rule: pieces.cases) auto

lemma pieces_ne: "map f ps = pieces hdr s cs \<Longrightarrow> cs \<noteq> [] \<Longrightarrow> ps \<noteq> []"
  by (metis list.map_disc_iff pieces_Nil)

lemma pieces_bounded:
  "(\<And>a b. length (hdr a b) = h) \<Longrightarrow> list_all (\<lambda>c. length c \<le> k - h) chunks \<Longrightarrow> h \<le> k \<Longrightarrow>
     list_all (\<lambda>x. length x \<le> k) (pieces hdr s chunks)"
  by (induction hdr s chunks rule: pieces.induct) auto

text \<open>
  The fragmentation loops of \<^verbatim>\<open>PacketizerH264::generate\<close> and \<^verbatim>\<open>PacketizerH265::generate\<close>: they differ in
  the header, of \<open>hsize\<close> bytes, that is made of what \<open>'k\<close> says about the unit.
\<close>

locale fu_loop =
  fixes hsize :: nat and hdr :: "'k \<Rightarrow> bool \<Rightarrow> bool \<Rightarrow> bytes" and key :: "'k \<Rightarrow> bool"
    and loop :: "'s RtpExtensionSource list \<Rightarrow> nat \<Rightarrow> 'k \<Rightarrow> nat \<Rightarrow> bool \<Rightarrow> u32 \<Rightarrow> nat \<Rightarrow> u8 \<Rightarrow> RtpExtension \<Rightarrow> bytes \<Rightarrow>
      Track \<Rightarrow> 's \<Rightarrow> (RtpPacket list \<times> Track \<times> 's) option"
  assumes loop_end: "loop srcs basic k nsz atEnd ts pn padding ext [] track st = Some ([], track, st)"
    and loop_step: "data \<noteq> [] \<Longrightarrow> track_nextSequence track = ((rollover, seq), track1) \<Longrightarrow>
      (if pn > 0 then getPadding srcs st track1 nsz else (padding, st)) = (padding', st1) \<Longrightarrow>
      (if pn > 0 then buildExtension srcs st1 track1 (key k) pn else (ext, st1)) = (ext', st2) \<Longrightarrow>
      sz0 = adjustPacketSize (size_sub basic hsize) (unat padding') ext' \<Longrightarrow>
      sz = (if pn = 0 \<and> sz0 \<ge> length data then size_sub (length data) 10 else sz0) \<Longrightarrow>
      loop srcs basic k nsz atEnd ts pn padding ext data track st =
        loop srcs basic k nsz atEnd ts (pn + 1) padding' ext' (drop (min (length data) sz) data) track1 st2 \<bind> (\<lambda>(packets, track, st).
          Some (RtpPacket_new track1 (length data \<le> sz \<and> atEnd) rollover seq ts padding' ext'
            (hdr k (pn = 0) (length data \<le> sz) @ take (min (length data) sz) data) # packets, track, st))"
    and hdr_size: "length (hdr k a b) = hsize"
begin

text \<open>The loop ends and cuts the data into pieces that fit, two of them or more.\<close>

lemma loop_ok:
  assumes "hsize + 10 \<le> basic"
  shows "data \<noteq> [] \<Longrightarrow> (pn = 0 \<Longrightarrow> 12 \<le> length data) \<Longrightarrow>
   \<exists>ps track' st' chunks. loop srcs basic k nsz atEnd ts pn padding ext data track st = Some (ps, track', st') \<and>
     map pkt_payload ps = pieces (hdr k) (pn = 0) chunks \<and> concat chunks = data \<and> list_all (\<lambda>c. c \<noteq> []) chunks \<and>
     (if pn = 0 then 2 else 1) \<le> length chunks \<and> framed ts atEnd ps \<and> numbered track ps track' \<and>
     list_all (\<lambda>c. length c \<le> basic - hsize) chunks"
proof (induction "length data" arbitrary: data pn padding ext track st rule: less_induct)
  case less
  obtain r s track1 where sq: "track_nextSequence track = ((r, s), track1)" by (metis surj_pair)
  obtain padding' st1 where pd: "(if pn > 0 then getPadding srcs st track1 nsz else (padding, st)) = (padding', st1)" by fastforce
  obtain ext' st2 where ex: "(if pn > 0 then buildExtension srcs st1 track1 (key k) pn else (ext, st1)) = (ext', st2)" by fastforce
  define sz0 where "sz0 = adjustPacketSize (size_sub basic hsize) (unat padding') ext'"
  define sz where "sz = (if pn = 0 \<and> sz0 \<ge> length data then size_sub (length data) 10 else sz0)"
  have pad: "unat padding' \<le> 255" using unat_u8_less [of padding'] by linarith
  have sz0: "0 < sz0" "sz0 \<le> basic - hsize"
    using adjustPacketSize_pos [OF pad, of "basic - hsize" ext'] adjustPacketSize_le [OF pad, of "basic - hsize" ext'] assms
    by (simp_all add: sz0_def)
  have sz: "0 < sz" "sz \<le> basic - hsize" "pn = 0 \<Longrightarrow> sz < length data"
    using sz0 less.prems by (auto simp: sz_def)
  define e where "e = (length data \<le> sz)"
  define c where "c = take (min (length data) sz) data"
  define rest where "rest = drop (min (length data) sz) data"
  define p where "p = RtpPacket_new track1 (e \<and> atEnd) r s ts padding' ext' (hdr k (pn = 0) e @ c)"
  have step: "loop srcs basic k nsz atEnd ts pn padding ext data track st =
      loop srcs basic k nsz atEnd ts (pn + 1) padding' ext' rest track1 st2 \<bind>
        (\<lambda>(packets, track, st). Some (p # packets, track, st))"
    unfolding p_def rest_def c_def e_def by (rule loop_step [OF less.prems(1) sq pd ex sz0_def sz_def])
  have c: "c \<noteq> []" "length c \<le> basic - hsize" "c @ rest = data"
    using less.prems(1) sz(1,2) by (auto simp: c_def rest_def)
  have num: "numbered track [p] track1" by (rule numbered_single [OF sq]) (simp_all add: p_def)
  show ?case
  proof (cases e)
    case True
    then have "rest = []" by (simp add: rest_def e_def)
    moreover have "pn \<noteq> 0" using True sz(3) e_def by auto
    ultimately show ?thesis
      using c num True step
      by (intro exI [of _ "[p]"] exI [of _ track1] exI [of _ st2] exI [of _ "[data]"]) (simp add: loop_end framed_def p_def)
  next
    case False
    then have "rest \<noteq> []" "length rest < length data" using sz(1) by (auto simp: rest_def e_def)
    from less.hyps [OF this(2) this(1), of "pn + 1" padding' ext' track1 st2]
    obtain ps track' st' chunks where IH:
      "loop srcs basic k nsz atEnd ts (pn + 1) padding' ext' rest track1 st2 = Some (ps, track', st')"
      "map pkt_payload ps = pieces (hdr k) False chunks" "concat chunks = rest" "list_all (\<lambda>c. c \<noteq> []) chunks"
      "1 \<le> length chunks" "framed ts atEnd ps" "numbered track1 ps track'" "list_all (\<lambda>c. length c \<le> basic - hsize) chunks"
      by auto
    have "chunks \<noteq> []" using IH(5) by auto
    then have ne: "chunks \<noteq> []" "ps \<noteq> []" using pieces_ne [OF IH(2)] by auto
    then have pl: "map pkt_payload (p # ps) = pieces (hdr k) (pn = 0) (c # chunks)"
      using IH(2) False by (cases chunks) (auto simp: p_def)
    have fr: "framed ts atEnd (p # ps)"
      using IH(6) ne False by (auto simp: framed_def p_def gr0_conv_Suc neq_Nil_conv)
    show ?thesis
      using IH c ne pl fr numbered_append [OF num IH(7)]
      by (intro exI [of _ "p # ps"] exI [of _ track'] exI [of _ st'] exI [of _ "c # chunks"]) (auto simp: step Suc_le_eq)
  qed
qed

end

text \<open>The packets of one unit: the unit itself, or its fragments without the first \<open>skip\<close> bytes, the header of the unit.\<close>

locale nal_packets = fu_loop +
  fixes skip :: nat and kind :: "u8 \<Rightarrow> bytes \<Rightarrow> 'a" and isKey :: "u8 \<Rightarrow> bool"
    and packets :: "'b RtpExtensionSource list \<Rightarrow> nat \<Rightarrow> u8 \<Rightarrow> bytes \<Rightarrow> bool \<Rightarrow> u32 \<Rightarrow> Track \<Rightarrow> 'b \<Rightarrow> (RtpPacket list \<times> Track \<times> 'b) option"
  assumes packets_eq: "getPadding srcs st track (length n) = (padding, st1) \<Longrightarrow> buildExtension srcs st1 track (isKey t) 0 = (ext, st2) \<Longrightarrow>
      packetSize = adjustPacketSize (getBasicPacketSize overhead) (unat padding) ext \<Longrightarrow>
      packets srcs overhead t n atEnd ts track st =
        (if packetSize \<ge> length n then
           (let ((rollover, seq), track) = track_nextSequence track
            in Some ([RtpPacket_new track atEnd rollover seq ts padding ext n], track, st2))
         else if length n > skip then
           loop srcs (getBasicPacketSize overhead) (kind t n) (length n) atEnd ts 0 padding ext (drop skip n) track st2
         else Some ([], track, st2))"
    and sizes: "skip \<le> 10" "hsize \<le> 10"
begin

definition payloads_of :: "u8 \<Rightarrow> bytes \<Rightarrow> bytes list \<Rightarrow> bool" where
  "payloads_of t n pls \<longleftrightarrow> pls = [n] \<or>
     (\<exists>chunks. pls = pieces (hdr (kind t n)) True chunks \<and> concat chunks = drop skip n \<and>
        list_all (\<lambda>c. c \<noteq> []) chunks \<and> 2 \<le> length chunks)"

lemma packets_ok:
  assumes "overhead \<le> 1000" "n \<noteq> []"
  shows "\<exists>ps track' st'. packets srcs overhead t n atEnd ts track st = Some (ps, track', st') \<and>
     ps \<noteq> [] \<and> framed ts atEnd ps \<and> numbered track ps track' \<and> payloads_of t n (map pkt_payload ps) \<and>
     list_all (\<lambda>p. length (pkt_payload p) \<le> getBasicPacketSize overhead) ps"
proof -
  let ?basic = "getBasicPacketSize overhead"
  obtain padding st1 where pad: "getPadding srcs st track (length n) = (padding, st1)" by fastforce
  obtain ext st2 where ext: "buildExtension srcs st1 track (isKey t) 0 = (ext, st2)" by fastforce
  let ?sz = "adjustPacketSize ?basic (unat padding) ext"
  have basic: "?basic = 1188 - overhead" using assms(1) by (simp add: getBasicPacketSize_def const_defs)
  have p255: "unat padding \<le> 255" using unat_u8_less [of padding] by linarith
  have sz: "94 \<le> ?sz" "?sz \<le> ?basic"
    using p255 basic assms(1) adjustPacketSize_le [OF p255, of ?basic ext] by (auto simp: adjust_size)
  note eq = packets_eq [OF pad ext refl, of overhead atEnd ts]
  show ?thesis
  proof (cases "length n \<le> ?sz")
    case True
    obtain r s track' where sq: "track_nextSequence track = ((r, s), track')" by (metis surj_pair)
    let ?p = "RtpPacket_new track' atEnd r s ts padding ext n"
    have "numbered track [?p] track'" by (rule numbered_single [OF sq]) simp_all
    then show ?thesis using True sz eq by (auto simp: framed_def payloads_of_def sq)
  next
    case False
    have data: "drop skip n \<noteq> []" "12 \<le> length (drop skip n)" "hsize + 10 \<le> ?basic"
      using False sz sizes basic assms by auto
    obtain ps track' st' chunks where l:
      "loop srcs ?basic (kind t n) (length n) atEnd ts 0 padding ext (drop skip n) track st2 = Some (ps, track', st')"
      "map pkt_payload ps = pieces (hdr (kind t n)) True chunks" "concat chunks = drop skip n"
      "list_all (\<lambda>c. c \<noteq> []) chunks" "2 \<le> length chunks" "framed ts atEnd ps" "numbered track ps track'"
      "list_all (\<lambda>c. length c \<le> ?basic - hsize) chunks"
      using loop_ok [OF data(3,1), of 0] data(2) by fastforce
    have "list_all (\<lambda>x. length x \<le> ?basic) (map pkt_payload ps)"
      using pieces_bounded [OF hdr_size l(8)] data(3) by (simp add: l(2))
    then have "list_all (\<lambda>p. length (pkt_payload p) \<le> ?basic) ps" by (simp add: list.pred_map comp_def)
    moreover have "ps \<noteq> []" using pieces_ne [OF l(2)] l(5) by fastforce
    moreover have "packets srcs overhead t n atEnd ts track st = Some (ps, track', st')" using eq False l(1) data(2) by auto
    ultimately show ?thesis using l by (auto simp: payloads_of_def)
  qed
qed

end

section \<open>What the receiver is given\<close>

text \<open>The item that the receiver makes of a packet.\<close>

definition carries :: "u64 \<Rightarrow> RtpPacket \<Rightarrow> JitterBufferItem \<Rightarrow> bool" where
  "carries ts p item \<longleftrightarrow> it_payload item = pkt_payload p \<and> it_marker item = pkt_marker p \<and> rtp_timestamp_ext item = ts"

lemma carries_lists:
  "list_all2 (carries ts) ps items \<Longrightarrow> map it_payload items = map pkt_payload ps \<and>
     map it_marker items = map pkt_marker ps \<and> list_all (\<lambda>i. rtp_timestamp_ext i = ts) items"
  by (induction rule: list_all2_induct) (auto simp: carries_def)


text \<open>
  Appending to a list of frames.
\<close>

definition emit :: "bool \<Rightarrow> bytes list \<Rightarrow> bytes \<Rightarrow> bytes list" where
  "emit m out frame = (if m then out @ [frame] else out)"

lemma annexb_simps [simp]:
  "annexb [] = []" "annexb (ns @ ms) = annexb ns @ annexb ms"
  by (simp_all add: annexb_def)

text \<open>
  The packets hand over the NAL units \<open>ns\<close>, the last of them with the marker iff \<open>m\<close>: a depacketizer whose
  loop over packets is \<open>loop\<close> appends the units to the part of the frame that it has \<open>collected\<close>, and emits the frame if
  there is a marker. Until it is \<open>ready\<close> it takes only units that \<open>free\<close> holds for.
\<close>

definition hands_over :: "(JitterBufferItem list \<Rightarrow> 'f \<times> bytes list \<times> 'd \<Rightarrow> ('f \<times> bytes list \<times> 'd) option) \<Rightarrow> ('d \<Rightarrow> bool) \<Rightarrow>
    (bytes \<Rightarrow> bool) \<Rightarrow> ('d \<Rightarrow> u64 \<Rightarrow> bytes) \<Rightarrow> u64 \<Rightarrow> JitterBufferItem list \<Rightarrow> bytes list \<Rightarrow> bool \<Rightarrow> bool" where
  "hands_over loop ready free collected ts items ns m \<longleftrightarrow>
     (\<forall>fu out d. ready d \<or> (\<forall>n\<in>set ns. free n) \<longrightarrow>
        (\<exists>fu' d'. loop items (fu, out, d) = Some (fu', emit m out (collected d ts @ annexb ns), d') \<and>
           (\<not> m \<longrightarrow> collected d' ts = collected d ts @ annexb ns) \<and> (ready d \<longrightarrow> ready d')))"

locale nal_receiver =
  fixes loop :: "JitterBufferItem list \<Rightarrow> 'f \<times> bytes list \<times> 'd \<Rightarrow> ('f \<times> bytes list \<times> 'd) option"
    and ready :: "'d \<Rightarrow> bool" and free :: "bytes \<Rightarrow> bool" and collected :: "'d \<Rightarrow> u64 \<Rightarrow> bytes"
  assumes loop_Nil: "loop [] x = Some x"
    and loop_append: "loop (xs @ ys) x = loop xs x \<bind> loop ys"
begin

lemma hands_over_Nil: "hands_over loop ready free collected ts [] [] False"
  by (simp add: hands_over_def emit_def loop_Nil)

lemma hands_over_append:
  assumes "hands_over loop ready free collected ts xs ns False" "hands_over loop ready free collected ts ys ms m"
  shows "hands_over loop ready free collected ts (xs @ ys) (ns @ ms) m"
  unfolding hands_over_def
proof (intro allI impI)
  fix fu out d
  assume r: "ready d \<or> (\<forall>n\<in>set (ns @ ms). free n)"
  then obtain fu' d' where 1: "loop xs (fu, out, d) = Some (fu', out, d')"
    "collected d' ts = collected d ts @ annexb ns" "ready d \<longrightarrow> ready d'"
    using assms(1) [unfolded hands_over_def, rule_format, of d fu out] by (auto simp: emit_def)
  then have r': "ready d' \<or> (\<forall>n\<in>set ms. free n)" using r by auto
  show "\<exists>fu' d'. loop (xs @ ys) (fu, out, d) = Some (fu', emit m out (collected d ts @ annexb (ns @ ms)), d') \<and>
      (\<not> m \<longrightarrow> collected d' ts = collected d ts @ annexb (ns @ ms)) \<and> (ready d \<longrightarrow> ready d')"
    using assms(2) [unfolded hands_over_def, rule_format, OF r', of fu' out] 1 by (auto simp: loop_append)
qed

lemma hands_over_Cons:
  "hands_over loop ready free collected ts xs [n] False \<Longrightarrow> hands_over loop ready free collected ts ys ms m \<Longrightarrow>
     hands_over loop ready free collected ts (xs @ ys) (n # ms) m"
  using hands_over_append [of ts xs "[n]" ys ms m] by simp

end

text \<open>
  A depacketizer that takes whole units and fragments: \<open>extractImpl\<close> is what it does with a unit, \<open>whole\<close> says which
  payloads are units, and \<open>start k\<close> is the beginning of a unit whose fragments have the header \<open>hdr k\<close>.
\<close>

locale fu_receiver = nal_receiver loop ready free collected
  for loop :: "JitterBufferItem list \<Rightarrow> bytes option \<times> bytes list \<times> 'd \<Rightarrow> (bytes option \<times> bytes list \<times> 'd) option"
    and ready :: "'d \<Rightarrow> bool" and free :: "bytes \<Rightarrow> bool" and collected :: "'d \<Rightarrow> u64 \<Rightarrow> bytes" +
  fixes extractImpl :: "JitterBufferItem \<Rightarrow> bytes \<Rightarrow> bytes list \<times> 'd \<Rightarrow> bytes list \<times> 'd"
    and whole :: "bytes \<Rightarrow> bool" and hdr :: "'k \<Rightarrow> bool \<Rightarrow> bool \<Rightarrow> bytes" and start :: "'k \<Rightarrow> bytes" and ok :: "'k \<Rightarrow> bool"
  assumes accept: "n \<noteq> [] \<Longrightarrow> ready d \<or> free n \<Longrightarrow>
      \<exists>d'. extractImpl p n (out, d) = (emit (it_marker p) out (collected d (rtp_timestamp_ext p) @ annexb [n]), d') \<and>
        (\<not> it_marker p \<longrightarrow> collected d' (rtp_timestamp_ext p) = collected d (rtp_timestamp_ext p) @ annexb [n]) \<and>
        (ready d \<longrightarrow> ready d')"
    and single: "whole n \<Longrightarrow> it_payload p = n \<Longrightarrow> loop [p] (fu, out, d) = Some (fu, extractImpl p n (out, d))"
    and fragment: "ok k \<Longrightarrow> chunk \<noteq> [] \<Longrightarrow> it_payload p = hdr k s e @ chunk \<Longrightarrow>
      loop [p] (fu, out, d) =
        map_option (\<lambda>buf. (Some (buf @ chunk), if e then extractImpl p (buf @ chunk) (out, d) else (out, d)))
          (if s then Some (start k) else fu)"
begin

lemma loop_Cons: "loop (p # ps) x = loop [p] x \<bind> loop ps"
  using loop_append [of "[p]" ps x] by simp

lemma fragments_rest:
  "map it_payload ps = pieces (hdr k) False chunks \<Longrightarrow> chunks \<noteq> [] \<Longrightarrow> list_all (\<lambda>c. c \<noteq> []) chunks \<Longrightarrow> ok k \<Longrightarrow>
     loop ps (Some buf, out, d) = Some (Some (buf @ concat chunks), extractImpl (last ps) (buf @ concat chunks) (out, d))"
proof (induction chunks arbitrary: ps buf rule: induct_list012)
  case (2 c)
  then obtain p where "ps = [p]" "it_payload p = hdr k False True @ c" by auto
  then show ?case using fragment [of k c p] 2 by simp
next
  case (3 c c' cs)
  then obtain p qs where ps: "ps = p # qs" "it_payload p = hdr k False False @ c"
    "map it_payload qs = pieces (hdr k) False (c' # cs)" by auto
  then have "qs \<noteq> []" by (cases cs) auto
  then show ?case using fragment [OF _ _ ps(2)] "3.IH"(2) [OF ps(3), of "buf @ c"] "3.prems" ps(1)
    by (simp add: loop_Cons [of p qs])
qed simp

lemma hands_over_unit:
  assumes "\<And>fu out d. \<exists>fu'. loop ps (fu, out, d) = Some (fu', extractImpl (last ps) n (out, d))" "n \<noteq> []"
  shows "hands_over loop ready free collected (rtp_timestamp_ext (last ps)) ps [n] (it_marker (last ps))"
  unfolding hands_over_def
proof (intro allI impI)
  fix fu out d
  assume r: "ready d \<or> (\<forall>n\<in>set [n]. free n)"
  then have "ready d \<or> free n" by simp
  from accept [OF assms(2) this, of "last ps" out] assms(1) [of fu out d]
  show "\<exists>fu' d'. loop ps (fu, out, d) =
        Some (fu', emit (it_marker (last ps)) out (collected d (rtp_timestamp_ext (last ps)) @ annexb [n]), d') \<and>
      (\<not> it_marker (last ps) \<longrightarrow> collected d' (rtp_timestamp_ext (last ps)) = collected d (rtp_timestamp_ext (last ps)) @ annexb [n]) \<and>
      (ready d \<longrightarrow> ready d')"
    by auto
qed

lemma fragments_loop:
  assumes "map it_payload ps = pieces (hdr k) True chunks" "2 \<le> length chunks" "list_all (\<lambda>c. c \<noteq> []) chunks" "ok k"
  shows "loop ps (fu, out, d) = Some (Some (start k @ concat chunks), extractImpl (last ps) (start k @ concat chunks) (out, d))"
proof -
  obtain c c' cs where chunks: "chunks = c # c' # cs" using assms(2) by (cases chunks; cases "tl chunks") auto
  then obtain p qs where ps: "ps = p # qs" "it_payload p = hdr k True False @ c"
    "map it_payload qs = pieces (hdr k) False (c' # cs)" using assms(1) by auto
  then have qs: "qs \<noteq> []" by (cases cs) auto
  show ?thesis
    using fragment [OF assms(4) _ ps(2)] fragments_rest [OF ps(3), of "start k @ c"] assms(3,4) chunks ps(1) qs
    by (simp add: loop_Cons [of p qs])
qed

text \<open>The packets of a unit, whole or in fragments, hand it over.\<close>

lemma unit_handed_over:
  assumes "ps \<noteq> []" "framed ts32 m ps" "list_all2 (carries ts) ps items" "n \<noteq> []" "ok k"
    "map pkt_payload ps = [n] \<and> whole n \<or>
     (\<exists>chunks. map pkt_payload ps = pieces (hdr k) True chunks \<and> start k @ concat chunks = n \<and>
        list_all (\<lambda>c. c \<noteq> []) chunks \<and> 2 \<le> length chunks)"
  shows "hands_over loop ready free collected ts items [n] m"
proof -
  note c = carries_lists [OF assms(3)]
  have items: "items \<noteq> []" using assms(1,3) by auto
  have "map it_marker items = replicate (length ps - 1) False @ [m]"
    using c assms(1,2) by (simp add: framed_def)
  then have "last (map it_marker items) = m" by simp
  then have m: "it_marker (last items) = m" using items by (simp add: last_map)
  have ts: "rtp_timestamp_ext (last items) = ts" using c items by (simp add: list_all_iff)
  have "\<exists>fu'. loop items (fu, out, d) = Some (fu', extractImpl (last items) n (out, d))" for fu out d
    using assms(6)
  proof
    assume "map pkt_payload ps = [n] \<and> whole n"
    then obtain i where "items = [i]" "it_payload i = n" "whole n" using c by (cases items) auto
    then show ?thesis using single by simp
  next
    assume "\<exists>chunks. map pkt_payload ps = pieces (hdr k) True chunks \<and> start k @ concat chunks = n \<and>
      list_all (\<lambda>c. c \<noteq> []) chunks \<and> 2 \<le> length chunks"
    then show ?thesis using fragments_loop [of items k _ fu out d] c assms(5) by auto
  qed
  from hands_over_unit [OF this assms(4)] show ?thesis by (simp add: m ts)
qed

end

end
