(* ===== verification/Depacketizer_H264.thy ===== *)
theory Depacketizer_H264
  imports Nal_Fragments
begin

text \<open>
  \<^verbatim>\<open>src/depacketizer_h264.cpp\<close>: reassembly of H.264 frames from the payloads of RTP packets
  (single NAL units, STAP-A aggregates and FU-A fragments). \<^const>\<open>None\<close> is an abort of the
  reader, an undefined shift in the slice header decoder, or the use of the null fragment
  writer.
\<close>

unbundle bit_operations_syntax

definition kHaveSPS :: u8 where [const_defs]: "kHaveSPS = 0x01"
definition kHavePPS :: u8 where [const_defs]: "kHavePPS = 0x02"
definition kHaveKey :: u8 where [const_defs]: "kHaveKey = 0x10"
definition kHaveAll :: u8 where [const_defs]: "kHaveAll = kHaveSPS OR kHavePPS OR kHaveKey"
definition kAnnexB :: bytes where [const_defs]: "kAnnexB = [0, 0, 0, 1]"

record DepacketizerH264 =
  mHaveBits :: u8
  mFrameBuffer :: bytes
  mLastRtpTimestamp :: u64

definition DepacketizerH264_new :: DepacketizerH264 where
  "DepacketizerH264_new = \<lparr>mHaveBits = 0, mFrameBuffer = [], mLastRtpTimestamp = 0\<rparr>"

definition h264_reset :: "DepacketizerH264 \<Rightarrow> DepacketizerH264" where
  "h264_reset d = d\<lparr>mHaveBits := 0, mFrameBuffer := [], mLastRtpTimestamp := 0\<rparr>"

definition h264_extractImpl ::
  "JitterBufferItem \<Rightarrow> bytes \<Rightarrow> bytes list \<times> DepacketizerH264 \<Rightarrow> bytes list \<times> DepacketizerH264" where
  "h264_extractImpl packet nalu = (\<lambda>(out, d).
     if nalu = [] then (out, d)
     else
       let t = hd nalu AND 0x1F;
           waiting = (mHaveBits d AND kHaveAll \<noteq> kHaveAll)
       in if waiting \<and> t \<noteq> SPS \<and> t \<noteq> PPS \<and> \<not> isKeyFrameNalu t \<and> isSliceNalu t then (out, d)
          else
            let d = (if waiting then
                       (if t = SPS then d\<lparr>mHaveBits := mHaveBits d OR kHaveSPS\<rparr>
                        else if t = PPS then d\<lparr>mHaveBits := mHaveBits d OR kHavePPS\<rparr>
                        else if isKeyFrameNalu t then d\<lparr>mHaveBits := mHaveBits d OR kHaveKey\<rparr>
                        else d)
                     else d);
                d = (if mLastRtpTimestamp d \<noteq> rtp_timestamp_ext packet
                     then d\<lparr>mLastRtpTimestamp := rtp_timestamp_ext packet, mFrameBuffer := []\<rparr> else d);
                d = d\<lparr>mFrameBuffer := mFrameBuffer d @ kAnnexB @ nalu\<rparr>
            in if it_marker packet then (out @ [mFrameBuffer d], d\<lparr>mFrameBuffer := []\<rparr>) else (out, d))"

lemma stap_progress:
  assumes "2 \<le> remaining r" "readU16 r = Some (sz, r')" "reader_skip n r' = Some r''"
  shows "remaining r'' < remaining r"
proof -
  have "rLen r'' = rLen r" "rPos r'' \<ge> rPos r + 2"
    using assms(2,3) by (auto simp: readU16_def reader_skip_def check_read_def split: if_splits bind_splits)
  then show ?thesis using assms(1) by (auto simp: remaining_def split: if_splits)
qed

text \<open>The loop over the units of a STAP-A payload; \<open>act\<close> is what is done with each unit.\<close>

function stap_loop :: "(bytes \<Rightarrow> 'a \<Rightarrow> 'a) \<Rightarrow> ByteReader \<Rightarrow> 'a \<Rightarrow> 'a option" where
  "stap_loop act r x =
     (if remaining r \<ge> 2 then
        (case readU16 r of
           None \<Rightarrow> None
         | Some (sz, r') \<Rightarrow>
             if remaining r' \<ge> unat sz \<and> sz > 0 then
               (case reader_skip (unat sz) r' of
                  None \<Rightarrow> None
                | Some r'' \<Rightarrow> stap_loop act r'' (act (take (unat sz) (drop (position r') (rBuf r'))) x))
             else Some x)
      else Some x)"
  by pat_completeness auto
termination
  by (relation "measure (\<lambda>(_, r, _). remaining r)") (auto dest: stap_progress)

declare stap_loop.simps [simp del]

text \<open>One packet of \<^verbatim>\<open>extract\<close>; \<open>fu\<close> is the fragment buffer, \<^const>\<open>None\<close> before the first start.\<close>

type_synonym h264_extract_state = "bytes option \<times> bytes list \<times> DepacketizerH264"

definition h264_extract_packet :: "JitterBufferItem \<Rightarrow> h264_extract_state \<Rightarrow> h264_extract_state option" where
  "h264_extract_packet packet = (\<lambda>(fu, out_d).
     let reader = ByteReader_new (it_payload packet) in
     if remaining reader > 1 then do {
       (indicator, reader) \<leftarrow> readU8 reader;
       let nri = indicator AND 0x60;
       let type = indicator AND 0x1F;
       if type = kPacket_STAP_A then do {
         out_d \<leftarrow> stap_loop (h264_extractImpl packet) reader out_d;
         Some (fu, out_d)
       }
       else if type = kPacket_FU_A then
         (if remaining reader \<ge> 1 then do {
            (fuHeader, reader) \<leftarrow> readU8 reader;
            let fuIsStart = test_mask fuHeader 7;
            let fuIsEnd = test_mask fuHeader 6;
            let fuNaluType = fuHeader AND 0x1F;
            let fu = (if fuIsStart then Some [nri OR fuNaluType] else fu);
            fu \<leftarrow> (if remaining reader > 0
                   then map_option (\<lambda>buf. Some (buf @ take (remaining reader) (current reader))) fu
                   else Some fu);
            let out_d = (if fuIsEnd then (case fu of Some buf \<Rightarrow> h264_extractImpl packet buf out_d | None \<Rightarrow> out_d)
                         else out_d);
            Some (fu, out_d)
          } else Some (fu, out_d))
       else if type < 23 then Some (fu, h264_extractImpl packet (it_payload packet) out_d)
       else Some (fu, out_d)
     } else Some (fu, out_d))"

fun h264_extract_loop :: "JitterBufferItem list \<Rightarrow> h264_extract_state \<Rightarrow> h264_extract_state option" where
  "h264_extract_loop [] x = Some x"
| "h264_extract_loop (p # ps) x = do { y \<leftarrow> h264_extract_packet p x; h264_extract_loop ps y }"

definition h264_extract ::
  "JitterBufferItem list \<Rightarrow> DepacketizerH264 \<Rightarrow> (bytes list \<times> DepacketizerH264) option" where
  "h264_extract packetList d = map_option snd (h264_extract_loop packetList (None, [], d))"

definition h264_isFrameStartImpl :: "u8 \<Rightarrow> bytes \<Rightarrow> bool option" where
  "h264_isFrameStartImpl naluType data =
     (if naluType = SPS then Some True
      else if naluType = NonKeyFrame \<and> length data > 0 then isSliceFrameStart data
      else Some False)"

text \<open>The STAP-A search of \<^verbatim>\<open>isFrameStart\<close>: it stops at the first unit that starts a frame.\<close>

definition stap_frame_start :: "bytes \<Rightarrow> bool option \<Rightarrow> bool option" where
  "stap_frame_start nalu found =
     (case found of
        Some False \<Rightarrow>
          if length nalu > 1 then h264_isFrameStartImpl (nalu ! 0 AND 0x1F) (drop 1 nalu) else Some False
      | _ \<Rightarrow> found)"

definition h264_isFrameStart :: "bytes \<Rightarrow> bool option" where
  "h264_isFrameStart payload =
     (let reader = ByteReader_new payload in
      if remaining reader > 1 then do {
        (indicator, reader) \<leftarrow> readU8 reader;
        let type = indicator AND 0x1F;
        if type = kPacket_STAP_A then do {
          found \<leftarrow> stap_loop stap_frame_start reader (Some False);
          found
        }
        else if type = kPacket_FU_A then
          (if remaining reader \<ge> 1 then do {
             (fuHeader, reader) \<leftarrow> readU8 reader;
             if test_mask fuHeader 7
             then h264_isFrameStartImpl (fuHeader AND 0x1F) (take (remaining reader) (current reader))
             else Some False
           } else Some False)
        else if type \<le> 23 then h264_isFrameStartImpl type (take (remaining reader) (current reader))
        else Some False
      } else Some False)"

definition depacketizer_h264 :: "DepacketizerH264 Depacketizer" where
  "depacketizer_h264 =
     \<lparr>dp_getPacketKind = video_getPacketKind h264_isFrameStart, dp_reset = h264_reset,
      dp_extract = h264_extract\<rparr>"

section \<open>What packets deliver\<close>

text \<open>The depacketizer has seen parameter sets and a key frame.\<close>

definition h264_ready :: "DepacketizerH264 \<Rightarrow> bool" where
  "h264_ready d \<longleftrightarrow> mHaveBits d AND kHaveAll = kHaveAll"

text \<open>The part of the frame with a given timestamp that has been collected.\<close>

definition collected :: "DepacketizerH264 \<Rightarrow> u64 \<Rightarrow> bytes" where
  "collected d ts = (if mLastRtpTimestamp d \<noteq> ts then [] else mFrameBuffer d)"

text \<open>The packets hand over the NAL units \<open>ns\<close>; non-key slices are taken only by a depacketizer that is ready.\<close>

abbreviation delivers :: "u64 \<Rightarrow> JitterBufferItem list \<Rightarrow> bytes list \<Rightarrow> bool \<Rightarrow> bool" where
  "delivers \<equiv> hands_over h264_extract_loop h264_ready (\<lambda>n. nalu_type n \<noteq> NonKeyFrame) collected"

lemma annexb_Cons [simp]: "annexb (n # ns) = kAnnexB @ n @ annexb ns"
  by (simp add: annexb_def kAnnexB_def)

lemma h264_extract_loop_append:
  "h264_extract_loop (xs @ ys) s = h264_extract_loop xs s \<bind> h264_extract_loop ys"
proof (induction xs arbitrary: s)
  case (Cons x xs)
  then show ?case by (cases "h264_extract_packet x s") (simp_all del: split_paired_All)
qed simp

interpretation h264_receiver: nal_receiver h264_extract_loop h264_ready "\<lambda>n. nalu_type n \<noteq> NonKeyFrame" collected
  by unfold_locales (simp_all add: h264_extract_loop_append)

lemma h264_extractImpl_accept:
  fixes p :: JitterBufferItem and out :: "bytes list"
  assumes "n \<noteq> []" "h264_ready d \<or> nalu_type n \<noteq> NonKeyFrame"
  defines "r \<equiv> h264_extractImpl p n (out, d)" and "ts \<equiv> rtp_timestamp_ext p"
  shows "fst r = emit (it_marker p) out (collected d ts @ kAnnexB @ n)"
    "\<not> it_marker p \<Longrightarrow> collected (snd r) ts = collected d ts @ kAnnexB @ n"
    "h264_ready d \<Longrightarrow> h264_ready (snd r)"
proof -
  have *: "\<not> (mHaveBits d AND kHaveAll \<noteq> kHaveAll \<and> hd n AND 0x1F \<noteq> SPS \<and> hd n AND 0x1F \<noteq> PPS \<and>
      \<not> isKeyFrameNalu (hd n AND 0x1F) \<and> isSliceNalu (hd n AND 0x1F))"
    using assms by (auto simp: h264_ready_def nalu_type_def isSliceNalu_def isKeyFrameNalu_def)
  note unfold = r_def ts_def h264_extractImpl_def Let_def prod.case if_not_P [OF assms(1)] if_not_P [OF *]
  show "fst r = emit (it_marker p) out (collected d ts @ kAnnexB @ n)"
    "\<not> it_marker p \<Longrightarrow> collected (snd r) ts = collected d ts @ kAnnexB @ n"
    "h264_ready d \<Longrightarrow> h264_ready (snd r)"
    unfolding unfold by (auto simp: collected_def h264_ready_def emit_def)
qed

lemma h264_single_packet:
  assumes "1 < length n" "hd n AND 0x1F < 23" "it_payload p = n"
  shows "h264_extract_packet p (fu, out, d) = Some (fu, h264_extractImpl p n (out, d))"
proof -
  have "n ! 0 AND 0x1F < 23" using assms(1,2) by (metis hd_conv_nth less_nat_zero_code list.size(3))
  then show ?thesis using assms by (auto simp: h264_extract_packet_def Let_def read_simps const_defs)
qed

end
