(* ===== verification/Packetizer_H264.thy ===== *)
theory Packetizer_H264
  imports Packetizer Codec_H264
begin

text \<open>
  \<^verbatim>\<open>src/packetizer_h264.cpp\<close>: RFC 6184 packetization of an Annex B frame into STAP-A packets
  for the parameter sets, single NAL unit packets and FU-A fragments. \<^const>\<open>None\<close> is a read
  outside of the frame, or a loop that does not end.
\<close>

unbundle bit_operations_syntax

record PacketizerH264 =
  mSPS :: bytes
  mPPS :: bytes

definition h264_csd_step :: "NaluParser \<Rightarrow> PacketizerH264 \<Rightarrow> PacketizerH264 option" where
  "h264_csd_step parser pk = do {
     t \<leftarrow> currType parser;
     Some (if t = SPS then pk\<lparr>mSPS := currData parser\<rparr>
           else if t = PPS then pk\<lparr>mPPS := currData parser\<rparr> else pk)
   }"

fun foldM :: "('a \<Rightarrow> 'b \<Rightarrow> 'b option) \<Rightarrow> 'a list \<Rightarrow> 'b \<Rightarrow> 'b option" where
  "foldM f [] b = Some b"
| "foldM f (x # xs) b = do { b' \<leftarrow> f x b; foldM f xs b' }"

lemma foldM_append: "foldM f (xs @ ys) x = foldM f xs x \<bind> foldM f ys"
proof (induction xs arbitrary: x)
  case (Cons a xs)
  then show ?case by (cases "f a x") simp_all
qed simp

definition h264_setCodecSpecificData :: "PacketizerH264 \<Rightarrow> bytes list \<Rightarrow> PacketizerH264 option" where
  "h264_setCodecSpecificData pk csd =
     foldM (\<lambda>item pk. do { ps \<leftarrow> nalu_states item; foldM h264_csd_step ps pk }) csd
       (pk\<lparr>mSPS := [], mPPS := []\<rparr>)"

definition h264_isKeyFrame :: "bytes \<Rightarrow> bool option" where
  "h264_isKeyFrame frame = do {
     ps \<leftarrow> nalu_states frame;
     foldM (\<lambda>p found. if found then Some True
                      else do { t \<leftarrow> currType p; Some (t = KeyFrame) }) ps False
   }"

definition stap_a_payload :: "bytes \<Rightarrow> bytes \<Rightarrow> bytes" where
  "stap_a_payload sps pps =
     (let nri = max (hd sps AND 0x60) (hd pps AND 0x60)
      in u8_bytes (nri OR kPacket_STAP_A) @ u16_bytes (of_nat (length sps)) @ sps @
         u16_bytes (of_nat (length pps)) @ pps)"

definition fu_a_payload :: "u8 \<Rightarrow> u8 \<Rightarrow> bool \<Rightarrow> bool \<Rightarrow> bytes \<Rightarrow> bytes" where
  "fu_a_payload nri naluType isStart isEnd chunk =
     u8_bytes (nri OR kPacket_FU_A) @
     u8_bytes ((if isStart then push_bit 7 1 else 0) OR (if isEnd then push_bit 6 1 else 0) OR naluType) @
     chunk"

text \<open>The fragmentation loop. \<open>basic\<close> is \<^verbatim>\<open>basicPacketSize\<close>, \<open>atEnd\<close> is \<^verbatim>\<open>parser.isAtEnd()\<close>.\<close>

partial_function (option) fu_a_loop ::
  "'s RtpExtensionSource list \<Rightarrow> nat \<Rightarrow> u8 \<Rightarrow> u8 \<Rightarrow> nat \<Rightarrow> bool \<Rightarrow> u32 \<Rightarrow>
   nat \<Rightarrow> u8 \<Rightarrow> RtpExtension \<Rightarrow> bytes \<Rightarrow> Track \<Rightarrow> 's \<Rightarrow> (RtpPacket list \<times> Track \<times> 's) option" where
  "fu_a_loop srcs basic nri naluType naluSize atEnd frameTimestamp
     packetNumber padding extension data track st =
     (if length data > 0 then
        (let ((rollover, seq), track) = track_nextSequence track;
             (padding, st) = (if packetNumber > 0 then getPadding srcs st track naluSize else (padding, st));
             (extension, st) = (if packetNumber > 0
                                then buildExtension srcs st track (naluType = KeyFrame) packetNumber
                                else (extension, st));
             packetSize = adjustPacketSize (size_sub basic 2) (unat padding) extension;
             packetSize = (if packetNumber = 0 \<and> packetSize \<ge> length data
                           then size_sub (length data) 10 else packetSize);
             isStart = (packetNumber = 0);
             isEnd = (length data \<le> packetSize);
             marker = (isEnd \<and> atEnd);
             writeNow = min (length data) packetSize;
             payload = fu_a_payload nri naluType isStart isEnd (take writeNow data);
             packet = RtpPacket_new track marker rollover seq frameTimestamp padding extension payload
         in do {
           (packets, track, st) \<leftarrow> fu_a_loop srcs basic nri naluType naluSize atEnd frameTimestamp
              (packetNumber + 1) padding extension (drop writeNow data) track st;
           Some (packet # packets, track, st)
         })
      else Some ([], track, st))"

text \<open>The packets of one NAL unit that is not a parameter set.\<close>

definition h264_nalu_packets ::
  "'s RtpExtensionSource list \<Rightarrow> nat \<Rightarrow> u8 \<Rightarrow> bytes \<Rightarrow> bool \<Rightarrow> u32 \<Rightarrow> Track \<Rightarrow> 's \<Rightarrow>
   (RtpPacket list \<times> Track \<times> 's) option" where
  "h264_nalu_packets srcs mediaProtectionOverhead naluType nalu atEnd frameTimestamp track st =
     (let naluSize = length nalu;
          (padding, st) = getPadding srcs st track naluSize;
          (extension, st) = buildExtension srcs st track (naluType = KeyFrame) 0;
          basicPacketSize = getBasicPacketSize mediaProtectionOverhead;
          packetSize = adjustPacketSize basicPacketSize (unat padding) extension
      in if packetSize \<ge> naluSize then
           (let ((rollover, seq), track) = track_nextSequence track
            in Some ([RtpPacket_new track atEnd rollover seq frameTimestamp padding extension nalu], track, st))
         else if naluSize > 1 then
           fu_a_loop srcs basicPacketSize (nalu ! 0 AND 0x60) naluType naluSize atEnd frameTimestamp
             0 padding extension (drop 1 nalu) track st
         else Some ([], track, st))"

text \<open>The state of the loop over NAL units: \<^verbatim>\<open>addedParameters\<close>, the packetizer, the track, the
  sources and the packets so far.\<close>

type_synonym 's h264_state = "bool \<times> PacketizerH264 \<times> Track \<times> 's \<times> RtpPacket list"

definition h264_parameters ::
  "'s RtpExtensionSource list \<Rightarrow> u32 \<Rightarrow> 's h264_state \<Rightarrow> 's h264_state" where
  "h264_parameters srcs frameTimestamp = (\<lambda>(addedParameters, pk, track, st, result).
     if \<not> addedParameters \<and> mSPS pk \<noteq> [] \<and> mPPS pk \<noteq> [] then
       (let payload = stap_a_payload (mSPS pk) (mPPS pk);
            (extension, st) = buildExtension srcs st track True 0;
            ((rollover, seq), track) = track_nextSequence track
        in (True, pk, track, st,
            result @ [RtpPacket_new track False rollover seq frameTimestamp 0 extension payload]))
     else (True, pk, track, st, result))"

definition h264_generate_step ::
  "'s RtpExtensionSource list \<Rightarrow> nat \<Rightarrow> u32 \<Rightarrow> NaluParser \<Rightarrow> 's h264_state \<Rightarrow> 's h264_state option" where
  "h264_generate_step srcs mediaProtectionOverhead frameTimestamp parser state = do {
     naluType \<leftarrow> currType parser;
     let (addedParameters, pk, track, st, result) =
       (let (addedParameters, pk, track, st, result) = state in
        if naluType = SPS then (addedParameters, pk\<lparr>mSPS := currData parser\<rparr>, track, st, result)
        else if naluType = PPS then (addedParameters, pk\<lparr>mPPS := currData parser\<rparr>, track, st, result)
        else if naluType = KeyFrame then h264_parameters srcs frameTimestamp state
        else state);
     if \<not> isParameterNalu naluType then do {
       (packets, track, st) \<leftarrow> h264_nalu_packets srcs mediaProtectionOverhead naluType (currData parser)
          (isAtEnd parser) frameTimestamp track st;
       Some (addedParameters, pk, track, st, result @ packets)
     } else Some (addedParameters, pk, track, st, result)
   }"

definition h264_generate ::
  "'s RtpExtensionSource list \<Rightarrow> nat \<Rightarrow> PacketizerH264 \<Rightarrow> Track \<Rightarrow> 's \<Rightarrow> int \<Rightarrow> int \<Rightarrow> bytes \<Rightarrow>
   (RtpPacket list \<times> PacketizerH264 \<times> Track \<times> 's) option" where
  "h264_generate srcs mediaProtectionOverhead pk track st now pts_usec frame = do {
     let (frameTimestamp, track) = track_frameTimestamp track now pts_usec;
     parsers \<leftarrow> nalu_states frame;
     (_, pk, track, st, result) \<leftarrow> foldM (h264_generate_step srcs mediaProtectionOverhead frameTimestamp) parsers
       (False, pk, track, st, []);
     Some (result, pk, track, st)
   }"

end
