(* ===== verification/H264_Roundtrip.thy ===== *)
theory H264_Roundtrip
  imports Depacketizer_H264 Packetizer_H264
begin

text \<open>
  The H.264 packetizer and depacketizer together: what each kind of packet delivers, what
  packets the packetizer makes of a frame, and that the depacketizer gives the frame back.
\<close>

unbundle bit_operations_syntax


section \<open>Aggregates\<close>

lemma stap_loop_unit:
  assumes "reader_inv r" "unread r = u16_bytes (of_nat (length n)) @ n @ rest" "0 < length n" "length n < 65536"
  shows "stap_loop act r x = stap_loop act (advance (2 + length n) r) (act n x)"
    "reader_inv (advance (2 + length n) r)" "unread (advance (2 + length n) r) = rest"
proof -
  let ?r = "advance 2 r"
  have r: "reader_inv ?r" "unread ?r = n @ rest"
    using assms(1,2) by (simp_all add: read_simps)
  have sz: "unat (of_nat (length n) :: u16) = length n" "(of_nat (length n) :: u16) > 0"
    using assms(3,4) by (simp_all add: unat_of_nat word_less_nat_alt)
  have "take (length n) (drop (position ?r) (rBuf ?r)) = n"
    using take_current [OF r(1), of "length n"] r(2) by (simp add: current_def position_def)
  then show "stap_loop act r x = stap_loop act (advance (2 + length n) r) (act n x)"
    using assms(1,2) r sz by (simp add: stap_loop.simps [of act r] read_simps)
  show "reader_inv (advance (2 + length n) r)" "unread (advance (2 + length n) r) = rest"
    using assms(1,2) by (simp_all add: read_simps)
qed

lemma stap_loop_end: "reader_inv r \<Longrightarrow> unread r = [] \<Longrightarrow> stap_loop act r x = Some x"
  by (simp add: stap_loop.simps [of act r] read_simps)

lemma u8_eqI:
  fixes a b :: u8
  assumes "bit a 0 = bit b 0" "bit a 1 = bit b 1" "bit a 2 = bit b 2" "bit a 3 = bit b 3"
    "bit a 4 = bit b 4" "bit a 5 = bit b 5" "bit a 6 = bit b 6" "bit a 7 = bit b 7"
  shows "a = b"
proof (rule bit_word_eqI)
  have all: "list_all (\<lambda>n. bit a n = bit b n) [0..<8]"
    using assms by (simp add: upt_rec eval_nat_numeral)
  fix n assume "n < LENGTH(8)"
  then show "bit a n = bit b n" using all by (simp add: list_all_iff)
qed

lemma nri_type_masks:
  fixes x y :: u8
  shows "(x AND 0x60 OR y AND 0x1F) AND 0x60 = x AND 0x60" "(x AND 0x60 OR y AND 0x1F) AND 0x1F = y AND 0x1F"
    "\<not> bit x 7 \<Longrightarrow> x AND 0x60 OR x AND 0x1F = x"
  by (rule u8_eqI; simp add: bit_simps)+

lemma h264_extractImpl_obtain:
  assumes "n \<noteq> []" "h264_ready d \<or> nalu_type n \<noteq> NonKeyFrame"
  obtains d' where
    "h264_extractImpl p n (out, d) = (emit (it_marker p) out (collected d (rtp_timestamp_ext p) @ kAnnexB @ n), d')"
    "\<not> it_marker p \<Longrightarrow> collected d' (rtp_timestamp_ext p) = collected d (rtp_timestamp_ext p) @ kAnnexB @ n"
    "h264_ready d \<Longrightarrow> h264_ready d'"
  using h264_extractImpl_accept [OF assms, of p out] by (metis prod.collapse)

lemma delivers_stap_a:
  assumes "rtp_timestamp_ext p = ts" "it_payload p = stap_a_payload sps pps" "\<not> it_marker p"
    "0 < length sps" "length sps < 65536" "0 < length pps" "length pps < 65536"
  shows "delivers ts [p] [sps, pps] False"
proof -
  define nri where "nri = max (hd sps AND 0x60) (hd pps AND 0x60)"
  let ?q = "ByteReader_new (it_payload p)"
  let ?r = "advance 1 ?q"
  have u0: "unread ?q = (nri OR kPacket_STAP_A) # u16_bytes (of_nat (length sps)) @ sps @
      u16_bytes (of_nat (length pps)) @ pps @ []"
    using assms(2) by (simp add: stap_a_payload_def nri_def Let_def u8_bytes_def)
  have t: "(nri OR kPacket_STAP_A) AND 0x1F = kPacket_STAP_A"
  proof -
    have "nri = nri AND 0x60" by (auto simp: nri_def max_def and.assoc)
    then show ?thesis using nri_type_masks(2) [of nri kPacket_STAP_A] by (simp add: const_defs)
  qed
  have r: "reader_inv ?r" "unread ?r = u16_bytes (of_nat (length sps)) @ sps @ u16_bytes (of_nat (length pps)) @ pps @ []"
    using u0 by (simp_all add: read_simps)
  note s1 = stap_loop_unit [OF r assms(4,5)]
  note s2 = stap_loop_unit [OF s1(2,3) assms(6,7)]
  have loop: "stap_loop act ?r x = Some (act pps (act sps x))" for act and x :: "bytes list \<times> DepacketizerH264"
    by (simp only: s1(1) s2(1) stap_loop_end [OF s2(2,3)])
  have "readU8 ?q = Some (nri OR kPacket_STAP_A, ?r)" "1 < remaining ?q"
    using u0 by (simp_all add: read_simps)
  then have "h264_extract_packet p (fu, out, d) = Some (fu, h264_extractImpl p pps (h264_extractImpl p sps (out, d)))"
    for fu out d using t loop by (simp add: h264_extract_packet_def)
  then have packet: "h264_extract_loop [p] (fu, out, d) =
      Some (fu, h264_extractImpl p pps (h264_extractImpl p sps (out, d)))" for fu out d by simp
  show ?thesis unfolding hands_over_def
  proof (intro allI impI)
    fix fu out d
    assume r: "h264_ready d \<or> (\<forall>n\<in>set [sps, pps]. nalu_type n \<noteq> NonKeyFrame)"
    obtain d1 where d1: "h264_extractImpl p sps (out, d) = (out, d1)"
      "collected d1 ts = collected d ts @ kAnnexB @ sps" "h264_ready d \<Longrightarrow> h264_ready d1"
      using h264_extractImpl_obtain [of sps d p out] r assms by (auto simp: emit_def)
    obtain d2 where d2: "h264_extractImpl p pps (out, d1) = (out, d2)"
      "collected d2 ts = collected d1 ts @ kAnnexB @ pps" "h264_ready d1 \<Longrightarrow> h264_ready d2"
      using h264_extractImpl_obtain [of pps d1 p out] r d1(3) assms by (auto simp: emit_def)
    show "\<exists>fu' d'. h264_extract_loop [p] (fu, out, d) =
          Some (fu', emit False out (collected d ts @ annexb [sps, pps]), d') \<and>
        (\<not> False \<longrightarrow> collected d' ts = collected d ts @ annexb [sps, pps]) \<and> (h264_ready d \<longrightarrow> h264_ready d')"
      unfolding packet d1(1) d2(1) using d1 d2 by (simp add: emit_def)
  qed
qed

section \<open>Fragments\<close>

lemma fu_header_bits:
  fixes t :: u8
  shows "test_mask ((if s then push_bit 7 1 else 0) OR (if e then push_bit 6 1 else 0) OR (t AND 0x1F)) 7 = s"
    "test_mask ((if s then push_bit 7 1 else 0) OR (if e then push_bit 6 1 else 0) OR (t AND 0x1F)) 6 = e"
    "((if s then push_bit 7 1 else 0) OR (if e then push_bit 6 1 else 0) OR (t AND 0x1F)) AND 0x1F = t AND 0x1F"
  apply (cases s; cases e; simp add: test_mask_bit bit_simps)
  apply (cases s; cases e; simp add: test_mask_bit bit_simps)
  apply (rule u8_eqI; cases s; cases e; simp add: bit_simps)
  done

lemma fu_packet:
  assumes "it_payload p = fu_a_payload (x AND 0x60) (t AND 0x1F) isStart isEnd chunk" "chunk \<noteq> []"
  shows "h264_extract_packet p (fu, out, d) =
     map_option (\<lambda>buf. (Some (buf @ chunk), if isEnd then h264_extractImpl p (buf @ chunk) (out, d) else (out, d)))
       (if isStart then Some [x AND 0x60 OR t AND 0x1F] else fu)"
proof -
  let ?q = "ByteReader_new (it_payload p)"
  define ind where "ind = (x AND 0x60 OR kPacket_FU_A)"
  define hdr where "hdr = ((if isStart then push_bit 7 1 else 0) OR (if isEnd then push_bit 6 1 else 0) OR (t AND 0x1F))"
  have ind: "ind AND 0x60 = x AND 0x60" "ind AND 0x1F = kPacket_FU_A"
    using nri_type_masks(1,2) [of x kPacket_FU_A] by (simp_all add: const_defs ind_def)
  have hdr: "test_mask hdr 7 = isStart" "test_mask hdr 6 = isEnd" "hdr AND 0x1F = t AND 0x1F"
    unfolding hdr_def by (rule fu_header_bits)+
  have pl: "it_payload p = ind # hdr # chunk"
    using assms(1) by (simp add: fu_a_payload_def u8_bytes_def ind_def hdr_def)
  then have u: "unread ?q = ind # hdr # chunk" by simp
  define r1 where "r1 = advance (Suc 0) ?q"
  define r2 where "r2 = advance (Suc 0) r1"
  note s1 = unread_Cons [OF reader_inv_new u, folded r1_def]
  note s2 = unread_Cons [OF s1(2,3), folded r2_def]
  have rem: "length (it_payload p) = Suc (Suc (length chunk))" "remaining r1 = Suc (length chunk)"
    "remaining r2 = length chunk"
    using pl remaining_unread [OF s1(2)] s1(3) remaining_unread [OF s2(2)] s2(3) by simp_all
  have c: "take (length chunk) (current r2) = chunk"
    using take_current [OF s2(2), of "length chunk"] s2(3) by simp
  show ?thesis
    using assms(2)
    by (cases fu) (simp_all add: h264_extract_packet_def Let_def rem s1(1) s2(1) ind hdr c
        kPacket_FU_A_def kPacket_STAP_A_def)
qed

lemma fu_a_payload_append: "fu_a_payload nri t a b c = fu_a_payload nri t a b [] @ c"
  by (simp add: fu_a_payload_def)

interpretation h264_units: fu_receiver h264_extract_loop h264_ready "\<lambda>n. nalu_type n \<noteq> NonKeyFrame" collected h264_extractImpl
  "\<lambda>n. 1 < length n \<and> hd n AND 0x1F < 23" "\<lambda>(nri, t) a b. fu_a_payload nri t a b []" "\<lambda>(nri, t). [nri OR t]"
  "\<lambda>(nri, t). nri AND 0x60 = nri \<and> t AND 0x1F = t"
proof (unfold_locales, goal_cases)
  case (1 n d p out)
  then show ?case by (rule h264_extractImpl_obtain [of n d p out]) auto
next
  case (2 n p fu out d)
  then show ?case using h264_single_packet [of n p fu out d] by simp
next
  case (3 k chunk p s e fu out d)
  obtain nri t where k: "k = (nri, t)" by fastforce
  have "it_payload p = fu_a_payload (nri AND 0x60) (t AND 0x1F) s e chunk"
    using 3 k by (simp flip: fu_a_payload_append)
  from fu_packet [OF this 3(2), of fu out d] show ?case using 3(1) k by (cases "if s then Some [nri OR t] else fu") auto
qed

section \<open>The packets of the packetizer\<close>

lemma fu_a_loop_end: "fu_a_loop srcs basic nri t nsz atEnd ts pn padding ext [] track st = Some ([], track, st)"
  by (subst fu_a_loop.simps) simp

interpretation h264_fu: nal_packets 2 "\<lambda>(nri, t) a b. fu_a_payload nri t a b []" "\<lambda>(nri, t). t = KeyFrame"
  "\<lambda>srcs basic (nri, t). fu_a_loop srcs basic nri t" 1 "\<lambda>t n. (n ! 0 AND 0x60, t)" "\<lambda>t. t = KeyFrame" h264_nalu_packets
proof (unfold_locales, goal_cases)
  case (2 data track r s track1 pn srcs st nsz padding padding' st1 k ext ext' st2 sz0 basic sz atEnd ts)
  then show ?case
    by (cases k) (simp only: fu_a_loop.simps [of srcs basic _ _ nsz atEnd ts pn padding ext data] prod.case Let_def
        fu_a_payload_append [of _ _ _ _ "take _ _"] length_greater_0_conv if_True simp_thms)
next
  case (4 srcs st track n padding st1 t ext st2 sz overhead atEnd ts)
  then show ?case by (simp add: h264_nalu_packets_def Let_def)
qed (auto simp: fu_a_loop_end fu_a_payload_def)

section \<open>Frames\<close>

text \<open>A NAL unit that can be sent: emulation prevention holds, it has a header and a body, the
  forbidden bit is clear and its type is not one of the packet types.\<close>

definition nalu_good :: "bytes \<Rightarrow> bool" where
  "nalu_good n \<longleftrightarrow> nalu_ok n \<and> 2 \<le> length n \<and> \<not> bit (hd n) 7 \<and> hd n AND 0x1F < 23"

lemma nalu_packets_deliver:
  assumes "nalu_good n" "overhead \<le> 1000"
  obtains ps track' st' where "h264_nalu_packets srcs overhead (nalu_type n) n e ts track st = Some (ps, track', st')"
    "ps \<noteq> []" "framed ts e ps" "numbered track ps track'"
    "\<And>ts64 items. list_all2 (carries ts64) ps items \<Longrightarrow> delivers ts64 items [n] e"
proof -
  have n: "n \<noteq> []" "nalu_type n = hd n AND 0x1F" "n ! 0 = hd n" "\<not> bit (hd n) 7" "1 < length n" "hd n AND 0x1F < 23"
    using assms(1) by (auto simp: nalu_good_def nalu_ok_def nalu_type_def hd_conv_nth)
  obtain ps track' st' where p: "h264_nalu_packets srcs overhead (nalu_type n) n e ts track st = Some (ps, track', st')"
    "ps \<noteq> []" "framed ts e ps" "numbered track ps track'" "h264_fu.payloads_of (nalu_type n) n (map pkt_payload ps)"
    using h264_fu.packets_ok [OF assms(2) n(1), of srcs "nalu_type n" e ts track st] by blast
  have s: "[hd n AND 0x60 OR hd n AND 0x1F] @ drop 1 n = n"
    using nri_type_masks(3) [OF n(4)] n(1) by (cases n) auto
  have "delivers ts64 items [n] e" if "list_all2 (carries ts64) ps items" for ts64 items
    by (rule h264_units.unit_handed_over [OF p(2,3) that n(1), of "(hd n AND 0x60, hd n AND 0x1F)"])
      (use p(5) [unfolded h264_fu.payloads_of_def] n s in \<open>auto simp: and.assoc\<close>)
  then show ?thesis using that p(1-4) by blast
qed

text \<open>The NAL units that are sent for a frame: parameter sets are taken out, and the latest ones
  are put in front of the first key frame unit.\<close>

fun sent :: "bool \<Rightarrow> bytes \<Rightarrow> bytes \<Rightarrow> bytes list \<Rightarrow> bytes list" where
  "sent added sps pps [] = []"
| "sent added sps pps (n # ns) =
     (if nalu_type n = SPS then sent added n pps ns
      else if nalu_type n = PPS then sent added sps n ns
      else if nalu_type n = KeyFrame then
        (if \<not> added \<and> sps \<noteq> [] \<and> pps \<noteq> [] then [sps, pps] else []) @ n # sent True sps pps ns
      else n # sent added sps pps ns)"

definition sets_ok :: "bytes \<Rightarrow> bytes \<Rightarrow> bool" where
  "sets_ok sps pps \<longleftrightarrow> length sps < 65536 \<and> length pps < 65536"

text \<open>The parameter packet in front of a key frame unit.\<close>

lemma h264_parameters_ok:
  "\<exists>ps track' st'. h264_parameters srcs ts (added, pk, track, st, res) = (True, pk, track', st', res @ ps) \<and>
     framed ts False ps \<and> numbered track ps track' \<and>
     map pkt_payload ps = (if \<not> added \<and> mSPS pk \<noteq> [] \<and> mPPS pk \<noteq> [] then [stap_a_payload (mSPS pk) (mPPS pk)] else [])"
proof (cases "\<not> added \<and> mSPS pk \<noteq> [] \<and> mPPS pk \<noteq> []")
  case True
  obtain ext st' where ext: "buildExtension srcs st track True 0 = (ext, st')" by fastforce
  obtain r s track' where sq: "track_nextSequence track = ((r, s), track')" by (metis surj_pair)
  let ?p = "RtpPacket_new track' False r s ts 0 ext (stap_a_payload (mSPS pk) (mPPS pk))"
  have "numbered track [?p] track'" by (rule numbered_single [OF sq]) simp_all
  then show ?thesis
    using True by (intro exI [of _ "[?p]"] exI [of _ track'] exI [of _ st'])
      (auto simp: h264_parameters_def ext sq framed_def)
next
  case False
  then show ?thesis using numbered_Nil by (auto simp: h264_parameters_def framed_def)
qed

lemma h264_generate_step_eq:
  assumes "nalu_view parser = ((n, e), Some (nalu_type n))"
  shows "h264_generate_step srcs overhead ts parser (added, pk, track, st, res) =
    (if nalu_type n = SPS then Some (added, pk\<lparr>mSPS := n\<rparr>, track, st, res)
     else if nalu_type n = PPS then Some (added, pk\<lparr>mPPS := n\<rparr>, track, st, res)
     else
       let (added, pk, track, st, res) =
         (if nalu_type n = KeyFrame then h264_parameters srcs ts (added, pk, track, st, res)
          else (added, pk, track, st, res))
       in map_option (\<lambda>(ps, track, st). (added, pk, track, st, res @ ps))
            (h264_nalu_packets srcs overhead (nalu_type n) n e ts track st))"
  using assms
  by (auto simp: h264_generate_step_def nalu_view_def isParameterNalu_def SPS_def PPS_def KeyFrame_def
      bind_map_option comp_def case_prod_beta Let_def map_option_case split: option.splits)

text \<open>What one NAL unit contributes, and the state after it.\<close>

definition sent_one :: "bool \<Rightarrow> bytes \<Rightarrow> bytes \<Rightarrow> bytes \<Rightarrow> bytes list" where
  "sent_one added sps pps n = (if isParameterNalu (nalu_type n) then []
     else (if nalu_type n = KeyFrame \<and> \<not> added \<and> sps \<noteq> [] \<and> pps \<noteq> [] then [sps, pps] else []) @ [n])"

lemma generate_step_ok:
  assumes "nalu_view parser = ((n, e), Some (nalu_type n))" "nalu_good n" "overhead \<le> 1000"
    "sets_ok (mSPS pk) (mPPS pk)" "isParameterNalu (nalu_type n) \<longrightarrow> \<not> e \<and> length n < 65536"
  obtains ps added' pk' track' st' where
    "h264_generate_step srcs overhead ts parser (added, pk, track, st, res) = Some (added', pk', track', st', res @ ps)"
    "numbered track ps track'" "framed ts e ps" "ps = [] \<longleftrightarrow> isParameterNalu (nalu_type n)" "sets_ok (mSPS pk') (mPPS pk')"
    "sent added (mSPS pk) (mPPS pk) (n # ns) = sent_one added (mSPS pk) (mPPS pk) n @ sent added' (mSPS pk') (mPPS pk') ns"
    "\<And>ts64 items. list_all2 (carries ts64) ps items \<Longrightarrow> delivers ts64 items (sent_one added (mSPS pk) (mPPS pk) n) e"
proof (cases "isParameterNalu (nalu_type n)")
  case True
  define pk' where "pk' = (if nalu_type n = SPS then pk\<lparr>mSPS := n\<rparr> else pk\<lparr>mPPS := n\<rparr>)"
  have types: "PPS \<noteq> SPS" by (simp add: const_defs)
  have e: "\<not> e" "length n < 65536" using assms(5) True by auto
  show ?thesis
  proof (rule that [of added pk' track st "[]"])
    show "h264_generate_step srcs overhead ts parser (added, pk, track, st, res) = Some (added, pk', track, st, res @ [])"
      using True types by (auto simp: h264_generate_step_eq [OF assms(1)] isParameterNalu_def pk'_def)
    show "sent added (mSPS pk) (mPPS pk) (n # ns) =
        sent_one added (mSPS pk) (mPPS pk) n @ sent added (mSPS pk') (mPPS pk') ns"
      using True types by (auto simp: isParameterNalu_def sent_one_def pk'_def)
    show "delivers ts64 items (sent_one added (mSPS pk) (mPPS pk) n) e" if "list_all2 (carries ts64) [] items" for ts64 items
      using that True e h264_receiver.hands_over_Nil by (simp add: sent_one_def)
  qed (use True e assms(4) numbered_Nil in \<open>auto simp: framed_def sets_ok_def pk'_def\<close>)
next
  case False
  have n: "n \<noteq> []" "nalu_type n = hd n AND 0x1F" using assms(2) by (auto simp: nalu_good_def nalu_ok_def nalu_type_def)
  obtain ps1 added1 track1 st1 where 1:
    "(if nalu_type n = KeyFrame then h264_parameters srcs ts (added, pk, track, st, res) else (added, pk, track, st, res)) =
       (added1, pk, track1, st1, res @ ps1)"
    "added1 = (added \<or> nalu_type n = KeyFrame)" "framed ts False ps1" "numbered track ps1 track1"
    "map pkt_payload ps1 = (if nalu_type n = KeyFrame \<and> \<not> added \<and> mSPS pk \<noteq> [] \<and> mPPS pk \<noteq> []
       then [stap_a_payload (mSPS pk) (mPPS pk)] else [])"
    using h264_parameters_ok [of srcs ts added pk track st res] numbered_Nil
    by (cases "nalu_type n = KeyFrame") (auto simp: framed_def)
  obtain ps2 track' st' where 2: "h264_nalu_packets srcs overhead (nalu_type n) n e ts track1 st1 = Some (ps2, track', st')"
    "ps2 \<noteq> []" "framed ts e ps2" "numbered track1 ps2 track'"
    "\<And>ts64 items. list_all2 (carries ts64) ps2 items \<Longrightarrow> delivers ts64 items [n] e"
    by (rule nalu_packets_deliver [OF assms(2,3), of srcs e ts track1 st1]) (rule that)
  have step: "h264_generate_step srcs overhead ts parser (added, pk, track, st, res) =
      Some (added1, pk, track', st', res @ (ps1 @ ps2))"
    using False 1(1) 2(1) by (simp add: h264_generate_step_eq [OF assms(1)] isParameterNalu_def)
  have sent: "sent added (mSPS pk) (mPPS pk) (n # ns) =
      sent_one added (mSPS pk) (mPPS pk) n @ sent added1 (mSPS pk) (mPPS pk) ns"
    using False 1(2) by (auto simp: sent_one_def isParameterNalu_def)
  have del: "delivers ts64 items (sent_one added (mSPS pk) (mPPS pk) n) e" if "list_all2 (carries ts64) (ps1 @ ps2) items" for ts64 items
  proof -
    obtain i1 i2 where i: "items = i1 @ i2" "list_all2 (carries ts64) ps1 i1" "list_all2 (carries ts64) ps2 i2"
      using \<open>list_all2 (carries ts64) (ps1 @ ps2) items\<close> by (auto simp: list_all2_append1)
    have d2: "delivers ts64 i2 [n] e" using 2(5) [OF i(3)] .
    show ?thesis
    proof (cases "nalu_type n = KeyFrame \<and> \<not> added \<and> mSPS pk \<noteq> [] \<and> mPPS pk \<noteq> []")
      case True
      then obtain p i where "ps1 = [p]" "i1 = [i]" "carries ts64 p i" "pkt_payload p = stap_a_payload (mSPS pk) (mPPS pk)"
        using 1(5) i(2) by (auto simp: list_all2_Cons1)
      moreover have "\<not> pkt_marker p" using 1(3) \<open>ps1 = [p]\<close> by (simp add: framed_def)
      ultimately have "delivers ts64 i1 [mSPS pk, mPPS pk] False"
        using delivers_stap_a [of i ts64 "mSPS pk" "mPPS pk"] True assms(4) by (auto simp: carries_def sets_ok_def)
      then show ?thesis using h264_receiver.hands_over_append d2 True False i(1) by (fastforce simp: sent_one_def)
    next
      case no: False
      then have "i1 = []" using 1(5) i(2) by (auto split: if_splits)
      then show ?thesis using d2 no False i(1) by (auto simp: sent_one_def)
    qed
  qed
  show ?thesis
    using that [OF step numbered_append [OF 1(4) 2(4)] framed_append [OF 1(3) 2(3,2)] _ assms(4) sent del] False 2(2) by simp
qed

lemma generate_loop_ok:
  assumes "overhead \<le> 1000"
  shows "list_all nalu_good ns \<Longrightarrow> list_all (\<lambda>n. isParameterNalu (nalu_type n) \<longrightarrow> length n < 65536) ns \<Longrightarrow>
    sets_ok (mSPS pk) (mPPS pk) \<Longrightarrow> ns \<noteq> [] \<Longrightarrow> \<not> isParameterNalu (nalu_type (last ns)) \<Longrightarrow>
    map nalu_view parsers = typed (mark_last ns) \<Longrightarrow>
    \<exists>ps added' pk' track' st'. foldM (h264_generate_step srcs overhead ts) parsers (added, pk, track, st, res) =
        Some (added', pk', track', st', res @ ps) \<and> ps \<noteq> [] \<and> numbered track ps track' \<and> framed ts True ps \<and>
      (\<forall>ts64 items. list_all2 (carries ts64) ps items \<longrightarrow>
         delivers ts64 items (sent added (mSPS pk) (mPPS pk) ns) True)"
proof (induction ns arbitrary: parsers added pk track st res rule: mark_last.induct)
  case (2 n)
  then obtain parser where p: "parsers = [parser]" "nalu_view parser = ((n, True), Some (nalu_type n))"
    by (auto simp: typed_def)
  have g: "nalu_good n" "sets_ok (mSPS pk) (mPPS pk)" "isParameterNalu (nalu_type n) \<longrightarrow> \<not> True \<and> length n < 65536"
    using "2.prems" by auto
  obtain ps added' pk' track' st' where
    "h264_generate_step srcs overhead ts parser (added, pk, track, st, res) = Some (added', pk', track', st', res @ ps)"
    "numbered track ps track'" "framed ts True ps" "ps = [] \<longleftrightarrow> isParameterNalu (nalu_type n)" "sets_ok (mSPS pk') (mPPS pk')"
    "sent added (mSPS pk) (mPPS pk) [n] = sent_one added (mSPS pk) (mPPS pk) n @ sent added' (mSPS pk') (mPPS pk') []"
    "\<And>ts64 items. list_all2 (carries ts64) ps items \<Longrightarrow> delivers ts64 items (sent_one added (mSPS pk) (mPPS pk) n) True"
    by (rule generate_step_ok [OF p(2) g(1) assms g(2,3), of srcs ts added track st res "[]"]) (rule that)
  moreover have "\<not> isParameterNalu (nalu_type n)" using "2.prems" by simp
  ultimately show ?case using p(1) by fastforce
next
  case (3 n m ns)
  then obtain parser parsers' where p: "parsers = parser # parsers'" "nalu_view parser = ((n, False), Some (nalu_type n))"
    "map nalu_view parsers' = typed (mark_last (m # ns))" by (auto simp: typed_def)
  have g: "nalu_good n" "sets_ok (mSPS pk) (mPPS pk)" "isParameterNalu (nalu_type n) \<longrightarrow> \<not> False \<and> length n < 65536"
    using "3.prems" by auto
  obtain ps added' pk' track' st' where 1:
    "h264_generate_step srcs overhead ts parser (added, pk, track, st, res) = Some (added', pk', track', st', res @ ps)"
    "numbered track ps track'" "framed ts False ps" "ps = [] \<longleftrightarrow> isParameterNalu (nalu_type n)" "sets_ok (mSPS pk') (mPPS pk')"
    "sent added (mSPS pk) (mPPS pk) (n # m # ns) =
       sent_one added (mSPS pk) (mPPS pk) n @ sent added' (mSPS pk') (mPPS pk') (m # ns)"
    "\<And>ts64 items. list_all2 (carries ts64) ps items \<Longrightarrow> delivers ts64 items (sent_one added (mSPS pk) (mPPS pk) n) False"
    by (rule generate_step_ok [OF p(2) g(1) assms g(2,3), of srcs ts added track st res "m # ns"]) (rule that)
  obtain qs added'' pk'' track'' st'' where 2:
    "foldM (h264_generate_step srcs overhead ts) parsers' (added', pk', track', st', res @ ps) =
        Some (added'', pk'', track'', st'', (res @ ps) @ qs)" "qs \<noteq> []" "numbered track' qs track''" "framed ts True qs"
    "\<And>ts64 items. list_all2 (carries ts64) qs items \<Longrightarrow>
       delivers ts64 items (sent added' (mSPS pk') (mPPS pk') (m # ns)) True"
    using "3.IH" [OF _ _ 1(5) _ _ p(3), of added' track' st' "res @ ps"] "3.prems" by auto
  have "delivers ts64 items (sent added (mSPS pk) (mPPS pk) (n # m # ns)) True"
    if it: "list_all2 (carries ts64) (ps @ qs) items" for ts64 items
  proof -
    obtain i1 i2 where "items = i1 @ i2" "list_all2 (carries ts64) ps i1" "list_all2 (carries ts64) qs i2"
      using it by (auto simp: list_all2_append1)
    then show ?thesis unfolding 1(6) using h264_receiver.hands_over_append [OF 1(7) 2(5)] by simp
  qed
  then show ?case
    using 1(1) 2(1,2) p(1) numbered_append [OF 1(2) 2(3)] framed_append [OF 1(3) 2(4,2)]
    by (intro exI [of _ "ps @ qs"]) auto
qed simp

text \<open>
  C1. H.264 round trip: for a frame in Annex B format the packetizer ends without reading
  outside of the frame, and its packets, in order, carry consecutive sequence numbers, the
  timestamp of the frame and the marker on the last one only. The depacketizer, given the
  packets, returns exactly one frame: the NAL units that were sent, which are those of the
  frame with the parameter sets moved in front of the first key frame unit. The depacketizer
  has seen a key frame before or the frame has no non-key slice; large units may have been
  fragmented into any number of packets.
\<close>
theorem h264_frame_roundtrip:
  assumes "list_all nalu_good ns" "ns \<noteq> []" "\<not> isParameterNalu (nalu_type (last ns))"
    "list_all (\<lambda>n. isParameterNalu (nalu_type n) \<longrightarrow> length n < 65536) ns" "sets_ok (mSPS pk) (mPPS pk)"
    "overhead \<le> 1000" "mLastRtpTimestamp d \<noteq> ts64"
    "h264_ready d \<or> (\<forall>n\<in>set (sent False (mSPS pk) (mPPS pk) ns). nalu_type n \<noteq> NonKeyFrame)"
  shows "\<exists>ps pk' track' st'. h264_generate srcs overhead pk track st now pts (annexb ns) = Some (ps, pk', track', st') \<and>
    numbered (snd (track_frameTimestamp track now pts)) ps track' \<and>
    framed (fst (track_frameTimestamp track now pts)) True ps \<and>
    (\<forall>items. list_all2 (carries ts64) ps items \<longrightarrow>
       (\<exists>d'. h264_extract items d = Some ([annexb (sent False (mSPS pk) (mPPS pk) ns)], d')))"
proof -
  obtain ts track1 where tt: "track_frameTimestamp track now pts = (ts, track1)" by fastforce
  have ok: "list_all nalu_ok ns" using assms(1) by (auto simp: list_all_iff nalu_good_def)
  have "4 \<le> length (annexb ns)" using assms(2) by (cases ns) (auto simp: kAnnexB_def)
  then obtain parsers where p: "nalu_states (annexb ns) = Some parsers" "map nalu_view parsers = typed (mark_last ns)"
    using nalu_states_eq [of "annexb ns"] nalus_annexb [OF ok] by auto
  obtain ps added' pk' track' st' where g:
    "foldM (h264_generate_step srcs overhead ts) parsers (False, pk, track1, st, []) = Some (added', pk', track', st', [] @ ps)"
    "numbered track1 ps track'" "framed ts True ps"
    "\<forall>ts64 items. list_all2 (carries ts64) ps items \<longrightarrow> delivers ts64 items (sent False (mSPS pk) (mPPS pk) ns) True"
    using generate_loop_ok [OF assms(6,1,4,5,2,3) p(2), of srcs ts False track1 st "[]"] by blast
  have "\<exists>d'. h264_extract items d = Some ([annexb (sent False (mSPS pk) (mPPS pk) ns)], d')"
    if it: "list_all2 (carries ts64) ps items" for items
  proof -
    have "delivers ts64 items (sent False (mSPS pk) (mPPS pk) ns) True" using g(4) it by blast
    from this [unfolded hands_over_def, rule_format, OF assms(8), of None "[]"]
    show ?thesis using assms(7) by (auto simp: h264_extract_def emit_def collected_def)
  qed
  then show ?thesis using g p(1) by (auto simp: h264_generate_def tt)
qed

definition example_item :: "u64 \<Rightarrow> RtpPacket \<Rightarrow> JitterBufferItem" where
  "example_item ts p = \<lparr>when_received = 0, when_dequeue = 0, when_nack_request = 0, when_nack_abandon = 0,
     it_received = True, nack_needed = False, it_kind = Middle, seq_ext = unat (pkt_sequence p), rtp_timestamp_ext = ts,
     it_marker = pkt_marker p, it_extension = pkt_extension p, it_payload = pkt_payload p\<rparr>"

lemma h264_frame_roundtrip_witness:
  "\<exists>ps pk' track' st'. h264_generate [source_twcc] 14 \<lparr>mSPS = [], mPPS = []\<rparr> example_track SourcesState_new 0 0
      (annexb [[0x67, 1], [0x68, 2], [0x65, 0x88, 3]]) = Some (ps, pk', track', st') \<and>
    (\<exists>d'. h264_extract (map (example_item 90000) ps) DepacketizerH264_new =
      Some ([annexb [[0x67, 1], [0x68, 2], [0x65, 0x88, 3]]], d'))"
proof -
  let ?ns = "[[0x67, 1], [0x68, 2], [0x65, 0x88, 3]] :: bytes list"
  have s: "sent False [] [] ?ns = ?ns" by (simp add: nalu_type_def const_defs)
  have c: "list_all2 (carries ts) ps (map (example_item ts) ps)" for ts ps
    by (simp add: list_all2_conv_all_nth carries_def example_item_def)
  show ?thesis
    using h264_frame_roundtrip [of ?ns "\<lparr>mSPS = [], mPPS = []\<rparr>" 14 DepacketizerH264_new 90000
        "[source_twcc]" example_track SourcesState_new 0 0] c [of 90000]
    by (auto simp: s nalu_good_def nalu_ok_def nalu_type_def isParameterNalu_def sets_ok_def const_defs
        DepacketizerH264_new_def simp del: annexb_simps)
qed

end
