(* ===== verification/H265.thy ===== *)
theory H265
  imports H264_Roundtrip
begin

text \<open>
  \<^verbatim>\<open>src/codec_h265.cpp\<close>, \<^verbatim>\<open>src/packetizer_h265.cpp\<close> and \<^verbatim>\<open>src/depacketizer_h265.cpp\<close>: RFC 7798 packetization of an
  Annex B frame into aggregation packets for the parameter sets, single NAL unit packets and fragments, and
  the reassembly. \<^const>\<open>None\<close> is a read outside of the frame, a loop that does not end, an abort of the reader, or the
  use of the null fragment writer.
\<close>

unbundle bit_operations_syntax

section \<open>NAL units\<close>

definition h265_kPacket_AP :: u8 where [const_defs]: "h265_kPacket_AP = 48"
definition h265_kPacket_FU :: u8 where [const_defs]: "h265_kPacket_FU = 49"
definition KeyFrame19 :: u8 where [const_defs]: "KeyFrame19 = 19"
definition KeyFrame20 :: u8 where [const_defs]: "KeyFrame20 = 20"
definition KeyFrame21 :: u8 where [const_defs]: "KeyFrame21 = 21"
definition h265_VPS :: u8 where [const_defs]: "h265_VPS = 32"
definition h265_SPS :: u8 where [const_defs]: "h265_SPS = 33"
definition h265_PPS :: u8 where [const_defs]: "h265_PPS = 34"

text \<open>
  The search for start codes and the class \<^verbatim>\<open>NaluParser\<close> of \<^verbatim>\<open>codec_h265.cpp\<close> have the same text as those of
  \<^verbatim>\<open>codec_h264.cpp\<close>, but for the type of the current unit.
\<close>

definition h265_nalu_states :: "bytes \<Rightarrow> NaluParser list option" where
  "h265_nalu_states frame = nalu_states frame"

definition h265_currType :: "NaluParser \<Rightarrow> u8 option" where
  "h265_currType p = map_option (\<lambda>b. drop_bit 1 b AND 0x3F) (read_at (npBuf p) (npPos p + npSkip p))"

definition h265_isParameterNalu :: "u8 \<Rightarrow> bool" where
  "h265_isParameterNalu t \<longleftrightarrow> t = h265_VPS \<or> t = h265_SPS \<or> t = h265_PPS"

definition h265_isKeyFrameNalu :: "u8 \<Rightarrow> bool" where
  "h265_isKeyFrameNalu t \<longleftrightarrow> t = KeyFrame19 \<or> t = KeyFrame20 \<or> t = KeyFrame21"

definition h265_codec_isFrameStart :: "bytes \<Rightarrow> bool" where
  "h265_codec_isFrameStart nalu =
     (if length nalu < 3 then False
      else let t = drop_bit 1 (nalu ! 0) AND 0x3F
           in if t \<le> 21 then test_mask (nalu ! 2) 7 else False)"

definition h265_isSliceNalu :: "u8 \<Rightarrow> bool" where
  "h265_isSliceNalu t \<longleftrightarrow> t \<le> 21"

definition h265_isSliceFrameStart :: "bytes \<Rightarrow> bool" where
  "h265_isSliceFrameStart data = (if length data = 0 then False else test_mask (data ! 0) 7)"

section \<open>PacketizerH265\<close>

record PacketizerH265 =
  h265_mVPS :: bytes
  h265_mSPS :: bytes
  h265_mPPS :: bytes

definition h265_update_sets :: "u8 \<Rightarrow> bytes \<Rightarrow> PacketizerH265 \<Rightarrow> PacketizerH265" where
  "h265_update_sets t n pk =
     (if t = h265_VPS then pk\<lparr>h265_mVPS := n\<rparr>
      else if t = h265_SPS then pk\<lparr>h265_mSPS := n\<rparr>
      else if t = h265_PPS then pk\<lparr>h265_mPPS := n\<rparr> else pk)"

definition h265_setCodecSpecificData :: "PacketizerH265 \<Rightarrow> bytes list \<Rightarrow> PacketizerH265 option" where
  "h265_setCodecSpecificData pk csd =
     foldM (\<lambda>item pk. do {
         ps \<leftarrow> h265_nalu_states item;
         foldM (\<lambda>p pk. do { t \<leftarrow> h265_currType p; Some (h265_update_sets t (currData p) pk) }) ps pk
       }) csd (pk\<lparr>h265_mVPS := [], h265_mSPS := [], h265_mPPS := []\<rparr>)"

definition h265_isKeyFrame :: "bytes \<Rightarrow> bool option" where
  "h265_isKeyFrame frame = do {
     ps \<leftarrow> h265_nalu_states frame;
     foldM (\<lambda>p found. if found then Some True
                      else do { t \<leftarrow> h265_currType p; Some (h265_isKeyFrameNalu t) }) ps False
   }"

definition h265_ap_payload :: "bytes \<Rightarrow> bytes \<Rightarrow> bytes \<Rightarrow> bytes" where
  "h265_ap_payload vps sps pps =
     u8_bytes (push_bit 1 h265_kPacket_AP) @ u8_bytes 0 @
     u16_bytes (of_nat (length vps)) @ vps @ u16_bytes (of_nat (length sps)) @ sps @ u16_bytes (of_nat (length pps)) @ pps"

definition h265_fu_payload :: "u8 \<Rightarrow> u8 \<Rightarrow> u8 \<Rightarrow> bool \<Rightarrow> bool \<Rightarrow> bytes \<Rightarrow> bytes" where
  "h265_fu_payload layerId temporalId naluType isStart isEnd chunk =
     u16_bytes (push_bit 9 (ucast h265_kPacket_FU) OR push_bit 3 (ucast layerId) OR ucast temporalId) @
     u8_bytes ((if isStart then push_bit 7 1 else 0) OR (if isEnd then push_bit 6 1 else 0) OR (naluType AND 0x3F)) @
     chunk"

text \<open>The fragmentation loop. \<open>basic\<close> is \<^verbatim>\<open>basicPacketSize\<close>, \<open>atEnd\<close> is \<^verbatim>\<open>parser.isAtEnd()\<close>.\<close>

partial_function (option) h265_fu_loop ::
  "'s RtpExtensionSource list \<Rightarrow> nat \<Rightarrow> u8 \<Rightarrow> u8 \<Rightarrow> u8 \<Rightarrow> nat \<Rightarrow> bool \<Rightarrow> u32 \<Rightarrow>
   nat \<Rightarrow> u8 \<Rightarrow> RtpExtension \<Rightarrow> bytes \<Rightarrow> Track \<Rightarrow> 's \<Rightarrow> (RtpPacket list \<times> Track \<times> 's) option" where
  "h265_fu_loop srcs basic layerId temporalId naluType naluSize atEnd frameTimestamp
     packetNumber padding extension data track st =
     (if length data > 0 then
        (let ((rollover, seq), track) = track_nextSequence track;
             (padding, st) = (if packetNumber > 0 then getPadding srcs st track naluSize else (padding, st));
             (extension, st) = (if packetNumber > 0
                                then buildExtension srcs st track (h265_isKeyFrameNalu naluType) packetNumber
                                else (extension, st));
             packetSize = adjustPacketSize (size_sub basic 3) (unat padding) extension;
             packetSize = (if packetNumber = 0 \<and> packetSize \<ge> length data
                           then size_sub (length data) 10 else packetSize);
             isStart = (packetNumber = 0);
             isEnd = (length data \<le> packetSize);
             marker = (isEnd \<and> atEnd);
             writeNow = min (length data) packetSize;
             payload = h265_fu_payload layerId temporalId naluType isStart isEnd (take writeNow data);
             packet = RtpPacket_new track marker rollover seq frameTimestamp padding extension payload
         in do {
           (packets, track, st) \<leftarrow> h265_fu_loop srcs basic layerId temporalId naluType naluSize atEnd frameTimestamp
              (packetNumber + 1) padding extension (drop writeNow data) track st;
           Some (packet # packets, track, st)
         })
      else Some ([], track, st))"

definition h265_layerId :: "bytes \<Rightarrow> u8" where
  "h265_layerId nalu = push_bit 5 (nalu ! 0 AND 0x01) OR (drop_bit 3 (nalu ! 1) AND 0x1F)"

definition h265_temporalId :: "bytes \<Rightarrow> u8" where
  "h265_temporalId nalu = nalu ! 1 AND 0x07"

text \<open>The packets of one NAL unit that is not a parameter set.\<close>

definition h265_nalu_packets ::
  "'s RtpExtensionSource list \<Rightarrow> nat \<Rightarrow> u8 \<Rightarrow> bytes \<Rightarrow> bool \<Rightarrow> u32 \<Rightarrow> Track \<Rightarrow> 's \<Rightarrow>
   (RtpPacket list \<times> Track \<times> 's) option" where
  "h265_nalu_packets srcs mediaProtectionOverhead naluType nalu atEnd frameTimestamp track st =
     (let naluSize = length nalu;
          (padding, st) = getPadding srcs st track naluSize;
          (extension, st) = buildExtension srcs st track (h265_isKeyFrameNalu naluType) 0;
          basicPacketSize = getBasicPacketSize mediaProtectionOverhead;
          packetSize = adjustPacketSize basicPacketSize (unat padding) extension
      in if packetSize \<ge> naluSize then
           (let ((rollover, seq), track) = track_nextSequence track
            in Some ([RtpPacket_new track atEnd rollover seq frameTimestamp padding extension nalu], track, st))
         else if naluSize > 2 then
           h265_fu_loop srcs basicPacketSize (h265_layerId nalu) (h265_temporalId nalu) naluType naluSize atEnd frameTimestamp
             0 padding extension (drop 2 nalu) track st
         else Some ([], track, st))"

text \<open>The state of the loop over NAL units: \<^verbatim>\<open>addedParameters\<close>, the packetizer, the track, the
  sources and the packets so far.\<close>

type_synonym 's h265_state = "bool \<times> PacketizerH265 \<times> Track \<times> 's \<times> RtpPacket list"

definition h265_parameters ::
  "'s RtpExtensionSource list \<Rightarrow> u32 \<Rightarrow> 's h265_state \<Rightarrow> 's h265_state" where
  "h265_parameters srcs frameTimestamp = (\<lambda>(addedParameters, pk, track, st, result).
     if \<not> addedParameters \<and> h265_mVPS pk \<noteq> [] \<and> h265_mSPS pk \<noteq> [] \<and> h265_mPPS pk \<noteq> [] then
       (let payload = h265_ap_payload (h265_mVPS pk) (h265_mSPS pk) (h265_mPPS pk);
            (extension, st) = buildExtension srcs st track True 0;
            ((rollover, seq), track) = track_nextSequence track
        in (True, pk, track, st,
            result @ [RtpPacket_new track False rollover seq frameTimestamp 0 extension payload]))
     else (True, pk, track, st, result))"

definition h265_generate_step ::
  "'s RtpExtensionSource list \<Rightarrow> nat \<Rightarrow> u32 \<Rightarrow> NaluParser \<Rightarrow> 's h265_state \<Rightarrow> 's h265_state option" where
  "h265_generate_step srcs mediaProtectionOverhead frameTimestamp parser state = do {
     naluType \<leftarrow> h265_currType parser;
     let (addedParameters, pk, track, st, result) =
       (let (addedParameters, pk, track, st, result) = state in
        if h265_isParameterNalu naluType
        then (addedParameters, h265_update_sets naluType (currData parser) pk, track, st, result)
        else if h265_isKeyFrameNalu naluType then h265_parameters srcs frameTimestamp state
        else state);
     if \<not> h265_isParameterNalu naluType then do {
       (packets, track, st) \<leftarrow> h265_nalu_packets srcs mediaProtectionOverhead naluType (currData parser)
          (isAtEnd parser) frameTimestamp track st;
       Some (addedParameters, pk, track, st, result @ packets)
     } else Some (addedParameters, pk, track, st, result)
   }"

definition h265_generate ::
  "'s RtpExtensionSource list \<Rightarrow> nat \<Rightarrow> PacketizerH265 \<Rightarrow> Track \<Rightarrow> 's \<Rightarrow> int \<Rightarrow> int \<Rightarrow> bytes \<Rightarrow>
   (RtpPacket list \<times> PacketizerH265 \<times> Track \<times> 's) option" where
  "h265_generate srcs mediaProtectionOverhead pk track st now pts_usec frame = do {
     let (frameTimestamp, track) = track_frameTimestamp track now pts_usec;
     parsers \<leftarrow> h265_nalu_states frame;
     (_, pk, track, st, result) \<leftarrow> foldM (h265_generate_step srcs mediaProtectionOverhead frameTimestamp) parsers
       (False, pk, track, st, []);
     Some (result, pk, track, st)
   }"

section \<open>DepacketizerH265\<close>

definition h265_kHaveVPS :: u8 where [const_defs]: "h265_kHaveVPS = 0x01"
definition h265_kHaveSPS :: u8 where [const_defs]: "h265_kHaveSPS = 0x02"
definition h265_kHavePPS :: u8 where [const_defs]: "h265_kHavePPS = 0x04"
definition h265_kHaveKey :: u8 where [const_defs]: "h265_kHaveKey = 0x10"
definition h265_kHaveAll :: u8 where
  [const_defs]: "h265_kHaveAll = h265_kHaveVPS OR h265_kHaveSPS OR h265_kHavePPS OR h265_kHaveKey"

record DepacketizerH265 =
  h265_mHaveBits :: u8
  h265_mFrameBuffer :: bytes
  h265_mLastRtpTimestamp :: u64

definition DepacketizerH265_new :: DepacketizerH265 where
  "DepacketizerH265_new = \<lparr>h265_mHaveBits = 0, h265_mFrameBuffer = [], h265_mLastRtpTimestamp = 0\<rparr>"

definition h265_reset :: "DepacketizerH265 \<Rightarrow> DepacketizerH265" where
  "h265_reset d = d\<lparr>h265_mHaveBits := 0, h265_mFrameBuffer := [], h265_mLastRtpTimestamp := 0\<rparr>"

definition h265_note_unit :: "u8 \<Rightarrow> DepacketizerH265 \<Rightarrow> DepacketizerH265 option" where
  "h265_note_unit t d =
     (if t = h265_VPS then Some (d\<lparr>h265_mHaveBits := h265_mHaveBits d OR h265_kHaveVPS\<rparr>)
      else if t = h265_SPS then Some (d\<lparr>h265_mHaveBits := h265_mHaveBits d OR h265_kHaveSPS\<rparr>)
      else if t = h265_PPS then Some (d\<lparr>h265_mHaveBits := h265_mHaveBits d OR h265_kHavePPS\<rparr>)
      else if h265_isKeyFrameNalu t then Some (d\<lparr>h265_mHaveBits := h265_mHaveBits d OR h265_kHaveKey\<rparr>)
      else if h265_isSliceNalu t then None else Some d)"

text \<open>\<^verbatim>\<open>extractImpl\<close>; \<^const>\<open>h265_note_unit\<close> is its switch, with \<^const>\<open>None\<close> for the early return.\<close>

definition h265_extractImpl ::
  "JitterBufferItem \<Rightarrow> bytes \<Rightarrow> bytes list \<times> DepacketizerH265 \<Rightarrow> bytes list \<times> DepacketizerH265" where
  "h265_extractImpl packet nalu = (\<lambda>(out, d).
     if nalu = [] then (out, d)
     else case (if h265_mHaveBits d AND h265_kHaveAll \<noteq> h265_kHaveAll
                then h265_note_unit (drop_bit 1 (hd nalu) AND 0x3F) d else Some d) of
       None \<Rightarrow> (out, d)
     | Some d \<Rightarrow>
         let d = (if h265_mLastRtpTimestamp d \<noteq> rtp_timestamp_ext packet
                  then d\<lparr>h265_mLastRtpTimestamp := rtp_timestamp_ext packet, h265_mFrameBuffer := []\<rparr> else d);
             d = d\<lparr>h265_mFrameBuffer := h265_mFrameBuffer d @ kAnnexB @ nalu\<rparr>
         in if it_marker packet then (out @ [h265_mFrameBuffer d], d\<lparr>h265_mFrameBuffer := []\<rparr>) else (out, d))"

text \<open>The loop over the units of an aggregation packet.\<close>

function h265_ap_loop :: "(bytes \<Rightarrow> 'a \<Rightarrow> 'a) \<Rightarrow> ByteReader \<Rightarrow> 'a \<Rightarrow> 'a option" where
  "h265_ap_loop act r x =
     (if remaining r \<ge> 2 then
        (case readU16 r of
           None \<Rightarrow> None
         | Some (sz, r') \<Rightarrow>
             if remaining r' \<ge> unat sz \<and> sz \<ge> 2 then
               (case reader_skip (unat sz) r' of
                  None \<Rightarrow> None
                | Some r'' \<Rightarrow> h265_ap_loop act r'' (act (take (unat sz) (drop (position r') (rBuf r'))) x))
             else Some x)
      else Some x)"
  by pat_completeness auto
termination
  by (relation "measure (\<lambda>(_, r, _). remaining r)") (auto dest: stap_progress)

declare h265_ap_loop.simps [simp del]

type_synonym h265_extract_state = "bytes option \<times> bytes list \<times> DepacketizerH265"

definition h265_extract_packet :: "JitterBufferItem \<Rightarrow> h265_extract_state \<Rightarrow> h265_extract_state option" where
  "h265_extract_packet packet = (\<lambda>(fu, out_d).
     let reader = ByteReader_new (it_payload packet) in
     if remaining reader \<ge> 2 then do {
       (nalUnitHeader, reader) \<leftarrow> readU16 reader;
       let type = drop_bit 9 nalUnitHeader AND 0x3F;
       let layerId = drop_bit 3 nalUnitHeader AND 0x3F;
       let temporalId = nalUnitHeader AND 0x7;
       if type = ucast h265_kPacket_AP then do {
         out_d \<leftarrow> h265_ap_loop (h265_extractImpl packet) reader out_d;
         Some (fu, out_d)
       }
       else if type = ucast h265_kPacket_FU then
         (if remaining reader \<ge> 1 then do {
            (fuHeader, reader) \<leftarrow> readU8 reader;
            let fuIsStart = test_mask fuHeader 7;
            let fuIsEnd = test_mask fuHeader 6;
            let fuType = fuHeader AND 0x3F;
            let fu = (if fuIsStart
                      then Some (u16_bytes (push_bit 9 (ucast fuType) OR push_bit 3 layerId OR temporalId)) else fu);
            fu \<leftarrow> (if remaining reader > 0
                   then map_option (\<lambda>buf. Some (buf @ take (remaining reader) (current reader))) fu
                   else Some fu);
            let out_d = (if fuIsEnd then (case fu of Some buf \<Rightarrow> h265_extractImpl packet buf out_d | None \<Rightarrow> out_d)
                         else out_d);
            Some (fu, out_d)
          } else Some (fu, out_d))
       else if type \<le> 40 then Some (fu, h265_extractImpl packet (it_payload packet) out_d)
       else Some (fu, out_d)
     } else Some (fu, out_d))"

definition h265_extract_loop :: "JitterBufferItem list \<Rightarrow> h265_extract_state \<Rightarrow> h265_extract_state option" where
  "h265_extract_loop = foldM h265_extract_packet"

definition h265_extract ::
  "JitterBufferItem list \<Rightarrow> DepacketizerH265 \<Rightarrow> (bytes list \<times> DepacketizerH265) option" where
  "h265_extract packetList d = map_option snd (h265_extract_loop packetList (None, [], d))"

definition h265_isFrameStartImpl :: "u8 \<Rightarrow> bytes \<Rightarrow> bool" where
  "h265_isFrameStartImpl naluType data =
     (if naluType = h265_VPS then True
      else \<not> h265_isKeyFrameNalu naluType \<and> h265_isSliceNalu naluType \<and> length data > 0 \<and> h265_isSliceFrameStart data)"

text \<open>
  The search of \<^verbatim>\<open>isFrameStart\<close> in an aggregation packet. The code reads a size, looks at the unit and goes on
  without skipping it, so that the next size is read from the bytes of the unit.
\<close>

function h265_ap_search :: "ByteReader \<Rightarrow> bool option" where
  "h265_ap_search r =
     (if remaining r \<ge> 2 then
        (case readU16 r of
           None \<Rightarrow> None
         | Some (sz, r') \<Rightarrow>
             if remaining r' \<ge> unat sz \<and> sz \<ge> 2 then
               (let apData = drop (position r') (rBuf r');
                    apHeader = push_bit 8 (ucast (apData ! 0)) OR ucast (apData ! 1) :: u32;
                    apNaluType = ucast (drop_bit 9 apHeader AND 0x3F)
                in if sz > 2 \<and> h265_isFrameStartImpl apNaluType (take (unat sz - 2) (drop 2 apData))
                   then Some True else h265_ap_search r')
             else Some False)
      else Some False)"
  by pat_completeness auto
termination
proof (relation "measure remaining")
  fix r p sz r'
  assume "2 \<le> remaining r" "readU16 r = Some p" "(sz, r') = p"
  then show "(r', r) \<in> measure remaining"
    by (auto simp: readU16_def remaining_def check_read_def split: if_splits bind_splits)
qed auto

declare h265_ap_search.simps [simp del]

definition h265_isFrameStart :: "bytes \<Rightarrow> bool option" where
  "h265_isFrameStart payload =
     (let reader = ByteReader_new payload in
      if remaining reader \<ge> 2 then do {
        (nalUnitHeader, reader) \<leftarrow> readU16 reader;
        let type = (ucast (drop_bit 9 nalUnitHeader AND 0x3F) :: u8);
        if type = h265_kPacket_AP then h265_ap_search reader
        else if type = h265_kPacket_FU then
          (if remaining reader \<ge> 1 then do {
             (fuHeader, reader) \<leftarrow> readU8 reader;
             let fuIsStart = test_mask fuHeader 7;
             let fuNaluType = fuHeader AND 0x3F;
             let fuData = take (remaining reader) (current reader);
             Some (fuIsStart \<and> length fuData > 0 \<and> h265_isFrameStartImpl fuNaluType fuData)
           } else Some False)
        else if type \<le> 40 then Some (h265_isFrameStartImpl type (take (remaining reader) (current reader)))
        else Some False
      } else Some False)"

definition depacketizer_h265 :: "DepacketizerH265 Depacketizer" where
  "depacketizer_h265 =
     \<lparr>dp_getPacketKind = video_getPacketKind h265_isFrameStart, dp_reset = h265_reset,
      dp_extract = h265_extract\<rparr>"

end
