(* ===== verification/H265_Roundtrip.thy ===== *)
theory H265_Roundtrip
  imports H265
begin

text \<open>
  The H.265 packetizer and depacketizer together: headers of fragments, what each kind of packet delivers, what
  packets the packetizer makes of a frame, and that the depacketizer gives the frame back. The fragmentation and the
  receiver are interpretations of the locales of \<^verbatim>\<open>Nal_Fragments\<close>.
\<close>

unbundle bit_operations_syntax

section \<open>Headers\<close>

lemma u16_eqI:
  fixes a b :: u16
  assumes "bit a 0 = bit b 0" "bit a 1 = bit b 1" "bit a 2 = bit b 2" "bit a 3 = bit b 3" "bit a 4 = bit b 4" "bit a 5 = bit b 5" "bit a 6 = bit b 6" "bit a 7 = bit b 7"
    "bit a 8 = bit b 8" "bit a 9 = bit b 9" "bit a 10 = bit b 10" "bit a 11 = bit b 11" "bit a 12 = bit b 12" "bit a 13 = bit b 13" "bit a 14 = bit b 14" "bit a 15 = bit b 15"
  shows "a = b"
proof (rule bit_word_eqI)
  have all: "list_all (\<lambda>n. bit a n = bit b n) [0..<16]"
    using assms by (simp add: upt_rec eval_nat_numeral)
  fix n assume "n < LENGTH(16)"
  then show "bit a n = bit b n" using all by (simp add: list_all_iff)
qed

lemma not_bit_u8: "8 \<le> n \<Longrightarrow> \<not> bit (b :: u8) n"
  by (auto dest: bit_imp_le_length)

definition h265_type :: "bytes \<Rightarrow> u8" where
  "h265_type nalu = (if nalu = [] then 0 else drop_bit 1 (hd nalu) AND 0x3F)"

text \<open>The two bytes of the header of a unit, put together from the parts that a fragment carries.\<close>

lemma h265_header_parts:
  fixes x y z :: u8
  defines "h \<equiv> push_bit 9 (ucast (x AND 0x3F)) OR push_bit 3 (ucast (push_bit 5 (y AND 1) OR (drop_bit 3 z AND 0x1F))) OR ucast (z AND 7) :: u16"
  shows "drop_bit 9 h AND 0x3F = ucast (x AND 0x3F)"
    "drop_bit 3 h AND 0x3F = ucast (push_bit 5 (y AND 1) OR (drop_bit 3 z AND 0x1F))" "h AND 0x7 = ucast (z AND 7)"
  unfolding h_def by (rule u16_eqI; simp add: bit_simps not_bit_u8)+

lemma h265_header_restored:
  fixes a b :: u8
  assumes "\<not> bit a 7"
  shows "push_bit 9 (ucast (drop_bit 1 a AND 0x3F)) OR push_bit 3 (ucast (push_bit 5 (a AND 1) OR (drop_bit 3 b AND 0x1F))) OR
    ucast (b AND 7) = (push_bit 8 (ucast a) OR ucast b :: u16)"
  by (rule u16_eqI; simp add: bit_simps not_bit_u8 assms flip: numeral_2_eq_2 numeral_3_eq_3)

lemma u16_bytes_concat: "u16_bytes (push_bit 8 (ucast a) OR ucast b) = [a, b]"
  by (simp only: u16_bytes_def word_join_hi_16 word_join_lo_16)

lemma h265_fu_bits:
  fixes t :: u8 and s e :: bool
  defines "h \<equiv> (if s then push_bit 7 1 else 0) OR (if e then push_bit 6 1 else 0) OR (t AND 0x3F)"
  shows "test_mask h 7 = s" "test_mask h 6 = e" "h AND 0x3F = t AND 0x3F"
  unfolding h_def
  apply (cases s; cases e; simp add: test_mask_bit bit_simps)
  apply (cases s; cases e; simp add: test_mask_bit bit_simps)
  apply (rule u8_eqI; cases s; cases e; simp add: bit_simps)
  done

lemma unat_ucast_8_16: "unat (ucast (v :: u8) :: u16) = unat v"
  by (simp add: unsigned_ucast_eq take_bit_nat_eq_self order.strict_trans [OF unat_u8_less])

section \<open>What packets deliver\<close>

definition h265_ready :: "DepacketizerH265 \<Rightarrow> bool" where
  "h265_ready d \<longleftrightarrow> h265_mHaveBits d AND h265_kHaveAll = h265_kHaveAll"

definition h265_collected :: "DepacketizerH265 \<Rightarrow> u64 \<Rightarrow> bytes" where
  "h265_collected d ts = (if h265_mLastRtpTimestamp d \<noteq> ts then [] else h265_mFrameBuffer d)"

text \<open>The units that a depacketizer takes before it is ready.\<close>

definition h265_free :: "bytes \<Rightarrow> bool" where
  "h265_free n \<longleftrightarrow> \<not> h265_isSliceNalu (h265_type n) \<or> h265_isKeyFrameNalu (h265_type n)"

interpretation h265_receiver: nal_receiver h265_extract_loop h265_ready h265_free h265_collected
  by unfold_locales (simp_all add: h265_extract_loop_def foldM_append)

abbreviation h265_delivers :: "u64 \<Rightarrow> JitterBufferItem list \<Rightarrow> bytes list \<Rightarrow> bool \<Rightarrow> bool" where
  "h265_delivers \<equiv> hands_over h265_extract_loop h265_ready h265_free h265_collected"

lemma h265_note_unit_ok:
  "h265_free n \<Longrightarrow> n \<noteq> [] \<Longrightarrow> \<exists>b. h265_note_unit (drop_bit 1 (hd n) AND 0x3F) d = Some (d\<lparr>h265_mHaveBits := b\<rparr>)"
  unfolding h265_note_unit_def h265_free_def h265_type_def
  by (auto intro: exI [of _ "h265_mHaveBits d"])

lemma h265_extractImpl_obtain:
  assumes "n \<noteq> []" "h265_ready d \<or> h265_free n"
  obtains d' where
    "h265_extractImpl p n (out, d) = (emit (it_marker p) out (h265_collected d (rtp_timestamp_ext p) @ kAnnexB @ n), d')"
    "\<not> it_marker p \<Longrightarrow> h265_collected d' (rtp_timestamp_ext p) = h265_collected d (rtp_timestamp_ext p) @ kAnnexB @ n"
    "h265_ready d \<Longrightarrow> h265_ready d'"
proof -
  obtain b where b: "(if h265_mHaveBits d AND h265_kHaveAll \<noteq> h265_kHaveAll
      then h265_note_unit (drop_bit 1 (hd n) AND 0x3F) d else Some d) = Some (d\<lparr>h265_mHaveBits := b\<rparr>)"
    "h265_ready d \<Longrightarrow> b = h265_mHaveBits d"
  proof (cases "h265_ready d")
    case True
    then show ?thesis using that [of "h265_mHaveBits d"] by (simp add: h265_ready_def)
  next
    case False
    then show ?thesis using assms h265_note_unit_ok [of n d] that by (auto simp: h265_ready_def)
  qed
  show ?thesis
    by (rule that [of "snd (h265_extractImpl p n (out, d))"])
      (use assms(1) b in \<open>auto simp: h265_extractImpl_def b(1) Let_def emit_def h265_collected_def h265_ready_def\<close>)
qed

lemma h265_single_packet:
  assumes "2 \<le> length n" "drop_bit 1 (hd n) AND 0x3F \<le> 40" "\<not> bit (hd n) 7" "it_payload p = n"
  shows "h265_extract_packet p (fu, out, d) = Some (fu, h265_extractImpl p n (out, d))"
proof -
  obtain a b rest where n: "n = a # b # rest" using assms(1) by (cases n; cases "tl n") auto
  have "drop_bit 9 (be16 n) AND 0x3F = ucast (drop_bit 1 a AND 0x3F)"
    unfolding n be16_def using assms(3) by (intro u16_eqI; simp add: bit_simps not_bit_u8 n flip: numeral_2_eq_2 numeral_3_eq_3)
  moreover have "ucast x = (ucast y :: u16) \<longleftrightarrow> x = y" "(ucast x :: u16) \<le> 40 \<longleftrightarrow> x \<le> 40" for x y :: u8
    by (simp_all add: word_unat_eq_iff word_le_nat_alt unat_ucast_8_16)
  moreover have "drop_bit 1 a AND 0x3F \<noteq> h265_kPacket_AP" "drop_bit 1 a AND 0x3F \<noteq> h265_kPacket_FU"
    using assms(2) n by (auto simp: const_defs)
  ultimately have t: "drop_bit 9 (be16 n) AND 0x3F \<noteq> ucast h265_kPacket_AP" "drop_bit 9 (be16 n) AND 0x3F \<noteq> ucast h265_kPacket_FU"
    "drop_bit 9 (be16 n) AND 0x3F \<le> 40"
    using assms(2) n by simp_all
  then show ?thesis using assms by (simp add: h265_extract_packet_def Let_def read_simps)
qed

section \<open>Aggregation packets\<close>

lemma h265_ap_loop_unit:
  assumes "reader_inv r" "unread r = u16_bytes (of_nat (length n)) @ n @ rest" "2 \<le> length n" "length n < 65536"
  shows "h265_ap_loop act r x = h265_ap_loop act (advance (2 + length n) r) (act n x)"
    "reader_inv (advance (2 + length n) r)" "unread (advance (2 + length n) r) = rest"
proof -
  let ?r = "advance 2 r"
  have r: "reader_inv ?r" "unread ?r = n @ rest"
    using assms(1,2) by (simp_all add: read_simps)
  have sz: "unat (of_nat (length n) :: u16) = length n" "(of_nat (length n) :: u16) \<ge> 2"
    using assms(3,4) by (simp_all add: unat_of_nat word_le_nat_alt)
  have "take (length n) (drop (position ?r) (rBuf ?r)) = n"
    using take_current [OF r(1), of "length n"] r(2) by (simp add: current_def position_def)
  then show "h265_ap_loop act r x = h265_ap_loop act (advance (2 + length n) r) (act n x)"
    using assms(1,2) r sz by (simp add: h265_ap_loop.simps [of act r] read_simps)
  show "reader_inv (advance (2 + length n) r)" "unread (advance (2 + length n) r) = rest"
    using assms(1,2) by (simp_all add: read_simps)
qed

lemma h265_ap_loop_end: "reader_inv r \<Longrightarrow> unread r = [] \<Longrightarrow> h265_ap_loop act r x = Some x"
  by (simp add: h265_ap_loop.simps [of act r] read_simps)

lemma h265_ap_loop_units:
  "reader_inv r \<Longrightarrow> unread r = concat (map (\<lambda>n. u16_bytes (of_nat (length n)) @ n) ns) \<Longrightarrow>
     list_all (\<lambda>n. 2 \<le> length n \<and> length n < 65536) ns \<Longrightarrow> h265_ap_loop act r x = Some (fold act ns x)"
proof (induction ns arbitrary: r x)
  case Nil
  then show ?case using h265_ap_loop_end by simp
next
  case (Cons n ns)
  then have "unread r = u16_bytes (of_nat (length n)) @ n @ concat (map (\<lambda>n. u16_bytes (of_nat (length n)) @ n) ns)" by simp
  note u = Cons.prems(1) this
  have n: "2 \<le> length n" "length n < 65536" using Cons.prems(3) by auto
  show ?case
    using Cons.IH [OF h265_ap_loop_unit(2,3) [OF u n], of "act n x"] h265_ap_loop_unit(1) [OF u n, of act x] Cons.prems(3) by simp
qed

text \<open>Several units in one packet without the marker.\<close>

lemma h265_units_collected:
  "list_all (\<lambda>n. n \<noteq> []) ns \<Longrightarrow> \<not> it_marker p \<Longrightarrow> h265_ready d \<or> (\<forall>n\<in>set ns. h265_free n) \<Longrightarrow>
     \<exists>d'. fold (h265_extractImpl p) ns (out, d) = (out, d') \<and>
       h265_collected d' (rtp_timestamp_ext p) = h265_collected d (rtp_timestamp_ext p) @ annexb ns \<and> (h265_ready d \<longrightarrow> h265_ready d')"
proof (induction ns arbitrary: d)
  case (Cons n ns)
  have n: "n \<noteq> []" "h265_ready d \<or> h265_free n" using Cons.prems by auto
  obtain d1 where d1: "h265_extractImpl p n (out, d) = (out, d1)"
    "h265_collected d1 (rtp_timestamp_ext p) = h265_collected d (rtp_timestamp_ext p) @ kAnnexB @ n" "h265_ready d \<Longrightarrow> h265_ready d1"
    using h265_extractImpl_obtain [OF n, of p out] Cons.prems(2) by (auto simp: emit_def)
  show ?case using Cons.IH [of d1] Cons.prems d1 by auto
qed simp

lemma h265_delivers_ap:
  assumes "rtp_timestamp_ext p = ts" "it_payload p = h265_ap_payload vps sps pps" "\<not> it_marker p"
    "list_all (\<lambda>n. 2 \<le> length n \<and> length n < 65536) [vps, sps, pps]"
  shows "h265_delivers ts [p] [vps, sps, pps] False"
proof -
  let ?q = "ByteReader_new (it_payload p)"
  let ?r = "advance 2 ?q"
  have u0: "unread ?q = push_bit 1 h265_kPacket_AP # 0 # concat (map (\<lambda>n. u16_bytes (of_nat (length n)) @ n) [vps, sps, pps])"
    using assms(2) by (simp add: h265_ap_payload_def u8_bytes_def)
  have r: "reader_inv ?r" "unread ?r = concat (map (\<lambda>n. u16_bytes (of_nat (length n)) @ n) [vps, sps, pps])"
    using u0 by (simp_all add: read_simps)
  have "readU16 ?q = Some (be16 (unread ?q), ?r)" "2 \<le> remaining ?q"
    using u0 by (simp_all add: read_simps)
  moreover have "drop_bit 9 (be16 (unread ?q)) AND 0x3F = ucast h265_kPacket_AP"
    unfolding u0 be16_def by (simp add: const_defs)
  ultimately have packet: "h265_extract_packet p (fu, out, d) = Some (fu, fold (h265_extractImpl p) [vps, sps, pps] (out, d))" for fu out d
    using h265_ap_loop_units [OF r assms(4), of "h265_extractImpl p"] by (simp add: h265_extract_packet_def)
  show ?thesis unfolding hands_over_def h265_extract_loop_def
  proof (intro allI impI)
    fix fu out d assume "h265_ready d \<or> (\<forall>n\<in>set [vps, sps, pps]. h265_free n)"
    moreover have "list_all (\<lambda>n. n \<noteq> []) [vps, sps, pps]" using assms(4) by auto
    ultimately show "\<exists>fu' d'. foldM h265_extract_packet [p] (fu, out, d) = Some (fu', emit False out (h265_collected d ts @ annexb [vps, sps, pps]), d') \<and>
        (\<not> False \<longrightarrow> h265_collected d' ts = h265_collected d ts @ annexb [vps, sps, pps]) \<and> (h265_ready d \<longrightarrow> h265_ready d')"
      using h265_units_collected [of "[vps, sps, pps]" p d out] assms(1,3) packet [of fu out d] by (auto simp: emit_def simp del: fold_simps)
  qed
qed

section \<open>Fragments\<close>

lemma h265_fu_payload_append: "h265_fu_payload l i t a b c = h265_fu_payload l i t a b [] @ c"
  by (simp add: h265_fu_payload_def)

definition h265_layer_of :: "u8 \<Rightarrow> u8 \<Rightarrow> u8" where
  "h265_layer_of a b = push_bit 5 (a AND 1) OR (drop_bit 3 b AND 0x1F)"

lemma h265_fu_packet:
  assumes "it_payload p = h265_fu_payload (h265_layer_of a b) (b AND 7) t s e chunk" "chunk \<noteq> []"
  shows "h265_extract_packet p (fu, out, d) =
     map_option (\<lambda>buf. (Some (buf @ chunk), if e then h265_extractImpl p (buf @ chunk) (out, d) else (out, d)))
       (if s then Some (u16_bytes (push_bit 9 (ucast (t AND 0x3F)) OR push_bit 3 (ucast (h265_layer_of a b)) OR ucast (b AND 7))) else fu)"
proof -
  let ?q = "ByteReader_new (it_payload p)"
  define ind :: u16 where "ind = push_bit 9 (ucast (h265_kPacket_FU AND 0x3F)) OR push_bit 3 (ucast (h265_layer_of a b)) OR ucast (b AND 7)"
  define fh where "fh = ((if s then push_bit 7 1 else 0) OR (if e then push_bit 6 1 else 0) OR (t AND 0x3F))"
  have FU: "h265_kPacket_FU AND 0x3F = h265_kPacket_FU" "(ucast h265_kPacket_FU :: u16) \<noteq> ucast h265_kPacket_AP"
    by (simp_all add: const_defs)
  have ind: "drop_bit 9 ind AND 0x3F = ucast h265_kPacket_FU" "drop_bit 3 ind AND 0x3F = ucast (h265_layer_of a b)"
    "ind AND 0x7 = ucast (b AND 7)"
    using h265_header_parts [of h265_kPacket_FU a b] unfolding ind_def h265_layer_of_def FU(1) by simp_all
  have fh: "test_mask fh 7 = s" "test_mask fh 6 = e" "fh AND 0x3F = t AND 0x3F"
    unfolding fh_def by (rule h265_fu_bits)+
  have pl: "it_payload p = u16_bytes ind @ fh # chunk"
    using assms(1) by (simp add: h265_fu_payload_def u8_bytes_def ind_def fh_def FU(1))
  define r1 where "r1 = advance 2 ?q"
  define r2 where "r2 = advance (Suc 0) r1"
  have s1: "readU16 ?q = Some (ind, r1)" "reader_inv r1" "unread r1 = fh # chunk"
    using pl by (simp_all add: read_simps r1_def)
  note s2 = unread_Cons [OF s1(2,3), folded r2_def]
  have rem: "length (it_payload p) = 3 + length chunk" "remaining r1 = Suc (length chunk)" "remaining r2 = length chunk"
    using pl remaining_unread [OF s1(2)] s1(3) remaining_unread [OF s2(2)] s2(3) by simp_all
  have c: "take (length chunk) (current r2) = chunk"
    using take_current [OF s2(2), of "length chunk"] s2(3) by simp
  show ?thesis
    using assms(2) by (cases fu) (simp_all add: h265_extract_packet_def Let_def rem s1(1) s2(1) ind fh c FU)
qed

text \<open>A unit is known by the two bytes of its header.\<close>

interpretation h265_units: fu_receiver h265_extract_loop h265_ready h265_free h265_collected h265_extractImpl
  "\<lambda>n. 2 \<le> length n \<and> drop_bit 1 (hd n) AND 0x3F \<le> 40 \<and> \<not> bit (hd n) 7"
  "\<lambda>(x, y) a b. h265_fu_payload (h265_layer_of x y) (y AND 7) (drop_bit 1 x AND 0x3F) a b []" "\<lambda>(x, y). [x, y]" "\<lambda>(x, y). \<not> bit x 7"
proof (unfold_locales, goal_cases)
  case (1 n d p out)
  then show ?case by (rule h265_extractImpl_obtain [of n d p out]) auto
next
  case (2 n p fu out d)
  then show ?case using h265_single_packet [of n p fu out d] by (simp add: h265_extract_loop_def)
next
  case (3 k chunk p s e fu out d)
  obtain x y where k: "k = (x, y)" by fastforce
  have "it_payload p = h265_fu_payload (h265_layer_of x y) (y AND 7) (drop_bit 1 x AND 0x3F) s e chunk"
    using 3 k by (simp flip: h265_fu_payload_append)
  note f = h265_fu_packet [OF this 3(2), of fu out d]
  have "\<not> bit x 7" using 3(1) k by simp
  then have "u16_bytes (push_bit 9 (ucast (drop_bit 1 x AND 0x3F AND 0x3F)) OR push_bit 3 (ucast (h265_layer_of x y)) OR ucast (y AND 7)) = [x, y]"
    using h265_header_restored [of x y] u16_bytes_concat [of x y] by (simp add: h265_layer_of_def and.assoc)
  then show ?case using f k by (cases "if s then Some [x, y] else fu") (auto simp: h265_extract_loop_def)
qed

lemma h265_fu_loop_end: "h265_fu_loop srcs basic l i t nsz atEnd ts pn padding ext [] track st = Some ([], track, st)"
  by (subst h265_fu_loop.simps) simp

interpretation h265_fu: nal_packets 3 "\<lambda>(l, i, t) a b. h265_fu_payload l i t a b []" "\<lambda>(l, i, t). h265_isKeyFrameNalu t"
  "\<lambda>srcs basic (l, i, t). h265_fu_loop srcs basic l i t" 2 "\<lambda>t n. (h265_layerId n, h265_temporalId n, t)" h265_isKeyFrameNalu h265_nalu_packets
proof (unfold_locales, goal_cases)
  case (2 data track r s track1 pn srcs st nsz padding padding' st1 k ext ext' st2 sz0 basic sz atEnd ts)
  then show ?case
    by (cases k) (simp only: h265_fu_loop.simps [of srcs basic _ _ _ nsz atEnd ts pn padding ext data] prod.case Let_def
        h265_fu_payload_append [of _ _ _ _ _ "take _ _"] length_greater_0_conv if_True simp_thms)
next
  case (4 srcs st track n padding st1 t ext st2 sz overhead atEnd ts)
  then show ?case by (simp add: h265_nalu_packets_def Let_def)
qed (auto simp: h265_fu_loop_end h265_fu_payload_def)

section \<open>Frames\<close>

definition h265_good :: "bytes \<Rightarrow> bool" where
  "h265_good n \<longleftrightarrow> nalu_ok n \<and> 2 \<le> length n \<and> \<not> bit (hd n) 7 \<and> h265_type n \<le> 40"

lemma h265_packets_deliver:
  assumes "h265_good n" "overhead \<le> 1000"
  obtains ps track' st' where "h265_nalu_packets srcs overhead (h265_type n) n e ts track st = Some (ps, track', st')"
    "ps \<noteq> []" "framed ts e ps" "numbered track ps track'"
    "\<And>ts64 items. list_all2 (carries ts64) ps items \<Longrightarrow> h265_delivers ts64 items [n] e"
proof -
  obtain a b rest where n: "n = a # b # rest" using assms(1) by (cases n; cases "tl n") (auto simp: h265_good_def)
  have ne: "n \<noteq> []" "\<not> bit a 7" "drop_bit 1 a AND 0x3F \<le> 40" "h265_type n = drop_bit 1 a AND 0x3F"
    using assms(1) n by (auto simp: h265_good_def h265_type_def)
  have k: "(h265_layerId n, h265_temporalId n, h265_type n) = (h265_layer_of a b, b AND 7, drop_bit 1 a AND 0x3F)"
    using n ne(4) by (simp add: h265_layerId_def h265_temporalId_def h265_layer_of_def)
  obtain ps track' st' where p: "h265_nalu_packets srcs overhead (h265_type n) n e ts track st = Some (ps, track', st')"
    "ps \<noteq> []" "framed ts e ps" "numbered track ps track'" "h265_fu.payloads_of (h265_type n) n (map pkt_payload ps)"
    using h265_fu.packets_ok [OF assms(2) ne(1), of srcs "h265_type n" e ts track st] by blast
  have "h265_delivers ts64 items [n] e" if "list_all2 (carries ts64) ps items" for ts64 items
    by (rule h265_units.unit_handed_over [OF p(2,3) that ne(1), of "(a, b)"])
      (use p(5) [unfolded h265_fu.payloads_of_def k] n ne in auto)
  then show ?thesis using that p(1-4) by blast
qed

text \<open>The NAL units that are sent for a frame: parameter sets are taken out, and the latest ones
  are put in front of the first key frame unit.\<close>

definition h265_sets :: "bool \<Rightarrow> PacketizerH265 \<Rightarrow> bytes list" where
  "h265_sets added pk =
     (if \<not> added \<and> h265_mVPS pk \<noteq> [] \<and> h265_mSPS pk \<noteq> [] \<and> h265_mPPS pk \<noteq> []
      then [h265_mVPS pk, h265_mSPS pk, h265_mPPS pk] else [])"

fun h265_sent :: "bool \<Rightarrow> PacketizerH265 \<Rightarrow> bytes list \<Rightarrow> bytes list" where
  "h265_sent added pk [] = []"
| "h265_sent added pk (n # ns) =
     (if h265_isParameterNalu (h265_type n) then h265_sent added (h265_update_sets (h265_type n) n pk) ns
      else if h265_isKeyFrameNalu (h265_type n) then h265_sets added pk @ n # h265_sent True pk ns
      else n # h265_sent added pk ns)"

text \<open>Parameter sets fit the 16-bit size of an aggregation packet and are not shorter than their header.\<close>

definition h265_set_ok :: "bytes \<Rightarrow> bool" where
  "h265_set_ok n \<longleftrightarrow> n = [] \<or> 2 \<le> length n \<and> length n < 65536"

definition h265_sets_ok :: "PacketizerH265 \<Rightarrow> bool" where
  "h265_sets_ok pk \<longleftrightarrow> h265_set_ok (h265_mVPS pk) \<and> h265_set_ok (h265_mSPS pk) \<and> h265_set_ok (h265_mPPS pk)"

lemma h265_update_ok: "h265_sets_ok pk \<Longrightarrow> h265_set_ok n \<Longrightarrow> h265_sets_ok (h265_update_sets t n pk)"
  by (auto simp: h265_sets_ok_def h265_update_sets_def)

lemma h265_parameters_ok:
  assumes "h265_sets_ok pk"
  obtains ps track' st' where "h265_parameters srcs ts (added, pk, track, st, res) = (True, pk, track', st', res @ ps)"
    "framed ts False ps" "numbered track ps track'"
    "\<And>ts64 items. list_all2 (carries ts64) ps items \<Longrightarrow> h265_delivers ts64 items (h265_sets added pk) False"
proof (cases "\<not> added \<and> h265_mVPS pk \<noteq> [] \<and> h265_mSPS pk \<noteq> [] \<and> h265_mPPS pk \<noteq> []")
  case True
  obtain ext st' where ext: "buildExtension srcs st track True 0 = (ext, st')" by fastforce
  obtain r s track' where sq: "track_nextSequence track = ((r, s), track')" by (metis surj_pair)
  let ?p = "RtpPacket_new track' False r s ts 0 ext (h265_ap_payload (h265_mVPS pk) (h265_mSPS pk) (h265_mPPS pk))"
  show ?thesis
  proof (rule that [of track' st' "[?p]"])
    show "numbered track [?p] track'" by (rule numbered_single [OF sq]) simp_all
    show "h265_delivers ts64 items (h265_sets added pk) False" if "list_all2 (carries ts64) [?p] items" for ts64 items
      using that True assms h265_delivers_ap [of "hd items" ts64 "h265_mVPS pk" "h265_mSPS pk" "h265_mPPS pk"]
      by (auto simp: h265_sets_def list_all2_Cons1 carries_def h265_sets_ok_def h265_set_ok_def)
  qed (use True in \<open>simp_all add: h265_parameters_def ext sq framed_def\<close>)
next
  case False
  then have "h265_sets added pk = []" unfolding h265_sets_def by (rule if_not_P)
  then show ?thesis
    using that [of track st "[]"] False numbered_Nil h265_receiver.hands_over_Nil by (auto simp: h265_parameters_def framed_def)
qed

definition h265_view :: "NaluParser \<Rightarrow> (bytes \<times> bool) \<times> u8 option" where
  "h265_view p = ((currData p, isAtEnd p), h265_currType p)"

lemma h265_generate_step_eq:
  assumes "h265_view parser = ((n, e), Some (h265_type n))"
  shows "h265_generate_step srcs overhead ts parser (added, pk, track, st, res) =
    (if h265_isParameterNalu (h265_type n) then Some (added, h265_update_sets (h265_type n) n pk, track, st, res)
     else
       let (added, pk, track, st, res) =
         (if h265_isKeyFrameNalu (h265_type n) then h265_parameters srcs ts (added, pk, track, st, res)
          else (added, pk, track, st, res))
       in map_option (\<lambda>(ps, track, st). (added, pk, track, st, res @ ps))
            (h265_nalu_packets srcs overhead (h265_type n) n e ts track st))"
  using assms
  by (auto simp: h265_generate_step_def h265_view_def bind_map_option comp_def case_prod_beta Let_def map_option_case split: option.splits)

text \<open>What one NAL unit contributes, and the state after it.\<close>

definition h265_sent_one :: "bool \<Rightarrow> PacketizerH265 \<Rightarrow> bytes \<Rightarrow> bytes list" where
  "h265_sent_one added pk n = (if h265_isParameterNalu (h265_type n) then []
     else (if h265_isKeyFrameNalu (h265_type n) then h265_sets added pk else []) @ [n])"

lemma h265_generate_step_ok:
  assumes "h265_view parser = ((n, e), Some (h265_type n))" "h265_good n" "overhead \<le> 1000"
    "h265_sets_ok pk" "h265_isParameterNalu (h265_type n) \<longrightarrow> \<not> e \<and> h265_set_ok n"
  obtains ps added' pk' track' st' where
    "h265_generate_step srcs overhead ts parser (added, pk, track, st, res) = Some (added', pk', track', st', res @ ps)"
    "numbered track ps track'" "framed ts e ps" "ps = [] \<longleftrightarrow> h265_isParameterNalu (h265_type n)" "h265_sets_ok pk'"
    "\<And>ns. h265_sent added pk (n # ns) = h265_sent_one added pk n @ h265_sent added' pk' ns"
    "\<And>ts64 items. list_all2 (carries ts64) ps items \<Longrightarrow> h265_delivers ts64 items (h265_sent_one added pk n) e"
proof (cases "h265_isParameterNalu (h265_type n)")
  case True
  show ?thesis
    by (rule that [of added "h265_update_sets (h265_type n) n pk" track st "[]"])
      (use True assms(4,5) h265_update_ok numbered_Nil h265_receiver.hands_over_Nil in
        \<open>auto simp: h265_generate_step_eq [OF assms(1)] framed_def h265_sent_one_def\<close>)
next
  case False
  let ?key = "h265_isKeyFrameNalu (h265_type n)"
  obtain ps1 added1 track1 st1 where 1:
    "(if ?key then h265_parameters srcs ts (added, pk, track, st, res) else (added, pk, track, st, res)) =
       (added1, pk, track1, st1, res @ ps1)"
    "added1 = (added \<or> ?key)" "framed ts False ps1" "numbered track ps1 track1"
    "\<And>ts64 items. list_all2 (carries ts64) ps1 items \<Longrightarrow> h265_delivers ts64 items (if ?key then h265_sets added pk else []) False"
  proof (cases ?key)
    case True
    show ?thesis
      by (rule h265_parameters_ok [OF assms(4), of srcs ts added track st res]) (rule that, use True in auto)
  next
    case False
    then show ?thesis using that [of added track st "[]"] numbered_Nil h265_receiver.hands_over_Nil by (auto simp: framed_def)
  qed
  obtain ps2 track' st' where 2: "h265_nalu_packets srcs overhead (h265_type n) n e ts track1 st1 = Some (ps2, track', st')"
    "ps2 \<noteq> []" "framed ts e ps2" "numbered track1 ps2 track'"
    "\<And>ts64 items. list_all2 (carries ts64) ps2 items \<Longrightarrow> h265_delivers ts64 items [n] e"
    by (rule h265_packets_deliver [OF assms(2,3), of srcs e ts track1 st1]) (rule that)
  have step: "h265_generate_step srcs overhead ts parser (added, pk, track, st, res) =
      Some (added1, pk, track', st', res @ (ps1 @ ps2))"
    using False 1(1) 2(1) by (simp add: h265_generate_step_eq [OF assms(1)])
  have sent: "h265_sent added pk (n # ns) = h265_sent_one added pk n @ h265_sent added1 pk ns" for ns
    using False 1(2) by (auto simp: h265_sent_one_def h265_sets_def)
  have del: "h265_delivers ts64 items (h265_sent_one added pk n) e" if it: "list_all2 (carries ts64) (ps1 @ ps2) items" for ts64 items
  proof -
    obtain i1 i2 where i: "items = i1 @ i2" "list_all2 (carries ts64) ps1 i1" "list_all2 (carries ts64) ps2 i2"
      using it by (auto simp: list_all2_append1)
    show ?thesis
      using h265_receiver.hands_over_append [OF 1(5) [OF i(2)] 2(5) [OF i(3)]] False i(1) by (simp add: h265_sent_one_def)
  qed
  show ?thesis
    using that [OF step numbered_append [OF 1(4) 2(4)] framed_append [OF 1(3) 2(3,2)] _ assms(4) sent del] False 2(2) by simp
qed

lemma h265_generate_loop_ok:
  assumes "overhead \<le> 1000"
  shows "list_all h265_good ns \<Longrightarrow> list_all (\<lambda>n. h265_isParameterNalu (h265_type n) \<longrightarrow> h265_set_ok n) ns \<Longrightarrow>
    h265_sets_ok pk \<Longrightarrow> ns \<noteq> [] \<Longrightarrow> \<not> h265_isParameterNalu (h265_type (last ns)) \<Longrightarrow>
    map h265_view parsers = map (\<lambda>(n, e). ((n, e), Some (h265_type n))) (mark_last ns) \<Longrightarrow>
    \<exists>ps added' pk' track' st'. foldM (h265_generate_step srcs overhead ts) parsers (added, pk, track, st, res) =
        Some (added', pk', track', st', res @ ps) \<and> ps \<noteq> [] \<and> numbered track ps track' \<and> framed ts True ps \<and>
      (\<forall>ts64 items. list_all2 (carries ts64) ps items \<longrightarrow> h265_delivers ts64 items (h265_sent added pk ns) True)"
proof (induction ns arbitrary: parsers added pk track st res rule: mark_last.induct)
  case (2 n)
  then obtain parser where p: "parsers = [parser]" "h265_view parser = ((n, True), Some (h265_type n))" by auto
  have g: "h265_good n" "h265_sets_ok pk" "h265_isParameterNalu (h265_type n) \<longrightarrow> \<not> True \<and> h265_set_ok n"
    using "2.prems" by auto
  obtain ps added' pk' track' st' where
    "h265_generate_step srcs overhead ts parser (added, pk, track, st, res) = Some (added', pk', track', st', res @ ps)"
    "numbered track ps track'" "framed ts True ps" "ps = [] \<longleftrightarrow> h265_isParameterNalu (h265_type n)" "h265_sets_ok pk'"
    "\<And>ns. h265_sent added pk (n # ns) = h265_sent_one added pk n @ h265_sent added' pk' ns"
    "\<And>ts64 items. list_all2 (carries ts64) ps items \<Longrightarrow> h265_delivers ts64 items (h265_sent_one added pk n) True"
    by (rule h265_generate_step_ok [OF p(2) g(1) assms g(2,3), of srcs ts added track st res]) (rule that)
  moreover from this(6) [of "[]"] have "h265_sent added pk [n] = h265_sent_one added pk n" by simp
  moreover have "\<not> h265_isParameterNalu (h265_type n)" using "2.prems" by simp
  ultimately show ?case using p(1) by fastforce
next
  case (3 n m ns)
  then obtain parser parsers' where p: "parsers = parser # parsers'" "h265_view parser = ((n, False), Some (h265_type n))"
    "map h265_view parsers' = map (\<lambda>(n, e). ((n, e), Some (h265_type n))) (mark_last (m # ns))" by auto
  have g: "h265_good n" "h265_sets_ok pk" "h265_isParameterNalu (h265_type n) \<longrightarrow> \<not> False \<and> h265_set_ok n"
    using "3.prems" by auto
  obtain ps added' pk' track' st' where 1:
    "h265_generate_step srcs overhead ts parser (added, pk, track, st, res) = Some (added', pk', track', st', res @ ps)"
    "numbered track ps track'" "framed ts False ps" "ps = [] \<longleftrightarrow> h265_isParameterNalu (h265_type n)" "h265_sets_ok pk'"
    "\<And>ns. h265_sent added pk (n # ns) = h265_sent_one added pk n @ h265_sent added' pk' ns"
    "\<And>ts64 items. list_all2 (carries ts64) ps items \<Longrightarrow> h265_delivers ts64 items (h265_sent_one added pk n) False"
    by (rule h265_generate_step_ok [OF p(2) g(1) assms g(2,3), of srcs ts added track st res]) (rule that)
  obtain qs added'' pk'' track'' st'' where 2:
    "foldM (h265_generate_step srcs overhead ts) parsers' (added', pk', track', st', res @ ps) =
        Some (added'', pk'', track'', st'', (res @ ps) @ qs)" "qs \<noteq> []" "numbered track' qs track''" "framed ts True qs"
    "\<And>ts64 items. list_all2 (carries ts64) qs items \<Longrightarrow> h265_delivers ts64 items (h265_sent added' pk' (m # ns)) True"
    using "3.IH" [OF _ _ 1(5) _ _ p(3), of added' track' st' "res @ ps"] "3.prems" by auto
  have "h265_delivers ts64 items (h265_sent added pk (n # m # ns)) True"
    if it: "list_all2 (carries ts64) (ps @ qs) items" for ts64 items
  proof -
    obtain i1 i2 where "items = i1 @ i2" "list_all2 (carries ts64) ps i1" "list_all2 (carries ts64) qs i2"
      using it by (auto simp: list_all2_append1)
    then show ?thesis unfolding 1(6) using h265_receiver.hands_over_append [OF 1(7) 2(5)] by simp
  qed
  then show ?case
    using 1(1) 2(1,2) p(1) numbered_append [OF 1(2) 2(3)] framed_append [OF 1(3) 2(4,2)]
    by (intro exI [of _ "ps @ qs"]) auto
qed simp

lemma h265_currType_eq: "currData p \<noteq> [] \<Longrightarrow> h265_currType p = Some (h265_type (currData p))"
proof -
  assume ne: "currData p \<noteq> []"
  then have lt: "npPos p + npSkip p < length (npBuf p)" by (auto simp: currData_def)
  moreover from ne have "hd (currData p) = npBuf p ! (npPos p + npSkip p)"
    by (simp add: currData_def hd_drop_conv_nth lt)
  ultimately show ?thesis using ne by (simp add: h265_currType_def read_at_def h265_type_def)
qed

lemma h265_views:
  assumes "map nalu_view ps = typed (mark_last ns)" "list_all (\<lambda>n. n \<noteq> []) ns"
  shows "map h265_view ps = map (\<lambda>(n, e). ((n, e), Some (h265_type n))) (mark_last ns)"
proof -
  have ml: "map fst (mark_last xs) = xs" for xs :: "'b list" by (induction xs rule: mark_last.induct) auto
  have f: "map (\<lambda>p. (currData p, isAtEnd p)) ps = mark_last ns"
    using arg_cong [OF assms(1), of "map fst"] by (simp add: typed_def nalu_view_def comp_def case_prod_beta)
  then have "map currData ps = ns" using ml [of ns] by (metis (no_types, lifting) comp_def fst_conv list.map_comp map_eq_conv)
  then have "p \<in> set ps \<Longrightarrow> currData p \<noteq> []" for p using assms(2) by (auto simp: list_all_iff)
  then have "map h265_view ps = map (\<lambda>p. ((currData p, isAtEnd p), Some (h265_type (currData p)))) ps"
    using h265_currType_eq by (simp add: h265_view_def)
  also have "\<dots> = map (\<lambda>(n, e). ((n, e), Some (h265_type n))) (map (\<lambda>p. (currData p, isAtEnd p)) ps)" by simp
  finally show ?thesis unfolding f .
qed

text \<open>
  C16. H.265 round trip: for a frame in Annex B format the packetizer ends without reading outside of the
  frame, and its packets, in order, carry consecutive sequence numbers, the timestamp of the frame and the marker on
  the last one only. The depacketizer, given the packets, returns exactly one frame: the NAL units that were sent,
  which are those of the frame with the parameter sets moved in front of the first key frame unit. The
  depacketizer has seen a key frame before or every slice of the frame is one of a key frame.
\<close>
theorem h265_frame_roundtrip:
  assumes "list_all h265_good ns" "ns \<noteq> []" "\<not> h265_isParameterNalu (h265_type (last ns))"
    "list_all (\<lambda>n. h265_isParameterNalu (h265_type n) \<longrightarrow> h265_set_ok n) ns" "h265_sets_ok pk"
    "overhead \<le> 1000" "h265_mLastRtpTimestamp d \<noteq> ts64"
    "h265_ready d \<or> (\<forall>n\<in>set (h265_sent False pk ns). h265_free n)"
  shows "\<exists>ps pk' track' st'. h265_generate srcs overhead pk track st now pts (annexb ns) = Some (ps, pk', track', st') \<and>
    numbered (snd (track_frameTimestamp track now pts)) ps track' \<and>
    framed (fst (track_frameTimestamp track now pts)) True ps \<and>
    (\<forall>items. list_all2 (carries ts64) ps items \<longrightarrow>
       (\<exists>d'. h265_extract items d = Some ([annexb (h265_sent False pk ns)], d')))"
proof -
  obtain ts track1 where tt: "track_frameTimestamp track now pts = (ts, track1)" by fastforce
  have ok: "list_all nalu_ok ns" "list_all (\<lambda>n. n \<noteq> []) ns" using assms(1) by (auto simp: list_all_iff h265_good_def nalu_ok_def)
  have "4 \<le> length (annexb ns)" using assms(2) by (cases ns) (auto simp: kAnnexB_def)
  then obtain parsers where p: "nalu_states (annexb ns) = Some parsers" "map nalu_view parsers = typed (mark_last ns)"
    using nalu_states_eq [of "annexb ns"] nalus_annexb [OF ok(1)] by auto
  obtain ps added' pk' track' st' where g:
    "foldM (h265_generate_step srcs overhead ts) parsers (False, pk, track1, st, []) = Some (added', pk', track', st', [] @ ps)"
    "numbered track1 ps track'" "framed ts True ps"
    "\<forall>ts64 items. list_all2 (carries ts64) ps items \<longrightarrow> h265_delivers ts64 items (h265_sent False pk ns) True"
    using h265_generate_loop_ok [OF assms(6,1,4,5,2,3) h265_views [OF p(2) ok(2)], of srcs ts False track1 st "[]"] by blast
  have "\<exists>d'. h265_extract items d = Some ([annexb (h265_sent False pk ns)], d')"
    if it: "list_all2 (carries ts64) ps items" for items
  proof -
    have "h265_delivers ts64 items (h265_sent False pk ns) True" using g(4) it by blast
    from this [unfolded hands_over_def, rule_format, OF assms(8), of None "[]"]
    show ?thesis using assms(7) by (auto simp: h265_extract_def emit_def h265_collected_def)
  qed
  then show ?thesis using g p(1) by (auto simp: h265_generate_def h265_nalu_states_def tt)
qed

lemma h265_frame_roundtrip_witness:
  "\<exists>ps pk' track' st'. h265_generate [source_twcc] 14 \<lparr>h265_mVPS = [], h265_mSPS = [], h265_mPPS = []\<rparr> example_track SourcesState_new 0 0
      (annexb [[0x40, 1, 9], [0x42, 1, 8], [0x44, 1, 7], [0x26, 1, 0x80]]) = Some (ps, pk', track', st') \<and>
    (\<exists>d'. h265_extract (map (example_item 90000) ps) DepacketizerH265_new =
      Some ([annexb [[0x40, 1, 9], [0x42, 1, 8], [0x44, 1, 7], [0x26, 1, 0x80]]], d'))"
proof -
  let ?ns = "[[0x40, 1, 9], [0x42, 1, 8], [0x44, 1, 7], [0x26, 1, 0x80]] :: bytes list"
  let ?pk = "\<lparr>h265_mVPS = [], h265_mSPS = [], h265_mPPS = []\<rparr>"
  note defs = h265_type_def h265_isParameterNalu_def h265_isKeyFrameNalu_def const_defs
  have s: "h265_sent False ?pk ?ns = ?ns" by (simp add: defs h265_update_sets_def h265_sets_def)
  have c: "list_all2 (carries ts) ps (map (example_item ts) ps)" for ts ps
    by (simp add: list_all2_conv_all_nth carries_def example_item_def)
  show ?thesis
    using h265_frame_roundtrip [of ?ns ?pk 14 DepacketizerH265_new 90000 "[source_twcc]" example_track SourcesState_new 0 0] c [of 90000]
    by (auto simp: s h265_good_def nalu_ok_def h265_sets_ok_def h265_set_ok_def h265_free_def h265_isSliceNalu_def h265_update_sets_def h265_sets_def defs
        DepacketizerH265_new_def simp del: annexb_simps annexb_Cons)
qed

section \<open>Frame starts\<close>

text \<open>Whatever a packet holds, the search for the start of a frame ends and reads nothing outside of it.\<close>

lemma h265_ap_search_total: "reader_inv r \<Longrightarrow> h265_ap_search r \<noteq> None"
proof (induction r rule: h265_ap_search.induct)
  case (1 r)
  show ?case
  proof (cases "2 \<le> remaining r")
    case True
    then have rd: "readU16 r = Some (be16 (unread r), advance 2 r)" "reader_inv (advance 2 r)"
      using 1(2) by (simp_all add: read_simps)
    then show ?thesis using 1(1) [OF True rd(1) refl] True
      by (subst h265_ap_search.simps) (auto simp: Let_def)
  qed (subst h265_ap_search.simps, simp)
qed

lemma h265_isFrameStart_total: "h265_isFrameStart payload \<noteq> None"
proof (cases "2 \<le> length payload")
  case True
  then have "reader_inv (advance 2 (ByteReader_new payload))" by (simp add: read_simps)
  from h265_ap_search_total [OF this] show ?thesis
    using True by (auto simp: h265_isFrameStart_def Let_def read_simps Suc_le_eq)
qed (simp add: h265_isFrameStart_def)

text \<open>
  The start of a key frame whose parameter sets are aggregated in an order other than VPS first is not
  recognised, because the units of an aggregation packet are not skipped: the size of the second unit is read from
  the bytes of the first one. For the packets that the packetizer makes, the search succeeds at the first unit.
\<close>
lemma h265_aggregate_start:
  "h265_isFrameStart (h265_ap_payload [0x40, 1, 9] [0x42, 1, 8] [0x44, 1, 7]) = Some True \<and>
   h265_isFrameStart (h265_ap_payload [0x46, 1, 0x50] [0x40, 1, 9] [0x42, 1, 8]) = Some False"
  by code_simp

end
