(* ===== verification/AV1.thy ===== *)
theory AV1
  imports H264_Roundtrip
begin

text \<open>
  \<^verbatim>\<open>src/codec_av1.cpp\<close>, \<^verbatim>\<open>src/packetizer_av1.cpp\<close> and \<^verbatim>\<open>src/depacketizer_av1.cpp\<close>: the parser of OBUs, the packetizer,
  which packs several OBUs into a packet and splits large ones, and the depacketizer. \<^const>\<open>None\<close> is a read outside of
  the frame, a loop that does not end, an abort of the reader, or a copy from outside of the packet.
\<close>

unbundle bit_operations_syntax

section \<open>ObuParser\<close>

definition SequenceHeader :: u8 where [const_defs]: "SequenceHeader = 1"
definition TemporalDelimiter :: u8 where [const_defs]: "TemporalDelimiter = 2"
definition FrameHeader :: u8 where [const_defs]: "FrameHeader = 3"
definition Frame :: u8 where [const_defs]: "Frame = 6"
definition RedundantFrame :: u8 where [const_defs]: "RedundantFrame = 7"

text \<open>
  \<^verbatim>\<open>read_leb128\<close> of \<^verbatim>\<open>codec_av1.cpp\<close>: the value, the position and the size after it. \<^const>\<open>None\<close> is a
  read outside of the buffer.
\<close>

function av1_read_leb128 :: "bytes \<Rightarrow> u64 \<Rightarrow> nat \<Rightarrow> nat \<Rightarrow> nat \<Rightarrow> (u64 \<times> nat \<times> nat) option" where
  "av1_read_leb128 buf value shift pos sz =
     (if sz > 0 \<and> shift < 56 then do {
        byte \<leftarrow> read_at buf pos;
        let value = value OR push_bit shift (ucast (byte AND 0x7F));
        if byte AND 0x80 = 0 then Some (value, pos + 1, sz - 1)
        else av1_read_leb128 buf value (shift + 7) (pos + 1) (sz - 1)
      } else Some (value, pos, sz))"
  by pat_completeness auto
termination
  by (relation "measure (\<lambda>(_, _, shift, _, _). 56 - shift)") auto

declare av1_read_leb128.simps [simp del]

text \<open>Pointers into the frame are positions; the null pointer is \<^const>\<open>None\<close>.\<close>

record ObuParser =
  obBuf :: bytes
  mCurrType :: u8
  mCurrData :: "nat option"
  mCurrSize :: nat
  mCurrTemporalId :: u8
  mCurrSpatialId :: u8

definition obu_failed :: "bytes \<Rightarrow> ObuParser" where
  "obu_failed buf = \<lparr>obBuf = buf, mCurrType = 0, mCurrData = None, mCurrSize = 0, mCurrTemporalId = 0, mCurrSpatialId = 0\<rparr>"

definition obu_parseImpl :: "bytes \<Rightarrow> nat \<Rightarrow> nat \<Rightarrow> ObuParser option" where
  "obu_parseImpl buf pos sz =
     (if sz < 1 then Some (obu_failed buf)
      else do {
        header \<leftarrow> read_at buf pos;
        let pos = pos + 1;
        let sz = sz - 1;
        if header AND 0x80 \<noteq> 0 then Some (obu_failed buf)
        else do {
          let obu_type = drop_bit 3 header AND 0x3F;
          let has_extension = (drop_bit 2 header AND 0x01 \<noteq> 0);
          let has_size = (drop_bit 1 header AND 0x01 \<noteq> 0);
          if has_extension \<and> sz < 1 then Some (obu_failed buf)
          else do {
            (temporal_id, spatial_id, pos, sz) \<leftarrow>
              (if has_extension then do {
                 ext_header \<leftarrow> read_at buf pos;
                 Some (drop_bit 5 ext_header AND 0x07, drop_bit 3 ext_header AND 0x03, pos + 1, sz - 1)
               } else Some (0, 0, pos, sz));
            let payload_size = sz;
            (leb128_size, pos, sz) \<leftarrow>
              (if has_size then av1_read_leb128 buf 0 0 pos sz else Some (of_nat payload_size, pos, sz));
            if has_size \<and> unat leb128_size > payload_size then Some (obu_failed buf)
            else Some \<lparr>obBuf = buf, mCurrType = obu_type, mCurrData = Some pos,
                       mCurrSize = (if has_size then unat leb128_size else payload_size),
                       mCurrTemporalId = temporal_id, mCurrSpatialId = spatial_id\<rparr>
          }
        }
      })"

definition ObuParser_new :: "bytes \<Rightarrow> ObuParser option" where
  "ObuParser_new buf = obu_parseImpl buf 0 (length buf)"

definition obu_valid :: "ObuParser \<Rightarrow> bool" where
  "obu_valid p = (case mCurrData p of None \<Rightarrow> False | Some pos \<Rightarrow> pos < length (obBuf p))"

definition obu_next :: "ObuParser \<Rightarrow> ObuParser option" where
  "obu_next p =
     (case mCurrData p of
        None \<Rightarrow> Some p
      | Some pos \<Rightarrow> obu_parseImpl (obBuf p) (pos + mCurrSize p) (size_sub (length (obBuf p)) (pos + mCurrSize p)))"

definition obu_isAtEnd :: "ObuParser \<Rightarrow> bool" where
  "obu_isAtEnd p = (case mCurrData p of None \<Rightarrow> True | Some pos \<Rightarrow> pos + mCurrSize p \<ge> length (obBuf p))"

text \<open>The bytes of the current OBU; \<^const>\<open>None\<close> when they reach outside of the frame.\<close>

definition obu_data :: "ObuParser \<Rightarrow> bytes option" where
  "obu_data p =
     (case mCurrData p of
        None \<Rightarrow> None
      | Some pos \<Rightarrow>
          if pos + mCurrSize p \<le> length (obBuf p) then Some (take (mCurrSize p) (drop pos (obBuf p))) else None)"

text \<open>The states that a loop \<^verbatim>\<open>for (ObuParser parser(frame); parser; parser.next())\<close> goes through.\<close>

partial_function (option) ob_states :: "ObuParser \<Rightarrow> ObuParser list option" where
  "ob_states p =
     (if obu_valid p then do { p' \<leftarrow> obu_next p; ps \<leftarrow> ob_states p'; Some (p # ps) } else Some [])"

declare ob_states.simps [code]

definition obu_states :: "bytes \<Rightarrow> ObuParser list option" where
  "obu_states frame = do { p \<leftarrow> ObuParser_new frame; ob_states p }"

text \<open>Such a loop that returns at the first OBU with a property.\<close>

partial_function (option) ob_find :: "(ObuParser \<Rightarrow> bool) \<Rightarrow> ObuParser \<Rightarrow> bool option" where
  "ob_find P p =
     (if obu_valid p then if P p then Some True else do { p' \<leftarrow> obu_next p; ob_find P p' } else Some False)"

declare ob_find.simps [code]

section \<open>Frames\<close>

definition AV1_KEY_FRAME :: u8 where [const_defs]: "AV1_KEY_FRAME = 0"
definition AV1_INTRA_ONLY_FRAME :: u8 where [const_defs]: "AV1_INTRA_ONLY_FRAME = 2"

definition isFrameObuType :: "u8 \<Rightarrow> bool" where
  "isFrameObuType t \<longleftrightarrow> t = FrameHeader \<or> t = Frame \<or> t = RedundantFrame"

text \<open>\<open>header\<close> is the first byte of the OBU, which is read only when the size is more than one.\<close>

definition isKeyFrameObu :: "u8 \<Rightarrow> u8 \<Rightarrow> nat \<Rightarrow> bool" where
  "isKeyFrameObu obuType header sz =
     (if isFrameObuType obuType \<and> sz > 1 then
        if header AND 0x80 \<noteq> 0 then False
        else let frame_type = drop_bit 5 header AND 0x03
             in frame_type = AV1_KEY_FRAME \<or> frame_type = AV1_INTRA_ONLY_FRAME
      else False)"

definition av1_isKeyFrame :: "bytes \<Rightarrow> bool option" where
  "av1_isKeyFrame frame = do {
     p \<leftarrow> ObuParser_new frame;
     ob_find (\<lambda>p. mCurrType p = SequenceHeader \<or>
        isKeyFrameObu (mCurrType p) (frame ! the (mCurrData p)) (mCurrSize p)) p
   }"

section \<open>PacketizerAV1\<close>

text \<open>The local variables of \<^verbatim>\<open>generate\<close>, the track, the extension sources and the packets so far.\<close>

record 's av1_state =
  isContinuation :: bool
  isNewCodedVideoSequence :: bool
  av_payload :: bytes
  av_extension :: RtpExtension
  usablePayloadSize :: nat
  av_padding :: u8
  av_packetNumber :: nat
  av_track :: Track
  av_sources :: 's
  av_result :: "RtpPacket list"

text \<open>Appends a packet with the payload to the result, and clears the payload.\<close>

definition av1_push :: "u32 \<Rightarrow> bool \<Rightarrow> 's av1_state \<Rightarrow> 's av1_state" where
  "av1_push frameTimestamp marker s =
     (let ((rollover, seq), track) = track_nextSequence (av_track s)
      in s\<lparr>av_track := track,
           av_result := av_result s @
             [RtpPacket_new track marker rollover seq frameTimestamp (av_padding s) (av_extension s) (av_payload s)],
           av_payload := [], av_packetNumber := av_packetNumber s + 1\<rparr>)"

definition av1_new_packet :: "'s RtpExtensionSource list \<Rightarrow> nat \<Rightarrow> 's av1_state \<Rightarrow> 's av1_state" where
  "av1_new_packet srcs basicPacketSize s =
     (let (extension, st) = buildExtension srcs (av_sources s) (av_track s) (isNewCodedVideoSequence s) (av_packetNumber s);
          (padding, st) = getPadding srcs st (av_track s) basicPacketSize
      in s\<lparr>av_extension := extension, av_padding := padding, av_sources := st,
           usablePayloadSize := adjustPacketSize basicPacketSize (unat padding) extension\<rparr>)"

text \<open>
  The packet that is full is sent before the next OBU: its extension is moved into it, and an empty one is left
  for the packet that follows.
\<close>

definition av1_make_room :: "u32 \<Rightarrow> nat \<Rightarrow> 's av1_state \<Rightarrow> nat \<times> 's av1_state" where
  "av1_make_room frameTimestamp obuCurrSize s =
     (let writeNow = min obuCurrSize (usablePayloadSize s) in
      if av_payload s \<noteq> [] then
        (let payloadSizeSoFar = length (av_payload s) in
         if payloadSizeSoFar + 100 < usablePayloadSize s
         then (min obuCurrSize (usablePayloadSize s - payloadSizeSoFar), s)
         else (writeNow, (av1_push frameTimestamp False s)\<lparr>av_extension := RtpExtension_none\<rparr>))
      else (writeNow, s))"

definition av1_start_payload :: "'s av1_state \<Rightarrow> 's av1_state" where
  "av1_start_payload s =
     (if av_payload s = [] then
        s\<lparr>av_payload := u8_bytes (push_bit 7 (if isContinuation s then 1 else 0) OR
                                   push_bit 3 (if isNewCodedVideoSequence s then 1 else 0)),
          isNewCodedVideoSequence := False\<rparr>
      else s)"

definition av1_element :: "u8 \<Rightarrow> u8 \<Rightarrow> u8 \<Rightarrow> bool \<Rightarrow> bytes \<Rightarrow> bytes" where
  "av1_element obuType temporalId spatialId isFirstPacketFromOBU chunk =
     (let isNeedHeaderExtension = (temporalId \<noteq> 0 \<or> spatialId \<noteq> 0);
          writeSize = (if isFirstPacketFromOBU then 1 else 0) + (if isNeedHeaderExtension then 1 else 0) + length chunk
      in leb128_bytes (of_nat writeSize) @
         (if isFirstPacketFromOBU then
            u8_bytes (push_bit 3 obuType OR push_bit 2 (if isNeedHeaderExtension then 1 else 0)) @
            (if isNeedHeaderExtension then u8_bytes (push_bit 5 temporalId OR push_bit 3 spatialId) else [])
          else []) @ chunk)"

definition set_bit_6 :: "bytes \<Rightarrow> bytes" where
  "set_bit_6 payload = payload[0 := payload ! 0 OR push_bit 6 1]"

text \<open>One round of the loop over the bytes of an OBU: how many bytes are written, and the state after it.\<close>

definition av1_step ::
  "'s RtpExtensionSource list \<Rightarrow> nat \<Rightarrow> u32 \<Rightarrow> u8 \<Rightarrow> u8 \<Rightarrow> u8 \<Rightarrow> bool \<Rightarrow> bytes \<Rightarrow> 's av1_state \<Rightarrow> nat \<times> 's av1_state" where
  "av1_step srcs basicPacketSize frameTimestamp obuType temporalId spatialId isFirstPacketFromOBU data s =
     (let s = (if av_payload s = [] then av1_new_packet srcs basicPacketSize s else s);
          (writeNow, s) = av1_make_room frameTimestamp (length data) s;
          s = av1_start_payload s;
          s = s\<lparr>av_payload := av_payload s @ av1_element obuType temporalId spatialId isFirstPacketFromOBU (take writeNow data)\<rparr>;
          s = s\<lparr>isContinuation := writeNow < length data\<rparr>;
          s = (if isContinuation s then av1_push frameTimestamp False (s\<lparr>av_payload := set_bit_6 (av_payload s)\<rparr>) else s)
      in (writeNow, s))"

partial_function (option) av1_obu_loop ::
  "'s RtpExtensionSource list \<Rightarrow> nat \<Rightarrow> u32 \<Rightarrow> u8 \<Rightarrow> u8 \<Rightarrow> u8 \<Rightarrow> bool \<Rightarrow> bytes \<Rightarrow> 's av1_state \<Rightarrow> 's av1_state option" where
  "av1_obu_loop srcs basicPacketSize frameTimestamp obuType temporalId spatialId isFirstPacketFromOBU data s =
     (if length data > 0 then
        (let (writeNow, s) = av1_step srcs basicPacketSize frameTimestamp obuType temporalId spatialId isFirstPacketFromOBU data s
         in av1_obu_loop srcs basicPacketSize frameTimestamp obuType temporalId spatialId
              (isFirstPacketFromOBU \<and> writeNow = 0) (drop writeNow data) s)
      else Some s)"

declare av1_obu_loop.simps [code]

definition av1_generate_step ::
  "'s RtpExtensionSource list \<Rightarrow> nat \<Rightarrow> u32 \<Rightarrow> ObuParser \<Rightarrow> 's av1_state \<Rightarrow> 's av1_state option" where
  "av1_generate_step srcs basicPacketSize frameTimestamp parser s =
     (if mCurrType parser = TemporalDelimiter then Some s
      else do {
        data \<leftarrow> obu_data parser;
        av1_obu_loop srcs basicPacketSize frameTimestamp (mCurrType parser) (mCurrTemporalId parser) (mCurrSpatialId parser)
          True data s
      })"

definition av1_generate ::
  "'s RtpExtensionSource list \<Rightarrow> nat \<Rightarrow> Track \<Rightarrow> 's \<Rightarrow> int \<Rightarrow> int \<Rightarrow> bytes \<Rightarrow> (RtpPacket list \<times> Track \<times> 's) option" where
  "av1_generate srcs mediaProtectionOverhead track st now pts_usec frame = do {
     let (frameTimestamp, track) = track_frameTimestamp track now pts_usec;
     p \<leftarrow> ObuParser_new frame;
     new_sequence \<leftarrow> ob_find (\<lambda>p. mCurrType p = SequenceHeader) p;
     let basicPacketSize = size_sub (getBasicPacketSize mediaProtectionOverhead) 4;
     parsers \<leftarrow> ob_states p;
     s \<leftarrow> foldM (av1_generate_step srcs basicPacketSize frameTimestamp) parsers
       \<lparr>isContinuation = False, isNewCodedVideoSequence = new_sequence, av_payload = [], av_extension = RtpExtension_none,
        usablePayloadSize = 0, av_padding = 0, av_packetNumber = 0, av_track = track, av_sources = st, av_result = []\<rparr>;
     let s = (if av_payload s \<noteq> [] then av1_push frameTimestamp True s else s);
     Some (av_result s, av_track s, av_sources s)
   }"

section \<open>DepacketizerAV1\<close>

record BufferedObu =
  bo_header :: u8
  bo_extension :: u8
  bo_buf :: bytes

definition BufferedObu_new :: BufferedObu where
  "BufferedObu_new = \<lparr>bo_header = 0, bo_extension = 0, bo_buf = []\<rparr>"

definition flushTo :: "BufferedObu \<Rightarrow> bytes \<Rightarrow> BufferedObu \<times> bytes" where
  "flushTo b out =
     (if bo_header b \<noteq> 0 then
        (b\<lparr>bo_buf := [], bo_header := 0, bo_extension := 0\<rparr>,
         out @ u8_bytes (bo_header b OR push_bit 1 1) @
         (if bo_header b AND push_bit 2 1 \<noteq> 0 then u8_bytes (bo_extension b) else []) @
         leb128_bytes (of_nat (length (bo_buf b))) @ bo_buf b)
      else (b, out))"

record DepacketizerAV1 =
  mSeenNewSequence :: bool

definition DepacketizerAV1_new :: DepacketizerAV1 where
  "DepacketizerAV1_new = \<lparr>mSeenNewSequence = False\<rparr>"

definition av1_reset :: "DepacketizerAV1 \<Rightarrow> DepacketizerAV1" where
  "av1_reset d = d\<lparr>mSeenNewSequence := False\<rparr>"

text \<open>
  The element of a packet: a new OBU starts with its header, unless the packet begins with a continuation.
  \<^const>\<open>None\<close>: the size of the element is one, the header announces an extension and a byte follows, so that the size
  wraps around below zero and memory outside of the packet is copied.
\<close>

definition av1_take_element :: "bool \<Rightarrow> nat \<Rightarrow> ByteReader \<Rightarrow> BufferedObu \<times> bytes \<Rightarrow> (ByteReader \<times> BufferedObu \<times> bytes) option" where
  "av1_take_element valueZ obuSize reader = (\<lambda>(b, out). do {
     (obuSize, reader, b, out) \<leftarrow>
       (if \<not> valueZ then do {
          let (b, out) = flushTo b out;
          (obuHeader, reader) \<leftarrow> readU8 reader;
          let obuSize = size_sub obuSize 1;
          let b = b\<lparr>bo_header := obuHeader\<rparr>;
          if drop_bit 2 obuHeader AND 0x01 \<noteq> 0 \<and> remaining reader \<ge> 1 then do {
            (obuExtension, reader) \<leftarrow> readU8 reader;
            Some (size_sub obuSize 1, reader, b\<lparr>bo_extension := obuExtension\<rparr>, out)
          } else Some (obuSize, reader, b, out)
        } else Some (obuSize, reader, b, out));
     if obuSize \<le> remaining reader then do {
       let b = b\<lparr>bo_buf := bo_buf b @ take obuSize (current reader)\<rparr>;
       reader \<leftarrow> reader_skip obuSize reader;
       Some (reader, b, out)
     } else None
   })"

text \<open>The size of the next element and the reader behind it.\<close>

definition av1_element_size :: "nat \<Rightarrow> nat \<Rightarrow> ByteReader \<Rightarrow> nat \<times> ByteReader" where
  "av1_element_size valueW obuIndex reader =
     (if valueW > 0 \<and> obuIndex = valueW - 1 then (remaining reader, reader)
      else let (v, reader) = readLEB128 reader in (unat v, reader))"

partial_function (option) av1_elements ::
  "bool \<Rightarrow> nat \<Rightarrow> nat \<Rightarrow> ByteReader \<Rightarrow> BufferedObu \<times> bytes \<Rightarrow> (BufferedObu \<times> bytes) option" where
  "av1_elements valueZ valueW obuIndex reader x =
     (if remaining reader \<ge> 1 then
        (let (obuSize, reader) = av1_element_size valueW obuIndex reader in
         if remaining reader \<ge> obuSize \<and> obuSize > 0 then do {
           (reader, x) \<leftarrow> av1_take_element valueZ obuSize reader x;
           if valueW > 0 \<and> obuIndex = valueW - 1 then Some x
           else av1_elements valueZ valueW (obuIndex + 1) reader x
         } else Some x)
      else Some x)"

declare av1_elements.simps [code]

definition av1_extract_packet ::
  "JitterBufferItem \<Rightarrow> DepacketizerAV1 \<times> BufferedObu \<times> bytes \<Rightarrow> (DepacketizerAV1 \<times> BufferedObu \<times> bytes) option" where
  "av1_extract_packet packet = (\<lambda>(d, x).
     let reader = ByteReader_new (it_payload packet) in
     if remaining reader \<ge> 1 then do {
       (packetHeader, reader) \<leftarrow> readU8 reader;
       let valueZ = test_mask packetHeader 7;
       let valueW = unat (drop_bit 4 packetHeader AND 0x03);
       let valueN = (drop_bit 3 packetHeader AND 0x01 \<noteq> 0);
       let d = (if valueN then d\<lparr>mSeenNewSequence := True\<rparr> else d);
       x \<leftarrow> av1_elements valueZ valueW 0 reader x;
       Some (d, x)
     } else Some (d, x))"

definition av1_extractImpl :: "JitterBufferItem \<Rightarrow> bytes \<Rightarrow> DepacketizerAV1 \<Rightarrow> bytes list" where
  "av1_extractImpl packet frame d =
     (if frame = [] then [] else if \<not> mSeenNewSequence d then [] else if it_marker packet then [frame] else [])"

definition av1_extract :: "JitterBufferItem list \<Rightarrow> DepacketizerAV1 \<Rightarrow> (bytes list \<times> DepacketizerAV1) option" where
  "av1_extract packetList d = do {
     (d, b, out) \<leftarrow> foldM av1_extract_packet packetList (d, BufferedObu_new, []);
     let buf = snd (flushTo b out);
     Some (if buf \<noteq> [] then av1_extractImpl (last packetList) buf d else [], d)
   }"

text \<open>The loop of \<^verbatim>\<open>isFrameStart\<close>; the size of an element is not compared with what is left before it is skipped.\<close>

partial_function (option) av1_start_loop :: "nat \<Rightarrow> nat \<Rightarrow> ByteReader \<Rightarrow> bool option" where
  "av1_start_loop valueW obuIndex reader =
     (if remaining reader \<ge> 1 then
        (let (obuSize, reader) = av1_element_size valueW obuIndex reader in do {
           (found, obuSize, reader) \<leftarrow>
             (if remaining reader \<ge> 1 \<and> obuSize \<ge> 1 then do {
                (obuHeader, reader) \<leftarrow> readU8 reader;
                let obuType = drop_bit 3 obuHeader AND 0x0F;
                Some (obuType = SequenceHeader \<or> isFrameObuType obuType, obuSize - 1, reader)
              } else Some (False, obuSize, reader));
           if found then Some True
           else if valueW \<noteq> 0 \<and> obuIndex = valueW - 1 then Some False
           else do {
             reader \<leftarrow> reader_skip obuSize reader;
             av1_start_loop valueW (obuIndex + 1) reader
           }
         })
      else Some False)"

declare av1_start_loop.simps [code]

definition av1_isFrameStart :: "bytes \<Rightarrow> bool option" where
  "av1_isFrameStart payload =
     (let reader = ByteReader_new payload in
      if remaining reader \<ge> 1 then do {
        (packetHeader, reader) \<leftarrow> readU8 reader;
        if test_mask packetHeader 7 then Some False
        else av1_start_loop (unat (drop_bit 4 packetHeader AND 0x03)) 0 reader
      } else Some False)"

definition depacketizer_av1 :: "DepacketizerAV1 Depacketizer" where
  "depacketizer_av1 =
     \<lparr>dp_getPacketKind = video_getPacketKind av1_isFrameStart, dp_reset = av1_reset, dp_extract = av1_extract\<rparr>"

end
