(* ===== verification/AV1_Roundtrip.thy ===== *)
theory AV1_Roundtrip
  imports AV1
begin

text \<open>
  The AV1 packetizer and depacketizer together: what the parser finds in a frame, what the receiver holds after a packet,
  the packets of a frame, the round trip, and the packets for which it fails.
\<close>

unbundle bit_operations_syntax

section \<open>What the parser finds\<close>

lemma av1_low_bits: "push_bit s (ucast (v AND 0x7F)) OR push_bit (s + 7) (ucast (drop_bit 7 v)) = (push_bit s (ucast v) :: u64)"
  for v :: u32
proof (rule bit_word_eqI)
  fix n assume "n < LENGTH(64)"
  show "bit (push_bit s (ucast (v AND 0x7F)) OR push_bit (s + 7) (ucast (drop_bit 7 v)) :: u64) n = bit (push_bit s (ucast v) :: u64) n"
    unfolding mask7 by (cases "n < s + 7") (auto simp: bit_simps)
qed

lemma av1_byte_value:
  "(ucast ((ucast (v AND 0x7F) :: u8) AND 0x7F) :: u64) = ucast (v AND 0x7F)"
  "(ucast ((ucast (0x80 OR (v AND 0x7F)) :: u8) AND 0x7F) :: u64) = ucast (v AND 0x7F)" for v :: u32
  unfolding mask7 by (rule bit_word_eqI; auto simp: bit_simps bit7)+

lemma read_at_Cons: "drop pos buf = b # rest \<Longrightarrow> read_at buf pos = Some b"
proof -
  assume d: "drop pos buf = b # rest"
  then have "pos < length buf" by (metis drop_all list.distinct(1) not_less)
  then show ?thesis using d by (simp add: read_at_def nth_via_drop)
qed

lemma drop_Suc_Cons: "drop pos buf = b # rest \<Longrightarrow> drop (Suc pos) buf = rest"
  by (metis drop_Suc list.sel(3) tl_drop)

lemma av1_read_leb128_bytes:
  "unat v * 2 ^ shift < 2 ^ 32 \<Longrightarrow> shift < 56 \<Longrightarrow> drop pos buf = leb128_bytes v @ rest \<Longrightarrow> length (leb128_bytes v) \<le> sz \<Longrightarrow>
     av1_read_leb128 buf acc shift pos sz =
       Some (acc OR push_bit shift (ucast v), pos + length (leb128_bytes v), sz - length (leb128_bytes v))"
proof (induction v arbitrary: acc shift pos sz rule: leb128_bytes.induct)
  case (1 v)
  show ?case
  proof (cases "drop_bit 7 v = 0")
    case True
    then have b: "leb128_bytes v = [ucast (v AND 0x7F)]" by (simp add: leb128_bytes.simps [of v])
    have "push_bit shift (ucast (v AND 0x7F)) = (push_bit shift (ucast v) :: u64)"
      using av1_low_bits [of shift v] True by simp
    moreover have "read_at buf pos = Some (ucast (v AND 0x7F))" using "1.prems"(3) b read_at_Cons by simp
    ultimately show ?thesis
      using "1.prems" b by (simp add: av1_read_leb128.simps [of buf acc] av1_byte_value leb128_flag)
  next
    case False
    then have "128 \<le> unat v" by (metis div_less not_le unat_drop_bit_7 unat_eq_zero)
    then have "2 ^ (shift + 7) \<le> unat v * 2 ^ shift" by (simp add: power_add)
    with "1.prems" have sh: "(2::nat) ^ (shift + 7) < 2 ^ 32" by linarith
    then have sh32: "shift + 7 < 32" by (rule power_less_imp_less_exp [rotated]) simp
    have "unat (drop_bit 7 v) * 2 ^ (shift + 7) \<le> unat v * 2 ^ shift"
      by (simp add: unat_drop_bit_7 power_add)
    then have less: "unat (drop_bit 7 v) * 2 ^ (shift + 7) < 2 ^ 32" using "1.prems" by linarith
    let ?b = "ucast (0x80 OR (v AND 0x7F)) :: u8"
    have bytes: "leb128_bytes v = ?b # leb128_bytes (drop_bit 7 v)"
      by (subst leb128_bytes.simps) (simp only: Let_def False if_False)
    have d: "drop (Suc pos) buf = leb128_bytes (drop_bit 7 v) @ rest"
      using "1.prems"(3) bytes drop_Suc_Cons by simp
    have l: "length (leb128_bytes (drop_bit 7 v)) \<le> sz - 1" using "1.prems"(4) bytes by simp
    have rd: "read_at buf pos = Some ?b" using "1.prems"(3) bytes read_at_Cons by simp
    note IH = "1.IH" [OF refl refl False less _ d l, of "acc OR push_bit shift (ucast (v AND 0x7F))"]
    have "av1_read_leb128 buf acc shift pos sz =
        av1_read_leb128 buf (acc OR push_bit shift (ucast (v AND 0x7F))) (shift + 7) (Suc pos) (sz - 1)"
      using "1.prems"(2,4) rd leb128_flag' [of v] bytes
      by (subst av1_read_leb128.simps) (simp add: av1_byte_value Let_def)
    then show ?thesis
      using IH sh32 bytes by (simp add: or.assoc av1_low_bits)
  qed
qed

text \<open>An OBU is its type, temporal id, spatial id and data; its bytes as an encoder writes them, with a size.\<close>

type_synonym obu = "u8 \<times> u8 \<times> u8 \<times> bytes"

definition obu_ext :: "u8 \<Rightarrow> u8 \<Rightarrow> bool" where
  "obu_ext tid sid \<longleftrightarrow> tid \<noteq> 0 \<or> sid \<noteq> 0"

definition obu_header :: "u8 \<Rightarrow> u8 \<Rightarrow> u8 \<Rightarrow> u8" where
  "obu_header t tid sid = push_bit 3 t OR push_bit 2 (if obu_ext tid sid then 1 else 0)"

definition obu_ext_bytes :: "u8 \<Rightarrow> u8 \<Rightarrow> bytes" where
  "obu_ext_bytes tid sid = (if obu_ext tid sid then [push_bit 5 tid OR push_bit 3 sid] else [])"

fun obu_bytes :: "obu \<Rightarrow> bytes" where
  "obu_bytes (t, tid, sid, data) =
     (obu_header t tid sid OR 2) # obu_ext_bytes tid sid @ leb128_bytes (of_nat (length data)) @ data"

fun obu_ok :: "obu \<Rightarrow> bool" where
  "obu_ok (t, tid, sid, data) \<longleftrightarrow> t < 16 \<and> tid < 8 \<and> sid < 4 \<and> length data < 2 ^ 31"

lemma u8_less_bits:
  fixes x :: u8
  shows "x < 16 \<Longrightarrow> \<not> bit x 4 \<and> \<not> bit x 5 \<and> \<not> bit x 6 \<and> \<not> bit x 7"
    "x < 8 \<Longrightarrow> \<not> bit x 3 \<and> \<not> bit x 4 \<and> \<not> bit x 5 \<and> \<not> bit x 6 \<and> \<not> bit x 7"
    "x < 4 \<Longrightarrow> \<not> bit x 2 \<and> \<not> bit x 3 \<and> \<not> bit x 4 \<and> \<not> bit x 5 \<and> \<not> bit x 6 \<and> \<not> bit x 7"
proof -
  have b: "unat x < 2 ^ k \<Longrightarrow> k \<le> n \<Longrightarrow> \<not> bit x n" for k n
  proof -
    assume "unat x < 2 ^ k" "k \<le> n"
    then have "unat x < 2 ^ n" by (meson order.strict_trans2 one_le_numeral power_increasing)
    moreover have "unat (drop_bit n x) = unat x div 2 ^ n" by (simp only: unat_drop_bit_eq drop_bit_eq_div [of n "unat x"])
    ultimately have "unat (drop_bit n x) = 0" by simp
    then have "drop_bit n x = 0" by (simp only: unat_eq_zero)
    then show ?thesis by (simp add: bit_iff_odd_drop_bit)
  qed
  show "x < 16 \<Longrightarrow> \<not> bit x 4 \<and> \<not> bit x 5 \<and> \<not> bit x 6 \<and> \<not> bit x 7" using b [of 4] by (simp add: word_less_nat_alt)
  show "x < 8 \<Longrightarrow> \<not> bit x 3 \<and> \<not> bit x 4 \<and> \<not> bit x 5 \<and> \<not> bit x 6 \<and> \<not> bit x 7" using b [of 3] by (simp add: word_less_nat_alt)
  show "x < 4 \<Longrightarrow> \<not> bit x 2 \<and> \<not> bit x 3 \<and> \<not> bit x 4 \<and> \<not> bit x 5 \<and> \<not> bit x 6 \<and> \<not> bit x 7" using b [of 2] by (simp add: word_less_nat_alt)
qed

lemma obu_header_parts:
  fixes t tid sid :: u8
  assumes "t < 16"
  defines "h \<equiv> obu_header t tid sid OR 2"
  shows "h AND 0x80 = 0" "drop_bit 3 h AND 0x3F = t" "drop_bit 2 h AND 0x01 \<noteq> 0 \<longleftrightarrow> obu_ext tid sid" "drop_bit 1 h AND 0x01 \<noteq> 0"
proof -
  note b = u8_less_bits(1) [OF assms(1)]
  show "h AND 0x80 = 0" unfolding h_def obu_header_def using b by (intro u8_eqI) (auto simp: bit_simps)
  show "drop_bit 3 h AND 0x3F = t" unfolding h_def obu_header_def using b by (intro u8_eqI) (auto simp: bit_simps)
  have 1: "x AND 1 \<noteq> 0 \<longleftrightarrow> bit x 0" for x :: u8 using test_mask_bit [of 0 x] by (simp add: test_mask_def)
  show "drop_bit 2 h AND 0x01 \<noteq> 0 \<longleftrightarrow> obu_ext tid sid" "drop_bit 1 h AND 0x01 \<noteq> 0"
    unfolding h_def obu_header_def 1 by (auto simp: bit_simps)
qed

lemma obu_ext_parts:
  fixes tid sid :: u8
  assumes "tid < 8" "sid < 4"
  shows "drop_bit 5 (push_bit 5 tid OR push_bit 3 sid) AND 0x07 = tid" "drop_bit 3 (push_bit 5 tid OR push_bit 3 sid) AND 0x03 = sid"
  using u8_less_bits(2) [OF assms(1)] u8_less_bits(3) [OF assms(2)]
  by (intro u8_eqI; auto simp: bit_simps)+

definition obu_view :: "ObuParser \<Rightarrow> u8 \<times> u8 \<times> u8 \<times> bytes option" where
  "obu_view p = (mCurrType p, mCurrTemporalId p, mCurrSpatialId p, obu_data p)"

definition obu_head_size :: "u8 \<Rightarrow> u8 \<Rightarrow> bytes \<Rightarrow> nat" where
  "obu_head_size tid sid data = 1 + length (obu_ext_bytes tid sid) + length (leb128_bytes (of_nat (length data)))"

lemma obu_bytes_size: "length (obu_bytes (t, tid, sid, data)) = obu_head_size tid sid data + length data"
  by (simp add: obu_head_size_def)

lemma obu_parse:
  assumes "obu_ok (t, tid, sid, data)" "drop pos buf = obu_bytes (t, tid, sid, data) @ rest"
  shows "obu_parseImpl buf pos (length buf - pos) =
    Some \<lparr>obBuf = buf, mCurrType = t, mCurrData = Some (pos + obu_head_size tid sid data), mCurrSize = length data,
          mCurrTemporalId = tid, mCurrSpatialId = sid\<rparr>"
proof -
  let ?h = "obu_header t tid sid OR 2" and ?v = "of_nat (length data) :: u32"
  have ok: "t < 16" "tid < 8" "sid < 4" "length data < 2 ^ 31" using assms(1) by auto
  note h = obu_header_parts [OF ok(1), of tid sid]
  have d0: "drop pos buf = ?h # obu_ext_bytes tid sid @ leb128_bytes ?v @ data @ rest" using assms(2) by simp
  note r0 = read_at_Cons [OF d0]
  note d1 = drop_Suc_Cons [OF d0]
  have len: "length buf - pos = 1 + length (obu_ext_bytes tid sid) + length (leb128_bytes ?v) + length data + length rest"
    using arg_cong [OF d0, of length] by simp
  have v: "unat ?v = length data" "unat (ucast ?v :: u64) = length data"
    using ok(4) by (simp_all add: unat_of_nat unsigned_ucast_eq take_bit_nat_eq_self)
  have leb: "av1_read_leb128 buf 0 0 p sz = Some (ucast ?v, p + length (leb128_bytes ?v), sz - length (leb128_bytes ?v))"
    if "drop p buf = leb128_bytes ?v @ data @ rest" "length (leb128_bytes ?v) \<le> sz" for p sz
    using av1_read_leb128_bytes [of ?v 0 p buf "data @ rest" sz 0] that v ok(4) by simp
  show ?thesis
  proof (cases "obu_ext tid sid")
    case True
    then have d1': "drop (Suc pos) buf = (push_bit 5 tid OR push_bit 3 sid) # leb128_bytes ?v @ data @ rest"
      using d1 by (simp add: obu_ext_bytes_def)
    note r1 = read_at_Cons [OF d1'] and d2 = drop_Suc_Cons [OF d1']
    show ?thesis
      using len r0 r1 h True leb [OF d2, of "length (leb128_bytes ?v) + length data + length rest"] obu_ext_parts [OF ok(2,3)] v
      by (simp add: obu_parseImpl_def Let_def obu_ext_bytes_def obu_head_size_def)
  next
    case False
    then have d1': "drop (Suc pos) buf = leb128_bytes ?v @ data @ rest" and z: "tid = 0" "sid = 0"
      using d1 by (auto simp: obu_ext_bytes_def obu_ext_def)
    show ?thesis
      using len r0 h False leb [OF d1', of "length (leb128_bytes ?v) + length data + length rest"] v z
      by (simp add: obu_parseImpl_def Let_def obu_ext_bytes_def obu_head_size_def)
  qed
qed

lemma obu_parse_end: "drop pos buf = [] \<Longrightarrow> obu_parseImpl buf pos (length buf - pos) = Some (obu_failed buf)"
  by (simp add: obu_parseImpl_def)

definition obus_bytes :: "obu list \<Rightarrow> bytes" where
  "obus_bytes os = concat (map obu_bytes os)"

definition obu_content :: "obu \<Rightarrow> bytes" where
  "obu_content o' = snd (snd (snd o'))"

fun obu_seen :: "obu \<Rightarrow> u8 \<times> u8 \<times> u8 \<times> bytes option" where
  "obu_seen (t, tid, sid, data) = (t, tid, sid, Some data)"

lemma ob_states_eq:
  "list_all obu_ok os \<Longrightarrow> os \<noteq> [] \<longrightarrow> obu_content (last os) \<noteq> [] \<Longrightarrow> drop pos buf = obus_bytes os \<Longrightarrow>
     \<exists>p ps. obu_parseImpl buf pos (length buf - pos) = Some p \<and> ob_states p = Some ps \<and> map obu_view ps = map obu_seen os"
proof (induction os arbitrary: pos)
  case Nil
  then have "drop pos buf = []" by (simp add: obus_bytes_def)
  moreover have "ob_states (obu_failed buf) = Some []"
    by (subst ob_states.simps) (simp add: obu_valid_def obu_failed_def)
  ultimately show ?case using obu_parse_end by simp
next
  case (Cons ob os)
  obtain t tid sid data where ob: "ob = (t, tid, sid, data)" by (metis prod_cases4)
  let ?hs = "obu_head_size tid sid data"
  let ?p = "\<lparr>obBuf = buf, mCurrType = t, mCurrData = Some (pos + ?hs), mCurrSize = length data,
    mCurrTemporalId = tid, mCurrSpatialId = sid\<rparr>"
  have d: "drop pos buf = obu_bytes (t, tid, sid, data) @ obus_bytes os" using Cons.prems(3) ob by (simp add: obus_bytes_def)
  have p: "obu_parseImpl buf pos (length buf - pos) = Some ?p" using obu_parse [OF _ d] Cons.prems(1) ob by simp
  have len: "length buf - pos = ?hs + length data + length (obus_bytes os)" "?hs > 0"
    using arg_cong [OF d, of length] obu_bytes_size [of t tid sid data] by (simp_all add: obu_head_size_def)
  have "drop (pos + (?hs + length data)) buf = drop (?hs + length data) (obu_bytes (t, tid, sid, data) @ obus_bytes os)"
    using d by (metis add.commute drop_drop)
  then have nx: "drop (pos + ?hs + length data) buf = obus_bytes os"
    using obu_bytes_size [of t tid sid data] by (simp add: add.assoc del: obu_bytes.simps)
  have "drop (pos + ?hs) buf = drop ?hs (obu_bytes (t, tid, sid, data) @ obus_bytes os)"
    using d by (metis add.commute drop_drop)
  then have dat: "drop (pos + ?hs) buf = data @ obus_bytes os" by (simp add: obu_head_size_def)
  have ne: "0 < length data + length (obus_bytes os)"
  proof (cases "os = []")
    case True
    then show ?thesis using Cons.prems(2) ob by (simp add: obu_content_def)
  next
    case False
    then show ?thesis using obu_bytes_size by (cases os; cases "hd os") (auto simp: obus_bytes_def)
  qed
  have last: "os \<noteq> [] \<longrightarrow> obu_content (last os) \<noteq> []" using Cons.prems(2) by (cases os) auto
  obtain p' ps where r: "obu_parseImpl buf (pos + ?hs + length data) (length buf - (pos + ?hs + length data)) = Some p'"
    "ob_states p' = Some ps" "map obu_view ps = map obu_seen os"
    using Cons.IH [OF _ last nx] Cons.prems(1) by auto
  have "pos + ?hs < length buf" "pos + ?hs + length data \<le> length buf" using len ne by linarith+
  then have v: "obu_valid ?p" and n: "obu_next ?p = Some p'"
    using len ne r(1) by (auto simp: obu_valid_def obu_next_def)
  have "obu_view ?p = obu_seen ob"
    using ob dat len by (simp add: obu_view_def obu_data_def)
  then show ?case using p r v n by (simp add: ob_states.simps [of ?p])
qed

lemma ob_find_states: "ob_states p = Some ps \<Longrightarrow> ob_find P p = Some (list_ex P ps)"
proof (induction ps arbitrary: p)
  case Nil
  then show ?case by (subst (asm) ob_states.simps, subst ob_find.simps) (auto split: if_splits bind_splits)
next
  case (Cons q ps)
  then obtain p' where "obu_valid p" "obu_next p = Some p'" "ob_states p' = Some ps" "p = q"
    by (subst (asm) ob_states.simps) (auto split: if_splits bind_splits)
  then show ?case using Cons.IH by (subst ob_find.simps) auto
qed

section \<open>What the receiver holds\<close>

fun first_element :: "obu \<Rightarrow> bytes" where
  "first_element (t, tid, sid, c) = av1_element t tid sid True c"

text \<open>The last OBU is in the buffer, those before it are in the output.\<close>

definition held :: "obu list \<Rightarrow> BufferedObu \<times> bytes \<Rightarrow> bool" where
  "held os x \<longleftrightarrow> (os = [] \<and> x = (BufferedObu_new, [])) \<or>
     (\<exists>os' t tid sid data. os = os' @ [(t, tid, sid, data)] \<and> obu_header t tid sid \<noteq> 0 \<and>
        x = (\<lparr>bo_header = obu_header t tid sid, bo_extension = (if obu_ext tid sid then push_bit 5 tid OR push_bit 3 sid else 0), bo_buf = data\<rparr>,
             obus_bytes os'))"

lemma obu_header_ext: "obu_header t tid sid AND 4 = 0 \<longleftrightarrow> \<not> obu_ext tid sid"
proof -
  have "test_mask (obu_header t tid sid) 2 = bit (obu_header t tid sid) 2" by (rule test_mask_bit) simp
  also have "\<dots> = obu_ext tid sid" by (simp add: obu_header_def bit_simps)
  finally show ?thesis by (auto simp: test_mask_def)
qed

lemma held_flush:
  assumes "held os (b, out)"
  shows "flushTo b out = (BufferedObu_new, obus_bytes os)"
  using assms by (auto simp: held_def flushTo_def BufferedObu_new_def obus_bytes_def obu_ext_bytes_def u8_bytes_def obu_header_ext)

definition obu_sendable :: "obu \<Rightarrow> bool" where
  "obu_sendable ob \<longleftrightarrow> obu_ok ob \<and> fst ob \<noteq> 0 \<and> obu_content ob \<noteq> []"

lemma obu_header_not_0: "t < 16 \<Longrightarrow> t \<noteq> 0 \<Longrightarrow> obu_header t tid sid \<noteq> 0"
proof -
  assume t: "t < 16" "t \<noteq> 0"
  have "drop_bit 3 (obu_header t tid sid) = t"
    using u8_less_bits(1) [OF t(1)] by (intro u8_eqI) (auto simp: obu_header_def bit_simps)
  then show ?thesis using t(2) by auto
qed

lemma element_size_read:
  assumes "reader_inv r" "unread r = leb128_bytes v @ xs"
  shows "av1_element_size 0 i r = (unat v, advance (length (leb128_bytes v)) r)"
    "reader_inv (advance (length (leb128_bytes v)) r)" "unread (advance (length (leb128_bytes v)) r) = xs"
proof -
  have "unat v * 2 ^ 0 < 2 ^ 32" using unsigned_less [of v] by simp
  note dec = leb128_decode_bytes [OF this, of xs 0]
  show "av1_element_size 0 i r = (unat v, advance (length (leb128_bytes v)) r)"
    using assms dec by (simp add: av1_element_size_def readLEB128_eq)
  show "reader_inv (advance (length (leb128_bytes v)) r)" "unread (advance (length (leb128_bytes v)) r) = xs"
    using assms by (simp_all add: read_simps)
qed

lemma obu_header_bit2: "drop_bit 2 (obu_header t tid sid) AND 0x01 \<noteq> 0 \<longleftrightarrow> obu_ext tid sid"
proof -
  have "x AND 1 \<noteq> 0 \<longleftrightarrow> bit x 0" for x :: u8 using test_mask_bit [of 0 x] by (simp add: test_mask_def)
  then show ?thesis by (auto simp: obu_header_def bit_simps)
qed

lemma skip_chunk:
  assumes "reader_inv r" "unread r = c @ rest"
  shows "length c \<le> remaining r" "take (length c) (current r) = c" "reader_skip (length c) r = Some (advance (length c) r)"
    "reader_inv (advance (length c) r)" "unread (advance (length c) r) = rest"
  using assms take_current [OF assms(1), of "length c"] by (simp_all add: read_simps)

lemma take_first_element:
  assumes "reader_inv r" "unread r = obu_header t tid sid # obu_ext_bytes tid sid @ c @ rest" "held os (b, out)"
    "obu_sendable (t, tid, sid, c)"
  shows "\<exists>x r'. av1_take_element False (1 + length (obu_ext_bytes tid sid) + length c) r (b, out) = Some (r', x) \<and>
     held (os @ [(t, tid, sid, c)]) x \<and> reader_inv r' \<and> unread r' = rest"
proof -
  let ?ext = "obu_ext_bytes tid sid"
  note s1 = unread_Cons [OF assms(1,2)]
  have nz: "obu_header t tid sid \<noteq> 0" and cne: "c \<noteq> []"
    using assms(4) obu_header_not_0 by (auto simp: obu_sendable_def obu_content_def)
  have f: "flushTo b out = (BufferedObu_new, obus_bytes os)" by (rule held_flush [OF assms(3)])
  show ?thesis
  proof (cases "obu_ext tid sid")
    case True
    then have u: "unread (advance (Suc 0) r) = (push_bit 5 tid OR push_bit 3 sid) # c @ rest" and l: "length ?ext = 1"
      using s1(3) by (simp_all add: obu_ext_bytes_def)
    note s2 = unread_Cons [OF s1(2) u]
    let ?r = "advance (Suc 0) (advance (Suc 0) r)"
    have "1 \<le> remaining (advance (Suc 0) r)" using remaining_unread [OF s1(2)] u by simp
    moreover note skip_chunk [OF s2(2,3)]
    ultimately show ?thesis
      using s1(1) s2(1) f True l nz
      by (simp add: av1_take_element_def Let_def obu_header_bit2 held_def BufferedObu_new_def)
  next
    case False
    then have u: "unread (advance (Suc 0) r) = c @ rest" and l: "length ?ext = 0"
      using s1(3) by (simp_all add: obu_ext_bytes_def)
    let ?r = "advance (Suc 0) r"
    note skip_chunk [OF s1(2) u]
    then show ?thesis
      using s1(1) f False l nz
      by (simp add: av1_take_element_def Let_def obu_header_bit2 held_def BufferedObu_new_def)
  qed
qed

lemma first_element_eq:
  "first_element (t, tid, sid, c) = leb128_bytes (of_nat (1 + length (obu_ext_bytes tid sid) + length c)) @
     obu_header t tid sid # obu_ext_bytes tid sid @ c"
  by (simp add: av1_element_def Let_def obu_ext_bytes_def obu_ext_def obu_header_def u8_bytes_def)

lemma next_element_eq: "av1_element t 0 0 False c = leb128_bytes (of_nat (length c)) @ c"
  by (simp add: av1_element_def)

lemma unat_of_nat_u32: "n < 2 ^ 32 \<Longrightarrow> unat (of_nat n :: u32) = n"
  by (simp add: unat_of_nat)

lemma leb128_bytes_not_Nil [simp]: "leb128_bytes v \<noteq> []"
  by (subst leb128_bytes.simps) (simp add: Let_def)

lemma av1_elements_end: "reader_inv r \<Longrightarrow> unread r = [] \<Longrightarrow> av1_elements z w i r x = Some x"
  by (subst av1_elements.simps) (simp add: read_simps)

text \<open>One round of the loop over elements that have a size.\<close>

lemma av1_elements_step:
  assumes "reader_inv r" "unread r = leb128_bytes v @ ys" "0 < unat v" "unat v \<le> length ys"
    "av1_take_element z (unat v) (advance (length (leb128_bytes v)) r) x = Some (r', x')"
  shows "av1_elements z 0 i r x = av1_elements z 0 (i + 1) r' x'"
proof -
  note e = element_size_read [OF assms(1,2)]
  have "1 \<le> remaining r" "unat v \<le> remaining (advance (length (leb128_bytes v)) r)"
    using assms(1,2,4) e(2,3) by (simp_all add: remaining_unread Suc_le_eq)
  then show ?thesis using e(1) assms(3,5) by (subst av1_elements.simps) simp
qed

lemma elements_first:
  "reader_inv r \<Longrightarrow> unread r = concat (map first_element es) \<Longrightarrow> held os x \<Longrightarrow> list_all obu_sendable es \<Longrightarrow>
     \<exists>x'. av1_elements False 0 i r x = Some x' \<and> held (os @ es) x'"
proof (induction es arbitrary: r os x i)
  case Nil
  then show ?case using av1_elements_end by simp
next
  case (Cons e es)
  obtain t tid sid c where e: "e = (t, tid, sid, c)" by (metis prod_cases4)
  obtain b out where x: "x = (b, out)" by fastforce
  let ?n = "1 + length (obu_ext_bytes tid sid) + length c" and ?rest = "concat (map first_element es)"
  let ?v = "of_nat ?n :: u32"
  have s: "obu_sendable (t, tid, sid, c)" using Cons.prems(4) e by simp
  have n: "unat ?v = ?n"
    by (rule unat_of_nat_u32) (use s in \<open>auto simp: obu_sendable_def obu_ext_bytes_def\<close>)
  have u: "unread r = leb128_bytes ?v @ obu_header t tid sid # obu_ext_bytes tid sid @ c @ ?rest"
    using Cons.prems(2) e first_element_eq [of t tid sid c] by simp
  note es = element_size_read [OF Cons.prems(1) u]
  obtain x' r' where t: "av1_take_element False ?n (advance (length (leb128_bytes ?v)) r) (b, out) = Some (r', x')"
    "held (os @ [(t, tid, sid, c)]) x'" "reader_inv r'" "unread r' = ?rest"
    using take_first_element [OF es(2,3) _ s] Cons.prems(3) x by blast
  have "av1_elements False 0 i r x = av1_elements False 0 (i + 1) r' x'"
    using av1_elements_step [OF Cons.prems(1) u, of False x r' x' i] n t(1) x by simp
  then show ?case using Cons.IH [OF t(3,4,2)] Cons.prems(4) e by simp
qed

text \<open>In a packet that begins with a continuation every element is appended to the OBU in the buffer.\<close>

lemma elements_chunks:
  "reader_inv r \<Longrightarrow> unread r = concat (map (\<lambda>c. leb128_bytes (of_nat (length c)) @ c) cs) \<Longrightarrow> held (os @ [(t, tid, sid, d)]) x \<Longrightarrow>
   list_all (\<lambda>c. c \<noteq> [] \<and> length c < 2 ^ 32) cs \<Longrightarrow>
     \<exists>x'. av1_elements True 0 i r x = Some x' \<and> held (os @ [(t, tid, sid, d @ concat cs)]) x'"
proof (induction cs arbitrary: r d x i)
  case Nil
  then show ?case using av1_elements_end by simp
next
  case (Cons c cs)
  let ?v = "of_nat (length c) :: u32" and ?rest = "concat (map (\<lambda>c. leb128_bytes (of_nat (length c)) @ c) cs)"
  obtain b out where x: "x = (b, out)" by fastforce
  have u: "unread r = leb128_bytes ?v @ c @ ?rest" using Cons.prems(2) by simp
  note es = element_size_read [OF Cons.prems(1) u]
  note k = skip_chunk [OF es(2,3)]
  have n: "unat ?v = length c" "c \<noteq> []" using Cons.prems(4) unat_of_nat_u32 [of "length c"] by simp_all
  let ?x = "(b\<lparr>bo_buf := bo_buf b @ c\<rparr>, out)"
  have "av1_take_element True (length c) (advance (length (leb128_bytes ?v)) r) x =
      Some (advance (length c) (advance (length (leb128_bytes ?v)) r), ?x)"
    using k x by (simp add: av1_take_element_def Let_def)
  then have "av1_elements True 0 i r x = av1_elements True 0 (i + 1) (advance (length c) (advance (length (leb128_bytes ?v)) r)) ?x"
    using av1_elements_step [OF Cons.prems(1) u, of True x] n by simp
  moreover have "held (os @ [(t, tid, sid, d @ c)]) ?x" using Cons.prems(3) x by (auto simp: held_def)
  ultimately show ?case using Cons.IH [OF k(4,5), of "d @ c" ?x "i + 1"] Cons.prems(4) by simp
qed

lemma elements_next:
  assumes "reader_inv r" "unread r = av1_element t 0 0 False c" "held (os @ [(t', tid, sid, d)]) x" "c \<noteq> []" "length c < 2 ^ 31"
  shows "\<exists>x'. av1_elements True 0 i r x = Some x' \<and> held (os @ [(t', tid, sid, d @ c)]) x'"
  using elements_chunks [OF assms(1) _ assms(3), of "[c]" i] assms(2,4,5) by (simp add: next_element_eq)

text \<open>The first byte of a payload.\<close>

definition agg_header :: "bool \<Rightarrow> bool \<Rightarrow> bool \<Rightarrow> u8" where
  "agg_header z y n = push_bit 7 (if z then 1 else 0) OR push_bit 3 (if n then 1 else 0) OR (if y then push_bit 6 1 else 0)"

lemma agg_header_parts:
  "test_mask (agg_header z y n) 7 = z" "drop_bit 4 (agg_header z y n) AND 0x03 = 0"
  "drop_bit 3 (agg_header z y n) AND 0x01 \<noteq> 0 \<longleftrightarrow> n"
  by (cases z; cases y; cases n; simp add: agg_header_def test_mask_def)+

definition seen_if :: "bool \<Rightarrow> DepacketizerAV1 \<Rightarrow> DepacketizerAV1" where
  "seen_if n d = (if n then d\<lparr>mSeenNewSequence := True\<rparr> else d)"

lemma seen_if_simps [simp]:
  "mSeenNewSequence (seen_if n d) = (mSeenNewSequence d \<or> n)" "seen_if m (seen_if n d) = seen_if (m \<or> n) d" "seen_if False d = d"
  by (auto simp: seen_if_def)

lemma extract_packet_eq:
  assumes "it_payload p = agg_header z y n # body"
  shows "av1_extract_packet p (d, x) =
    map_option (Pair (seen_if n d)) (av1_elements z 0 0 (advance (Suc 0) (ByteReader_new (it_payload p))) x)"
    "reader_inv (advance (Suc 0) (ByteReader_new (it_payload p)))"
    "unread (advance (Suc 0) (ByteReader_new (it_payload p))) = body"
proof -
  have "unread (ByteReader_new (it_payload p)) = agg_header z y n # body" using assms by simp
  note u = unread_Cons [OF reader_inv_new this]
  show "av1_extract_packet p (d, x) =
      map_option (Pair (seen_if n d)) (av1_elements z 0 0 (advance (Suc 0) (ByteReader_new (it_payload p))) x)"
    using u(1) assms agg_header_parts [of z y n]
    by (simp add: av1_extract_packet_def Let_def seen_if_def map_option_case split: option.split bind_splits)
  show "reader_inv (advance (Suc 0) (ByteReader_new (it_payload p)))" "unread (advance (Suc 0) (ByteReader_new (it_payload p))) = body"
    using u by simp_all
qed

lemma packet_first:
  assumes "it_payload p = agg_header False y n # concat (map first_element es)" "held os x" "list_all obu_sendable es"
  shows "\<exists>x'. av1_extract_packet p (d, x) = Some (seen_if n d, x') \<and> held (os @ es) x'"
proof -
  note e = extract_packet_eq [OF assms(1)]
  obtain x' where "av1_elements False 0 0 (advance (Suc 0) (ByteReader_new (it_payload p))) x = Some x'" "held (os @ es) x'"
    using elements_first [OF e(2,3) assms(2,3)] by blast
  then show ?thesis using e(1) by simp
qed

lemma packet_next:
  assumes "it_payload p = agg_header True y n # av1_element t 0 0 False c" "held (os @ [(t', tid, sid, d0)]) x" "c \<noteq> []" "length c < 2 ^ 31"
  shows "\<exists>x'. av1_extract_packet p (d, x) = Some (seen_if n d, x') \<and> held (os @ [(t', tid, sid, d0 @ c)]) x'"
proof -
  note e = extract_packet_eq [OF assms(1)]
  obtain x' where "av1_elements True 0 0 (advance (Suc 0) (ByteReader_new (it_payload p))) x = Some x'"
    "held (os @ [(t', tid, sid, d0 @ c)]) x'"
    using elements_next [OF e(2,3) assms(2-4)] by blast
  then show ?thesis using e(1) by simp
qed

section \<open>The packets of a frame\<close>

lemma foldM_snoc: "foldM f (xs @ [y]) x = foldM f xs x \<bind> f y"
proof -
  have "foldM f [y] = f y" by (intro ext) (simp add: bind_eq_Some_conv option.case_eq_if split: bind_splits)
  then show ?thesis by (simp add: foldM_append)
qed

text \<open>What a receiver holds after the packets, and whether it has seen a new sequence.\<close>

definition received :: "bool \<Rightarrow> RtpPacket list \<Rightarrow> obu list \<Rightarrow> bool" where
  "received new ps os \<longleftrightarrow> (\<forall>ts64 items d. list_all2 (carries ts64) ps items \<longrightarrow>
     (\<exists>x. foldM av1_extract_packet items (d, BufferedObu_new, []) = Some (seen_if (new \<and> ps \<noteq> []) d, x) \<and> held os x))"

lemma received_Nil: "received new [] []"
  by (auto simp: received_def held_def)

lemma received_snoc:
  assumes "received new ps os"
    "\<And>item d x. it_payload item = pkt_payload p \<Longrightarrow> held os x \<Longrightarrow>
       \<exists>x'. av1_extract_packet item (d, x) = Some (seen_if n d, x') \<and> held os' x'"
    "new \<and> ps \<noteq> [] \<or> n \<longleftrightarrow> new"
  shows "received new (ps @ [p]) os'"
  unfolding received_def
proof (intro allI impI)
  fix ts64 items d
  assume "list_all2 (carries ts64) (ps @ [p]) items"
  then obtain items' item where it: "items = items' @ [item]" "list_all2 (carries ts64) ps items'" "it_payload item = pkt_payload p"
    by (auto simp: list_all2_append1 list_all2_Cons1 carries_def)
  obtain x where x: "foldM av1_extract_packet items' (d, BufferedObu_new, []) = Some (seen_if (new \<and> ps \<noteq> []) d, x)" "held os x"
    using assms(1) it(2) unfolding received_def by blast
  obtain x' where "av1_extract_packet item (seen_if (new \<and> ps \<noteq> []) d, x) = Some (seen_if n (seen_if (new \<and> ps \<noteq> []) d), x')" "held os' x'"
    using assms(2) [OF it(3) x(2)] by blast
  moreover have "(n \<or> new \<and> ps \<noteq> []) = new" using assms(3) by blast
  ultimately show "\<exists>x. foldM av1_extract_packet items (d, BufferedObu_new, []) = Some (seen_if (new \<and> ps @ [p] \<noteq> []) d, x) \<and> held os' x"
    using x(1) it(1) by (simp add: foldM_snoc)
qed

lemma received_first:
  assumes "received new ps os" "pkt_payload p = agg_header False y (new \<and> ps = []) # concat (map first_element es)"
    "list_all obu_sendable es"
  shows "received new (ps @ [p]) (os @ es)"
  using assms(2,3) by (intro received_snoc [OF assms(1), of p "new \<and> ps = []"] packet_first) auto

lemma received_next:
  assumes "received new ps (os @ [(t', tid, sid, d0)])" "ps \<noteq> []" "pkt_payload p = agg_header True y False # av1_element t 0 0 False c"
    "c \<noteq> []" "length c < 2 ^ 31"
  shows "received new (ps @ [p]) (os @ [(t', tid, sid, d0 @ c)])"
  using assms(2-5) by (intro received_snoc [OF assms(1), of p False] packet_next) auto

definition unmarked :: "u32 \<Rightarrow> Track \<Rightarrow> 's av1_state \<Rightarrow> bool" where
  "unmarked ts track s \<longleftrightarrow> list_all (\<lambda>p. pkt_timestamp p = ts \<and> \<not> pkt_marker p) (av_result s) \<and> numbered track (av_result s) (av_track s)"

lemma av1_push_fields:
  "av_payload (av1_push ts m s) = []" "isContinuation (av1_push ts m s) = isContinuation s"
  "isNewCodedVideoSequence (av1_push ts m s) = isNewCodedVideoSequence s" "usablePayloadSize (av1_push ts m s) = usablePayloadSize s"
  by (simp_all add: av1_push_def Let_def case_prod_beta)

lemma av1_push_result:
  obtains p where "av_result (av1_push ts m s) = av_result s @ [p]" "pkt_payload p = av_payload s" "pkt_timestamp p = ts" "pkt_marker p = m"
    "numbered track (av_result s) (av_track s) \<Longrightarrow> numbered track (av_result s @ [p]) (av_track (av1_push ts m s))"
proof -
  obtain r q track' where sq: "track_nextSequence (av_track s) = ((r, q), track')" by (metis surj_pair)
  let ?p = "RtpPacket_new track' m r q ts (av_padding s) (av_extension s) (av_payload s)"
  have "numbered (av_track s) [?p] track'" by (rule numbered_single [OF sq]) simp_all
  then show ?thesis using that [of ?p] numbered_append by (simp add: av1_push_def sq)
qed

lemma av1_new_packet_fields [simp]:
  "av_payload (av1_new_packet srcs basic s) = av_payload s" "isContinuation (av1_new_packet srcs basic s) = isContinuation s"
  "isNewCodedVideoSequence (av1_new_packet srcs basic s) = isNewCodedVideoSequence s"
  "av_result (av1_new_packet srcs basic s) = av_result s" "av_track (av1_new_packet srcs basic s) = av_track s"
  by (simp_all add: av1_new_packet_def Let_def case_prod_beta)

lemma av1_new_packet_usable: "200 \<le> basic \<Longrightarrow> 100 \<le> usablePayloadSize (av1_new_packet srcs basic s)"
proof -
  assume b: "200 \<le> basic"
  have "100 \<le> adjustPacketSize basic (unat p) e" for p :: u8 and e
  proof -
    have "unat p \<le> 255" using unat_u8_less [of p] by linarith
    then have "min (basic div 2) 345 \<le> adjustPacketSize basic (unat p) e" using adjustPacketSize_bounds [of "unat p" basic e] b by simp
    then show ?thesis using b by (auto simp: min_def split: if_splits)
  qed
  then show ?thesis by (simp add: av1_new_packet_def Let_def case_prod_beta)
qed

text \<open>Between OBUs: the payload holds whole OBUs, and the packets before it the others.\<close>

definition filling :: "bool \<Rightarrow> obu list \<Rightarrow> 's av1_state \<Rightarrow> bool" where
  "filling new os s \<longleftrightarrow> (\<exists>os1 es. os = os1 @ es \<and> list_all obu_sendable es \<and> received new (av_result s) os1 \<and> \<not> isContinuation s \<and>
     (isNewCodedVideoSequence s \<longleftrightarrow> new \<and> av_result s = [] \<and> es = []) \<and> (es \<noteq> [] \<longrightarrow> 100 \<le> usablePayloadSize s) \<and>
     av_payload s = (if es = [] then [] else agg_header False False (new \<and> av_result s = []) # concat (map first_element es)))"

text \<open>After the first byte of the payload has been written.\<close>

definition opened :: "bool \<Rightarrow> obu list \<Rightarrow> 's av1_state \<Rightarrow> bool" where
  "opened new os s \<longleftrightarrow> (\<exists>os1 es. os = os1 @ es \<and> list_all obu_sendable es \<and> received new (av_result s) os1 \<and>
     \<not> isNewCodedVideoSequence s \<and> 100 \<le> usablePayloadSize s \<and>
     av_payload s = agg_header False False (new \<and> av_result s = []) # concat (map first_element es))"

lemma start_payload_first:
  assumes "av_payload s = []" "\<not> isContinuation s" "isNewCodedVideoSequence s = (new \<and> av_result s = [])" "received new (av_result s) os"
    "100 \<le> usablePayloadSize s"
  shows "opened new os (av1_start_payload s)" "av_result (av1_start_payload s) = av_result s" "av_track (av1_start_payload s) = av_track s"
proof -
  show "opened new os (av1_start_payload s)"
    unfolding opened_def using assms
    by (intro exI [of _ os] exI [of _ "[]"]) (simp add: av1_start_payload_def u8_bytes_def agg_header_def)
qed (simp_all add: av1_start_payload_def)

lemma av1_prepare:
  assumes "filling new os s" "unmarked ts track s" "200 \<le> basic" "data \<noteq> []"
  obtains w s3 where
    "av1_step srcs basic ts t tid sid first data s =
       (let s = s3\<lparr>av_payload := av_payload s3 @ av1_element t tid sid first (take w data)\<rparr>;
            s = s\<lparr>isContinuation := w < length data\<rparr>;
            s = (if isContinuation s then av1_push ts False (s\<lparr>av_payload := set_bit_6 (av_payload s)\<rparr>) else s)
        in (w, s))"
    "0 < w" "w \<le> length data" "length data \<le> 100 \<Longrightarrow> w = length data" "opened new os s3" "unmarked ts track s3"
proof -
  obtain os1 es where f: "os = os1 @ es" "list_all obu_sendable es" "received new (av_result s) os1" "\<not> isContinuation s"
    "isNewCodedVideoSequence s \<longleftrightarrow> new \<and> av_result s = [] \<and> es = []" "es \<noteq> [] \<longrightarrow> 100 \<le> usablePayloadSize s"
    "av_payload s = (if es = [] then [] else agg_header False False (new \<and> av_result s = []) # concat (map first_element es))"
    using assms(1) by (auto simp: filling_def)
  define s1 where "s1 = (if av_payload s = [] then av1_new_packet srcs basic s else s)"
  obtain w s2 where room: "av1_make_room ts (length data) s1 = (w, s2)" by fastforce
  let ?s3 = "av1_start_payload s2"
  have step: "av1_step srcs basic ts t tid sid first data s =
       (let s = ?s3\<lparr>av_payload := av_payload ?s3 @ av1_element t tid sid first (take w data)\<rparr>;
            s = s\<lparr>isContinuation := w < length data\<rparr>;
            s = (if isContinuation s then av1_push ts False (s\<lparr>av_payload := set_bit_6 (av_payload s)\<rparr>) else s)
        in (w, s))"
    by (simp add: av1_step_def s1_def [symmetric] room Let_def)
  have u: "100 \<le> usablePayloadSize s1" using av1_new_packet_usable [OF assms(3)] f(6,7) by (auto simp: s1_def)
  have w: "0 < w" "w \<le> length data" "length data \<le> 100 \<Longrightarrow> w = length data"
    using room u assms(4) by (auto simp: av1_make_room_def Let_def min_def split: if_splits)
  consider "es = []" "s2 = s1" | "es \<noteq> []" "s2 = s1"
    | "es \<noteq> []" "s2 = (av1_push ts False s1)\<lparr>av_extension := RtpExtension_none\<rparr>"
    using room f(7) by (auto simp: av1_make_room_def Let_def s1_def split: if_splits)
  then have "opened new os ?s3 \<and> unmarked ts track ?s3"
  proof cases
    case 1
    then show ?thesis
      using start_payload_first [of s2 new os1] f u assms(2) by (auto simp: s1_def unmarked_def)
  next
    case 2
    then have "?s3 = s" using f(7) by (simp add: av1_start_payload_def s1_def)
    then show ?thesis using 2 f assms(2) unfolding opened_def by auto
  next
    case 3
    have s1: "s1 = s" using 3 f(7) by (simp add: s1_def)
    obtain p where p: "av_result (av1_push ts False s) = av_result s @ [p]" "pkt_payload p = av_payload s" "pkt_timestamp p = ts" "\<not> pkt_marker p"
      "numbered track (av_result s) (av_track s) \<Longrightarrow> numbered track (av_result s @ [p]) (av_track (av1_push ts False s))"
      by (rule av1_push_result [of ts False s track]) auto
    have "received new (av_result s @ [p]) os"
      using received_first [OF f(3), of p False es] p(2) f(1,2,7) 3 by simp
    then show ?thesis
      using start_payload_first [of s2 new os] 3 s1 u f p assms(2) by (auto simp: unmarked_def av1_push_fields)
  qed
  then show ?thesis using that [OF step w] by blast
qed

lemma set_bit_6_agg: "set_bit_6 (agg_header z False n # xs) = agg_header z True n # xs"
  by (simp add: set_bit_6_def agg_header_def)

text \<open>At the end of the frame: whatever packet carries the payload completes the OBUs.\<close>

definition finished :: "bool \<Rightarrow> obu list \<Rightarrow> 's av1_state \<Rightarrow> bool" where
  "finished new os s \<longleftrightarrow> av_payload s \<noteq> [] \<and> (\<forall>p. pkt_payload p = av_payload s \<longrightarrow> received new (av_result s @ [p]) os)"

lemma av1_obu_loop_end: "av1_obu_loop srcs basic ts t tid sid first [] s = Some s"
  by (subst av1_obu_loop.simps) simp

lemma av1_obu_loop_step:
  assumes "data \<noteq> []" "av1_step srcs basic ts t tid sid first data s = (w, s')" "0 < w"
  shows "av1_obu_loop srcs basic ts t tid sid first data s = av1_obu_loop srcs basic ts t tid sid False (drop w data) s'"
  using assms by (subst av1_obu_loop.simps) simp

text \<open>An OBU that is written in one piece.\<close>

lemma opened_whole:
  assumes "opened new os s" "obu_sendable (t, tid, sid, data)"
  defines "s' \<equiv> s\<lparr>av_payload := av_payload s @ av1_element t tid sid True data, isContinuation := False\<rparr>"
  shows "filling new (os @ [(t, tid, sid, data)]) s'" "finished new (os @ [(t, tid, sid, data)]) s'"
proof -
  obtain os1 es where o1: "os = os1 @ es" "list_all obu_sendable es" "received new (av_result s) os1"
     "\<not> isNewCodedVideoSequence s" "100 \<le> usablePayloadSize s"
     "av_payload s = agg_header False False (new \<and> av_result s = []) # concat (map first_element es)"
    using assms(1) by (auto simp: opened_def)
  let ?es = "es @ [(t, tid, sid, data)]"
  have p: "av_payload s' = agg_header False False (new \<and> av_result s = []) # concat (map first_element ?es)" "av_result s' = av_result s"
    using o1(6) by (simp_all add: s'_def)
  have es: "list_all obu_sendable ?es" using o1(2) assms(2) by simp
  show "filling new (os @ [(t, tid, sid, data)]) s'"
    unfolding filling_def using o1 es p
    by (intro exI [of _ os1] exI [of _ ?es]) (auto simp: s'_def)
  show "finished new (os @ [(t, tid, sid, data)]) s'"
    unfolding finished_def using received_first [OF o1(3) _ es, of _ False] p o1(1) by simp
qed

lemma av1_whole_obu:
  assumes "filling new os s" "unmarked ts track s" "200 \<le> basic" "obu_sendable (t, tid, sid, data)" "length data \<le> 100"
  obtains s' where "av1_obu_loop srcs basic ts t tid sid True data s = Some s'" "filling new (os @ [(t, tid, sid, data)]) s'"
    "finished new (os @ [(t, tid, sid, data)]) s'" "unmarked ts track s'"
proof -
  have ne: "data \<noteq> []" using assms(4) by (simp add: obu_sendable_def obu_content_def)
  obtain w s3 where w: "av1_step srcs basic ts t tid sid True data s =
       (let s = s3\<lparr>av_payload := av_payload s3 @ av1_element t tid sid True (take w data)\<rparr>;
            s = s\<lparr>isContinuation := w < length data\<rparr>;
            s = (if isContinuation s then av1_push ts False (s\<lparr>av_payload := set_bit_6 (av_payload s)\<rparr>) else s)
        in (w, s))"
    "0 < w" "w \<le> length data" "length data \<le> 100 \<Longrightarrow> w = length data" "opened new os s3" "unmarked ts track s3"
    by (rule av1_prepare [OF assms(1-3) ne, of srcs t tid sid True]) (rule that)
  let ?s = "s3\<lparr>av_payload := av_payload s3 @ av1_element t tid sid True data, isContinuation := False\<rparr>"
  have "av1_step srcs basic ts t tid sid True data s = (length data, ?s)" using w(1,4) assms(5) by simp
  from av1_obu_loop_step [OF ne this] have "av1_obu_loop srcs basic ts t tid sid True data s = Some ?s"
    using ne by (simp add: av1_obu_loop_end)
  moreover have "unmarked ts track ?s" using w(6) by (simp add: unmarked_def)
  ultimately show ?thesis using that opened_whole [OF w(5) assms(4)] by blast
qed

text \<open>While an OBU is split: the packets hold the first part of it.\<close>

definition continuing :: "bool \<Rightarrow> obu list \<Rightarrow> u8 \<Rightarrow> bytes \<Rightarrow> 's av1_state \<Rightarrow> bool" where
  "continuing new os t d s \<longleftrightarrow> received new (av_result s) (os @ [(t, 0, 0, d)]) \<and> av_result s \<noteq> [] \<and> av_payload s = [] \<and>
     isContinuation s \<and> \<not> isNewCodedVideoSequence s"

lemma unmarked_push:
  assumes "unmarked ts track s" "av_result s' = av_result s" "av_track s' = av_track s"
  obtains p where "av_result (av1_push ts False s') = av_result s @ [p]" "pkt_payload p = av_payload s'"
    "unmarked ts track (av1_push ts False s')"
  by (rule av1_push_result [of ts False s' track]) (use assms that in \<open>auto simp: unmarked_def\<close>)

lemma continuing_step:
  assumes "continuing new os t d s" "unmarked ts track s" "200 \<le> basic" "data \<noteq> []" "length data < 2 ^ 31"
  obtains w s' where "av1_step srcs basic ts t 0 0 False data s = (w, s')" "0 < w" "w \<le> length data" "unmarked ts track s'"
    "if w < length data then continuing new os t (d @ take w data) s' else finished new (os @ [(t, 0, 0, d @ data)]) s'"
proof -
  have c: "received new (av_result s) (os @ [(t, 0, 0, d)])" "av_result s \<noteq> []" "av_payload s = []" "isContinuation s" "\<not> isNewCodedVideoSequence s"
    using assms(1) by (auto simp: continuing_def)
  let ?s1 = "av1_new_packet srcs basic s"
  define w where "w = min (length data) (usablePayloadSize ?s1)"
  let ?c = "take w data"
  have w: "0 < w" "w \<le> length data" using av1_new_packet_usable [OF assms(3), of srcs s] assms(4) by (auto simp: w_def)
  have cc: "?c \<noteq> []" "length ?c < 2 ^ 31" using w assms(4,5) by auto
  define s2 where "s2 = ?s1\<lparr>av_payload := agg_header True False False # av1_element t 0 0 False ?c, isNewCodedVideoSequence := False,
    isContinuation := w < length data\<rparr>"
  have step: "av1_step srcs basic ts t 0 0 False data s =
      (w, if w < length data then av1_push ts False (s2\<lparr>av_payload := set_bit_6 (av_payload s2)\<rparr>) else s2)"
    using c by (simp add: av1_step_def av1_make_room_def av1_start_payload_def u8_bytes_def agg_header_def s2_def w_def Let_def)
  have s2: "av_result s2 = av_result s" "av_track s2 = av_track s" "av_payload s2 = agg_header True False False # av1_element t 0 0 False ?c"
    by (simp_all add: s2_def)
  note nxt = received_next [OF c(1,2) _ cc]
  show ?thesis
  proof (cases "w < length data")
    case True
    let ?s' = "av1_push ts False (s2\<lparr>av_payload := set_bit_6 (av_payload s2)\<rparr>)"
    obtain p where p: "av_result ?s' = av_result s @ [p]" "pkt_payload p = set_bit_6 (av_payload s2)" "unmarked ts track ?s'"
      by (rule unmarked_push [OF assms(2), of "s2\<lparr>av_payload := set_bit_6 (av_payload s2)\<rparr>"]) (use s2 in auto)
    have "received new (av_result s @ [p]) (os @ [(t, 0, 0, d @ ?c)])"
      using nxt [of p True t] p(2) s2(3) by (simp add: set_bit_6_agg)
    then have "continuing new os t (d @ ?c) ?s'"
      using p True by (simp add: continuing_def av1_push_fields s2_def)
    then show ?thesis using that [of w ?s'] step w p(3) True by simp
  next
    case False
    then have "?c = data" by simp
    then have "finished new (os @ [(t, 0, 0, d @ data)]) s2"
      using nxt [of _ False t] s2 by (simp add: finished_def)
    moreover have "unmarked ts track s2" using assms(2) s2 by (simp add: unmarked_def)
    ultimately show ?thesis using that [of w s2] step w False by simp
  qed
qed

lemma av1_continue:
  assumes "200 \<le> basic"
  shows "continuing new os t d s \<Longrightarrow> unmarked ts track s \<Longrightarrow> data \<noteq> [] \<Longrightarrow> length data < 2 ^ 31 \<Longrightarrow>
    \<exists>s'. av1_obu_loop srcs basic ts t 0 0 False data s = Some s' \<and> finished new (os @ [(t, 0, 0, d @ data)]) s' \<and> unmarked ts track s'"
proof (induction "length data" arbitrary: data d s rule: less_induct)
  case less
  obtain w s' where w: "av1_step srcs basic ts t 0 0 False data s = (w, s')" "0 < w" "w \<le> length data" "unmarked ts track s'"
    "if w < length data then continuing new os t (d @ take w data) s' else finished new (os @ [(t, 0, 0, d @ data)]) s'"
    by (rule continuing_step [OF less.prems(1,2) assms less.prems(3,4), of srcs]) (rule that)
  note step = av1_obu_loop_step [OF less.prems(3) w(1,2)]
  show ?case
  proof (cases "w < length data")
    case True
    have "length (drop w data) < length data" "drop w data \<noteq> []" "length (drop w data) < 2 ^ 31" using True w(2) less.prems(4) by auto
    moreover have "continuing new os t (d @ take w data) s'" using w(5) True by simp
    ultimately show ?thesis using less.hyps [of "drop w data" "d @ take w data" s'] w(4) step by simp
  next
    case False
    then show ?thesis using step w by (simp add: av1_obu_loop_end)
  qed
qed

text \<open>The last OBU may be split, unless it has an extension.\<close>

lemma av1_last_obu:
  assumes "filling new os s" "unmarked ts track s" "200 \<le> basic" "obu_sendable (t, tid, sid, data)" "obu_ext tid sid \<longrightarrow> length data \<le> 100"
  shows "\<exists>s'. av1_obu_loop srcs basic ts t tid sid True data s = Some s' \<and> finished new (os @ [(t, tid, sid, data)]) s' \<and> unmarked ts track s'"
proof -
  have ne: "data \<noteq> []" and l: "length data < 2 ^ 31" using assms(4) by (auto simp: obu_sendable_def obu_content_def)
  obtain w s3 where w: "av1_step srcs basic ts t tid sid True data s =
       (let s = s3\<lparr>av_payload := av_payload s3 @ av1_element t tid sid True (take w data)\<rparr>;
            s = s\<lparr>isContinuation := w < length data\<rparr>;
            s = (if isContinuation s then av1_push ts False (s\<lparr>av_payload := set_bit_6 (av_payload s)\<rparr>) else s)
        in (w, s))"
    "0 < w" "w \<le> length data" "length data \<le> 100 \<Longrightarrow> w = length data" "opened new os s3" "unmarked ts track s3"
    by (rule av1_prepare [OF assms(1-3) ne, of srcs t tid sid True]) (rule that)
  show ?thesis
  proof (cases "w < length data")
    case False
    let ?s = "s3\<lparr>av_payload := av_payload s3 @ av1_element t tid sid True data, isContinuation := False\<rparr>"
    have "av1_step srcs basic ts t tid sid True data s = (length data, ?s)" using w(1,3) False by simp
    from av1_obu_loop_step [OF ne this] have "av1_obu_loop srcs basic ts t tid sid True data s = Some ?s"
      using ne by (simp add: av1_obu_loop_end)
    moreover have "unmarked ts track ?s" using w(6) by (simp add: unmarked_def)
    ultimately show ?thesis using opened_whole(2) [OF w(5) assms(4)] by blast
  next
    case True
    then have z: "tid = 0" "sid = 0" using w(4) assms(5) by (auto simp: obu_ext_def)
    let ?c = "take w data"
    let ?s = "s3\<lparr>isContinuation := True, av_payload := set_bit_6 (av_payload s3 @ av1_element t tid sid True ?c)\<rparr>"
    have step: "av1_step srcs basic ts t tid sid True data s = (w, av1_push ts False ?s)" using w(1) True by (simp add: Let_def)
    obtain p where p: "av_result (av1_push ts False ?s) = av_result s3 @ [p]" "pkt_payload p = set_bit_6 (av_payload s3 @ av1_element t tid sid True ?c)"
      "unmarked ts track (av1_push ts False ?s)"
      by (rule unmarked_push [OF w(6), of ?s]) auto
    obtain os1 es where o1: "os = os1 @ es" "list_all obu_sendable es" "received new (av_result s3) os1" "\<not> isNewCodedVideoSequence s3"
      "av_payload s3 = agg_header False False (new \<and> av_result s3 = []) # concat (map first_element es)"
      using w(5) by (auto simp: opened_def)
    have es: "list_all obu_sendable (es @ [(t, tid, sid, ?c)])"
      using o1(2) assms(4) w(2) ne by (auto simp: obu_sendable_def obu_content_def)
    have "received new (av_result s3 @ [p]) (os @ [(t, 0, 0, ?c)])"
      using received_first [OF o1(3) _ es, of p True] p(2) o1(1,5) z by (simp add: set_bit_6_agg)
    then have "continuing new os t ?c (av1_push ts False ?s)"
      using p(1) o1(4) by (simp add: continuing_def av1_push_fields)
    moreover have "drop w data \<noteq> []" "length (drop w data) < 2 ^ 31" using True l by auto
    ultimately obtain s' where "av1_obu_loop srcs basic ts t 0 0 False (drop w data) (av1_push ts False ?s) = Some s'"
      "finished new (os @ [(t, 0, 0, ?c @ drop w data)]) s'" "unmarked ts track s'"
      using av1_continue [OF assms(3) _ p(3), of new os t ?c "drop w data" srcs] by blast
    then show ?thesis using av1_obu_loop_step [OF ne step w(2)] z by simp
  qed
qed

section \<open>Frames\<close>

text \<open>The OBUs that are sent: temporal delimiters and OBUs without data are left out.\<close>

definition av1_sent :: "obu list \<Rightarrow> obu list" where
  "av1_sent os = filter (\<lambda>ob. fst ob \<noteq> TemporalDelimiter \<and> obu_content ob \<noteq> []) os"

definition obu_fine :: "obu \<Rightarrow> bool" where
  "obu_fine ob \<longleftrightarrow> obu_ok ob \<and> fst ob \<noteq> 0"

lemma av1_generate_step_view:
  assumes "obu_view p = obu_seen (t, tid, sid, data)"
  shows "av1_generate_step srcs basic ts p s =
    (if t = TemporalDelimiter then Some s else av1_obu_loop srcs basic ts t tid sid True data s)"
  using assms by (auto simp: av1_generate_step_def obu_view_def)

lemma av1_small_obus:
  "list_all (\<lambda>ob. obu_fine ob \<and> length (obu_content ob) \<le> 100) os \<Longrightarrow> map obu_view ps = map obu_seen os \<Longrightarrow>
     filling new before s \<Longrightarrow> unmarked ts track s \<Longrightarrow> 200 \<le> basic \<Longrightarrow>
     \<exists>s'. foldM (av1_generate_step srcs basic ts) ps s = Some s' \<and> filling new (before @ av1_sent os) s' \<and> unmarked ts track s'"
proof (induction os arbitrary: ps before s)
  case (Cons ob os)
  obtain t tid sid data where ob: "ob = (t, tid, sid, data)" by (metis prod_cases4)
  obtain p qs where p: "ps = p # qs" "obu_view p = obu_seen (t, tid, sid, data)" "map obu_view qs = map obu_seen os"
    using Cons.prems(2) ob by auto
  note view = av1_generate_step_view [OF p(2), of srcs basic ts s]
  have tl: "list_all (\<lambda>ob. obu_fine ob \<and> length (obu_content ob) \<le> 100) os" using Cons.prems(1) by simp
  show ?case
  proof (cases "t = TemporalDelimiter \<or> data = []")
    case True
    then have "av1_generate_step srcs basic ts p s = Some s" using view by (auto simp: av1_obu_loop_end)
    moreover have "av1_sent (ob # os) = av1_sent os" using True ob by (auto simp: av1_sent_def obu_content_def)
    ultimately show ?thesis using Cons.IH [OF tl p(3) Cons.prems(3-5)] p(1) by simp
  next
    case False
    then have sd: "obu_sendable (t, tid, sid, data)" "length data \<le> 100"
      using Cons.prems(1) ob by (auto simp: obu_sendable_def obu_fine_def obu_content_def)
    obtain s' where s': "av1_obu_loop srcs basic ts t tid sid True data s = Some s'" "filling new (before @ [(t, tid, sid, data)]) s'"
      "unmarked ts track s'"
      by (rule av1_whole_obu [OF Cons.prems(3-5) sd, of srcs]) (rule that)
    have "av1_generate_step srcs basic ts p s = Some s'" using view False s'(1) by simp
    moreover have "before @ av1_sent (ob # os) = (before @ [(t, tid, sid, data)]) @ av1_sent os"
      using False ob by (auto simp: av1_sent_def obu_content_def)
    ultimately show ?thesis using Cons.IH [OF tl p(3) s'(2,3) Cons.prems(5)] p(1) by simp
  qed
qed (simp add: av1_sent_def)

lemma finished_extract:
  assumes "finished new os s" "os \<noteq> []" "list_all2 (carries ts64) (av_result s @ [p]) items" "pkt_payload p = av_payload s" "pkt_marker p"
    "mSeenNewSequence d \<or> new"
  shows "av1_extract items d = Some ([obus_bytes os], d\<lparr>mSeenNewSequence := True\<rparr>)"
proof -
  have "received new (av_result s @ [p]) os" using assms(1,4) by (simp add: finished_def)
  then obtain x where x: "foldM av1_extract_packet items (d, BufferedObu_new, []) = Some (seen_if new d, x)" "held os x"
    using assms(3) unfolding received_def by fastforce
  obtain b out where b: "x = (b, out)" by fastforce
  have "map it_marker items = map pkt_marker (av_result s @ [p])" "items \<noteq> []" using carries_lists [OF assms(3)] assms(3) by auto
  then have m: "it_marker (last items)" using assms(5) by (metis last_map last_snoc list.map_disc_iff snoc_eq_iff_butlast)
  have "obus_bytes os \<noteq> []" using assms(2) by (cases os; cases "hd os") (auto simp: obus_bytes_def)
  moreover have "mSeenNewSequence (seen_if new d)" "seen_if new d = d\<lparr>mSeenNewSequence := True\<rparr>"
    using assms(6) by (auto simp: seen_if_def)
  ultimately show ?thesis using x b held_flush [of os b out] m by (simp add: av1_extract_def av1_extractImpl_def)
qed

text \<open>
  C17. AV1 round trip: for a frame of OBUs with sizes the packetizer ends without reading outside of the frame; its
  packets, in order, carry consecutive sequence numbers, the timestamp of the frame and the marker on the last one only.
  The depacketizer returns exactly one frame, the OBUs without temporal delimiters and empty ones, if it has seen a new
  sequence or the frame has a sequence header. The OBUs before the last one have at most 100 bytes (no OBU follows one
  that was split), and the last one may have any size if it has no extension.
\<close>
theorem av1_frame_roundtrip:
  assumes "list_all obu_fine os" "os \<noteq> []" "list_all (\<lambda>ob. length (obu_content ob) \<le> 100) (butlast os)"
    "last os = (t, tid, sid, data)" "t \<noteq> TemporalDelimiter" "data \<noteq> []" "obu_ext tid sid \<longrightarrow> length data \<le> 100" "overhead \<le> 900"
    "mSeenNewSequence d \<or> (\<exists>ob\<in>set os. fst ob = SequenceHeader)"
  shows "\<exists>ps track' st'. av1_generate srcs overhead track st now pts (obus_bytes os) = Some (ps, track', st') \<and>
    numbered (snd (track_frameTimestamp track now pts)) ps track' \<and> framed (fst (track_frameTimestamp track now pts)) True ps \<and>
    (\<forall>items. list_all2 (carries ts64) ps items \<longrightarrow> av1_extract items d = Some ([obus_bytes (av1_sent os)], d\<lparr>mSeenNewSequence := True\<rparr>))"
proof -
  obtain ts track1 where tt: "track_frameTimestamp track now pts = (ts, track1)" by fastforce
  let ?frame = "obus_bytes os" and ?basic = "size_sub (getBasicPacketSize overhead) 4"
  define new where "new = (\<exists>ob\<in>set os. fst ob = SequenceHeader)"
  have os: "os = butlast os @ [(t, tid, sid, data)]" using assms(2,4) by (metis append_butlast_last_id)
  have fine: "list_all (\<lambda>ob. obu_fine ob \<and> length (obu_content ob) \<le> 100) (butlast os)"
    using assms(1,3) by (auto simp: list_all_iff dest: in_set_butlastD)
  have "obu_fine (t, tid, sid, data)" using assms(1,2,4) by (metis last_in_set list_all_iff)
  then have sd: "obu_sendable (t, tid, sid, data)" using assms(6) by (simp add: obu_fine_def obu_sendable_def obu_content_def)
  have basic: "200 \<le> ?basic" using assms(8) by (simp add: getBasicPacketSize_def const_defs)
  have ok: "list_all obu_ok os" "os \<noteq> [] \<longrightarrow> obu_content (last os) \<noteq> []"
    using assms(1,4,6) by (auto simp: list_all_iff obu_fine_def obu_content_def)
  obtain p ps where p: "ObuParser_new ?frame = Some p" "ob_states p = Some ps" "map obu_view ps = map obu_seen os"
    using ob_states_eq [OF ok, of 0 ?frame] by (auto simp: ObuParser_new_def)
  have types: "map mCurrType ps = map fst os"
    using arg_cong [OF p(3), of "map fst"] by (auto simp: obu_view_def comp_def case_prod_beta intro!: map_cong)
  have find: "ob_find (\<lambda>p. mCurrType p = SequenceHeader) p = Some new"
  proof -
    have "list_ex (\<lambda>p. mCurrType p = SequenceHeader) ps = (SequenceHeader \<in> set (map mCurrType ps))" by (force simp: list_ex_iff)
    moreover have "SequenceHeader \<in> set (map fst os) \<longleftrightarrow> new" unfolding new_def by force
    ultimately show ?thesis using ob_find_states [OF p(2)] types by simp
  qed
  obtain qs q where qs: "ps = qs @ [q]" "map obu_view qs = map obu_seen (butlast os)" "obu_view q = obu_seen (t, tid, sid, data)"
  proof -
    have "map obu_view ps = map obu_seen (butlast os @ [(t, tid, sid, data)])" using p(3) by (simp only: os [symmetric])
    then show ?thesis using that by (auto simp: map_eq_append_conv map_eq_Cons_conv simp del: obu_seen.simps)
  qed
  define s0 where "s0 = \<lparr>isContinuation = False, isNewCodedVideoSequence = new, av_payload = [], av_extension = RtpExtension_none,
    usablePayloadSize = 0, av_padding = 0, av_packetNumber = 0, av_track = track1, av_sources = st, av_result = []\<rparr>"
  have init: "filling new [] s0" "unmarked ts track1 s0"
    using received_Nil numbered_Nil by (auto simp: filling_def unmarked_def s0_def)
  obtain s1 where s1: "foldM (av1_generate_step srcs ?basic ts) qs s0 = Some s1" "filling new (av1_sent (butlast os)) s1" "unmarked ts track1 s1"
    using av1_small_obus [OF fine qs(2) init basic, of srcs] by auto
  obtain s2 where s2: "av1_obu_loop srcs ?basic ts t tid sid True data s1 = Some s2"
    "finished new (av1_sent (butlast os) @ [(t, tid, sid, data)]) s2" "unmarked ts track1 s2"
    using av1_last_obu [OF s1(2,3) basic sd assms(7), of srcs] by blast
  have sent: "av1_sent (butlast os) @ [(t, tid, sid, data)] = av1_sent os"
    by (subst (2) os) (simp add: av1_sent_def assms(5,6) obu_content_def)
  have fold: "foldM (av1_generate_step srcs ?basic ts) ps s0 = Some s2"
    using s1(1) s2(1) assms(5) qs(1) av1_generate_step_view [OF qs(3), of srcs ?basic ts s1] by (simp add: foldM_append)
  obtain pk where pk: "av_result (av1_push ts True s2) = av_result s2 @ [pk]" "pkt_payload pk = av_payload s2" "pkt_timestamp pk = ts" "pkt_marker pk"
    "numbered track1 (av_result s2) (av_track s2) \<Longrightarrow> numbered track1 (av_result s2 @ [pk]) (av_track (av1_push ts True s2))"
    by (rule av1_push_result [of ts True s2 track1]) auto
  let ?ps = "av_result s2 @ [pk]"
  have gen: "av1_generate srcs overhead track st now pts ?frame = Some (?ps, av_track (av1_push ts True s2), av_sources (av1_push ts True s2))"
    using p find fold s2(2) pk(1) by (simp add: av1_generate_def tt s0_def [symmetric] finished_def Let_def)
  have "map pkt_marker (av_result s2) = replicate (length (av_result s2)) False"
    using s2(3) by (auto simp: unmarked_def list_all_iff intro!: replicate_eqI)
  then have fr: "framed ts True ?ps" using s2(3) pk(3,4) by (auto simp: framed_def unmarked_def list_all_iff)
  have "av1_extract items d = Some ([obus_bytes (av1_sent os)], d\<lparr>mSeenNewSequence := True\<rparr>)" if "list_all2 (carries ts64) ?ps items" for items
    using finished_extract [OF s2(2) _ that pk(2,4), of d] assms(9) unfolding new_def sent [symmetric] by simp
  then show ?thesis using gen pk(5) s2(3) fr by (auto simp: tt unmarked_def)
qed

lemma av1_items_carry: "list_all2 (carries ts) ps (map (H264_Roundtrip.example_item ts) ps)"
  by (simp add: list_all2_conv_all_nth carries_def H264_Roundtrip.example_item_def)

lemma av1_frame_roundtrip_witness:
  "\<exists>ps track' st'. av1_generate [source_twcc] 14 example_track SourcesState_new 0 0
       (obus_bytes [(2, 0, 0, []), (1, 0, 0, [1, 2, 3]), (6, 0, 0, [0x10, 9])]) = Some (ps, track', st') \<and>
     av1_extract (map (H264_Roundtrip.example_item 90000) ps) DepacketizerAV1_new =
       Some ([obus_bytes [(1, 0, 0, [1, 2, 3]), (6, 0, 0, [0x10, 9])]], \<lparr>mSeenNewSequence = True\<rparr>)"
  using av1_frame_roundtrip [of "[(2, 0, 0, []), (1, 0, 0, [1, 2, 3]), (6, 0, 0, [0x10, 9])]" 6 0 0 "[0x10, 9]" 14 DepacketizerAV1_new
      "[source_twcc]" example_track SourcesState_new 0 0 90000] av1_items_carry [of 90000]
  by (auto simp: obu_fine_def obu_content_def obu_ext_def const_defs DepacketizerAV1_new_def av1_sent_def)

section \<open>Packets that the receiver does not survive\<close>

text \<open>
  C39. A packet of a remote party whose first element is larger than the packet and is not a frame or a sequence
  header aborts the process: \<^verbatim>\<open>isFrameStart\<close> skips the element without comparing its size with what is left.
\<close>
theorem av1_isFrameStart_aborts:
  assumes "\<not> test_mask packetHeader 7" "drop_bit 4 packetHeader AND 0x03 = 0"
    "drop_bit 3 obuHeader AND 0x0F \<notin> {SequenceHeader, FrameHeader, Frame, RedundantFrame}" "length rest + 1 < unat n"
  shows "av1_isFrameStart (packetHeader # leb128_bytes n @ obuHeader # rest) = None"
proof -
  let ?q = "ByteReader_new (packetHeader # leb128_bytes n @ obuHeader # rest)"
  let ?r = "advance (Suc 0) ?q"
  let ?r' = "advance (length (leb128_bytes n)) ?r"
  have "unread ?q = packetHeader # leb128_bytes n @ obuHeader # rest" by simp
  note s1 = unread_Cons [OF reader_inv_new this]
  note s2 = element_size_read [OF s1(2,3)]
  note s3 = unread_Cons [OF s2(2,3)]
  have "1 \<le> remaining ?r" "1 \<le> remaining ?r'" using remaining_unread [OF s1(2)] s1(3) remaining_unread [OF s2(2)] s2(3) by simp_all
  moreover have "reader_skip (unat n - 1) (advance (Suc 0) ?r') = None"
    using reader_skip_eq [OF s3(2)] s3(3) assms(4) by simp
  ultimately have "av1_start_loop 0 0 ?r = None"
    using s2(1) s3(1) assms(3,4) by (subst av1_start_loop.simps) (simp add: isFrameObuType_def Let_def)
  then show ?thesis using s1(1) assms(1,2) by (simp add: av1_isFrameStart_def)
qed

lemma av1_isFrameStart_aborts_witness:
  "\<not> test_mask (0 :: u8) 7 \<and> av1_isFrameStart (0 # leb128_bytes 9 @ 0x28 # [1, 2]) = None"
  using av1_isFrameStart_aborts [where packetHeader = 0 and obuHeader = "0x28" and rest = "[1, 2]" and n = 9] by (simp add: test_mask_def const_defs)

text \<open>
  An element of one byte whose header announces an extension makes the size of the rest of the element
  wrap around: memory outside of the packet is copied.
\<close>
lemma av1_extract_overruns:
  assumes "it_payload p = [0, 1, 0x34, x]"
  shows "av1_extract [p] d = None"
proof -
  have "leb128_bytes 1 = [1]" by (subst leb128_bytes.simps) simp
  then have pl: "it_payload p = agg_header False False False # leb128_bytes 1 @ [0x34, x]" using assms by (simp add: agg_header_def)
  note e = extract_packet_eq [OF pl]
  note s2 = element_size_read [OF e(2,3)]
  note s3 = unread_Cons [OF s2(2,3)]
  note s4 = unread_Cons [OF s3(2,3)]
  let ?r = "advance (Suc 0) (ByteReader_new (it_payload p))"
  have rem: "1 \<le> remaining ?r" "2 \<le> remaining (advance (length (leb128_bytes 1)) ?r)"
    "1 \<le> remaining (advance (Suc 0) (advance (length (leb128_bytes 1)) ?r))"
    "remaining (advance (Suc 0) (advance (Suc 0) (advance (length (leb128_bytes 1)) ?r))) = 0"
    using e(2,3) s2(2,3) s3(2,3) s4(2,3) by (simp_all only: remaining_unread) simp_all
  have "av1_take_element False 1 (advance (length (leb128_bytes 1)) ?r) (b, out) = None" for b out
    using rem s3(1) s4(1) by (simp add: av1_take_element_def Let_def case_prod_beta size_sub_def)
  then have "av1_elements False 0 0 ?r (b, out) = None" for b out
    using rem s2(1) by (subst av1_elements.simps) simp
  then show ?thesis using e(1) by (simp add: av1_extract_def)
qed

lemma leb128_length: "unat v < 128 ^ Suc k \<Longrightarrow> length (leb128_bytes v) \<le> Suc k"
proof (induction k arbitrary: v)
  case 0
  then have "unat (drop_bit 7 v) = 0" by (simp add: unat_drop_bit_7)
  then have "drop_bit 7 v = 0" by (simp only: unat_eq_zero)
  then show ?case by (simp add: leb128_bytes.simps [of v])
next
  case (Suc k)
  have "unat (drop_bit 7 v) < 128 ^ Suc k" using Suc.prems by (simp add: unat_drop_bit_7 div_less_iff_less_mult mult.commute)
  then show ?case using Suc.IH [of "drop_bit 7 v"] by (subst leb128_bytes.simps) (simp add: Let_def)
qed

lemma leb128_length_5: "length (leb128_bytes v) \<le> 5"
  using leb128_length [of v 4] unat_u32_less [of v] by simp

text \<open>The packet that is filled begins with the last part of an OBU that was split, and has no more than it.\<close>

definition split_rest :: "bool \<Rightarrow> u8 \<Rightarrow> bytes \<Rightarrow> bytes \<Rightarrow> 's av1_state \<Rightarrow> bool" where
  "split_rest new t d c s \<longleftrightarrow> received new (av_result s) [(t, 0, 0, d)] \<and> av_result s \<noteq> [] \<and>
     av_payload s = agg_header True False False # av1_element t 0 0 False c \<and> \<not> isContinuation s \<and> \<not> isNewCodedVideoSequence s"

lemma split_loop:
  fixes srcs :: "'s RtpExtensionSource list"
  assumes U: "\<And>s. usablePayloadSize (av1_new_packet srcs basic s) = U" and basic: "200 \<le> basic"
  shows "continuing new [] t d s \<Longrightarrow> unmarked ts track s \<Longrightarrow> 0 < length data mod U \<Longrightarrow> length data < 2 ^ 31 \<Longrightarrow>
    \<exists>s' d' c. av1_obu_loop srcs basic ts t 0 0 False data s = Some s' \<and> split_rest new t d' c s' \<and> d' @ c = d @ data \<and>
      length c = length data mod U \<and> usablePayloadSize s' = U \<and> unmarked ts track s'"
proof (induction "length data" arbitrary: data d s rule: less_induct)
  case less
  have ne: "data \<noteq> []" using less.prems(3) by auto
  have c: "received new (av_result s) [(t, 0, 0, d)]" "av_result s \<noteq> []" "av_payload s = []" "isContinuation s" "\<not> isNewCodedVideoSequence s"
    using less.prems(1) by (auto simp: continuing_def)
  show ?case
  proof (cases "length data \<le> U")
    case True
    then have r: "length data mod U = length data" using less.prems(3) ne by (metis le_neq_implies_less mod_less mod_self neq0_conv)
    define s2 where "s2 = (av1_new_packet srcs basic s)\<lparr>av_payload := agg_header True False False # av1_element t 0 0 False data,
      isNewCodedVideoSequence := False, isContinuation := False\<rparr>"
    have step: "av1_step srcs basic ts t 0 0 False data s = (length data, s2)"
      using c True U [of s] by (simp add: av1_step_def av1_make_room_def av1_start_payload_def u8_bytes_def agg_header_def s2_def Let_def)
    have "av1_obu_loop srcs basic ts t 0 0 False data s = Some s2"
      using av1_obu_loop_step [OF ne step] ne by (simp add: av1_obu_loop_end)
    moreover have "split_rest new t d data s2" using c by (simp add: split_rest_def s2_def)
    ultimately show ?thesis using less.prems(2) r U [of s] by (intro exI [of _ s2] exI [of _ d] exI [of _ data]) (simp add: s2_def unmarked_def)
  next
    case False
    obtain w s' where w: "av1_step srcs basic ts t 0 0 False data s = (w, s')" "0 < w" "w \<le> length data" "unmarked ts track s'"
      "if w < length data then continuing new [] t (d @ take w data) s' else finished new ([] @ [(t, 0, 0, d @ data)]) s'"
      by (rule continuing_step [OF less.prems(1,2) basic ne less.prems(4), of srcs]) (rule that)
    have wU: "w = U" using w(1) c False U [of s] by (auto simp: av1_step_def av1_make_room_def Let_def)
    have cont: "continuing new [] t (d @ take w data) s'" using w(5) False wU by simp
    have m: "length (drop w data) mod U = length data mod U" using False wU by (simp add: le_mod_geq)
    have "length (drop w data) < length data" using ne w(2) by simp
    from less.hyps [OF this cont w(4)] m less.prems(3,4) show ?thesis
      using av1_obu_loop_step [OF ne w(1,2)] by auto
  qed
qed

lemma split_first:
  fixes srcs :: "'s RtpExtensionSource list"
  assumes U: "\<And>s. usablePayloadSize (av1_new_packet srcs basic s) = U" "0 < U"
    and s: "av_payload s = []" "\<not> isContinuation s" "isNewCodedVideoSequence s = new" "av_result s = []" "unmarked ts track s"
    and ob: "obu_sendable (t, 0, 0, data)" "U < length data"
  obtains s' where "av1_step srcs basic ts t 0 0 True data s = (U, s')" "continuing new [] t (take U data) s'" "unmarked ts track s'"
proof -
  let ?c = "take U data"
  define s2 where "s2 = (av1_new_packet srcs basic s)\<lparr>isNewCodedVideoSequence := False, isContinuation := True,
    av_payload := set_bit_6 (agg_header False False new # av1_element t 0 0 True ?c)\<rparr>"
  have step: "av1_step srcs basic ts t 0 0 True data s = (U, av1_push ts False s2)"
    using s ob(2) U(1) [of s]
    by (simp add: av1_step_def av1_make_room_def av1_start_payload_def u8_bytes_def agg_header_def s2_def Let_def)
  obtain p where p: "av_result (av1_push ts False s2) = av_result s @ [p]" "pkt_payload p = av_payload s2" "unmarked ts track (av1_push ts False s2)"
    by (rule unmarked_push [OF s(5), of s2]) (simp_all add: s2_def)
  have "list_all obu_sendable [(t, 0, 0, ?c)]" using ob U(2) by (auto simp: obu_sendable_def obu_content_def)
  then have "received new ([] @ [p]) ([] @ [(t, 0, 0, ?c)])"
    by (intro received_first [OF received_Nil, of p True]) (use p(2) in \<open>simp_all add: s2_def set_bit_6_agg\<close>)
  then have "continuing new [] t ?c (av1_push ts False s2)"
    using p(1) s(4) by (simp add: continuing_def av1_push_fields) (simp add: s2_def)
  then show ?thesis using that step p(3) by blast
qed

text \<open>The OBU after one that was split, when there is room for it in the packet of the rest.\<close>

lemma split_next:
  assumes s: "split_rest new t d c s" "usablePayloadSize s = U" "unmarked ts track s"
    and c: "c \<noteq> []" "length c + 110 < U" "length c < 2 ^ 31"
    and ob: "obu_sendable (t2, tid, sid, data)" "length data \<le> 100"
  obtains s' where "av1_obu_loop srcs basic ts t2 tid sid True data s = Some s'" "unmarked ts track s'"
    "finished new [(t, 0, 0, d @ c @ obu_header t2 tid sid # obu_ext_bytes tid sid @ data)] s'"
proof -
  let ?el = "obu_header t2 tid sid # obu_ext_bytes tid sid @ data"
  have f: "received new (av_result s) ([] @ [(t, 0, 0, d)])" "av_result s \<noteq> []" "\<not> isNewCodedVideoSequence s" "\<not> isContinuation s"
    and pl: "av_payload s = agg_header True False False # leb128_bytes (of_nat (length c)) @ c"
    using s(1) by (auto simp: split_rest_def next_element_eq)
  have room: "length (av_payload s) + 100 < U" using pl c(2) leb128_length_5 [of "of_nat (length c)"] by simp
  have ne: "data \<noteq> []" using ob(1) by (auto simp: obu_sendable_def obu_content_def)
  let ?s' = "s\<lparr>av_payload := av_payload s @ first_element (t2, tid, sid, data), isContinuation := False\<rparr>"
  have step: "av1_step srcs basic ts t2 tid sid True data s = (length data, ?s')"
    using pl room s(2) ob(2) by (simp add: av1_step_def av1_make_room_def av1_start_payload_def Let_def)
  have "av1_obu_loop srcs basic ts t2 tid sid True data s = Some ?s'"
    using av1_obu_loop_step [OF ne step] ne by (simp add: av1_obu_loop_end)
  moreover have "unmarked ts track ?s'" using s(3) by (simp add: unmarked_def)
  moreover have "finished new [(t, 0, 0, d @ c @ ?el)] ?s'"
  proof -
    have chunks: "av_payload ?s' = agg_header True False False # concat (map (\<lambda>c. leb128_bytes (of_nat (length c)) @ c) [c, ?el])"
      using pl first_element_eq [of t2 tid sid data] by simp
    have small: "list_all (\<lambda>c. c \<noteq> [] \<and> length c < 2 ^ 32) [c, ?el]" using c ob(2) by (simp add: obu_ext_bytes_def)
    have "\<exists>x'. av1_extract_packet item (d0, x) = Some (seen_if False d0, x') \<and> held [(t, 0, 0, d @ c @ ?el)] x'"
      if it: "it_payload item = av_payload ?s'" "held ([] @ [(t, 0, 0, d)]) x" for item d0 x
    proof -
      note e = extract_packet_eq [OF trans [OF it(1) chunks]]
      show ?thesis using elements_chunks [OF e(2,3) it(2) small, of 0] e(1) by auto
    qed
    then show ?thesis
      unfolding finished_def using f(1,2) pl by (auto intro!: received_snoc [of new "av_result s" "[] @ [(t, 0, 0, d)]" _ False])
  qed
  ultimately show ?thesis using that by blast
qed

text \<open>
  C40. A frame in which an OBU follows one that was split arrives damaged: let every packet have room for \<open>U\<close> bytes,
  let the first OBU be larger than \<open>U\<close> and leave a rest that is more than 110 bytes smaller than \<open>U\<close>, and let an OBU of at
  most 100 bytes follow. The last packet holds the rest of the split OBU and the next one, and the depacketizer
  takes every element of a packet that begins with a continuation for a continuation, so that it returns one OBU
  with the data of the first, the header of the second and the data of the second.
\<close>
theorem av1_merges_next_obu:
  fixes srcs :: "'s RtpExtensionSource list"
  assumes room: "\<And>s :: 's av1_state. usablePayloadSize (av1_new_packet srcs (size_sub (getBasicPacketSize overhead) 4) s) = U" "overhead \<le> 900"
    and first: "obu_fine (t, 0, 0, data)" "t \<noteq> TemporalDelimiter" "U < length data" "0 < length data mod U" "length data mod U + 110 < U"
    and second: "obu_fine (t2, tid, sid, data2)" "t2 \<noteq> TemporalDelimiter" "data2 \<noteq> []" "length data2 \<le> 100"
    and seen: "mSeenNewSequence d \<or> t = SequenceHeader \<or> t2 = SequenceHeader"
  shows "\<exists>ps track' st'. av1_generate srcs overhead track st now pts (obus_bytes [(t, 0, 0, data), (t2, tid, sid, data2)]) = Some (ps, track', st') \<and>
    (\<forall>items. list_all2 (carries ts64) ps items \<longrightarrow>
       av1_extract items d = Some ([obus_bytes [(t, 0, 0, data @ obu_header t2 tid sid # obu_ext_bytes tid sid @ data2)]], d\<lparr>mSeenNewSequence := True\<rparr>))"
proof -
  obtain ts track1 where tt: "track_frameTimestamp track now pts = (ts, track1)" by fastforce
  let ?os = "[(t, 0, 0, data), (t2, tid, sid, data2)]" and ?basic = "size_sub (getBasicPacketSize overhead) 4"
  let ?frame = "obus_bytes ?os"
  define new where "new = (t = SequenceHeader \<or> t2 = SequenceHeader)"
  have basic: "200 \<le> ?basic" using room(2) by (simp add: getBasicPacketSize_def const_defs)
  have U: "100 \<le> U" using av1_new_packet_usable [OF basic, of srcs] room(1) by metis
  have ok: "list_all obu_ok ?os" "?os \<noteq> [] \<longrightarrow> obu_content (last ?os) \<noteq> []"
    using first(1) second(1,3) by (auto simp: obu_fine_def obu_content_def)
  have sd: "obu_sendable (t, 0, 0, data)" "obu_sendable (t2, tid, sid, data2)" "length data < 2 ^ 31"
    using first second by (auto simp: obu_sendable_def obu_fine_def obu_content_def)
  obtain p ps where p: "ObuParser_new ?frame = Some p" "ob_states p = Some ps" "map obu_view ps = map obu_seen ?os"
    using ob_states_eq [OF ok, of 0 ?frame] by (auto simp: ObuParser_new_def)
  obtain q1 q2 where q: "ps = [q1, q2]" "obu_view q1 = obu_seen (t, 0, 0, data)" "obu_view q2 = obu_seen (t2, tid, sid, data2)"
    using p(3) by (auto simp: map_eq_Cons_conv simp del: obu_seen.simps)
  have "mCurrType q1 = t" "mCurrType q2 = t2" using q by (simp_all add: obu_view_def)
  then have find: "ob_find (\<lambda>p. mCurrType p = SequenceHeader) p = Some new"
    using ob_find_states [OF p(2)] q(1) by (simp add: new_def)
  define s0 where "s0 = \<lparr>isContinuation = False, isNewCodedVideoSequence = new, av_payload = [], av_extension = RtpExtension_none,
    usablePayloadSize = 0, av_padding = 0, av_packetNumber = 0, av_track = track1, av_sources = st, av_result = []\<rparr>"
  have init: "unmarked ts track1 s0" using numbered_Nil by (simp add: unmarked_def s0_def)
  obtain s1 where s1: "av1_step srcs ?basic ts t 0 0 True data s0 = (U, s1)" "continuing new [] t (take U data) s1" "unmarked ts track1 s1"
    by (rule split_first [of srcs ?basic U s0 new ts track1 t data]) (use room(1) U init sd(1) first(3) in \<open>simp_all add: s0_def\<close>)
  have m: "length (drop U data) mod U = length data mod U" using first(3) by (simp add: le_mod_geq)
  obtain s2 d' c where s2: "av1_obu_loop srcs ?basic ts t 0 0 False (drop U data) s1 = Some s2" "split_rest new t d' c s2" "d' @ c = data"
      "length c = length data mod U" "usablePayloadSize s2 = U" "unmarked ts track1 s2"
  proof -
    have "0 < length (drop U data) mod U" "length (drop U data) < 2 ^ 31" "take U data @ drop U data = data" using m first(4) sd(3) by simp_all
    then show thesis using split_loop [OF room(1) basic s1(2,3), of "drop U data"] that unfolding m by metis
  qed
  have loop1: "av1_obu_loop srcs ?basic ts t 0 0 True data s0 = Some s2"
    using av1_obu_loop_step [OF _ s1(1)] first(3) U s2(1) by fastforce
  have c: "c \<noteq> []" "length c + 110 < U" "length c < 2 ^ 31" using s2(4) first(4,5) sd(3) mod_less_eq_dividend [of "length data" U] by (auto simp del: mod_less_eq_dividend)
  obtain s3 where s3: "av1_obu_loop srcs ?basic ts t2 tid sid True data2 s2 = Some s3" "unmarked ts track1 s3"
    "finished new [(t, 0, 0, d' @ c @ obu_header t2 tid sid # obu_ext_bytes tid sid @ data2)] s3"
    by (rule split_next [OF s2(2,5,6) c sd(2) second(4), of srcs ?basic])
  have fold: "foldM (av1_generate_step srcs ?basic ts) ps s0 = Some s3"
    using q loop1 s3(1) first(2) second(2) by (simp add: av1_generate_step_view)
  obtain pk where pk: "av_result (av1_push ts True s3) = av_result s3 @ [pk]" "pkt_payload pk = av_payload s3" "pkt_marker pk"
    by (rule av1_push_result [of ts True s3 track1]) auto
  have gen: "av1_generate srcs overhead track st now pts ?frame =
      Some (av_result s3 @ [pk], av_track (av1_push ts True s3), av_sources (av1_push ts True s3))"
    using p find fold s3(3) pk(1) by (simp add: av1_generate_def tt s0_def [symmetric] finished_def Let_def)
  have "av1_extract items d = Some ([obus_bytes [(t, 0, 0, data @ obu_header t2 tid sid # obu_ext_bytes tid sid @ data2)]], d\<lparr>mSeenNewSequence := True\<rparr>)"
    if "list_all2 (carries ts64) (av_result s3 @ [pk]) items" for items
    using finished_extract [OF s3(3) _ that pk(2,3)] seen s2(3) by (auto simp: new_def)
  then show ?thesis using gen by blast
qed

lemma av1_merges_next_obu_witness:
  "\<exists>ps track' st'. av1_generate [] 900 example_track SourcesState_new 0 0 (obus_bytes [(1, 0, 0, replicate 300 7), (6, 0, 0, [8, 9])]) = Some (ps, track', st') \<and>
     av1_extract (map (H264_Roundtrip.example_item 90000) ps) DepacketizerAV1_new =
       Some ([obus_bytes [(1, 0, 0, replicate 300 7 @ [0x30, 8, 9])]], \<lparr>mSeenNewSequence = True\<rparr>)"
proof -
  let ?U = "size_sub (getBasicPacketSize 900) 4"
  have "usablePayloadSize (av1_new_packet [] ?U s) = ?U" for s :: "SourcesState av1_state"
    by (simp add: av1_new_packet_def adjustPacketSize_def buildExtension_def getPadding_def getBasicPacketSize_def ext_size_def RtpExtension_none_def ext_empty_def const_defs)
  note r = av1_merges_next_obu [OF this, of 1 "replicate 300 7" 6 0 0 "[8, 9]" DepacketizerAV1_new example_track SourcesState_new 0 0 90000]
  show ?thesis
    using r av1_items_carry [of 90000]
    by (auto simp: getBasicPacketSize_def obu_fine_def obu_content_def obu_header_def obu_ext_def obu_ext_bytes_def DepacketizerAV1_new_def const_defs)
qed

end
