(* ===== verification/Extended_Value.thy ===== *)
theory Extended_Value
  imports Prelude
begin

text \<open>
  \<^verbatim>\<open>src/extended_value.cpp\<close>: extension of 16-bit sequence numbers and 32-bit RTP timestamps
  to 64 bits across rollovers. The template parameter \<^verbatim>\<open>T\<close> is the word length \<open>'a\<close>; the
  clock reading of \<^verbatim>\<open>steady_clock::now()\<close> (nanoseconds) is an argument of \<open>extend\<close>.
\<close>

unbundle bit_operations_syntax

record (overloaded) 'a ExtendedValue =
  mRolloverIncrement :: u64
  mRolloverValue :: u64
  mRolloverTime :: int
  mLastValue :: "'a word option"

definition mRolloverBack :: int where
  [const_defs]: "mRolloverBack = 1000 * 1000000"

definition max_value :: "'a::len word" where
  "max_value = - 1"

definition margin :: "'a::len word" where
  "margin = max_value div 4"

definition ExtendedValue_new :: "'a::len ExtendedValue" where
  "ExtendedValue_new =
     \<lparr>mRolloverIncrement = ucast (max_value :: 'a word) + 1, mRolloverValue = 0,
      mRolloverTime = 0, mLastValue = None\<rparr>"

definition extend :: "int \<Rightarrow> 'a::len ExtendedValue \<Rightarrow> 'a word \<Rightarrow> u64 \<times> 'a ExtendedValue" where
  "extend now s0 src =
     (let s = (if mRolloverValue s0 = 0
               then s0\<lparr>mRolloverValue := mRolloverIncrement s0, mRolloverTime := now\<rparr> else s0)
      in case mLastValue s of
           None \<Rightarrow> (mRolloverValue s OR ucast src, s\<lparr>mLastValue := Some src\<rparr>)
         | Some lst \<Rightarrow>
             (if lst \<ge> max_value - margin \<and> src \<le> margin then
                let s' = s\<lparr>mRolloverValue := mRolloverValue s + mRolloverIncrement s,
                           mRolloverTime := now, mLastValue := Some src\<rparr>
                in (mRolloverValue s' OR ucast src, s')
              else if lst \<le> margin \<and> src \<ge> max_value - margin \<and>
                      now - mRolloverTime s \<le> mRolloverBack then
                ((mRolloverValue s - mRolloverIncrement s) OR ucast src, s)
              else (mRolloverValue s OR ucast src, s\<lparr>mLastValue := Some src\<rparr>)))"

definition extended_get :: "'a::len ExtendedValue \<Rightarrow> u64 option" where
  "extended_get s = (case mLastValue s of
       Some lst \<Rightarrow> Some (mRolloverValue s OR ucast lst)
     | None \<Rightarrow> None)"

section \<open>Tracking the true value\<close>

text \<open>
  The sender counts without bound; what travels is its value modulo \<open>2 ^ w\<close>. The extender
  tracks the true value \<open>x\<close> when its rollover register holds the cycle of \<open>x\<close> (cycles are
  counted from one) and its last value is \<open>x\<close> modulo \<open>2 ^ w\<close>.
\<close>

definition tracks :: "'a::len ExtendedValue \<Rightarrow> nat \<Rightarrow> bool" where
  "tracks s x \<longleftrightarrow>
     mRolloverIncrement s = 2 ^ LENGTH('a) \<and>
     2 ^ LENGTH('a) \<le> x \<and>
     unat (mRolloverValue s) = x div 2 ^ LENGTH('a) * 2 ^ LENGTH('a) \<and>
     mLastValue s = Some (of_nat x)"

lemma or_low_word:
  fixes src :: "'a::len word" and r :: u64
  assumes "LENGTH('a) \<le> 64" "2 ^ LENGTH('a) dvd unat r"
  shows "unat (r OR ucast src) = unat r + unat src"
proof -
  obtain k where k: "unat r = k * 2 ^ LENGTH('a)"
    using assms(2) by (metis dvd_def mult.commute)
  have low: "unat (ucast src :: u64) = unat src"
  proof -
    have "(2::nat) ^ LENGTH('a) \<le> 2 ^ 64"
      using assms(1) by (intro power_increasing) simp_all
    then have "unat src < 2 ^ 64"
      using unsigned_less [of src, where ?'a = nat] by linarith
    then show ?thesis by (simp add: unsigned_ucast_eq take_bit_nat_eq_self)
  qed
  have "unat (r OR ucast src) = unat r OR unat src"
    by (simp add: unsigned_or_eq low)
  also have "\<dots> = push_bit LENGTH('a) k OR take_bit LENGTH('a) (unat src)"
    by (simp add: k push_bit_eq_mult take_bit_nat_eq_self)
  also have "\<dots> = push_bit LENGTH('a) k + take_bit LENGTH('a) (unat src)"
    by (rule disjunctive_add [symmetric]) (auto simp: bit_simps)
  finally show ?thesis
    by (simp add: k push_bit_eq_mult take_bit_nat_eq_self)
qed

lemma unat_max_value: "unat (max_value :: 'a::len word) = 2 ^ LENGTH('a) - 1"
  by (simp add: max_value_def unsigned_minus_1_eq_mask mask_eq_exp_minus_1)

lemma unat_margin: "unat (margin :: 'a::len word) = (2 ^ LENGTH('a) - 1) div 4"
  if "2 < LENGTH('a)"
proof -
  have "unat (4 :: 'a word) = 4"
    using that power_strict_increasing [of 2 "LENGTH('a)" "2::nat"] by (simp add: unat_numeral take_bit_nat_eq_self)
  then show ?thesis by (simp add: margin_def unat_div_distrib unat_max_value)
qed

lemma unat_max_less_margin:
  "unat (max_value - margin :: 'a::len word) = 2 ^ LENGTH('a) - 1 - (2 ^ LENGTH('a) - 1) div 4"
  if "2 < LENGTH('a)"
proof -
  have "margin \<le> (max_value :: 'a word)"
    by (simp add: word_le_nat_alt unat_margin [OF that] unat_max_value)
  then show ?thesis
    by (simp add: unat_sub unat_margin [OF that] unat_max_value)
qed

lemmas extend_bounds = word_le_nat_alt unat_max_less_margin unat_margin unat_of_nat

text \<open>The values of the three tests of \<open>extend\<close> for values a short way apart.\<close>

lemma forward_tests:
  fixes x y W :: nat
  assumes "4 \<le> W" "W mod 4 = 0" "x \<le> y" "y \<le> x + (W - 1) div 4"
  defines "m \<equiv> (W - 1) div 4"
  shows "y div W = x div W \<Longrightarrow> \<not> (W - 1 - m \<le> x mod W \<and> y mod W \<le> m)"
    and "y div W = x div W \<Longrightarrow> \<not> (x mod W \<le> m \<and> W - 1 - m \<le> y mod W)"
    and "y div W \<noteq> x div W \<Longrightarrow> y div W = x div W + 1 \<and> W - 1 - m \<le> x mod W \<and> y mod W \<le> m"
proof -
  have m: "4 * m + 4 = W" using assms(1,2) unfolding m_def by presburger
  have xy: "x = x div W * W + x mod W" "y = y div W * W + y mod W" by simp_all
  have b: "x mod W < W" "y mod W < W" using assms(1) by simp_all
  have d: "y \<le> x + m" using assms(4) by (simp add: m_def)
  {
    assume "y div W = x div W"
    then obtain A where "x = A + x mod W" "y = A + y mod W" using xy by metis
    then have "x mod W \<le> y mod W" "y mod W \<le> x mod W + m" using assms(3) d by linarith+
    then show "\<not> (W - 1 - m \<le> x mod W \<and> y mod W \<le> m)"
      "\<not> (x mod W \<le> m \<and> W - 1 - m \<le> y mod W)" using m by linarith+
  }
  assume ne: "y div W \<noteq> x div W"
  have "x div W \<le> y div W" using assms(3) by (rule div_le_mono)
  moreover have "y div W \<le> (x + W) div W" using d m by (intro div_le_mono) linarith
  moreover have "(x + W) div W = x div W + 1" using assms(1) by (intro div_add_self2) simp
  ultimately have q: "y div W = x div W + 1" using ne by linarith
  obtain A where "x = A + x mod W" "y = A + W + y mod W"
    using xy unfolding q by (metis add.commute add_mult_distrib mult_1 add.assoc)
  then show "y div W = x div W + 1 \<and> W - 1 - m \<le> x mod W \<and> y mod W \<le> m"
    using q xy(1) d b m by linarith
qed

lemma four_dvd_pow: "2 < n \<Longrightarrow> (2::nat) ^ n mod 4 = 0 \<and> 4 \<le> (2::nat) ^ n"
proof -
  assume "2 < n"
  then obtain k where "n = k + 2" using less_imp_add_positive by (metis add.commute)
  then show ?thesis by (simp add: power_add)
qed

lemma tracks_extend_eq:
  fixes s :: "'a::len ExtendedValue"
  assumes "tracks s x" "2 < LENGTH('a)"
  defines "W \<equiv> 2 ^ LENGTH('a)" and "m \<equiv> (2 ^ LENGTH('a) - 1) div 4"
  shows "extend now s (of_nat y) =
     (if W - 1 - m \<le> x mod W \<and> y mod W \<le> m then
        (mRolloverValue s + 2 ^ LENGTH('a) OR ucast (of_nat y :: 'a word),
         s\<lparr>mRolloverValue := mRolloverValue s + 2 ^ LENGTH('a), mRolloverTime := now,
           mLastValue := Some (of_nat y)\<rparr>)
      else if x mod W \<le> m \<and> W - 1 - m \<le> y mod W \<and> now - mRolloverTime s \<le> mRolloverBack then
        (mRolloverValue s - 2 ^ LENGTH('a) OR ucast (of_nat y :: 'a word), s)
      else (mRolloverValue s OR ucast (of_nat y :: 'a word), s\<lparr>mLastValue := Some (of_nat y)\<rparr>))"
proof -
  have "0 < x div W" using assms(1) by (simp add: tracks_def W_def div_greater_zero_iff)
  then have "mRolloverValue s \<noteq> 0" using assms(1) by (auto simp: tracks_def W_def)
  then show ?thesis
    using assms(1,2)
    by (simp add: extend_def tracks_def Let_def extend_bounds W_def m_def)
qed

lemma tracks_unat:
  fixes s :: "'a::len ExtendedValue"
  assumes "tracks s x" "LENGTH('a) \<le> 32"
  shows "unat (mRolloverValue s OR ucast (of_nat y :: 'a word)) =
    x div 2 ^ LENGTH('a) * 2 ^ LENGTH('a) + y mod 2 ^ LENGTH('a)"
  using assms or_low_word [of "mRolloverValue s" "of_nat y :: 'a word"]
  by (simp add: tracks_def unat_of_nat)

lemma unat_exp_u64: "n < 64 \<Longrightarrow> unat ((2::u64) ^ n) = 2 ^ n"
proof -
  assume "n < 64"
  then have "(2::nat) ^ n < 2 ^ 64" by (rule power_strict_increasing) simp
  moreover have "(2::u64) ^ n = of_nat (2 ^ n)" by simp
  ultimately show ?thesis by (simp only: unat_of_nat) simp
qed

lemma tracks_forward:
  fixes s :: "'a::len ExtendedValue"
  assumes tr: "tracks s x" and w: "2 < LENGTH('a)" "LENGTH('a) \<le> 32"
    and y: "x \<le> y" "y \<le> x + (2 ^ LENGTH('a) - 1) div 4" "y < 2 ^ 64"
  shows "unat (fst (extend now s (of_nat y))) = y \<and> tracks (snd (extend now s (of_nat y))) y"
proof -
  let ?W = "2 ^ LENGTH('a) :: nat"
  have W: "4 \<le> ?W" "?W mod 4 = 0" using four_dvd_pow [OF w(1)] by auto
  note tests = forward_tests [OF W y(1,2)]
  have inc: "unat ((2::u64) ^ LENGTH('a)) = ?W" using w by (simp add: unat_exp_u64)
  have yeq: "y div ?W * ?W + y mod ?W = y" by (rule div_mult_mod_eq)
  show ?thesis
  proof (cases "y div ?W = x div ?W")
    case True
    then have e: "extend now s (of_nat y) =
        (mRolloverValue s OR ucast (of_nat y :: 'a word), s\<lparr>mLastValue := Some (of_nat y)\<rparr>)"
      using tests(1,2) by (simp only: tracks_extend_eq [OF tr w(1)]) auto
    have "tracks (s\<lparr>mLastValue := Some (of_nat y)\<rparr>) y"
      using tr True y(1) by (simp add: tracks_def)
    then show ?thesis
      unfolding e using tracks_unat [OF tr w(2), of y] yeq True by simp
  next
    case False
    let ?s' = "s\<lparr>mRolloverValue := mRolloverValue s + 2 ^ LENGTH('a), mRolloverTime := now,
           mLastValue := Some (of_nat y)\<rparr>"
    have t: "y div ?W = x div ?W + 1" "?W - 1 - (?W - 1) div 4 \<le> x mod ?W" "y mod ?W \<le> (?W - 1) div 4"
      using tests(3) [OF False] by auto
    have e: "extend now s (of_nat y) = (mRolloverValue ?s' OR ucast (of_nat y :: 'a word), ?s')"
      using t(2,3) by (simp only: tracks_extend_eq [OF tr w(1)]) auto
    have "y div ?W * ?W \<le> y" by (rule div_times_less_eq_dividend)
    then have "x div ?W * ?W + ?W < 2 ^ 64" using t(1) y(3) by simp
    then have "unat (mRolloverValue s + 2 ^ LENGTH('a)) = y div ?W * ?W"
      using tr t(1) by (simp add: tracks_def unat_word_ariths inc)
    then have tr': "tracks ?s' y"
      using tr y(1) by (simp add: tracks_def)
    then show ?thesis
      unfolding e using tracks_unat [OF tr' w(2), of y] yeq by simp
  qed
qed

lemma tracks_backward:
  fixes s :: "'a::len ExtendedValue"
  assumes tr: "tracks s x" and w: "2 < LENGTH('a)" "LENGTH('a) \<le> 32"
    and y: "y \<le> x" "x \<le> y + (2 ^ LENGTH('a) - 1) div 4" "x < 2 ^ 64"
    and recent: "y div 2 ^ LENGTH('a) \<noteq> x div 2 ^ LENGTH('a) \<Longrightarrow> now - mRolloverTime s \<le> mRolloverBack"
  shows "unat (fst (extend now s (of_nat y))) = y \<and>
    tracks (snd (extend now s (of_nat y))) (if y div 2 ^ LENGTH('a) = x div 2 ^ LENGTH('a) then y else x)"
proof -
  let ?W = "2 ^ LENGTH('a) :: nat"
  have W: "4 \<le> ?W" "?W mod 4 = 0" using four_dvd_pow [OF w(1)] by auto
  note tests = forward_tests [OF W y(1,2)]
  have yeq: "y div ?W * ?W + y mod ?W = y" by (rule div_mult_mod_eq)
  show ?thesis
  proof (cases "y div ?W = x div ?W")
    case True
    then have e: "extend now s (of_nat y) =
        (mRolloverValue s OR ucast (of_nat y :: 'a word), s\<lparr>mLastValue := Some (of_nat y)\<rparr>)"
      using tests(1,2) by (simp only: tracks_extend_eq [OF tr w(1)]) auto
    have "?W \<le> x" using tr by (simp add: tracks_def)
    then have "1 \<le> y div ?W" unfolding True by (simp add: Suc_le_eq div_greater_zero_iff)
    then have "?W \<le> y" by (simp add: Suc_le_eq div_greater_zero_iff)
    then have "tracks (s\<lparr>mLastValue := Some (of_nat y)\<rparr>) y"
      using tr True by (simp add: tracks_def)
    then show ?thesis
      unfolding e using tracks_unat [OF tr w(2), of y] yeq True by simp
  next
    case False
    have t: "x div ?W = y div ?W + 1" "?W - 1 - (?W - 1) div 4 \<le> y mod ?W" "x mod ?W \<le> (?W - 1) div 4"
      using tests(3) False by auto
    have "4 * ((?W - 1) div 4) \<le> ?W - 1" by (rule times_div_less_eq_dividend)
    then have "(?W - 1) div 4 < ?W - 1 - (?W - 1) div 4" using W(1) by linarith
    then have e: "extend now s (of_nat y) = (mRolloverValue s - 2 ^ LENGTH('a) OR ucast (of_nat y :: 'a word), s)"
      using t(2,3) recent [OF False] by (simp only: tracks_extend_eq [OF tr w(1)]) auto
    have inc: "unat ((2::u64) ^ LENGTH('a)) = ?W" using w by (simp add: unat_exp_u64)
    have rv: "unat (mRolloverValue s) = y div ?W * ?W + ?W"
      using tr t(1) by (simp add: tracks_def)
    then have "unat (mRolloverValue s - 2 ^ LENGTH('a)) = y div ?W * ?W"
      using inc by (subst unat_sub) (simp_all add: word_le_nat_alt)
    then have "unat (mRolloverValue s - 2 ^ LENGTH('a) OR ucast (of_nat y :: 'a word)) = y"
      using w(2) yeq by (subst or_low_word) (simp_all add: unat_of_nat)
    then show ?thesis
      unfolding e using tr False by simp
  qed
qed

lemma tracks_first:
  assumes "LENGTH('a::len) \<le> 32"
  shows "unat (fst (extend now (ExtendedValue_new :: 'a ExtendedValue) src)) = 2 ^ LENGTH('a) + unat src"
    "tracks (snd (extend now (ExtendedValue_new :: 'a ExtendedValue) src)) (2 ^ LENGTH('a) + unat src)"
proof -
  have "unat (ucast (max_value :: 'a word) + 1 :: u64) = 2 ^ LENGTH('a)"
  proof -
    have le: "(2::nat) ^ LENGTH('a) \<le> 2 ^ 32" using assms by (intro power_increasing) simp_all
    then have "unat (ucast (max_value :: 'a word) :: u64) = 2 ^ LENGTH('a) - 1"
      by (simp add: unsigned_ucast_eq unat_max_value take_bit_nat_eq_self)
    then show ?thesis using le by (simp add: unat_word_ariths)
  qed
  then have inc: "(ucast (max_value :: 'a word) + 1 :: u64) = 2 ^ LENGTH('a)"
    using assms by (simp add: word_unat_eq_iff unat_exp_u64)
  have nz: "(2::u64) ^ LENGTH('a) \<noteq> 0" using assms unat_exp_u64 [of "LENGTH('a)"] by auto
  have e: "extend now (ExtendedValue_new :: 'a ExtendedValue) src =
      (2 ^ LENGTH('a) OR ucast src, \<lparr>mRolloverIncrement = 2 ^ LENGTH('a), mRolloverValue = 2 ^ LENGTH('a),
        mRolloverTime = now, mLastValue = Some src\<rparr>)"
    unfolding extend_def ExtendedValue_new_def inc using nz by (simp add: Let_def)
  show "unat (fst (extend now (ExtendedValue_new :: 'a ExtendedValue) src)) = 2 ^ LENGTH('a) + unat src"
    unfolding e using assms by (simp add: or_low_word unat_exp_u64)
  have "unat src < 2 ^ LENGTH('a)" by (rule unsigned_less)
  then have "(2 ^ LENGTH('a) + unat src) div 2 ^ LENGTH('a) = 1"
    by (subst div_add_self1) simp_all
  then show "tracks (snd (extend now (ExtendedValue_new :: 'a ExtendedValue) src)) (2 ^ LENGTH('a) + unat src)"
    unfolding e using assms by (simp add: tracks_def unat_exp_u64)
qed

text \<open>A stream of values, each with its time of arrival.\<close>

fun extend_all :: "'a::len ExtendedValue \<Rightarrow> (int \<times> 'a word) list \<Rightarrow> u64 list" where
  "extend_all s [] = []"
| "extend_all s ((now, v) # vs) = fst (extend now s v) # extend_all (snd (extend now s v)) vs"

fun in_order_from :: "nat \<Rightarrow> nat \<Rightarrow> nat list \<Rightarrow> bool" where
  "in_order_from gap x [] \<longleftrightarrow> True"
| "in_order_from gap x (y # ys) \<longleftrightarrow> x \<le> y \<and> y \<le> x + gap \<and> y < 2 ^ 64 \<and> in_order_from gap y ys"

lemma extend_all_tracks:
  fixes s :: "'a::len ExtendedValue"
  assumes "2 < LENGTH('a)" "LENGTH('a) \<le> 32"
  shows "tracks s x \<Longrightarrow> in_order_from ((2 ^ LENGTH('a) - 1) div 4) x (map snd ys) \<Longrightarrow>
    map unat (extend_all s (map (\<lambda>(now, y). (now, of_nat y)) ys)) = map snd ys"
proof (induction ys arbitrary: s x)
  case Nil
  then show ?case by simp
next
  case (Cons a ys)
  obtain now y where a: "a = (now, y)" by force
  have "unat (fst (extend now s (of_nat y))) = y \<and> tracks (snd (extend now s (of_nat y))) y"
    using Cons.prems a by (intro tracks_forward [OF _ assms]) auto
  then show ?case using Cons.IH [of "snd (extend now s (of_nat y))" y] Cons.prems a by simp
qed

text \<open>
  C24. One step of the extender: when it tracks the true value \<open>x\<close> and the next true value
  \<open>y\<close> is at most a quarter of the number space away (and, if it is in the previous cycle,
  at most a second after the rollover), \<open>extend\<close> returns exactly \<open>y\<close>, and goes on
  tracking \<open>y\<close>, or \<open>x\<close> if \<open>y\<close> was a straggler from before the rollover.
\<close>

theorem extend_exact:
  fixes s :: "'a::len ExtendedValue"
  assumes "tracks s x" "2 < LENGTH('a)" "LENGTH('a) \<le> 32" "x < 2 ^ 64" "y < 2 ^ 64"
    and "y \<le> x + (2 ^ LENGTH('a) - 1) div 4" "x \<le> y + (2 ^ LENGTH('a) - 1) div 4"
    and "y div 2 ^ LENGTH('a) < x div 2 ^ LENGTH('a) \<Longrightarrow> now - mRolloverTime s \<le> mRolloverBack"
  shows "unat (fst (extend now s (of_nat y))) = y \<and>
    tracks (snd (extend now s (of_nat y)))
      (if y div 2 ^ LENGTH('a) < x div 2 ^ LENGTH('a) then x else y)"
proof (cases "x \<le> y")
  case True
  then have "\<not> y div 2 ^ LENGTH('a) < x div 2 ^ LENGTH('a)" by (simp add: div_le_mono not_less)
  then show ?thesis using tracks_forward [OF assms(1-3) True assms(6) assms(5), of now] by simp
next
  case False
  then have le: "y \<le> x" and d: "y div 2 ^ LENGTH('a) \<le> x div 2 ^ LENGTH('a)" by (simp_all add: div_le_mono)
  then have "y div 2 ^ LENGTH('a) \<noteq> x div 2 ^ LENGTH('a) \<Longrightarrow> now - mRolloverTime s \<le> mRolloverBack"
    using assms(8) by simp
  then show ?thesis using tracks_backward [OF assms(1-3) le assms(7,4), of now] d by (auto simp: order_less_le)
qed

theorem extend_exact_witness:
  "unat (fst (extend 7 (snd (extend 5 (ExtendedValue_new :: 16 ExtendedValue) 0xFFFE)) (of_nat 131075))) = 131075"
proof -
  have "tracks (snd (extend 5 (ExtendedValue_new :: 16 ExtendedValue) 0xFFFE)) 131070"
    using tracks_first(2) [where 'a = 16, of 5 "0xFFFE"] by simp
  from extend_exact [OF this, of 131075 7] show ?thesis by simp
qed

text \<open>
  A whole stream: a fresh extender fed a first value and then values whose true
  counters never go back and never jump by more than a quarter of the number space (losses
  included) returns the true counters, shifted by the one cycle that it starts from,
  through any number of rollovers.
\<close>

theorem extend_stream:
  assumes "2 < LENGTH('a::len)" "LENGTH('a) \<le> 32"
    and "in_order_from ((2 ^ LENGTH('a) - 1) div 4) (2 ^ LENGTH('a) + unat v) (map snd ys)"
  shows "map unat (extend_all (ExtendedValue_new :: 'a ExtendedValue)
      ((now, v) # map (\<lambda>(t, y). (t, of_nat y)) ys)) = (2 ^ LENGTH('a) + unat v) # map snd ys"
  using extend_all_tracks [OF assms(1,2) tracks_first(2) [OF assms(2)] assms(3)] tracks_first(1) [OF assms(2)]
  by simp

theorem extend_stream_witness:
  "map unat (extend_all (ExtendedValue_new :: 16 ExtendedValue) [(0, 65530), (1, of_nat 131075), (2, of_nat 140072)]) =
     [131066, 131075, 140072]"
  using extend_stream [where 'a = 16 and v = 65530 and now = 0 and ys = "[(1, 131075), (2, 140072)]"]
  by simp

end
