(* ===== verification/Replay_Protection.thy ===== *)
theory Replay_Protection
  imports Prelude
begin

text \<open>
  \<^verbatim>\<open>src/replay_protection.cpp\<close>: the sliding bitmap that rejects replayed SRTP packets.
  Values are \<^verbatim>\<open>uint32_t\<close>; \<open>mMaxPossibleValue\<close> is \<open>2 ^ 16 - 1\<close> for RTP sequence numbers
  and \<open>2 ^ 32 - 1\<close> for SRTCP indices. The loop of \<^verbatim>\<open>setForward\<close> runs until it meets the
  new value and is a \<^theory_text>\<open>partial_function\<close>: \<open>None\<close> would be a loop that never ends.
\<close>

unbundle bit_operations_syntax

record ReplayProtection =
  mMaxPossibleValue :: u32
  mSize :: u32
  mStorageSize :: u32
  mMaxDistanceForward :: u32
  mCurMax :: u32
  mStorage :: "bytes option"

definition getRolloverForwadDistance :: "u32 \<Rightarrow> u32 \<Rightarrow> u32 \<Rightarrow> u32" where
  "getRolloverForwadDistance maxPossibleValue curMaxValue value =
     maxPossibleValue - curMaxValue + 1 + value"

definition bit_index :: "u32 \<Rightarrow> u32 \<Rightarrow> nat" where
  "bit_index storageSize value = unat ((value div 8) mod storageSize)"

definition bit_shift :: "u32 \<Rightarrow> nat" where
  "bit_shift value = unat (value AND (8 - 1))"

definition isSet :: "bytes \<Rightarrow> u32 \<Rightarrow> u32 \<Rightarrow> bool" where
  "isSet storage storageSize value =
     test_mask (storage ! bit_index storageSize value) (bit_shift value)"

definition setImpl :: "bytes \<Rightarrow> u32 \<Rightarrow> u32 \<Rightarrow> bytes" where
  "setImpl storage storageSize value =
     (let index = bit_index storageSize value
      in storage[index := storage ! index OR push_bit (bit_shift value) 1])"

definition clearImpl :: "bytes \<Rightarrow> u32 \<Rightarrow> u32 \<Rightarrow> bytes" where
  "clearImpl storage storageSize value =
     (let index = bit_index storageSize value
      in storage[index := storage ! index AND NOT (push_bit (bit_shift value) 1)])"

definition ReplayProtection_new :: "u32 \<Rightarrow> u32 \<Rightarrow> ReplayProtection" where
  "ReplayProtection_new maxPossibleValue sz =
     \<lparr>mMaxPossibleValue = maxPossibleValue, mSize = sz, mStorageSize = (sz + 8 - 1) div 8,
      mMaxDistanceForward = sz div 4, mCurMax = 0, mStorage = None\<rparr>"

definition canProceed :: "ReplayProtection \<Rightarrow> u32 \<Rightarrow> bool" where
  "canProceed s value =
     (case mStorage s of
        None \<Rightarrow> True
      | Some storage \<Rightarrow>
          (if value = mCurMax s then False
           else if value > mCurMax s then
             \<not> (value - mCurMax s > mMaxDistanceForward s)
           else if getRolloverForwadDistance (mMaxPossibleValue s) (mCurMax s) value
                     \<le> mMaxDistanceForward s then True
           else if mCurMax s - value \<ge> mSize s then False
           else \<not> isSet storage (mStorageSize s) value))"

partial_function (option) setForward_loop ::
  "u32 \<Rightarrow> u32 \<Rightarrow> u32 \<Rightarrow> bytes \<Rightarrow> u32 \<Rightarrow> (bytes \<times> u32) option" where
  "setForward_loop maxPossible storageSize value storage cur =
     (if cur \<noteq> value then
        setForward_loop maxPossible storageSize value (clearImpl storage storageSize cur)
          ((cur + 1) AND maxPossible)
      else Some (storage, cur))"

definition setForward :: "ReplayProtection \<Rightarrow> bytes \<Rightarrow> u32 \<Rightarrow> ReplayProtection option" where
  "setForward s storage value =
     (case setForward_loop (mMaxPossibleValue s) (mStorageSize s) value storage
             ((mCurMax s + 1) AND mMaxPossibleValue s) of
        None \<Rightarrow> None
      | Some (storage', cur) \<Rightarrow>
          Some (s\<lparr>mStorage := Some (setImpl storage' (mStorageSize s) cur), mCurMax := cur\<rparr>))"

definition rp_set :: "ReplayProtection \<Rightarrow> u32 \<Rightarrow> (bool \<times> ReplayProtection) option" where
  "rp_set s value =
     (case mStorage s of
        None \<Rightarrow>
          Some (True, s\<lparr>mStorage := Some (setImpl (replicate (unat (mStorageSize s)) 0) (mStorageSize s) value),
                        mCurMax := value\<rparr>)
      | Some storage \<Rightarrow>
          (if value = mCurMax s then Some (False, s)
           else if value > mCurMax s then
             (if value - mCurMax s > mMaxDistanceForward s then Some (False, s)
              else map_option (Pair True) (setForward s storage value))
           else if getRolloverForwadDistance (mMaxPossibleValue s) (mCurMax s) value
                     \<le> mMaxDistanceForward s then
             map_option (Pair True) (setForward s storage value)
           else if mCurMax s - value \<ge> mSize s then Some (False, s)
           else Some (True, s\<lparr>mStorage := Some (setImpl storage (mStorageSize s) value)\<rparr>)))"

section \<open>The bitmap\<close>

text \<open>The bit at a position of the whole storage, positions counted from the first byte.\<close>

definition rbit :: "bytes \<Rightarrow> nat \<Rightarrow> bool" where
  "rbit st p \<longleftrightarrow> bit (st ! (p div 8)) (p mod 8)"

lemma bit_shift_eq: "bit_shift value = unat value mod 8"
proof -
  have "(8 - 1 :: u32) = mask 3" by (simp add: mask_eq_exp_minus_1)
  then have "bit_shift value = take_bit 3 (unat value)"
    unfolding bit_shift_def by (simp only: take_bit_eq_mask [symmetric] unsigned_take_bit_eq)
  then show ?thesis by (simp add: take_bit_eq_mod)
qed

lemma bit_index_eq: "bit_index S value = (unat value div 8) mod unat S"
  by (simp add: bit_index_def unat_mod_distrib unat_div_distrib)

lemma pos_split: "(v div 8) mod S = (v mod (8 * S)) div 8 \<and> v mod 8 = (v mod (8 * S)) mod (8 :: nat)"
  by (simp add: mod_mult2_eq)

text \<open>The bit position of a value.\<close>

definition bit_pos :: "u32 \<Rightarrow> u32 \<Rightarrow> nat" where
  "bit_pos S value = unat value mod (8 * unat S)"

lemma bit_pos_split:
  shows bit_index_split: "bit_index S v = bit_pos S v div 8"
    and bit_shift_split: "bit_shift v = bit_pos S v mod 8"
  using pos_split [of "unat v" "unat S"] by (simp_all add: bit_pos_def bit_index_eq bit_shift_eq)

lemma bit_pos_less: "0 < unat S \<Longrightarrow> bit_pos S v < 8 * unat S"
  by (simp add: bit_pos_def)

lemma isSet_rbit: "isSet st S v = rbit st (bit_pos S v)"
  using test_mask_bit [of "bit_shift v" "st ! bit_index S v"]
  by (simp add: isSet_def rbit_def bit_index_split bit_shift_split [where S = S])

lemma length_setImpl [simp]: "length (setImpl st S v) = length st"
  by (simp add: setImpl_def Let_def)

lemma length_clearImpl [simp]: "length (clearImpl st S v) = length st"
  by (simp add: clearImpl_def Let_def)

lemma div_mod_8_eq_iff: "p div 8 = q div 8 \<and> p mod 8 = q mod 8 \<longleftrightarrow> p = (q :: nat)"
  by (metis div_mult_mod_eq)

lemma rbit_setImpl:
  assumes "length st = unat S" "p < 8 * unat S"
  shows "rbit (setImpl st S v) p \<longleftrightarrow> p = bit_pos S v \<or> rbit st p"
proof -
  have "0 < unat S" using assms(2) by linarith
  then have "bit_pos S v div 8 < length st" using bit_pos_less [of S v] assms(1) by simp
  moreover have "p mod 8 < 8" by simp
  ultimately show ?thesis
    using div_mod_8_eq_iff [of p "bit_pos S v"]
    by (cases "p div 8 = bit_pos S v div 8")
      (auto simp: rbit_def setImpl_def Let_def bit_index_split bit_shift_split [where S = S] nth_list_update bit_simps)
qed

lemma rbit_clearImpl:
  assumes "length st = unat S" "p < 8 * unat S"
  shows "rbit (clearImpl st S v) p \<longleftrightarrow> p \<noteq> bit_pos S v \<and> rbit st p"
proof -
  have "0 < unat S" using assms(2) by linarith
  then have "bit_pos S v div 8 < length st" using bit_pos_less [of S v] assms(1) by simp
  moreover have "p mod 8 < 8" by simp
  ultimately show ?thesis
    using div_mod_8_eq_iff [of p "bit_pos S v"]
    by (cases "p div 8 = bit_pos S v div 8")
      (auto simp: rbit_def clearImpl_def Let_def bit_index_split bit_shift_split [where S = S] nth_list_update bit_simps)
qed

section \<open>The loop of \<open>setForward\<close>\<close>

lemma unat_and_mask: "unat (v AND mask w) = unat (v :: u32) mod 2 ^ w"
  by (simp only: take_bit_eq_mask [symmetric] unsigned_take_bit_eq) (simp add: take_bit_eq_mod)

lemma unat_succ_and_mask: "w \<le> 32 \<Longrightarrow> unat ((c + 1) AND mask w) = (unat (c :: u32) + 1) mod 2 ^ w"
proof -
  assume "w \<le> 32"
  then have "(2::nat) ^ w dvd 2 ^ 32" by (rule le_imp_power_dvd)
  then show ?thesis
    by (simp only: unat_and_mask unat_word_ariths) (simp add: mod_mod_cancel)
qed

text \<open>
  The loop ends when the value it looks for is in range, and clears exactly the positions
  of the values that it passes.
\<close>

lemma setForward_loop_result:
  assumes "w \<le> 32" "0 < unat S" "8 * unat S dvd 2 ^ w"
  shows "k < 2 ^ w \<Longrightarrow> unat value = (unat c + k) mod 2 ^ w \<Longrightarrow> unat c < 2 ^ w \<Longrightarrow> length st = unat S \<Longrightarrow>
    \<exists>st'. setForward_loop (mask w) S value st c = Some (st', value) \<and> length st' = unat S \<and>
      (\<forall>p < 8 * unat S. rbit st' p \<longleftrightarrow> rbit st p \<and> (\<forall>i < k. p \<noteq> (unat c + i) mod (8 * unat S)))"
proof (induction k arbitrary: st c)
  case 0
  then have "c = value" by (simp add: word_unat_eq_iff)
  then have "setForward_loop (mask w) S value st c = Some (st, value)"
    by (subst setForward_loop.simps) simp
  then show ?case using 0 by auto
next
  case (Suc k)
  let ?c' = "(c + 1) AND mask w" and ?st = "clearImpl st S c"
  have c': "unat ?c' = (unat c + 1) mod 2 ^ w" using assms(1) by (rule unat_succ_and_mask)
  have ne: "c \<noteq> value"
  proof
    assume "c = value"
    then have "(unat c + Suc k) mod 2 ^ w = unat c mod 2 ^ w" using Suc.prems by simp
    then have "Suc k mod 2 ^ w = 0"
      by (metis add_diff_cancel_left' mod_eq_dvd_iff_nat dvd_imp_mod_0 le_add1)
    then show False using Suc.prems(1) by simp
  qed
  have "unat value = (unat ?c' + k) mod 2 ^ w"
    using Suc.prems(2) c' by (simp add: mod_add_left_eq)
  then obtain st' where st': "setForward_loop (mask w) S value ?st ?c' = Some (st', value)"
    "length st' = unat S"
    "\<forall>p < 8 * unat S. rbit st' p \<longleftrightarrow> rbit ?st p \<and> (\<forall>i < k. p \<noteq> (unat ?c' + i) mod (8 * unat S))"
    using Suc.IH [of ?c' ?st] Suc.prems c' by auto
  have shift: "(unat ?c' + i) mod (8 * unat S) = (unat c + Suc i) mod (8 * unat S)" for i
  proof -
    have "(unat ?c' + i) mod (8 * unat S) = ((unat c + 1) mod 2 ^ w mod (8 * unat S) + i) mod (8 * unat S)"
      unfolding c' by (simp add: mod_add_left_eq)
    then show ?thesis using assms(3) by (simp add: mod_mod_cancel mod_add_left_eq)
  qed
  have "rbit st' p \<longleftrightarrow> rbit st p \<and> (\<forall>i < Suc k. p \<noteq> (unat c + i) mod (8 * unat S))"
    if "p < 8 * unat S" for p
    using st'(3) that rbit_clearImpl [of st S p c] Suc.prems(4)
    by (auto simp: shift bit_pos_def All_less_Suc2)
  moreover have "setForward_loop (mask w) S value st c = Some (st', value)"
    by (subst setForward_loop.simps) (simp only: ne st'(1) if_True not_False_eq_True)
  ultimately show ?case using st'(2) by blast
qed

section \<open>Refinement of an unbounded filter\<close>

text \<open>
  The abstract filter works on unbounded packet indices: \<open>E\<close> is the index of the newest
  accepted packet and \<open>A\<close> the set of the indices accepted so far. A value of the wire stands
  for the index that \<open>rp_index\<close> gives it. \<open>rp_rel\<close> relates a bitmap to \<open>E\<close> and \<open>A\<close>.
\<close>

definition rp_config :: "nat \<Rightarrow> ReplayProtection \<Rightarrow> bool" where
  "rp_config w s \<longleftrightarrow>
     w \<le> 32 \<and> mMaxPossibleValue s = mask w \<and> 0 < unat (mStorageSize s) \<and>
     8 * unat (mStorageSize s) dvd 2 ^ w \<and>
     unat (mSize s) \<le> 8 * unat (mStorageSize s) \<and>
     unat (mMaxDistanceForward s) < 8 * unat (mStorageSize s)"

definition rp_index :: "nat \<Rightarrow> ReplayProtection \<Rightarrow> int \<Rightarrow> u32 \<Rightarrow> int" where
  "rp_index w s E value =
     (if mStorage s = None then int (unat value)
      else if value > mCurMax s then E + int (unat value - unat (mCurMax s))
      else if getRolloverForwadDistance (mMaxPossibleValue s) (mCurMax s) value \<le> mMaxDistanceForward s
      then E + int (2 ^ w - unat (mCurMax s) + unat value)
      else E - int (unat (mCurMax s) - unat value))"

definition rp_rel :: "nat \<Rightarrow> ReplayProtection \<Rightarrow> int \<Rightarrow> int set \<Rightarrow> bool" where
  "rp_rel w s E A \<longleftrightarrow> rp_config w s \<and>
     (case mStorage s of
        None \<Rightarrow> A = {}
      | Some st \<Rightarrow>
          length st = unat (mStorageSize s) \<and> int (unat (mCurMax s)) = E mod 2 ^ w \<and>
          E \<in> A \<and> (\<forall>a \<in> A. a \<le> E) \<and>
          (\<forall>e. E - int (8 * unat (mStorageSize s)) < e \<and> e \<le> E \<longrightarrow>
             rbit st (nat (e mod int (8 * unat (mStorageSize s)))) = (e \<in> A)))"

definition rp_newest :: "nat \<Rightarrow> ReplayProtection \<Rightarrow> int \<Rightarrow> u32 \<Rightarrow> int" where
  "rp_newest w s E value =
     (if mStorage s = None then rp_index w s E value else max E (rp_index w s E value))"

text \<open>Positions of indices less than one storage length apart are different.\<close>

lemma nat_mod_window: "0 < B \<Longrightarrow> nat (e mod int B) < B" "0 < B \<Longrightarrow> int (nat (e mod int B)) = e mod int B"
  by (simp_all add: nat_less_iff)

lemma bit_pos_index:
  assumes "8 * unat S dvd 2 ^ w" "int (unat v) = e mod 2 ^ w"
  shows "int (bit_pos S v) = e mod int (8 * unat S)"
proof -
  have "int (8 * unat S) dvd 2 ^ w" using assms(1) by (metis of_nat_dvd_iff of_nat_numeral of_nat_power)
  then show ?thesis
    by (simp only: bit_pos_def of_nat_mod assms(2) mod_mod_cancel)
qed

lemma bit_pos_eq_iff:
  assumes "8 * unat S dvd 2 ^ w" "0 < unat S" "int (unat v) = i mod 2 ^ w" "\<bar>e - i\<bar> < int (8 * unat S)"
  shows "nat (e mod int (8 * unat S)) = bit_pos S v \<longleftrightarrow> e = i"
proof -
  have "int (bit_pos S v) = i mod int (8 * unat S)" using assms(1,3) by (rule bit_pos_index)
  moreover have "int (nat (e mod int (8 * unat S))) = e mod int (8 * unat S)"
    using assms(2) by (intro nat_mod_window) linarith
  ultimately have "nat (e mod int (8 * unat S)) = bit_pos S v \<longleftrightarrow> e mod int (8 * unat S) = i mod int (8 * unat S)"
    by (metis of_nat_eq_iff)
  then show ?thesis using mod_window_inj [OF _ assms(4)] by auto
qed

lemma unat_mask_u32: "w \<le> 32 \<Longrightarrow> unat (mask w :: u32) = 2 ^ w - 1"
proof -
  assume "w \<le> 32"
  then have "unat (mask w :: u32) = take_bit w (mask 32 :: nat)"
    by (simp only: take_bit_minus_one_eq_mask [symmetric, of w] unsigned_take_bit_eq unsigned_minus_1_eq_mask) simp
  also have "\<dots> = mask w" using \<open>w \<le> 32\<close> by (simp only: take_bit_of_mask min_absorb1)
  finally show ?thesis by (simp only: mask_eq_exp_minus_1)
qed

lemma rollover_distance:
  assumes "w \<le> 32" "value < cur" "unat cur < 2 ^ w"
  shows "unat (getRolloverForwadDistance (mask w) cur value) = 2 ^ w - unat cur + unat value"
proof -
  have m: "unat (mask w :: u32) = 2 ^ w - 1"
    using assms(1) by (rule unat_mask_u32)
  have le: "cur \<le> mask w" using assms(3) by (simp add: word_le_nat_alt m)
  have lt: "unat value < unat cur" using assms(2) by (simp add: word_less_nat_alt)
  have "(2::nat) ^ w \<le> 2 ^ 32" using assms(1) by (intro power_increasing) simp_all
  then show ?thesis
    unfolding getRolloverForwadDistance_def using le lt assms(3)
    by (simp add: unat_word_ariths unat_sub m)
qed

lemma setForward_refines:
  assumes rel: "rp_rel w s E A" and st: "mStorage s = Some st"
    and d: "0 < d" "d < 8 * unat (mStorageSize s)" "int (unat value) = (E + int d) mod 2 ^ w"
  shows "\<exists>s'. setForward s st value = Some s' \<and> rp_rel w s' (E + int d) (insert (E + int d) A) \<and>
    mStorage s' \<noteq> None"
proof -
  let ?S = "mStorageSize s" and ?cur = "mCurMax s"
  let ?B = "8 * unat ?S"
  have cfg: "w \<le> 32" "mMaxPossibleValue s = mask w" "0 < unat ?S" "?B dvd 2 ^ w"
    using rel by (auto simp: rp_rel_def rp_config_def)
  have r: "length st = unat ?S" "int (unat ?cur) = E mod 2 ^ w" "\<forall>a \<in> A. a \<le> E"
    "\<And>e. E - int ?B < e \<Longrightarrow> e \<le> E \<Longrightarrow> rbit st (nat (e mod int ?B)) = (e \<in> A)"
    using rel st by (auto simp: rp_rel_def)
  let ?c = "(?cur + 1) AND mask w"
  have c: "unat ?c = (unat ?cur + 1) mod 2 ^ w" using cfg(1) by (rule unat_succ_and_mask)
  have cE: "int (unat ?c) = (E + 1) mod 2 ^ w"
    by (simp only: c zmod_int of_nat_add of_nat_power of_nat_numeral of_nat_1 r(2) mod_add_left_eq)
  have "?B \<le> 2 ^ w" using cfg(4) by (rule dvd_imp_le) simp
  then have k: "d - 1 < 2 ^ w" using d by linarith
  have "int ((unat ?c + (d - 1)) mod 2 ^ w) = (E + 1 + int (d - 1)) mod 2 ^ w"
    by (simp only: zmod_int of_nat_add of_nat_power of_nat_numeral cE mod_add_left_eq)
  then have "int (unat value) = int ((unat ?c + (d - 1)) mod 2 ^ w)"
    using d(1,3) by (simp only: of_nat_diff Suc_leI One_nat_def of_nat_1 algebra_simps)
       (simp add: algebra_simps)
  then have val: "unat value = (unat ?c + (d - 1)) mod 2 ^ w" by (simp only: of_nat_eq_iff)
  have "unat ?c < 2 ^ w" by (simp add: c)
  from setForward_loop_result [OF cfg(1,3,4) k val this r(1)]
  obtain st' where st': "setForward_loop (mask w) ?S value st ?c = Some (st', value)" "length st' = unat ?S"
    "\<And>p. p < ?B \<Longrightarrow> rbit st' p \<longleftrightarrow> rbit st p \<and> (\<forall>i < d - 1. p \<noteq> (unat ?c + i) mod ?B)" by blast
  let ?s' = "s\<lparr>mStorage := Some (setImpl st' ?S value), mCurMax := value\<rparr>"
  have sf: "setForward s st value = Some ?s'"
    using st'(1) cfg(2) by (simp add: setForward_def)
  have "rbit (setImpl st' ?S value) (nat (e mod int ?B)) = (e \<in> insert (E + int d) A)"
    if e: "E + int d - int ?B < e" "e \<le> E + int d" for e
  proof -
    let ?p = "nat (e mod int ?B)"
    have p: "?p < ?B" "int ?p = e mod int ?B" using nat_mod_window [of ?B e] cfg(3) by linarith+
    have pv: "?p = bit_pos ?S value \<longleftrightarrow> e = E + int d"
      using e by (intro bit_pos_eq_iff [OF cfg(4,3) d(3)]) linarith
    have dvdi: "int ?B dvd 2 ^ w" using cfg(4) by (metis of_nat_dvd_iff of_nat_numeral of_nat_power)
    have pi: "?p = (unat ?c + i) mod ?B \<longleftrightarrow> e mod int ?B = (E + 1 + int i) mod int ?B" for i
    proof -
      have "int ((unat ?c + i) mod ?B) = ((E + 1) mod 2 ^ w mod int ?B + int i) mod int ?B"
        by (simp only: zmod_int of_nat_add cE mod_add_left_eq)
      also have "\<dots> = (E + 1 + int i) mod int ?B"
        by (simp only: mod_mod_cancel [OF dvdi] mod_add_left_eq)
      finally show ?thesis using p(2) by (metis of_nat_eq_iff)
    qed
    show ?thesis
    proof (cases "e \<le> E")
      case True
      then have "e mod int ?B \<noteq> (E + 1 + int i) mod int ?B" if "i < d - 1" for i
        using mod_window_inj [of e "int ?B" "E + 1 + int i"] that e by linarith
      then have "\<forall>i < d - 1. ?p \<noteq> (unat ?c + i) mod ?B" using pi by blast
      then show ?thesis
        using rbit_setImpl [OF st'(2) p(1)] st'(3) [OF p(1)] r(4) [of e] pv True e d(1) by auto
    next
      case False
      then have nA: "e \<notin> A" using r(3) by auto
      show ?thesis
      proof (cases "e = E + int d")
        case True
        then show ?thesis using rbit_setImpl [OF st'(2) p(1)] pv by auto
      next
        case False
        with \<open>\<not> e \<le> E\<close> e(2) have "nat (e - E - 1) < d - 1" "e = E + 1 + int (nat (e - E - 1))" by linarith+
        then have "\<not> rbit st' ?p" using st'(3) [OF p(1)] pi by metis
        then show ?thesis using rbit_setImpl [OF st'(2) p(1)] pv nA False by auto
      qed
    qed
  qed
  then have "rp_rel w ?s' (E + int d) (insert (E + int d) A)"
    using rel r(3) st'(2) d(3) by (auto simp: rp_rel_def rp_config_def)
  then show ?thesis using sf by auto
qed


lemma cur_mod_less: "rp_rel w s E A \<Longrightarrow> mStorage s = Some st \<Longrightarrow> unat (mCurMax s) < 2 ^ w"
proof -
  assume "rp_rel w s E A" "mStorage s = Some st"
  then have "int (unat (mCurMax s)) < int (2 ^ w)" by (simp add: rp_rel_def)
  then show ?thesis by (simp only: of_nat_less_iff)
qed

lemma rp_index_mod:
  assumes rel: "rp_rel w s E A" and v: "unat value < 2 ^ w"
  shows "rp_index w s E value mod 2 ^ w = int (unat value)"
proof (cases "mStorage s")
  case None
  have "int (unat value) mod int (2 ^ w) = int (unat value)" using v by (simp only: zmod_int [symmetric] mod_less)
  then show ?thesis using None by (simp add: rp_index_def)
next
  case (Some st)
  have c: "int (unat (mCurMax s)) = E mod 2 ^ w" "unat (mCurMax s) < 2 ^ w"
    using rel Some cur_mod_less [OF rel Some] by (simp_all add: rp_rel_def)
  have iv: "int (unat value) < 2 ^ w" using v by (metis of_nat_less_iff of_nat_numeral of_nat_power)
  have base: "E mod 2 ^ w = int (unat (mCurMax s))" using c by simp
  consider "value > mCurMax s" | "\<not> value > mCurMax s"
      "getRolloverForwadDistance (mMaxPossibleValue s) (mCurMax s) value \<le> mMaxDistanceForward s"
    | "\<not> value > mCurMax s"
      "\<not> getRolloverForwadDistance (mMaxPossibleValue s) (mCurMax s) value \<le> mMaxDistanceForward s"
    by blast
  then obtain d where "rp_index w s E value = E + d" "(int (unat (mCurMax s)) + d) mod 2 ^ w = int (unat value)"
  proof cases
    case 1
    then show ?thesis
      using that [of "int (unat value - unat (mCurMax s))"] Some iv
      by (simp add: rp_index_def word_less_nat_alt)
  next
    case 2
    then show ?thesis
      using that [of "int (2 ^ w - unat (mCurMax s) + unat value)"] Some iv c(2)
      by (simp add: rp_index_def of_nat_diff)
  next
    case 3
    then show ?thesis
      using that [of "- int (unat (mCurMax s) - unat value)"] Some iv
      by (simp add: rp_index_def of_nat_diff word_less_nat_alt not_less)
  qed
  then show ?thesis using base by (metis mod_add_left_eq)
qed


text \<open>One guarded acceptance of the concrete filter is one acceptance of a fresh index.\<close>

lemma rp_set_refines:
  assumes rel: "rp_rel w s E A" and can: "canProceed s value" and v: "unat value < 2 ^ w"
  shows "rp_index w s E value \<notin> A \<and>
    (\<exists>s'. rp_set s value = Some (True, s') \<and>
       rp_rel w s' (rp_newest w s E value) (insert (rp_index w s E value) A))"
proof (cases "mStorage s")
  case None
  let ?st = "replicate (unat (mStorageSize s)) 0 :: bytes" and ?S = "mStorageSize s"
  have cfg: "0 < unat ?S" "8 * unat ?S dvd 2 ^ w" using rel by (auto simp: rp_rel_def rp_config_def)
  have self: "int (unat value) = int (unat value) mod 2 ^ w"
    using rp_index_mod [OF rel v] None by (simp add: rp_index_def)
  have "rbit (setImpl ?st ?S value) (nat (e mod int (8 * unat ?S))) \<longleftrightarrow> e = int (unat value)"
    if e: "int (unat value) - int (8 * unat ?S) < e" "e \<le> int (unat value)" for e
  proof -
    have p: "nat (e mod int (8 * unat ?S)) < 8 * unat ?S" using cfg(1) by (intro nat_mod_window) linarith
    then have "\<not> rbit ?st (nat (e mod int (8 * unat ?S)))" by (simp add: rbit_def less_mult_imp_div_less mult.commute)
    moreover have "nat (e mod int (8 * unat ?S)) = bit_pos ?S value \<longleftrightarrow> e = int (unat value)"
      using e by (intro bit_pos_eq_iff [OF cfg(2,1) self]) linarith
    ultimately show ?thesis using rbit_setImpl [OF length_replicate p] by simp
  qed
  then show ?thesis
    using None rel self by (auto simp: rp_set_def rp_rel_def rp_config_def rp_index_def rp_newest_def)
next
  case (Some st)
  let ?S = "mStorageSize s" and ?cur = "mCurMax s"
  let ?i = "rp_index w s E value"
  have cfg: "w \<le> 32" "mMaxPossibleValue s = mask w" "0 < unat ?S" "8 * unat ?S dvd 2 ^ w"
    "unat (mSize s) \<le> 8 * unat ?S" "unat (mMaxDistanceForward s) < 8 * unat ?S"
    using rel by (auto simp: rp_rel_def rp_config_def)
  have r: "length st = unat ?S" "\<forall>a \<in> A. a \<le> E" "E \<in> A" "int (unat ?cur) = E mod 2 ^ w"
    "\<And>e. E - int (8 * unat ?S) < e \<Longrightarrow> e \<le> E \<Longrightarrow> rbit st (nat (e mod int (8 * unat ?S))) = (e \<in> A)"
    using rel Some by (auto simp: rp_rel_def)
  have im: "?i mod 2 ^ w = int (unat value)" using rel v by (rule rp_index_mod)
  have cur: "unat ?cur < 2 ^ w" using rel Some by (rule cur_mod_less)
  have ne: "value \<noteq> ?cur" using can Some by (auto simp: canProceed_def)
  have fwd: ?thesis
    if d: "0 < d" "d < 8 * unat ?S" and i: "?i = E + int d" and set: "rp_set s value = map_option (Pair True) (setForward s st value)"
    for d
  proof -
    have "int (unat value) = (E + int d) mod 2 ^ w" using im i by simp
    from setForward_refines [OF rel Some d this] show ?thesis
      using r(2) d i set Some by (auto simp: rp_newest_def max_def)
  qed
  consider (above) "value > ?cur" | (roll) "value < ?cur"
      "getRolloverForwadDistance (mask w) ?cur value \<le> mMaxDistanceForward s"
    | (behind) "value < ?cur" "\<not> getRolloverForwadDistance (mask w) ?cur value \<le> mMaxDistanceForward s"
    using ne by fastforce
  then show ?thesis
  proof cases
    case above
    then have gap: "\<not> value - ?cur > mMaxDistanceForward s" using can Some by (auto simp: canProceed_def)
    have lt: "unat ?cur < unat value" using above by (simp add: word_less_nat_alt)
    have "unat (value - ?cur) = unat value - unat ?cur" using above by (simp add: unat_sub)
    then have "unat value - unat ?cur < 8 * unat ?S"
      using gap cfg(6) by (simp add: word_less_nat_alt)
    then show ?thesis
      using fwd [of "unat value - unat ?cur"] lt above gap Some by (auto simp: rp_index_def rp_set_def)
  next
    case roll
    have "2 ^ w - unat ?cur + unat value < 8 * unat ?S"
      using roll(2) cfg(6) rollover_distance [OF cfg(1) roll(1) cur] by (simp add: word_le_nat_alt)
    then show ?thesis
      using fwd [of "2 ^ w - unat ?cur + unat value"] roll cur Some cfg(2) by (auto simp: rp_index_def rp_set_def)
  next
    case behind
    have lt: "unat value < unat ?cur" using behind(1) by (simp add: word_less_nat_alt)
    have i: "?i = E - int (unat ?cur - unat value)" using behind Some cfg(2) by (auto simp: rp_index_def)
    have near: "\<not> ?cur - value \<ge> mSize s" and clear: "\<not> isSet st ?S value"
      using can Some behind cfg(2) by (auto simp: canProceed_def split: if_splits)
    have "unat (?cur - value) = unat ?cur - unat value" using behind(1) by (simp add: unat_sub)
    then have win: "E - int (8 * unat ?S) < ?i" "?i < E"
      using near lt cfg(5) i unfolding word_le_nat_alt by linarith+
    have pos: "int (bit_pos ?S value) = ?i mod int (8 * unat ?S)"
      using cfg(4) im [symmetric] by (rule bit_pos_index)
    then have pos': "nat (?i mod int (8 * unat ?S)) = bit_pos ?S value" by (metis nat_int)
    have notin: "?i \<notin> A" using clear r(5) [OF win(1)] win(2) unfolding isSet_rbit pos' by simp
    have "rbit (setImpl st ?S value) (nat (e mod int (8 * unat ?S))) = (e \<in> insert ?i A)"
      if e: "E - int (8 * unat ?S) < e" "e \<le> E" for e
    proof -
      have p: "nat (e mod int (8 * unat ?S)) < 8 * unat ?S" using cfg(3) by (intro nat_mod_window) linarith
      have "nat (e mod int (8 * unat ?S)) = bit_pos ?S value \<longleftrightarrow> e = ?i"
        using e win by (intro bit_pos_eq_iff [OF cfg(4,3) im [symmetric]]) linarith
      then show ?thesis using rbit_setImpl [OF r(1) p, of "value"] r(5) [OF e] by simp
    qed
    moreover have "rp_set s value = Some (True, s\<lparr>mStorage := Some (setImpl st ?S value)\<rparr>)"
      using near behind Some cfg(2) ne by (auto simp: rp_set_def split: if_splits)
    moreover have "rp_newest w s E value = E" using Some win by (simp add: rp_newest_def)
    ultimately show ?thesis
      using notin rel Some r win by (auto simp: rp_rel_def rp_config_def)
  qed
qed


section \<open>The contract of the filter\<close>

text \<open>
  What a user of the filter relies on (\<open>unprotectReceiveMedia\<close> and
  \<open>unprotectReceiveControl\<close> call \<^verbatim>\<open>canProceed\<close>, then authenticate, then call \<^verbatim>\<open>set\<close>): the
  state is related to a set of accepted indices, and accepting a value for which
  \<open>can\<close> holds adds an index that was not in it.
\<close>

locale replay_filter =
  fixes rel :: "'s \<Rightarrow> 'g \<Rightarrow> 'i set \<Rightarrow> bool"
    and can :: "'s \<Rightarrow> 'v \<Rightarrow> bool"
    and accept :: "'s \<Rightarrow> 'v \<Rightarrow> (bool \<times> 's) option"
    and index :: "'s \<Rightarrow> 'g \<Rightarrow> 'v \<Rightarrow> 'i"
    and ghost :: "'s \<Rightarrow> 'g \<Rightarrow> 'v \<Rightarrow> 'g"
    and valid :: "'v \<Rightarrow> bool"
  assumes accept_fresh: "rel s g A \<Longrightarrow> can s v \<Longrightarrow> valid v \<Longrightarrow>
      index s g v \<notin> A \<and>
      (\<exists>s'. accept s v = Some (True, s') \<and> rel s' (ghost s g v) (insert (index s g v) A))"
begin

lemma accept_total: "rel s g A \<Longrightarrow> can s v \<Longrightarrow> valid v \<Longrightarrow> accept s v \<noteq> None"
  by (metis accept_fresh option.distinct(1))

text \<open>The indices accepted from a list of arrivals, each accepted when the filter allows it.\<close>

fun accepted :: "'s \<Rightarrow> 'g \<Rightarrow> 'v list \<Rightarrow> 'i list option" where
  "accepted s g [] = Some []"
| "accepted s g (v # vs) =
     (if can s v then
        (case accept s v of
           None \<Rightarrow> None
         | Some (_, s') \<Rightarrow> map_option (Cons (index s g v)) (accepted s' (ghost s g v) vs))
      else accepted s g vs)"

lemma accepted_fresh:
  "rel s g A \<Longrightarrow> list_all valid vs \<Longrightarrow>
     \<exists>is. accepted s g vs = Some is \<and> distinct is \<and> set is \<inter> A = {}"
proof (induction vs arbitrary: s g A)
  case Nil
  then show ?case by simp
next
  case (Cons v vs)
  show ?case
  proof (cases "can s v")
    case True
    from accept_fresh [OF Cons.prems(1) True] Cons.prems(2)
    obtain s' where s': "index s g v \<notin> A" "accept s v = Some (True, s')"
      "rel s' (ghost s g v) (insert (index s g v) A)" by auto
    from Cons.IH [OF s'(3)] Cons.prems(2) s'(1,2) True show ?thesis by auto
  next
    case False
    with Cons show ?thesis by simp
  qed
qed

end

interpretation rp: replay_filter "rp_rel w" canProceed rp_set "rp_index w" "rp_newest w"
    "\<lambda>v. unat v < 2 ^ w" for w
  by unfold_locales (rule rp_set_refines)

text \<open>
  The run of the filter: each arrival is accepted when \<^verbatim>\<open>canProceed\<close> allows it, and then
  \<^verbatim>\<open>set\<close>. The result lists the unbounded indices of the accepted arrivals; it is \<open>None\<close> when a
  \<^verbatim>\<open>set\<close> does not return.
\<close>

fun rp_run :: "nat \<Rightarrow> ReplayProtection \<Rightarrow> int \<Rightarrow> u32 list \<Rightarrow> int list option" where
  "rp_run w s E [] = Some []"
| "rp_run w s E (v # vs) =
     (if canProceed s v then
        (case rp_set s v of
           None \<Rightarrow> None
         | Some (_, s') \<Rightarrow> map_option (Cons (rp_index w s E v)) (rp_run w s' (rp_newest w s E v) vs))
      else rp_run w s E vs)"

lemma rp_run_accepted: "rp_run w s E vs = rp.accepted w s E vs"
  by (induction vs arbitrary: s E) (auto split: option.splits)

lemma rp_new_rel:
  assumes "w = 16 \<or> w = 32"
  shows "rp_rel w (ReplayProtection_new (mask w) 2048) 0 {}"
proof -
  have "(2048::nat) dvd 2 ^ w" using assms by auto
  then show ?thesis using assms by (auto simp: rp_rel_def rp_config_def ReplayProtection_new_def)
qed

text \<open>
  C25. No replay: for the two configurations that the program creates (16-bit RTP sequence
  numbers and 32-bit SRTCP indices, window 2048), whatever values arrive in whatever order,
  every \<^verbatim>\<open>set\<close> returns and no packet index is accepted twice.
\<close>

theorem replay_never_accepted_twice:
  assumes "w = 16 \<or> w = 32" "list_all (\<lambda>v. unat v < 2 ^ w) vs"
  shows "\<exists>is. rp_run w (ReplayProtection_new (mask w) 2048) 0 vs = Some is \<and> distinct is"
  using rp.accepted_fresh [OF rp_new_rel [OF assms(1)] assms(2)] by (auto simp: rp_run_accepted)

theorem replay_never_accepted_twice_witness:
  "\<exists>is. rp_run 16 (ReplayProtection_new (mask 16) 2048) 0 [65535, 2, 65535, 1, 2, 0] = Some is \<and>
     distinct is"
  using replay_never_accepted_twice [of 16 "[65535, 2, 65535, 1, 2, 0]"] by simp

text \<open>The parts of the abstraction relation that a lookup uses.\<close>

lemma rp_rel_parts:
  assumes "rp_rel w s E A" "mStorage s = Some st"
  shows "w \<le> 32" "mMaxPossibleValue s = mask w" "8 * unat (mStorageSize s) dvd 2 ^ w"
    "unat (mSize s) \<le> 8 * unat (mStorageSize s)" "unat (mMaxDistanceForward s) < 8 * unat (mStorageSize s)"
    "0 < unat (mStorageSize s)" "\<forall>a \<in> A. a \<le> E" "E \<in> A"
    "E - int (8 * unat (mStorageSize s)) < e \<Longrightarrow> e \<le> E \<Longrightarrow>
       rbit st (nat (e mod int (8 * unat (mStorageSize s)))) = (e \<in> A)"
  using assms by (auto simp: rp_rel_def rp_config_def)

text \<open>What \<open>canProceed\<close> decides, as a predicate on indices.\<close>

definition rp_fresh :: "ReplayProtection \<Rightarrow> int \<Rightarrow> int set \<Rightarrow> int \<Rightarrow> bool" where
  "rp_fresh s E A i \<longleftrightarrow> i \<notin> A \<and> E - int (unat (mSize s)) < i \<and> i \<le> E + int (unat (mMaxDistanceForward s))"

lemma canProceed_ahead:
  assumes rel: "rp_rel w s E A" and st: "mStorage s = Some st" and i: "rp_index w s E v = E + int d" and d: "0 < d"
    and can: "canProceed s v \<longleftrightarrow> d \<le> unat (mMaxDistanceForward s)"
  shows "canProceed s v \<longleftrightarrow> rp_fresh s E A (rp_index w s E v)"
proof -
  have "E + int d \<notin> A" using rp_rel_parts(7) [OF rel st] d by force
  moreover have "E - int (unat (mSize s)) < E + int d" using d by linarith
  moreover have "E + int d \<le> E + int (unat (mMaxDistanceForward s)) \<longleftrightarrow> d \<le> unat (mMaxDistanceForward s)" by linarith
  ultimately show ?thesis unfolding rp_fresh_def i can by blast
qed

lemma canProceed_same:
  assumes rel: "rp_rel w s E A" and st: "mStorage s = Some st" and v: "v = mCurMax s"
  shows "canProceed s v \<longleftrightarrow> rp_fresh s E A (rp_index w s E v)"
proof -
  note p = rp_rel_parts [OF rel st]
  have "\<not> canProceed s v" using st v by (simp add: canProceed_def)
  moreover have "rp_index w s E v = E \<or> rp_index w s E v = E + int (2 ^ w)"
    using v st cur_mod_less [OF rel st] by (auto simp: rp_index_def)
  moreover have "8 * unat (mStorageSize s) \<le> 2 ^ w" using p(3) by (rule dvd_imp_le) simp
  then have "int (unat (mMaxDistanceForward s)) < int (2 ^ w)" using p(5) by (simp only: of_nat_less_iff)
  ultimately show ?thesis using p(8) unfolding rp_fresh_def by (metis add_less_cancel_left not_le)
qed

lemma canProceed_behind:
  assumes rel: "rp_rel w s E A" and st: "mStorage s = Some st" and v: "unat v < 2 ^ w" "v < mCurMax s"
    and far: "\<not> getRolloverForwadDistance (mask w) (mCurMax s) v \<le> mMaxDistanceForward s"
  shows "canProceed s v \<longleftrightarrow> rp_fresh s E A (rp_index w s E v)"
proof -
  note p = rp_rel_parts [OF rel st]
  let ?S = "mStorageSize s" and ?d = "unat (mCurMax s - v)" and ?i = "rp_index w s E v"
  have bd: "?d = unat (mCurMax s) - unat v" "unat v < unat (mCurMax s)"
    using v(2) by (simp add: unat_sub, simp add: word_less_nat_alt)
  have i: "?i = E - int ?d" using far v bd st p(2) by (auto simp: rp_index_def)
  have can: "canProceed s v \<longleftrightarrow> ?d < unat (mSize s) \<and> \<not> isSet st ?S v"
    using far v st p(2) by (auto simp: canProceed_def word_le_nat_alt)
  have "isSet st ?S v \<longleftrightarrow> ?i \<in> A" if "?d < unat (mSize s)"
  proof -
    have win: "E - int (8 * unat ?S) < ?i" "?i \<le> E" using i that p(4) by linarith+
    have "int (unat v) = ?i mod 2 ^ w" using rp_index_mod [OF rel v(1)] by simp
    then have "nat (?i mod int (8 * unat ?S)) = bit_pos ?S v"
      using bit_pos_eq_iff [OF p(3,6), of v ?i ?i] p(6) by linarith
    then show ?thesis using p(9) [OF win] unfolding isSet_rbit by simp
  qed
  moreover have "E - int (unat (mSize s)) < ?i \<longleftrightarrow> ?d < unat (mSize s)" unfolding i by linarith
  moreover have "?i \<le> E + int (unat (mMaxDistanceForward s))" unfolding i by linarith
  ultimately show ?thesis using can unfolding rp_fresh_def by blast
qed

lemma canProceed_index:
  assumes rel: "rp_rel w s E A" and some: "mStorage s \<noteq> None" and v: "unat v < 2 ^ w"
  shows "canProceed s v \<longleftrightarrow>
     rp_index w s E v \<notin> A \<and> E - int (unat (mSize s)) < rp_index w s E v \<and>
     rp_index w s E v \<le> E + int (unat (mMaxDistanceForward s))"
proof -
  obtain st where st: "mStorage s = Some st" using some by auto
  let ?cur = "mCurMax s"
  note p = rp_rel_parts [OF rel st]
  have cur: "unat ?cur < 2 ^ w" using rel st by (rule cur_mod_less)
  consider (above) "v > ?cur" | (same) "v = ?cur" | (wrapped) "v < ?cur" "getRolloverForwadDistance (mask w) ?cur v \<le> mMaxDistanceForward s"
    | (behind) "v < ?cur" "\<not> getRolloverForwadDistance (mask w) ?cur v \<le> mMaxDistanceForward s" by fastforce
  then have "canProceed s v \<longleftrightarrow> rp_fresh s E A (rp_index w s E v)"
  proof cases
    case above
    then have d: "unat (v - ?cur) = unat v - unat ?cur" "unat ?cur < unat v" 
      by (simp add: unat_sub, simp add: word_less_nat_alt)
    show ?thesis
      by (rule canProceed_ahead [OF rel st, of _ "unat (v - ?cur)"])
        (use above st d in \<open>auto simp: rp_index_def canProceed_def word_less_nat_alt\<close>)
  next
    case wrapped
    have dist: "unat (getRolloverForwadDistance (mask w) ?cur v) = 2 ^ w - unat ?cur + unat v"
      using p(1) wrapped(1) cur by (rule rollover_distance)
    have le: "2 ^ w - unat ?cur + unat v \<le> unat (mMaxDistanceForward s)" using wrapped(2) unfolding word_le_nat_alt dist .
    show ?thesis
      by (rule canProceed_ahead [OF rel st, of _ "2 ^ w - unat ?cur + unat v"])
        (use wrapped st p(2) cur le in \<open>auto simp: rp_index_def canProceed_def\<close>)
  qed (use canProceed_same [OF rel st] canProceed_behind [OF rel st v] in auto)
  then show ?thesis unfolding rp_fresh_def .
qed

text \<open>
  C26. What the filter lets through, exactly: once a first packet is in, a value passes
  \<^verbatim>\<open>canProceed\<close> if and only if the packet index it stands for has not been accepted before, is
  less than a window behind the newest index and at most a quarter window ahead of it.
\<close>

theorem canProceed_exact:
  assumes rel: "rp_rel w s E A" and some: "mStorage s \<noteq> None" and v: "unat v < 2 ^ w"
  shows "canProceed s v \<longleftrightarrow>
     rp_index w s E v \<notin> A \<and> E - int (unat (mSize s)) < rp_index w s E v \<and>
     rp_index w s E v \<le> E + int (unat (mMaxDistanceForward s))"
  using canProceed_index [OF assms] .

theorem canProceed_exact_witness:
  "\<exists>s. rp_set (ReplayProtection_new (mask 16) 2048) 100 = Some (True, s) \<and>
     (canProceed s 7 \<longleftrightarrow> rp_index 16 s 100 7 \<notin> {100} \<and> 100 - 2048 < rp_index 16 s 100 7 \<and>
        rp_index 16 s 100 7 \<le> 100 + 512)"
proof -
  let ?s0 = "ReplayProtection_new (mask 16) 2048"
  have "canProceed ?s0 100" by (simp add: canProceed_def ReplayProtection_new_def)
  with rp_set_refines [OF rp_new_rel, of 16 100]
  obtain s where s: "rp_set ?s0 100 = Some (True, s)"
    "rp_rel 16 s (rp_newest 16 ?s0 0 100) (insert (rp_index 16 ?s0 0 100) {})" by auto
  have e: "rp_index 16 ?s0 0 100 = 100" "rp_newest 16 ?s0 0 100 = 100"
    by (simp_all add: rp_index_def rp_newest_def ReplayProtection_new_def)
  have m: "mStorage s \<noteq> None" "mSize s = 2048" "mMaxDistanceForward s = 512"
    using s(1) by (auto simp: rp_set_def ReplayProtection_new_def)
  show ?thesis
    using canProceed_exact [of 16 s 100 "{100}" 7] s e m by auto
qed

end
