(* ===== verification/Jitter_Buffer.thy ===== *)
theory Jitter_Buffer
  imports Depacketizer Extended_Value Extension_Sources
begin

text \<open>
  \<^verbatim>\<open>src/jitter_buffer.cpp\<close>: the receive buffer that puts packets back in order, asks for lost
  ones, and hands complete frames to the depacketizer. Times are nanoseconds of the steady
  clock; a call reads the clock once. Sequence numbers are extended 64-bit counters, kept as
  natural numbers: the sums of the code add at most the capacity to them. \<^const>\<open>None\<close> is the use
  of a null item, or undefined behaviour of the depacketizer. The assertions of the code are
  disabled, as in a release build.
\<close>

unbundle bit_operations_syntax

record EncodedFrame =
  fr_track :: Track
  fr_seq_ext :: nat
  fr_rtp_timestamp_ext :: u64
  fr_abs_capture_time_ntp :: u64
  fr_abs_capture_time_offset :: int
  fr_marker :: bool
  fr_first_to_last_packet_millis :: int
  fr_wait_time_millis :: int
  fr_data :: bytes

record 'd JitterBuffer =
  jbTrack :: Track
  jbDepacketizer :: "'d Depacketizer"
  jbDepState :: 'd
  mCapacity :: nat
  mLength :: int
  mNackDelay :: int
  mAbsCaptureTimeExtensionId :: u8
  mLastPacketTime :: int
  mItemList :: "JitterBufferItem option list option"
  mMinSeq :: nat
  mMaxSeq :: nat
  mExtValueSeq :: "16 ExtendedValue"
  mExtValueRtpTimestamp :: "32 ExtendedValue"
  mBaseTime :: int
  mBaseRtpTimestamp :: u64
  mLastFrameTimeStamp :: "u64 option"

definition time_point_min :: int where "time_point_min = - (2 ^ 63)"
definition time_point_max :: int where "time_point_max = 2 ^ 63 - 1"
definition millis :: int where "millis = 1000000"
definition kNoPacketsResetDelay :: int where [const_defs]: "kNoPacketsResetDelay = 2000 * millis"

text \<open>The cast to \<^verbatim>\<open>milliseconds\<close> truncates towards zero, the one to \<^verbatim>\<open>int\<close> keeps 32 bits.\<close>

definition diff_millis :: "int \<Rightarrow> int \<Rightarrow> int" where
  "diff_millis when now =
     (let d = when - now + 500000
      in signed_take_bit 31 (if d \<ge> 0 then d div millis else - (- d div millis)))"

definition JitterBuffer_new ::
  "Track \<Rightarrow> 'd Depacketizer \<Rightarrow> 'd \<Rightarrow> nat \<Rightarrow> int \<Rightarrow> int \<Rightarrow> 'd JitterBuffer" where
  "JitterBuffer_new track depacketizer d capacity len nackDelay =
     \<lparr>jbTrack = track, jbDepacketizer = depacketizer, jbDepState = d, mCapacity = capacity, mLength = len,
      mNackDelay = nackDelay, mAbsCaptureTimeExtensionId = track_ext_id track kExtAbsCaptureTime,
      mLastPacketTime = time_point_min, mItemList = None, mMinSeq = 0, mMaxSeq = 0,
      mExtValueSeq = ExtendedValue_new, mExtValueRtpTimestamp = ExtendedValue_new,
      mBaseTime = time_point_min, mBaseRtpTimestamp = 0, mLastFrameTimeStamp = None\<rparr>"

section \<open>The items\<close>

definition jb_index :: "'d JitterBuffer \<Rightarrow> nat \<Rightarrow> nat" where
  "jb_index jb s = s AND (mCapacity jb - 1)"

definition get_item :: "'d JitterBuffer \<Rightarrow> nat \<Rightarrow> JitterBufferItem option" where
  "get_item jb s = (case mItemList jb of Some xs \<Rightarrow> (if jb_index jb s < length xs then xs ! jb_index jb s else None)
                    | None \<Rightarrow> None)"

definition set_item :: "'d JitterBuffer \<Rightarrow> nat \<Rightarrow> JitterBufferItem option \<Rightarrow> 'd JitterBuffer" where
  "set_item jb s it = jb\<lparr>mItemList := map_option (\<lambda>xs. xs[jb_index jb s := it]) (mItemList jb)\<rparr>"

definition newItem :: JitterBufferItem where
  "newItem = \<lparr>when_received = 0, when_dequeue = 0, when_nack_request = 0, when_nack_abandon = 0, it_received = False,
     nack_needed = False, it_kind = Standalone, seq_ext = 0, rtp_timestamp_ext = 0, it_marker = False,
     it_extension = RtpExtension_none, it_payload = []\<rparr>"

definition newLostItem :: "int \<Rightarrow> int \<Rightarrow> nat \<Rightarrow> JitterBufferItem" where
  "newLostItem request abandon seq_lost =
     newItem\<lparr>when_received := time_point_min, when_dequeue := time_point_max, when_nack_request := request,
       when_nack_abandon := abandon, it_received := False, nack_needed := True, seq_ext := seq_lost,
       rtp_timestamp_ext := 0\<rparr>"

definition freeEverything :: "'d JitterBuffer \<Rightarrow> 'd JitterBuffer" where
  "freeEverything jb = jb\<lparr>mItemList := None, mLastFrameTimeStamp := None\<rparr>"

definition fill_lost :: "int \<Rightarrow> int \<Rightarrow> nat list \<Rightarrow> 'd JitterBuffer \<Rightarrow> 'd JitterBuffer" where
  "fill_lost request abandon seqs jb =
     fold (\<lambda>s jb. set_item jb s (Some (newLostItem request abandon s))) seqs jb"

definition deleteItemList :: "nat \<Rightarrow> nat \<Rightarrow> 'd JitterBuffer \<Rightarrow> 'd JitterBuffer" where
  "deleteItemList start last_seq jb = fold (\<lambda>s jb. set_item jb s None) [start..<last_seq + 1] jb"

fun fillItemList :: "'d JitterBuffer \<Rightarrow> nat list \<Rightarrow> JitterBufferItem list option" where
  "fillItemList jb [] = Some []"
| "fillItemList jb (s # seqs) = do { it \<leftarrow> get_item jb s; its \<leftarrow> fillItemList jb seqs; Some (it # its) }"

section \<open>Consuming packets\<close>

text \<open>RTX unwrapping: \<^const>\<open>None\<close> is the early return for a payload that is too short.\<close>

definition unwrap_rtx :: "Track \<Rightarrow> RtpPacket \<Rightarrow> (u16 \<times> bytes) option" where
  "unwrap_rtx track packet =
     (if pkt_ssrc packet = track_rtxSsrc track \<and> pkt_payloadId packet = track_rtxPayloadId track then
        (if length (pkt_payload packet) < 2 then None
         else Some (be16 (pkt_payload packet), drop 2 (pkt_payload packet)))
      else Some (pkt_sequence packet, pkt_payload packet))"

text \<open>The delta is unsigned; its conversion to signed milliseconds and then to nanoseconds wraps.\<close>

definition jb_dequeue_time :: "'d JitterBuffer \<Rightarrow> u64 \<Rightarrow> int" where
  "jb_dequeue_time jb ts =
     (let rtp_timestamp_delta = ts - mBaseRtpTimestamp jb;
          time_delta = sint ((1000 * rtp_timestamp_delta) div ucast (track_clockRate (jbTrack jb)));
          packet_time = wrap64 (mBaseTime jb + wrap64 (time_delta * millis))
      in wrap64 (packet_time + mLength jb))"

text \<open>
  Makes room for the packet with extended sequence number \<open>s\<close>: the items of packets that are
  now known to be lost are added between it and the window. \<^const>\<open>None\<close>: the packet is dropped.
\<close>

definition jb_place :: "int \<Rightarrow> int \<Rightarrow> nat \<Rightarrow> 'd JitterBuffer \<Rightarrow> 'd JitterBuffer option" where
  "jb_place request abandon s jb =
     (if s < mMinSeq jb then
        (if s + mCapacity jb < mMaxSeq jb then None
         else let jb = fill_lost request abandon (rev [s + 1..<mMinSeq jb]) jb;
                  jb = set_item jb s (Some newItem)
              in Some (jb\<lparr>mMinSeq := s\<rparr>))
      else if s \<ge> mMaxSeq jb then
        (if s > mMinSeq jb + mCapacity jb then None
         else let jb = fill_lost request abandon [mMaxSeq jb..<s] jb;
                  jb = set_item jb s (Some newItem)
              in Some (jb\<lparr>mMaxSeq := s + 1\<rparr>))
      else Some jb)"

text \<open>The fix-up of packet kinds by comparing the timestamps of neighbours.\<close>

definition jb_fix_kind :: "'d JitterBuffer \<Rightarrow> JitterBufferItem \<Rightarrow> JitterBufferItem option" where
  "jb_fix_kind jb item =
     (if it_kind item = Start \<and> mMinSeq jb < seq_ext item then do {
        prev_item \<leftarrow> get_item jb (seq_ext item - 1);
        Some (if rtp_timestamp_ext prev_item = rtp_timestamp_ext item \<and>
                 (it_kind prev_item = Start \<or> it_kind prev_item = Middle)
              then item\<lparr>it_kind := Middle\<rparr> else item)
      } else Some item)"

definition jb_fix_next :: "'d JitterBuffer \<Rightarrow> JitterBufferItem \<Rightarrow> 'd JitterBuffer option" where
  "jb_fix_next jb item =
     (if (it_kind item = Start \<or> it_kind item = Middle) \<and> seq_ext item + 1 < mMaxSeq jb then do {
        next_item \<leftarrow> get_item jb (seq_ext item + 1);
        Some (if rtp_timestamp_ext next_item = rtp_timestamp_ext item \<and> it_kind next_item = Start
              then set_item jb (seq_ext item + 1) (Some (next_item\<lparr>it_kind := Middle\<rparr>)) else jb)
      } else Some jb)"

text \<open>After two seconds without packets, a packet far ahead resets the buffer.\<close>

definition jb_maybe_reset :: "int \<Rightarrow> nat \<Rightarrow> 'd JitterBuffer \<Rightarrow> 'd JitterBuffer" where
  "jb_maybe_reset now s jb =
     (if mItemList jb \<noteq> None \<and> now - mLastPacketTime jb \<ge> kNoPacketsResetDelay \<and>
         s \<ge> mMaxSeq jb + mCapacity jb div 8
      then (freeEverything jb)\<lparr>jbDepState := dp_reset (jbDepacketizer jb) (jbDepState jb)\<rparr> else jb)"

definition jb_first :: "int \<Rightarrow> nat \<Rightarrow> u64 \<Rightarrow> 'd JitterBuffer \<Rightarrow> 'd JitterBuffer" where
  "jb_first now s ts jb =
     set_item (jb\<lparr>mMinSeq := s, mMaxSeq := s + 1, mItemList := Some (replicate (mCapacity jb) None),
        mBaseTime := now, mBaseRtpTimestamp := ts\<rparr>) s (Some newItem)"

text \<open>Puts the packet in its slot.\<close>

definition jb_store ::
  "int \<Rightarrow> nat \<Rightarrow> u64 \<Rightarrow> bool \<Rightarrow> RtpExtension \<Rightarrow> bytes \<Rightarrow> 'd JitterBuffer \<Rightarrow> 'd JitterBuffer option" where
  "jb_store now s ts marker extension payload jb =
     (let when_dequeue = jb_dequeue_time jb ts;
          request = now + mNackDelay jb
      in case jb_place request when_dequeue s jb of
           None \<Rightarrow> Some jb
         | Some jb \<Rightarrow> do {
             item \<leftarrow> get_item jb s;
             kind \<leftarrow> dp_getPacketKind (jbDepacketizer jb) payload marker;
             let item = item\<lparr>when_received := now, when_dequeue := when_dequeue, when_nack_request := request,
               when_nack_abandon := when_dequeue, it_received := True, nack_needed := False, seq_ext := s,
               rtp_timestamp_ext := ts, it_marker := marker, it_extension := extension, it_payload := payload,
               it_kind := kind\<rparr>;
             item \<leftarrow> jb_fix_kind jb item;
             jb_fix_next (set_item jb s (Some item)) item
           })"

text \<open>The part of \<^verbatim>\<open>consume\<close> after the numbers of the packet have been extended.\<close>

definition jb_consume_ext ::
  "int \<Rightarrow> nat \<Rightarrow> u64 \<Rightarrow> bool \<Rightarrow> RtpExtension \<Rightarrow> bytes \<Rightarrow> 'd JitterBuffer \<Rightarrow> 'd JitterBuffer option" where
  "jb_consume_ext now s ts marker extension payload jb =
     (if (case mLastFrameTimeStamp jb of Some t \<Rightarrow> t > ts | None \<Rightarrow> False) then Some jb
      else
        let jb = (jb_maybe_reset now s jb)\<lparr>mLastPacketTime := now\<rparr>
        in if mItemList jb = None then jb_store now s ts marker extension payload (jb_first now s ts jb)
           else if s + mCapacity jb div 4 \<le> mMinSeq jb then Some jb
           else if s \<ge> mMaxSeq jb + mCapacity jb div 4 then Some jb
           else jb_store now s ts marker extension payload jb)"

definition jb_consume :: "int \<Rightarrow> RtpPacket \<Rightarrow> 'd JitterBuffer \<Rightarrow> 'd JitterBuffer option" where
  "jb_consume now packet jb =
     (case unwrap_rtx (jbTrack jb) packet of
        None \<Rightarrow> Some jb
      | Some (seq, payload) \<Rightarrow>
          let (s, es) = Extended_Value.extend now (mExtValueSeq jb) seq;
              (ts, et) = Extended_Value.extend now (mExtValueRtpTimestamp jb) (pkt_timestamp packet)
          in jb_consume_ext now (unat s) ts (pkt_marker packet) (pkt_extension packet) payload
               (jb\<lparr>mExtValueSeq := es, mExtValueRtpTimestamp := et\<rparr>))"

section \<open>Timeouts\<close>

text \<open>The state of the scan: the times of the next nack request, nack abandon and dequeue.\<close>

type_synonym timeouts = "int option \<times> int option \<times> int option"

definition timeout_item :: "int \<Rightarrow> JitterBufferItem \<Rightarrow> timeouts \<Rightarrow> timeouts" where
  "timeout_item now item = (\<lambda>(request, abandon, dequeue).
     if it_received item then
       (request, abandon, if dequeue = None then Some (diff_millis (when_dequeue item) now) else dequeue)
     else
       (if request = None \<and> nack_needed item then Some (diff_millis (when_nack_request item) now) else request,
        if abandon = None then Some (diff_millis (when_nack_abandon item) now) else abandon,
        dequeue))"

function timeout_loop :: "int \<Rightarrow> int \<Rightarrow> 'd JitterBuffer \<Rightarrow> nat \<Rightarrow> timeouts \<Rightarrow> timeouts option" where
  "timeout_loop now cutoff jb s t =
     (if s < mMaxSeq jb then
        (case get_item jb s of
           None \<Rightarrow> None
         | Some item \<Rightarrow>
             let t' = timeout_item now item t; (request, abandon, dequeue) = t' in
             if dequeue \<noteq> None \<and> request \<noteq> None \<and> abandon \<noteq> None then Some t'
             else if when_dequeue item > cutoff \<and> when_nack_request item > cutoff \<and> when_nack_abandon item > cutoff
             then Some t'
             else timeout_loop now cutoff jb (s + 1) t')
      else Some t)"
  by pat_completeness auto
termination
  by (relation "measure (\<lambda>(_, _, jb, s, _). mMaxSeq jb - s)") auto

definition min_timeout :: "int option \<Rightarrow> int \<Rightarrow> int" where
  "min_timeout t timeout = (case t of Some v \<Rightarrow> if v < timeout then v else timeout | None \<Rightarrow> timeout)"

definition getTimeoutMillis :: "int \<Rightarrow> int \<Rightarrow> 'd JitterBuffer \<Rightarrow> int option" where
  "getTimeoutMillis now defaultTimeout jb =
     (if mItemList jb = None then Some defaultTimeout
      else
        let cutoff = now + defaultTimeout * millis;
            never = (if track_hasNack (jbTrack jb) then None else Some (2 * defaultTimeout))
        in do {
          (request, abandon, dequeue) \<leftarrow> timeout_loop now cutoff jb (mMinSeq jb) (never, never, None);
          Some (min_timeout dequeue (min_timeout abandon (min_timeout request defaultTimeout)))
        })"

section \<open>Frames\<close>

datatype SequenceResult = Complete nat | Gap | Abandoned nat

function findMultiPacketSequence_loop :: "'d JitterBuffer \<Rightarrow> nat \<Rightarrow> SequenceResult option" where
  "findMultiPacketSequence_loop jb s =
     (if s < mMaxSeq jb then
        (case get_item jb s of
           None \<Rightarrow> None
         | Some item \<Rightarrow>
             if \<not> it_received item then Some Gap
             else if it_kind item = End then Some (Complete s)
             else if it_kind item \<noteq> Middle then Some (Abandoned s)
             else findMultiPacketSequence_loop jb (s + 1))
      else Some Gap)"
  by pat_completeness auto
termination
  by (relation "measure (\<lambda>(jb, s). mMaxSeq jb - s)") auto

text \<open>An abandoned sequence is deleted up to and including the item that breaks it.\<close>

definition findMultiPacketSequence :: "'d JitterBuffer \<Rightarrow> (SequenceResult \<times> 'd JitterBuffer) option" where
  "findMultiPacketSequence jb = do {
     r \<leftarrow> findMultiPacketSequence_loop jb (mMinSeq jb + 1);
     Some (r, case r of Abandoned s \<Rightarrow> (deleteItemList (mMinSeq jb) s jb)\<lparr>mMinSeq := s + 1\<rparr> | _ \<Rightarrow> jb)
   }"

fun findNextToDequeue_loop :: "int \<Rightarrow> u64 \<Rightarrow> 'd JitterBuffer \<Rightarrow> nat list \<Rightarrow> bool option" where
  "findNextToDequeue_loop now startTimestamp jb [] = Some False"
| "findNextToDequeue_loop now startTimestamp jb (s # seqs) = do {
     item \<leftarrow> get_item jb s;
     if it_received item \<and> rtp_timestamp_ext item > startTimestamp \<and> diff_millis (when_dequeue item) now \<le> 0
     then Some True else findNextToDequeue_loop now startTimestamp jb seqs
   }"

definition findNextToDequeue :: "int \<Rightarrow> 'd JitterBuffer \<Rightarrow> bool option" where
  "findNextToDequeue now jb = do {
     item \<leftarrow> get_item jb (mMinSeq jb);
     findNextToDequeue_loop now (rtp_timestamp_ext item) jb [mMinSeq jb + 1..<mMaxSeq jb]
   }"

text \<open>The capture time extension: the value and, if present, the offset.\<close>

definition absCaptureTime :: "u8 \<Rightarrow> RtpExtension \<Rightarrow> (u64 \<times> u64) option" where
  "absCaptureTime extId extension =
     (if extId \<noteq> 0 then do {
        v \<leftarrow> findAny extension extId;
        case v of
          Some val \<Rightarrow>
            if length val \<ge> 8 then do {
              (ntp, reader) \<leftarrow> readU64 (ByteReader_new val);
              if remaining reader \<ge> 8
              then do { (offset, reader) \<leftarrow> readU64 reader; Some (ntp, offset) }
              else Some (ntp, 0)
            } else Some (0, 0)
        | None \<Rightarrow> Some (0, 0)
      } else Some (0, 0))"

definition appendToResult ::
  "JitterBufferItem \<Rightarrow> JitterBufferItem \<Rightarrow> int \<Rightarrow> bytes list \<Rightarrow> 'd JitterBuffer \<Rightarrow>
   (EncodedFrame list \<times> 'd JitterBuffer) option" where
  "appendToResult item last_item now frames jb =
     (if frames = [] then Some ([], jb)
      else if (case mLastFrameTimeStamp jb of Some t \<Rightarrow> t > rtp_timestamp_ext item | None \<Rightarrow> False) then Some ([], jb)
      else do {
        (ntp, offset) \<leftarrow> absCaptureTime (mAbsCaptureTimeExtensionId jb) (it_extension item);
        Some (map (\<lambda>i. \<lparr>fr_track = jbTrack jb, fr_seq_ext = seq_ext item, fr_rtp_timestamp_ext = rtp_timestamp_ext item,
                fr_abs_capture_time_ntp = ntp, fr_abs_capture_time_offset = sint offset,
                fr_marker = (it_marker last_item \<and> i = length frames - 1),
                fr_first_to_last_packet_millis = diff_millis (when_received last_item) (when_received item),
                fr_wait_time_millis = diff_millis now (when_received last_item),
                fr_data = frames ! i\<rparr>) [0..<length frames],
              jb\<lparr>mLastFrameTimeStamp := Some (rtp_timestamp_ext item)\<rparr>)
      })"

text \<open>Extracts the frames of a list of packets and appends them to the result.\<close>

definition jb_emit ::
  "int \<Rightarrow> JitterBufferItem list \<Rightarrow> JitterBufferItem \<Rightarrow> JitterBufferItem \<Rightarrow> 'd JitterBuffer \<Rightarrow>
   (EncodedFrame list \<times> 'd JitterBuffer) option" where
  "jb_emit now packets item last_item jb = do {
     (frames, d) \<leftarrow> dp_extract (jbDepacketizer jb) packets (jbDepState jb);
     appendToResult item last_item now frames (jb\<lparr>jbDepState := d\<rparr>)
   }"

definition jb_drop_min :: "'d JitterBuffer \<Rightarrow> 'd JitterBuffer" where
  "jb_drop_min jb = (set_item jb (mMinSeq jb) None)\<lparr>mMinSeq := mMinSeq jb + 1\<rparr>"

text \<open>One iteration of \<^verbatim>\<open>processDeque\<close>: the frames, the new state, and whether the loop goes on.\<close>

definition deque_step :: "int \<Rightarrow> 'd JitterBuffer \<Rightarrow> (EncodedFrame list \<times> 'd JitterBuffer \<times> bool) option" where
  "deque_step now jb = do {
     item \<leftarrow> get_item jb (mMinSeq jb);
     if it_received item \<and> diff_millis (when_dequeue item) now \<le> 0 then
       (case it_kind item of
          Standalone \<Rightarrow> do {
            (frames, jb) \<leftarrow> jb_emit now [item] item item jb;
            Some (frames, jb_drop_min jb, True)
          }
        | Start \<Rightarrow> do {
            (r, jb') \<leftarrow> findMultiPacketSequence jb;
            case r of
              Complete s \<Rightarrow> do {
                packets \<leftarrow> fillItemList jb [mMinSeq jb..<s + 1];
                last_item \<leftarrow> get_item jb s;
                (frames, jb) \<leftarrow> jb_emit now packets item last_item jb;
                Some (frames, (deleteItemList (mMinSeq jb) s jb)\<lparr>mMinSeq := s + 1\<rparr>, True)
              }
            | Gap \<Rightarrow> do {
                ready \<leftarrow> findNextToDequeue now jb;
                if ready then Some ([], jb_drop_min jb, True) else Some ([], jb, False)
              }
            | Abandoned s \<Rightarrow> Some ([], jb', True)
          }
        | _ \<Rightarrow> Some ([], jb_drop_min jb, True))
     else if \<not> it_received item \<and> diff_millis (when_nack_abandon item) now \<le> 0
     then Some ([], jb_drop_min jb, True)
     else Some ([], jb, False)
   }"

section \<open>Nacks\<close>

fun nack_loop :: "int \<Rightarrow> nat list \<Rightarrow> 'd JitterBuffer \<Rightarrow> (u16 list \<times> 'd JitterBuffer) option" where
  "nack_loop now [] jb = Some ([], jb)"
| "nack_loop now (s # seqs) jb = do {
     item \<leftarrow> get_item jb s;
     if diff_millis (when_nack_request item) now \<le> 0 then
       (if \<not> it_received item \<and> nack_needed item then do {
          (rest, jb) \<leftarrow> nack_loop now seqs (set_item jb s (Some (item\<lparr>nack_needed := False\<rparr>)));
          Some (of_nat (seq_ext item) # rest, jb)
        } else nack_loop now seqs jb)
     else if diff_millis (when_nack_abandon item) now \<le> 0 then Some ([], jb)
     else nack_loop now seqs jb
   }"

definition processNack :: "int \<Rightarrow> 'd JitterBuffer \<Rightarrow> (u16 list \<times> 'd JitterBuffer) option" where
  "processNack now jb =
     (if mItemList jb = None \<or> mMinSeq jb = mMaxSeq jb \<or> \<not> track_hasNack (jbTrack jb) then Some ([], jb)
      else nack_loop now [mMinSeq jb..<mMaxSeq jb] jb)"

lemma set_item_fields [simp]:
  "jbTrack (set_item jb s x) = jbTrack jb" "jbDepacketizer (set_item jb s x) = jbDepacketizer jb"
  "jbDepState (set_item jb s x) = jbDepState jb" "mCapacity (set_item jb s x) = mCapacity jb"
  "mLength (set_item jb s x) = mLength jb" "mNackDelay (set_item jb s x) = mNackDelay jb"
  "mMinSeq (set_item jb s x) = mMinSeq jb" "mMaxSeq (set_item jb s x) = mMaxSeq jb"
  "mLastFrameTimeStamp (set_item jb s x) = mLastFrameTimeStamp jb" "mItemList (set_item jb s x) = None \<longleftrightarrow> mItemList jb = None"
  "mAbsCaptureTimeExtensionId (set_item jb s x) = mAbsCaptureTimeExtensionId jb"
  by (simp_all add: set_item_def)

section \<open>The dequeue loop\<close>

lemma findMulti_bounds:
  "findMultiPacketSequence_loop jb s = Some r \<Longrightarrow>
     (case r of Complete t \<Rightarrow> s \<le> t \<and> t < mMaxSeq jb | Abandoned t \<Rightarrow> s \<le> t \<and> t < mMaxSeq jb | Gap \<Rightarrow> True)"
proof (induction jb s rule: findMultiPacketSequence_loop.induct)
  case (1 jb s)
  show ?case
  proof (cases "s < mMaxSeq jb")
    case True
    show ?thesis
    proof (cases "get_item jb s")
      case None
      then show ?thesis using True "1.prems" by (simp add: findMultiPacketSequence_loop.simps [of jb s])
    next
      case (Some it)
      then show ?thesis
        using True "1.prems" "1.IH" [OF True Some]
        by (auto simp: findMultiPacketSequence_loop.simps [of jb s] split: SequenceResult.splits if_splits)
    qed
  next
    case False
    then show ?thesis using "1.prems" by (simp add: findMultiPacketSequence_loop.simps [of jb s])
  qed
qed

declare findMultiPacketSequence_loop.simps [simp del] timeout_loop.simps [simp del]

lemma deleteItemList_fields [simp]:
  "mMaxSeq (deleteItemList a b jb) = mMaxSeq jb" "mMinSeq (deleteItemList a b jb) = mMinSeq jb"
  "jbDepacketizer (deleteItemList a b jb) = jbDepacketizer jb" "jbDepState (deleteItemList a b jb) = jbDepState jb"
  "mLastFrameTimeStamp (deleteItemList a b jb) = mLastFrameTimeStamp jb" "mCapacity (deleteItemList a b jb) = mCapacity jb"
proof -
  have "mMaxSeq (fold (\<lambda>s jb. set_item jb s None) ss jb) = mMaxSeq jb \<and>
      mMinSeq (fold (\<lambda>s jb. set_item jb s None) ss jb) = mMinSeq jb \<and>
      jbDepacketizer (fold (\<lambda>s jb. set_item jb s None) ss jb) = jbDepacketizer jb \<and>
      jbDepState (fold (\<lambda>s jb. set_item jb s None) ss jb) = jbDepState jb \<and>
      mLastFrameTimeStamp (fold (\<lambda>s jb. set_item jb s None) ss jb) = mLastFrameTimeStamp jb \<and>
      mCapacity (fold (\<lambda>s jb. set_item jb s None) ss jb) = mCapacity jb" for ss
    by (induction ss arbitrary: jb) auto
  then show "mMaxSeq (deleteItemList a b jb) = mMaxSeq jb" "mMinSeq (deleteItemList a b jb) = mMinSeq jb"
    "jbDepacketizer (deleteItemList a b jb) = jbDepacketizer jb" "jbDepState (deleteItemList a b jb) = jbDepState jb"
    "mLastFrameTimeStamp (deleteItemList a b jb) = mLastFrameTimeStamp jb" "mCapacity (deleteItemList a b jb) = mCapacity jb"
    by (simp_all add: deleteItemList_def)
qed

lemma appendToResult_fields:
  "appendToResult item l now frames jb = Some (fs, jb') \<Longrightarrow>
     \<exists>t. jb' = jb\<lparr>mLastFrameTimeStamp := t\<rparr>"
  by (cases "mLastFrameTimeStamp jb") (auto simp: appendToResult_def split: if_splits bind_splits
      intro: exI [of _ "mLastFrameTimeStamp jb"] exI [of _ "Some (rtp_timestamp_ext item)"])

lemma jb_emit_fields:
  "jb_emit now ps item l jb = Some (fs, jb') \<Longrightarrow> \<exists>d t. jb' = jb\<lparr>jbDepState := d, mLastFrameTimeStamp := t\<rparr>"
  by (auto simp: jb_emit_def split: bind_splits dest!: appendToResult_fields)

lemma jb_drop_min_fields [simp]:
  "mMinSeq (jb_drop_min jb) = Suc (mMinSeq jb)" "mMaxSeq (jb_drop_min jb) = mMaxSeq jb"
  "jbDepacketizer (jb_drop_min jb) = jbDepacketizer jb" "jbDepState (jb_drop_min jb) = jbDepState jb"
  "mLastFrameTimeStamp (jb_drop_min jb) = mLastFrameTimeStamp jb" "mCapacity (jb_drop_min jb) = mCapacity jb"
  by (simp_all add: jb_drop_min_def)

lemma deque_step_progress:
  assumes "deque_step now jb = Some (fs, jb', cont)"
  shows "mMaxSeq jb' = mMaxSeq jb" "cont \<Longrightarrow> mMinSeq jb < mMinSeq jb'"
proof -
  have "mMaxSeq jb' = mMaxSeq jb \<and> (cont \<longrightarrow> mMinSeq jb < mMinSeq jb')"
    using assms
    by (auto simp: deque_step_def findMultiPacketSequence_def split: bind_splits if_splits PacketKind.splits SequenceResult.splits
        dest!: jb_emit_fields findMulti_bounds)
  then show "mMaxSeq jb' = mMaxSeq jb" "cont \<Longrightarrow> mMinSeq jb < mMinSeq jb'" by blast+
qed

function processDeque_loop :: "int \<Rightarrow> 'd JitterBuffer \<Rightarrow> (EncodedFrame list \<times> 'd JitterBuffer) option" where
  "processDeque_loop now jb =
     (if mMinSeq jb < mMaxSeq jb then
        (case deque_step now jb of
           None \<Rightarrow> None
         | Some (frames, jb', cont) \<Rightarrow>
             if cont then map_option (\<lambda>(rest, jb''). (frames @ rest, jb'')) (processDeque_loop now jb')
             else Some (frames, jb'))
      else Some ([], jb))"
  by pat_completeness auto
termination
proof (relation "measure (\<lambda>(_, jb). mMaxSeq jb - mMinSeq jb)")
  fix now :: int and jb :: "'d JitterBuffer" and x frames y jb' cont
  assume "mMinSeq jb < mMaxSeq jb" "deque_step now jb = Some x" "(frames, y) = x" "(jb', cont) = y" cont
  then show "((now, jb'), (now, jb)) \<in> measure (\<lambda>(_, jb). mMaxSeq jb - mMinSeq jb)"
    using deque_step_progress [of now jb frames jb' cont] by auto
qed simp

declare processDeque_loop.simps [simp del]

definition processDeque :: "int \<Rightarrow> 'd JitterBuffer \<Rightarrow> (EncodedFrame list \<times> 'd JitterBuffer) option" where
  "processDeque now jb =
     (if mItemList jb = None \<or> mMinSeq jb = mMaxSeq jb then Some ([], jb) else processDeque_loop now jb)"

end
