(* ===== verification/Jitter_Window.thy ===== *)
theory Jitter_Window
  imports Jitter_Buffer
begin

text \<open>
  The window of the jitter buffer: the items of the sequence numbers from \<^verbatim>\<open>mMinSeq\<close> up to
  \<^verbatim>\<open>mMaxSeq\<close> sit in a ring whose size is a power of two. Consuming a packet keeps the window.
\<close>

unbundle bit_operations_syntax

section \<open>The window\<close>

lemma jb_index_mod: "mCapacity jb = 2 ^ k \<Longrightarrow> jb_index jb s = s mod mCapacity jb"
proof -
  assume "mCapacity jb = 2 ^ k"
  then have "jb_index jb s = s AND mask k" by (simp add: jb_index_def mask_eq_exp_minus_1)
  then show ?thesis using \<open>mCapacity jb = 2 ^ k\<close> by (simp add: take_bit_eq_mod flip: take_bit_eq_mask)
qed

text \<open>
  The items of the sequence numbers from \<open>lo\<close> up to \<open>hi\<close> are in the ring, each in its own slot and
  labelled with its number, and every other slot is free.
\<close>

definition window_inv :: "'d JitterBuffer \<Rightarrow> nat \<Rightarrow> nat \<Rightarrow> bool" where
  "window_inv jb lo hi \<longleftrightarrow>
     (\<exists>k. mCapacity jb = 2 ^ k) \<and> lo \<le> hi \<and> hi \<le> lo + mCapacity jb \<and>
     (\<exists>xs. mItemList jb = Some xs \<and> length xs = mCapacity jb \<and>
        (\<forall>s. lo \<le> s \<and> s < hi \<longrightarrow> (\<exists>it. xs ! (s mod mCapacity jb) = Some it \<and> seq_ext it = s)) \<and>
        (\<forall>i < mCapacity jb. xs ! i \<noteq> None \<longrightarrow> (\<exists>s. lo \<le> s \<and> s < hi \<and> s mod mCapacity jb = i)))"

lemma window_get:
  assumes "window_inv jb lo hi" "lo \<le> s" "s < hi"
  obtains it where "get_item jb s = Some it" "seq_ext it = s"
proof -
  obtain k xs where w: "mCapacity jb = 2 ^ k" "mItemList jb = Some xs" "length xs = mCapacity jb"
    "\<forall>s. lo \<le> s \<and> s < hi \<longrightarrow> (\<exists>it. xs ! (s mod mCapacity jb) = Some it \<and> seq_ext it = s)"
    using assms(1) unfolding window_inv_def by blast
  have "s mod mCapacity jb < mCapacity jb" by (simp add: w(1))
  then have "get_item jb s = xs ! (s mod mCapacity jb)"
    using w(2,3) jb_index_mod [OF w(1)] by (simp add: get_item_def)
  then show ?thesis using that w(4) assms(2,3) by auto
qed

definition jb_ring :: "'d JitterBuffer \<Rightarrow> bool" where
  "jb_ring jb \<longleftrightarrow> (\<exists>k. mCapacity jb = 2 ^ k) \<and> (\<exists>xs. mItemList jb = Some xs \<and> length xs = mCapacity jb)"

lemma window_ring: "window_inv jb lo hi \<Longrightarrow> jb_ring jb"
  by (auto simp: window_inv_def jb_ring_def)

lemma set_item_ring [simp]: "jb_ring jb \<Longrightarrow> jb_ring (set_item jb s x)"
  by (auto simp: jb_ring_def set_item_def)

lemma get_set_item:
  assumes "jb_ring jb"
  shows "get_item (set_item jb s x) t = (if s mod mCapacity jb = t mod mCapacity jb then x else get_item jb t)"
proof -
  obtain k where k: "mCapacity jb = 2 ^ k" using assms by (auto simp: jb_ring_def)
  have "t mod mCapacity jb < mCapacity jb" by (simp add: k)
  then show ?thesis
    using assms jb_index_mod [OF k] jb_index_mod [of "set_item jb s x" k] k
    by (auto simp: jb_ring_def get_item_def set_item_def)
qed

lemma get_set_same [simp]: "jb_ring jb \<Longrightarrow> get_item (set_item jb s x) s = x"
  by (simp add: get_set_item)

lemma get_set_other:
  assumes "jb_ring jb" "s \<noteq> t" "a \<le> s" "s < a + mCapacity jb" "a \<le> t" "t < a + mCapacity jb"
  shows "get_item (set_item jb s x) t = get_item jb t"
  using assms mod_window_inj_nat [of s "mCapacity jb" t a] by (auto simp: get_set_item [OF assms(1)])

lemma set_set_item [simp]: "set_item (set_item jb s x) s y = set_item jb s y"
  by (cases "mItemList jb") (simp_all add: set_item_def jb_index_def)

text \<open>Replacing an item, and growing and shrinking the window by one.\<close>

lemma window_intro:
  assumes "mItemList jb = Some xs" "mCapacity jb = 2 ^ k" "length xs = mCapacity jb" "lo \<le> hi" "hi \<le> lo + mCapacity jb"
    "\<And>s. lo \<le> s \<Longrightarrow> s < hi \<Longrightarrow> \<exists>it. xs ! (s mod mCapacity jb) = Some it \<and> seq_ext it = s"
    "\<And>i. i < mCapacity jb \<Longrightarrow> xs ! i \<noteq> None \<Longrightarrow> \<exists>s. lo \<le> s \<and> s < hi \<and> s mod mCapacity jb = i"
  shows "window_inv jb lo hi"
  using assms unfolding window_inv_def by blast

lemma window_set:
  assumes "window_inv jb lo hi" "lo' \<le> lo" "hi \<le> hi'" "hi' \<le> lo' + mCapacity jb"
    "{lo'..<hi'} = insert s {lo..<hi}" "seq_ext it = s" "lo' \<le> hi'"
  shows "window_inv (set_item jb s (Some it)) lo' hi'"
proof -
  let ?c = "mCapacity jb"
  obtain k xs where w: "?c = 2 ^ k" "mItemList jb = Some xs" "length xs = ?c"
    "\<forall>s. lo \<le> s \<and> s < hi \<longrightarrow> (\<exists>it. xs ! (s mod ?c) = Some it \<and> seq_ext it = s)"
    "\<forall>i < ?c. xs ! i \<noteq> None \<longrightarrow> (\<exists>s. lo \<le> s \<and> s < hi \<and> s mod ?c = i)"
    using assms(1) unfolding window_inv_def by blast
  have m: "t mod ?c < ?c" for t by (simp add: w(1))
  have s: "lo' \<le> s" "s < hi'" using assms(5) by (metis atLeastLessThan_iff insertI1)+
  have old: "lo \<le> t \<and> t < hi" if "lo' \<le> t" "t < hi'" "t \<noteq> s" for t
    using that assms(5) by (metis atLeastLessThan_iff insert_iff)
  show ?thesis
  proof (rule window_intro [of _ "xs[s mod ?c := Some it]" k])
    show "mItemList (set_item jb s (Some it)) = Some (xs[s mod ?c := Some it])"
      using w(2) jb_index_mod [OF w(1)] by (simp add: set_item_def)
    fix t assume t: "lo' \<le> t" "t < hi'"
    show "\<exists>it'. xs[s mod ?c := Some it] ! (t mod mCapacity (set_item jb s (Some it))) = Some it' \<and> seq_ext it' = t"
    proof (cases "t = s")
      case True
      then show ?thesis using m [of s] w(3) assms(6) by simp
    next
      case False
      then have "s mod ?c \<noteq> t mod ?c" using mod_window_inj_nat [of s ?c t lo'] s t assms(4) by auto
      then show ?thesis using w(4) old [OF t False] by simp
    qed
  next
    fix i assume i: "i < mCapacity (set_item jb s (Some it))" "xs[s mod ?c := Some it] ! i \<noteq> None"
    show "\<exists>t. lo' \<le> t \<and> t < hi' \<and> t mod mCapacity (set_item jb s (Some it)) = i"
    proof (cases "i = s mod ?c")
      case True then show ?thesis using s by auto
    next
      case False
      then obtain t where "lo \<le> t" "t < hi" "t mod ?c = i" using i w(5) by auto
      then show ?thesis using assms(2,3) by (intro exI [of _ t]) auto
    qed
  qed (use w assms in auto)
qed

lemma window_replace:
  "window_inv jb lo hi \<Longrightarrow> lo \<le> s \<Longrightarrow> s < hi \<Longrightarrow> seq_ext it = s \<Longrightarrow> window_inv (set_item jb s (Some it)) lo hi"
  by (rule window_set [of jb lo hi]) (auto simp: window_inv_def)

lemma window_grow_high:
  "window_inv jb lo hi \<Longrightarrow> hi < lo + mCapacity jb \<Longrightarrow> seq_ext it = hi \<Longrightarrow> window_inv (set_item jb hi (Some it)) lo (Suc hi)"
  by (rule window_set [of jb lo hi]) (auto simp: window_inv_def)

lemma window_grow_low:
  "window_inv jb (Suc lo) hi \<Longrightarrow> hi \<le> lo + mCapacity jb \<Longrightarrow> seq_ext it = lo \<Longrightarrow> window_inv (set_item jb lo (Some it)) lo hi"
  by (rule window_set [of jb "Suc lo" hi]) (auto simp: window_inv_def)

lemma window_drop:
  assumes "window_inv jb lo hi" "lo < hi"
  shows "window_inv (set_item jb lo None) (Suc lo) hi"
proof -
  let ?c = "mCapacity jb"
  obtain k xs where w: "?c = 2 ^ k" "mItemList jb = Some xs" "length xs = ?c" "hi \<le> lo + ?c"
    "\<forall>s. lo \<le> s \<and> s < hi \<longrightarrow> (\<exists>it. xs ! (s mod ?c) = Some it \<and> seq_ext it = s)"
    "\<forall>i < ?c. xs ! i \<noteq> None \<longrightarrow> (\<exists>s. lo \<le> s \<and> s < hi \<and> s mod ?c = i)"
    using assms(1) unfolding window_inv_def by blast
  have m: "lo mod ?c < ?c" by (simp add: w(1))
  show ?thesis
  proof (rule window_intro [of _ "xs[lo mod ?c := None]" k])
    show "mItemList (set_item jb lo None) = Some (xs[lo mod ?c := None])"
      using w(2) jb_index_mod [OF w(1)] by (simp add: set_item_def)
    fix t assume t: "Suc lo \<le> t" "t < hi"
    then have "lo mod ?c \<noteq> t mod ?c" using mod_window_inj_nat [of lo ?c t lo] w(4) by auto
    then show "\<exists>it. xs[lo mod ?c := None] ! (t mod mCapacity (set_item jb lo None)) = Some it \<and> seq_ext it = t"
      using w(5) t by auto
  next
    fix i assume i: "i < mCapacity (set_item jb lo None)" "xs[lo mod ?c := None] ! i \<noteq> None"
    then have ne: "i \<noteq> lo mod ?c" using m w(3) by auto
    then obtain t where "lo \<le> t" "t < hi" "t mod ?c = i" using i w(6) by auto
    then show "\<exists>t. Suc lo \<le> t \<and> t < hi \<and> t mod mCapacity (set_item jb lo None) = i"
      using ne by (intro exI [of _ t]) (auto simp: Suc_le_eq nat_less_le)
  qed (use w assms in auto)
qed

lemma window_inv_fields [simp]:
  "window_inv (jb\<lparr>mMinSeq := a\<rparr>) lo hi = window_inv jb lo hi"
  "window_inv (jb\<lparr>mMaxSeq := a\<rparr>) lo hi = window_inv jb lo hi"
  "window_inv (jb\<lparr>jbDepState := d\<rparr>) lo hi = window_inv jb lo hi"
  "window_inv (jb\<lparr>mLastFrameTimeStamp := f\<rparr>) lo hi = window_inv jb lo hi"
  "window_inv (jb\<lparr>mLastPacketTime := t\<rparr>) lo hi = window_inv jb lo hi"
  "window_inv (jb\<lparr>mExtValueSeq := e\<rparr>) lo hi = window_inv jb lo hi"
  "window_inv (jb\<lparr>mExtValueRtpTimestamp := e'\<rparr>) lo hi = window_inv jb lo hi"
  by (simp_all add: window_inv_def)

lemma get_item_fields [simp]:
  "get_item (jb\<lparr>mMinSeq := a\<rparr>) s = get_item jb s"
  "get_item (jb\<lparr>mMaxSeq := a\<rparr>) s = get_item jb s"
  "get_item (jb\<lparr>jbDepState := d\<rparr>) s = get_item jb s"
  "get_item (jb\<lparr>mLastFrameTimeStamp := f\<rparr>) s = get_item jb s"
  "get_item (jb\<lparr>mLastPacketTime := t\<rparr>) s = get_item jb s"
  by (simp_all add: get_item_def jb_index_def split: option.split)

lemma jb_ring_fields [simp]: "jb_ring (jb\<lparr>mMinSeq := a\<rparr>) = jb_ring jb" "jb_ring (jb\<lparr>mMaxSeq := a\<rparr>) = jb_ring jb"
  by (simp_all add: jb_ring_def)

lemma set_item_commute [simp]:
  "set_item (jb\<lparr>mMinSeq := a\<rparr>) s x = (set_item jb s x)\<lparr>mMinSeq := a\<rparr>"
  "set_item (jb\<lparr>mMaxSeq := a\<rparr>) s x = (set_item jb s x)\<lparr>mMaxSeq := a\<rparr>"
  by (simp_all add: set_item_def jb_index_def)

lemma set_item_times [simp]: "mLastPacketTime (set_item jb s x) = mLastPacketTime jb"
  by (simp add: set_item_def)

text \<open>
  The invariant of the jitter buffer: the capacity is a power of two, and when there is an
  item list its window runs from \<^verbatim>\<open>mMinSeq\<close> up to \<^verbatim>\<open>mMaxSeq\<close>.
\<close>

definition jb_inv :: "'d JitterBuffer \<Rightarrow> bool" where
  "jb_inv jb \<longleftrightarrow> (\<exists>k. mCapacity jb = 2 ^ k) \<and>
     (mItemList jb \<noteq> None \<longrightarrow> window_inv jb (mMinSeq jb) (mMaxSeq jb))"

text \<open>Everything but the list of items, and the parts of it that \<^verbatim>\<open>consume\<close> may set.\<close>

definition same_frame :: "'d JitterBuffer \<Rightarrow> 'd JitterBuffer \<Rightarrow> bool" where
  "same_frame jb jb' \<longleftrightarrow> jbTrack jb' = jbTrack jb \<and> jbDepacketizer jb' = jbDepacketizer jb \<and>
     jbDepState jb' = jbDepState jb \<and> mCapacity jb' = mCapacity jb \<and> mLastFrameTimeStamp jb' = mLastFrameTimeStamp jb \<and>
     mLastPacketTime jb' = mLastPacketTime jb"

lemma same_frame_refl [simp]: "same_frame jb jb"
  by (simp add: same_frame_def)

lemma set_item_frame [simp]: "same_frame jb (set_item jb' s x) = same_frame jb jb'"
  by (simp add: same_frame_def)

lemma same_frame_fields [simp]:
  "same_frame jb (jb'\<lparr>mMinSeq := a\<rparr>) = same_frame jb jb'" "same_frame jb (jb'\<lparr>mMaxSeq := a\<rparr>) = same_frame jb jb'"
  by (simp_all add: same_frame_def)

lemma fill_lost_simps [simp]:
  "fill_lost r a [] jb = jb"
  "fill_lost r a (s # ss) jb = fill_lost r a ss (set_item jb s (Some (newLostItem r a s)))"
  "fill_lost r a (ss @ ts) jb = fill_lost r a ts (fill_lost r a ss jb)"
  by (simp_all add: fill_lost_def)

lemma fill_lost_fields [simp]:
  "same_frame jb0 (fill_lost r a ss jb) = same_frame jb0 jb" "mMinSeq (fill_lost r a ss jb) = mMinSeq jb"
  "mMaxSeq (fill_lost r a ss jb) = mMaxSeq jb" "mCapacity (fill_lost r a ss jb) = mCapacity jb"
  by (induction ss arbitrary: jb) auto

lemma seq_ext_lost [simp]: "seq_ext (newLostItem r a s) = s"
  by (simp add: newLostItem_def)

lemma fill_lost_high:
  "window_inv jb lo hi \<Longrightarrow> hi + n \<le> lo + mCapacity jb \<Longrightarrow> window_inv (fill_lost r a [hi..<hi + n] jb) lo (hi + n)"
proof (induction n)
  case (Suc n)
  then show ?case using window_grow_high [of "fill_lost r a [hi..<hi + n] jb" lo "hi + n"] by simp
qed simp

lemma fill_lost_low:
  "window_inv jb (lo + n) hi \<Longrightarrow> hi \<le> lo + mCapacity jb \<Longrightarrow> window_inv (fill_lost r a (rev [lo..<lo + n]) jb) lo hi"
proof (induction n arbitrary: jb)
  case (Suc n)
  then show ?case using window_grow_low [of jb "lo + n" hi "newLostItem r a (lo + n)"] by simp
qed simp

text \<open>
  Placing a packet keeps the window, provided the new window fits the ring: the code's guard
  lets the number \<^verbatim>\<open>mMinSeq + mCapacity\<close> through, which does not fit.
\<close>

lemma jb_place_ok:
  assumes w: "window_inv jb (mMinSeq jb) (mMaxSeq jb)" and fits: "s \<noteq> mMinSeq jb + mCapacity jb"
    and p: "jb_place r a s jb = Some jb'"
  shows "window_inv (set_item jb' s (Some (it\<lparr>seq_ext := s\<rparr>))) (mMinSeq jb') (mMaxSeq jb')" (is ?A)
    and "mMinSeq jb' \<le> s \<and> s < mMaxSeq jb' \<and> get_item jb' s \<noteq> None \<and> same_frame jb jb' \<and> jb_ring jb'" (is ?B)
proof -
  let ?lo = "mMinSeq jb" and ?hi = "mMaxSeq jb" and ?c = "mCapacity jb"
  have b: "?lo \<le> ?hi" "?hi \<le> ?lo + ?c" using w by (auto simp: window_inv_def)
  consider (low) "s < ?lo" "?hi \<le> s + ?c" | (high) "?hi \<le> s" "s < ?lo + ?c" | (mid) "?lo \<le> s" "s < ?hi"
    using p fits by (auto simp: jb_place_def split: if_splits)
  then have "?A \<and> ?B"
  proof cases
    case low
    let ?f = "fill_lost r a (rev [s + 1..<?lo]) jb"
    have jb': "jb' = (set_item ?f s (Some newItem))\<lparr>mMinSeq := s\<rparr>" using p low by (simp add: jb_place_def Let_def)
    have "window_inv ?f (Suc s) ?hi"
      using fill_lost_low [of jb "Suc s" "?lo - Suc s" ?hi r a] w low by simp
    then have "window_inv (set_item ?f s (Some (it\<lparr>seq_ext := s\<rparr>))) s ?hi" "jb_ring ?f"
      using low by (auto intro: window_grow_low dest: window_ring)
    then show ?thesis using jb' low b by auto
  next
    case high
    let ?f = "fill_lost r a [?hi..<s] jb"
    have jb': "jb' = (set_item ?f s (Some newItem))\<lparr>mMaxSeq := s + 1\<rparr>" using p high b by (simp add: jb_place_def Let_def)
    have "window_inv ?f ?lo s"
      using fill_lost_high [of jb ?lo ?hi "s - ?hi" r a] w high by simp
    then have "window_inv (set_item ?f s (Some (it\<lparr>seq_ext := s\<rparr>))) ?lo (Suc s)" "jb_ring ?f"
      using high by (auto intro: window_grow_high dest: window_ring)
    then show ?thesis using jb' high b by auto
  next
    case mid
    then have "jb' = jb" using p by (simp add: jb_place_def)
    then show ?thesis
      using window_replace [OF w mid, of "it\<lparr>seq_ext := s\<rparr>"] mid window_get [OF w mid] window_ring [OF w] by auto
  qed
  then show ?A ?B by blast+
qed

lemma jb_fix_kind_ok:
  assumes "window_inv (set_item jb s (Some it)) (mMinSeq jb) (mMaxSeq jb)" "jb_ring jb" "seq_ext it = s"
    "mMinSeq jb \<le> s" "s < mMaxSeq jb"
  shows "\<exists>it'. jb_fix_kind jb it = Some it' \<and> (it' = it \<or> it' = it\<lparr>it_kind := Middle\<rparr>)"
proof (cases "it_kind it = Start \<and> mMinSeq jb < s")
  case True
  have hi: "mMaxSeq jb \<le> mMinSeq jb + mCapacity jb" using assms(1) by (simp add: window_inv_def)
  obtain p where "get_item (set_item jb s (Some it)) (s - 1) = Some p"
    by (rule window_get [OF assms(1), of "s - 1"]) (use True assms(5) in auto)
  moreover have "get_item (set_item jb s (Some it)) (s - 1) = get_item jb (s - 1)"
    by (rule get_set_other [OF assms(2), of s "s - 1" "mMinSeq jb"]) (use True assms(4,5) hi in auto)
  ultimately have "get_item jb (s - 1) = Some p" by simp
  then show ?thesis using True assms(3) by (simp add: jb_fix_kind_def)
next
  case False
  then show ?thesis using assms(3) by (auto simp: jb_fix_kind_def)
qed

lemma jb_fix_next_ok:
  assumes "window_inv jb (mMinSeq jb) (mMaxSeq jb)" "mMinSeq jb \<le> seq_ext it"
  shows "\<exists>jb'. jb_fix_next jb it = Some jb' \<and> window_inv jb' (mMinSeq jb') (mMaxSeq jb') \<and> same_frame jb jb' \<and>
    mMinSeq jb' = mMinSeq jb \<and> mMaxSeq jb' = mMaxSeq jb"
proof (cases "(it_kind it = Start \<or> it_kind it = Middle) \<and> seq_ext it + 1 < mMaxSeq jb")
  case True
  obtain n where n: "get_item jb (seq_ext it + 1) = Some n" "seq_ext n = seq_ext it + 1"
    by (rule window_get [OF assms(1), of "seq_ext it + 1"]) (use True assms(2) in auto)
  then show ?thesis
    using True window_replace [OF assms(1), of "seq_ext it + 1" "n\<lparr>it_kind := Middle\<rparr>"] assms
    by (auto simp: jb_fix_next_def)
next
  case False
  then show ?thesis using assms(1) by (auto simp: jb_fix_next_def)
qed

lemma jb_store_placed:
  assumes place: "jb_place (now + mNackDelay jb) (jb_dequeue_time jb ts) s jb = Some jb1"
    and A: "\<And>it. window_inv (set_item jb1 s (Some (it\<lparr>seq_ext := s\<rparr>))) (mMinSeq jb1) (mMaxSeq jb1)"
    and B: "mMinSeq jb1 \<le> s \<and> s < mMaxSeq jb1 \<and> get_item jb1 s \<noteq> None \<and> same_frame jb jb1 \<and> jb_ring jb1"
    and kind: "dp_getPacketKind (jbDepacketizer jb) payload marker = Some k"
  shows "\<exists>jb'. jb_store now s ts marker extension payload jb = Some jb' \<and>
    window_inv jb' (mMinSeq jb') (mMaxSeq jb') \<and> same_frame jb jb'"
proof -
  let ?r = "now + mNackDelay jb" and ?a = "jb_dequeue_time jb ts"
  obtain it0 where it0: "get_item jb1 s = Some it0" using B by auto
  have dep: "jbDepacketizer jb1 = jbDepacketizer jb" using B by (simp add: same_frame_def)
  define it1 where "it1 = it0\<lparr>when_received := now, when_dequeue := ?a, when_nack_request := ?r,
    when_nack_abandon := ?a, it_received := True, nack_needed := False, seq_ext := s,
    rtp_timestamp_ext := ts, it_marker := marker, it_extension := extension, it_payload := payload, it_kind := k\<rparr>"
  have it1: "it1\<lparr>seq_ext := s\<rparr> = it1" "seq_ext it1 = s" by (simp_all add: it1_def)
  obtain it2 where it2: "jb_fix_kind jb1 it1 = Some it2" "it2 = it1 \<or> it2 = it1\<lparr>it_kind := Middle\<rparr>"
    using jb_fix_kind_ok [of jb1 s it1] A [of it1] B it1 by auto
  have seq2: "seq_ext it2 = s" "it2\<lparr>seq_ext := s\<rparr> = it2" using it2(2) it1 by (auto simp: it1_def)
  let ?jb2 = "set_item jb1 s (Some it2)"
  have w2: "window_inv ?jb2 (mMinSeq ?jb2) (mMaxSeq ?jb2)" using A [of it2] seq2 by simp
  obtain jb' where jb': "jb_fix_next ?jb2 it2 = Some jb'" "window_inv jb' (mMinSeq jb') (mMaxSeq jb')" "same_frame ?jb2 jb'"
    using jb_fix_next_ok [OF w2, of it2] seq2 B by auto
  have "same_frame jb jb'" using jb'(3) B by (auto simp: same_frame_def)
  moreover have "jb_store now s ts marker extension payload jb = jb_fix_next ?jb2 it2"
    using place it0 kind dep it2(1) by (simp add: jb_store_def Let_def it1_def)
  ultimately show ?thesis using jb' by auto
qed

lemma jb_store_ok:
  assumes w: "window_inv jb (mMinSeq jb) (mMaxSeq jb)" and fits: "s \<noteq> mMinSeq jb + mCapacity jb"
    and kind: "dp_getPacketKind (jbDepacketizer jb) payload marker = Some k"
  shows "\<exists>jb'. jb_store now s ts marker extension payload jb = Some jb' \<and>
    window_inv jb' (mMinSeq jb') (mMaxSeq jb') \<and> same_frame jb jb'"
proof (cases "jb_place (now + mNackDelay jb) (jb_dequeue_time jb ts) s jb")
  case None
  then show ?thesis using w by (simp add: jb_store_def Let_def)
next
  case (Some jb1)
  show ?thesis by (rule jb_store_placed [OF Some jb_place_ok(1) [OF w fits Some] jb_place_ok(2) [OF w fits Some] kind])
qed

lemma same_frame_first: "same_frame jb (jb_first now s ts jb)"
  by (simp add: jb_first_def) (simp add: same_frame_def)

lemma window_first:
  assumes "mCapacity jb = 2 ^ k"
  shows "window_inv (set_item (jb_first now s ts jb) s (Some (it\<lparr>seq_ext := s\<rparr>))) s (Suc s)"
proof -
  let ?e = "jb\<lparr>mMinSeq := s, mMaxSeq := s + 1, mItemList := Some (replicate (mCapacity jb) None),
        mBaseTime := now, mBaseRtpTimestamp := ts\<rparr>"
  have "window_inv ?e s s" by (rule window_intro [of _ "replicate (mCapacity jb) None" k]) (use assms in auto)
  then have "window_inv (set_item ?e s (Some (it\<lparr>seq_ext := s\<rparr>))) s (Suc s)"
    using assms by (intro window_grow_high) auto
  then show ?thesis by (simp add: jb_first_def)
qed

lemma jb_first_store_ok:
  assumes cap: "mCapacity jb = 2 ^ k0" and kind: "dp_getPacketKind (jbDepacketizer jb) payload marker = Some k"
  shows "\<exists>jb'. jb_store now s ts marker extension payload (jb_first now s ts jb) = Some jb' \<and>
    window_inv jb' (mMinSeq jb') (mMaxSeq jb') \<and> same_frame jb jb'"
proof -
  let ?f = "jb_first now s ts jb"
  have f: "mMinSeq ?f = s" "mMaxSeq ?f = Suc s" "jbDepacketizer ?f = jbDepacketizer jb" "jb_ring ?f"
    using cap by (simp_all add: jb_first_def jb_ring_def) (simp_all add: set_item_def)
  have place: "jb_place r a s ?f = Some ?f" for r a by (simp add: jb_place_def f)
  have A: "window_inv (set_item ?f s (Some (it\<lparr>seq_ext := s\<rparr>))) (mMinSeq ?f) (mMaxSeq ?f)" for it
    unfolding f(1,2) by (rule window_first [OF cap])
  have "get_item ?f s \<noteq> None" using cap by (simp add: jb_first_def) (simp add: get_set_item jb_ring_def)
  then have B: "mMinSeq ?f \<le> s \<and> s < mMaxSeq ?f \<and> get_item ?f s \<noteq> None \<and> same_frame ?f ?f \<and> jb_ring ?f"
    using f by simp
  obtain jb' where "jb_store now s ts marker extension payload ?f = Some jb'"
    "window_inv jb' (mMinSeq jb') (mMaxSeq jb')" "same_frame ?f jb'"
    using jb_store_placed [OF place A B, of payload marker k now ts extension] kind f(3) by auto
  then show ?thesis using same_frame_first [of jb now s ts] by (auto simp: same_frame_def)
qed

lemma jb_consume_ext_ok:
  assumes "jb_inv jb" "dp_getPacketKind (jbDepacketizer jb) payload marker \<noteq> None"
    "mItemList jb \<noteq> None \<Longrightarrow> s \<noteq> mMinSeq jb + mCapacity jb"
  shows "\<exists>jb'. jb_consume_ext now s ts marker extension payload jb = Some jb' \<and> jb_inv jb'"
proof -
  obtain k k0 where k: "dp_getPacketKind (jbDepacketizer jb) payload marker = Some k" "mCapacity jb = 2 ^ k0"
    using assms(1,2) by (auto simp: jb_inv_def)
  let ?jb = "(jb_maybe_reset now s jb)\<lparr>mLastPacketTime := now\<rparr>"
  have r: "?jb = jb\<lparr>mLastPacketTime := now\<rparr> \<or> mItemList ?jb = None" "jbDepacketizer ?jb = jbDepacketizer jb" "mCapacity ?jb = mCapacity jb"
    by (auto simp: jb_maybe_reset_def freeEverything_def)
  show ?thesis
  proof (cases "mItemList ?jb")
    case None
    then show ?thesis
      using jb_first_store_ok [of ?jb k0 payload marker k now s ts extension] r k assms(1)
      by (auto simp: jb_consume_ext_def Let_def jb_inv_def same_frame_def)
  next
    case (Some xs)
    then have jb: "?jb = jb\<lparr>mLastPacketTime := now\<rparr>" using r(1) by auto
    then have "window_inv ?jb (mMinSeq ?jb) (mMaxSeq ?jb)" "s \<noteq> mMinSeq ?jb + mCapacity ?jb" "mItemList jb \<noteq> None"
      using assms(1,3) Some by (auto simp: jb_inv_def)
    then show ?thesis
      using jb_store_ok [of ?jb s payload marker k now ts extension] r k assms(1) Some
      by (auto simp: jb_consume_ext_def Let_def jb_inv_def same_frame_def jb)
  qed
qed

end
