(* ===== verification/Jitter_Properties.thy ===== *)
theory Jitter_Properties
  imports Jitter_Window
begin

text \<open>
  What the jitter buffer promises over whole histories of calls: frames come out in order, no
  call breaks the window or uses a null item, lost packets are asked for once, and the timeout
  never sleeps past the first packet. The depacketizer is any instance of the contract
  \<^verbatim>\<open>total_depacketizer\<close>.
\<close>

unbundle bit_operations_syntax

section \<open>Frames come out in order\<close>

definition after :: "u64 option \<Rightarrow> u64 \<Rightarrow> bool" where
  "after l t \<longleftrightarrow> (case l of None \<Rightarrow> True | Some t0 \<Rightarrow> t0 \<le> t)"

text \<open>The timestamps do not decrease, and stay between the last one before and the last one after.\<close>

definition in_order :: "u64 option \<Rightarrow> EncodedFrame list \<Rightarrow> u64 option \<Rightarrow> bool" where
  "in_order l fs l' \<longleftrightarrow> sorted (map fr_rtp_timestamp_ext fs) \<and> (\<forall>f\<in>set fs. after l (fr_rtp_timestamp_ext f)) \<and>
     (if l' = None then fs = [] \<and> l = None
      else after l (the l') \<and> (\<forall>f\<in>set fs. fr_rtp_timestamp_ext f \<le> the l'))"

lemma in_order_Nil [simp]: "in_order l [] l"
  by (auto simp: in_order_def after_def)

lemma in_order_append: "in_order l fs l' \<Longrightarrow> in_order l' gs l'' \<Longrightarrow> in_order l (fs @ gs) l''"
  by (fastforce simp: in_order_def after_def sorted_append split: option.splits if_splits)

lemma appendToResult_order:
  assumes "appendToResult item l now frames jb = Some (fs, jb')"
  shows "in_order (mLastFrameTimeStamp jb) fs (mLastFrameTimeStamp jb')"
proof -
  consider "fs = []" "jb' = jb" | "\<forall>f\<in>set fs. fr_rtp_timestamp_ext f = rtp_timestamp_ext item"
      "mLastFrameTimeStamp jb' = Some (rtp_timestamp_ext item)" "after (mLastFrameTimeStamp jb) (rtp_timestamp_ext item)"
    using assms by (cases "mLastFrameTimeStamp jb")
      (auto simp: appendToResult_def after_def not_less split: if_splits bind_splits)
  then show ?thesis
  proof cases
    case 2
    then have "map fr_rtp_timestamp_ext fs = replicate (length fs) (rtp_timestamp_ext item)"
      by (simp add: map_replicate_const list_eq_iff_nth_eq)
    then show ?thesis using 2 by (auto simp: in_order_def)
  qed simp
qed

lemma jb_emit_order: "jb_emit now ps item l jb = Some (fs, jb') \<Longrightarrow> in_order (mLastFrameTimeStamp jb) fs (mLastFrameTimeStamp jb')"
  by (auto simp: jb_emit_def split: bind_splits dest!: appendToResult_order)

lemma deque_step_order:
  "deque_step now jb = Some (fs, jb', cont) \<Longrightarrow> in_order (mLastFrameTimeStamp jb) fs (mLastFrameTimeStamp jb')"
  by (auto simp: deque_step_def findMultiPacketSequence_def split: bind_splits if_splits PacketKind.splits SequenceResult.splits
      dest!: jb_emit_order)

lemma processDeque_loop_order:
  "processDeque_loop now jb = Some (fs, jb') \<Longrightarrow> in_order (mLastFrameTimeStamp jb) fs (mLastFrameTimeStamp jb')"
proof (induction now jb arbitrary: fs rule: processDeque_loop.induct)
  case (1 now jb)
  show ?case
  proof (cases "mMinSeq jb < mMaxSeq jb")
    case True
    then obtain fs1 jb1 c where s: "deque_step now jb = Some (fs1, jb1, c)"
      using "1.prems" by (auto simp: processDeque_loop.simps [of now jb] split: option.splits)
    show ?thesis
    proof (cases c)
      case c: True
      then obtain fs2 where "processDeque_loop now jb1 = Some (fs2, jb')" "fs = fs1 @ fs2"
        using "1.prems" True s by (auto simp: processDeque_loop.simps [of now jb])
      then show ?thesis using "1.IH" [OF True s refl refl c] deque_step_order [OF s] in_order_append by blast
    next
      case False
      then show ?thesis using "1.prems" True s deque_step_order [OF s] by (simp add: processDeque_loop.simps [of now jb])
    qed
  next
    case False
    then show ?thesis using "1.prems" by (simp add: processDeque_loop.simps [of now jb])
  qed
qed

lemma processDeque_order:
  "processDeque now jb = Some (fs, jb') \<Longrightarrow> in_order (mLastFrameTimeStamp jb) fs (mLastFrameTimeStamp jb')"
  by (auto simp: processDeque_def split: if_splits dest: processDeque_loop_order)

text \<open>A history of calls; the frames of all the dequeue calls are collected.\<close>

datatype jb_event = Consume int RtpPacket | Deque int | Nack int

fun jb_step :: "jb_event \<Rightarrow> 'd JitterBuffer \<Rightarrow> (EncodedFrame list \<times> 'd JitterBuffer) option" where
  "jb_step (Consume now p) jb = map_option (\<lambda>jb'. ([], jb')) (jb_consume now p jb)"
| "jb_step (Deque now) jb = processDeque now jb"
| "jb_step (Nack now) jb = map_option (\<lambda>(_, jb'). ([], jb')) (processNack now jb)"

fun jb_run :: "jb_event list \<Rightarrow> 'd JitterBuffer \<Rightarrow> (EncodedFrame list \<times> 'd JitterBuffer) option" where
  "jb_run [] jb = Some ([], jb)"
| "jb_run (e # es) jb = do {
     (fs, jb') \<leftarrow> jb_step e jb;
     (gs, jb'') \<leftarrow> jb_run es jb';
     Some (fs @ gs, jb'')
   }"

text \<open>No packet comes after a silence that resets the buffer.\<close>

fun jb_quiet :: "jb_event list \<Rightarrow> 'd JitterBuffer \<Rightarrow> bool" where
  "jb_quiet [] jb \<longleftrightarrow> True"
| "jb_quiet (e # es) jb \<longleftrightarrow>
     (case e of Consume now p \<Rightarrow> mItemList jb \<noteq> None \<longrightarrow> now - mLastPacketTime jb < kNoPacketsResetDelay | _ \<Rightarrow> True) \<and>
     (case jb_step e jb of Some (_, jb') \<Rightarrow> jb_quiet es jb' | None \<Rightarrow> True)"

lemma jb_fix_next_last: "jb_fix_next jb it = Some jb' \<Longrightarrow> mLastFrameTimeStamp jb' = mLastFrameTimeStamp jb"
  by (auto simp: jb_fix_next_def split: if_splits bind_splits)

lemma jb_place_last: "jb_place r a s jb = Some jb' \<Longrightarrow> mLastFrameTimeStamp jb' = mLastFrameTimeStamp jb"
  using fill_lost_fields(1) [of jb r a _ jb]
  by (fastforce simp: jb_place_def Let_def same_frame_def split: if_splits)

lemma jb_store_last:
  "jb_store now s ts m e pl jb = Some jb' \<Longrightarrow> mLastFrameTimeStamp jb' = mLastFrameTimeStamp jb"
  by (auto simp: jb_store_def Let_def split: option.splits bind_splits dest!: jb_place_last jb_fix_next_last)

lemma jb_consume_ext_last:
  assumes c: "jb_consume_ext now s ts m e pl jb = Some jb'"
    and q: "mItemList jb \<noteq> None \<longrightarrow> now - mLastPacketTime jb < kNoPacketsResetDelay"
  shows "mLastFrameTimeStamp jb' = mLastFrameTimeStamp jb"
proof -
  let ?jb = "jb\<lparr>mLastPacketTime := now\<rparr>"
  have "jb_maybe_reset now s jb = jb" using q by (auto simp: jb_maybe_reset_def)
  then have "jb' = jb \<or> jb' = ?jb \<or> jb_store now s ts m e pl ?jb = Some jb' \<or>
      jb_store now s ts m e pl (jb_first now s ts ?jb) = Some jb'"
    using c by (simp add: jb_consume_ext_def Let_def split: if_splits)
  moreover have "mLastFrameTimeStamp (jb_first now s ts ?jb) = mLastFrameTimeStamp jb"
    using same_frame_first [of ?jb now s ts] by (simp add: same_frame_def)
  ultimately show ?thesis by (auto dest!: jb_store_last)
qed

lemma jb_consume_last:
  assumes "jb_consume now p jb = Some jb'" "mItemList jb \<noteq> None \<longrightarrow> now - mLastPacketTime jb < kNoPacketsResetDelay"
  shows "mLastFrameTimeStamp jb' = mLastFrameTimeStamp jb"
  using assms by (auto simp: jb_consume_def Let_def split: option.splits prod.splits dest!: jb_consume_ext_last)

lemma nack_loop_last: "nack_loop now ss jb = Some (rs, jb') \<Longrightarrow> mLastFrameTimeStamp jb' = mLastFrameTimeStamp jb"
  by (induction now ss jb arbitrary: rs rule: nack_loop.induct) (fastforce split: if_splits bind_splits)+

lemma jb_step_order:
  assumes "jb_step e jb = Some (fs, jb')" "jb_quiet [e] jb"
  shows "in_order (mLastFrameTimeStamp jb) fs (mLastFrameTimeStamp jb')"
  using assms
  by (cases e) (auto simp: processNack_def processDeque_order dest: jb_consume_last nack_loop_last split: if_splits)

lemma jb_run_order:
  "jb_run es jb = Some (fs, jb') \<Longrightarrow> jb_quiet es jb \<Longrightarrow> in_order (mLastFrameTimeStamp jb) fs (mLastFrameTimeStamp jb')"
proof (induction es arbitrary: jb fs)
  case (Cons e es)
  then obtain gs jb1 hs where s: "jb_step e jb = Some (gs, jb1)" "jb_run es jb1 = Some (hs, jb')" "fs = gs @ hs"
    by (auto split: bind_splits)
  then have "jb_quiet [e] jb" "jb_quiet es jb1" using Cons.prems(2) by auto
  then show ?case using jb_step_order [OF s(1)] Cons.IH [OF s(2)] s(3) in_order_append by blast
qed simp

text \<open>
  C3. Frames come out in order: over any history of received packets, dequeue calls and nack
  calls of a fresh jitter buffer, with any depacketizer, the RTP timestamps of the frames that
  are handed to the application never decrease, unless two seconds of silence reset the buffer.
\<close>
theorem jitter_buffer_in_order:
  assumes "jb_run es (JitterBuffer_new track dp d capacity len nackDelay) = Some (frames, jb')"
    "jb_quiet es (JitterBuffer_new track dp d capacity len nackDelay)"
  shows "sorted (map fr_rtp_timestamp_ext frames)"
  using jb_run_order [OF assms] by (simp add: in_order_def)

section \<open>The depacketizer's contract\<close>

text \<open>
  What the jitter buffer needs of a depacketizer: the kind of a packet is defined for every
  payload, and extraction returns for every list of packets that is not empty.
\<close>

locale total_depacketizer =
  fixes dp :: "'d Depacketizer"
  assumes kind_total: "dp_getPacketKind dp payload marker \<noteq> None"
    and extract_total: "ps \<noteq> [] \<Longrightarrow> dp_extract dp ps d \<noteq> None"

lemma absCaptureTime_total: "absCaptureTime extId extension \<noteq> None"
  by (auto simp: absCaptureTime_def findAny_eq read_simps Let_def split: option.split)

lemma appendToResult_total: "appendToResult item l now frames jb \<noteq> None"
  using absCaptureTime_total [of "mAbsCaptureTimeExtensionId jb" "it_extension item"]
  by (auto simp: appendToResult_def)

lemma fillItemList_total:
  "window_inv jb lo hi \<Longrightarrow> \<forall>s\<in>set ss. lo \<le> s \<and> s < hi \<Longrightarrow> \<exists>its. fillItemList jb ss = Some its \<and> length its = length ss"
proof (induction ss)
  case (Cons s ss)
  then obtain it where "get_item jb s = Some it" by (auto elim: window_get [of jb lo hi s])
  then show ?case using Cons by auto
qed simp

lemma findNextToDequeue_loop_total:
  "window_inv jb lo hi \<Longrightarrow> \<forall>s\<in>set ss. lo \<le> s \<and> s < hi \<Longrightarrow> findNextToDequeue_loop now ts jb ss \<noteq> None"
proof (induction ss)
  case (Cons s ss)
  then obtain it where "get_item jb s = Some it" by (auto elim: window_get [of jb lo hi s])
  then show ?case using Cons by auto
qed simp

lemma findMultiPacketSequence_loop_total:
  "window_inv jb lo (mMaxSeq jb) \<Longrightarrow> lo \<le> s \<Longrightarrow> findMultiPacketSequence_loop jb s \<noteq> None"
proof (induction jb s rule: findMultiPacketSequence_loop.induct)
  case (1 jb s)
  show ?case
  proof (cases "s < mMaxSeq jb")
    case True
    obtain it where it: "get_item jb s = Some it" by (rule window_get [OF "1.prems" True])
    show ?thesis using "1.IH" [OF True it] "1.prems" it
      by (auto simp: findMultiPacketSequence_loop.simps [of jb s])
  next
    case False
    then show ?thesis by (simp add: findMultiPacketSequence_loop.simps [of jb s])
  qed
qed

lemma window_delete:
  "window_inv jb lo hi \<Longrightarrow> lo + n \<le> hi \<Longrightarrow> window_inv (fold (\<lambda>s jb. set_item jb s None) [lo..<lo + n] jb) (lo + n) hi"
proof (induction n)
  case (Suc n)
  then show ?case using window_drop [of "fold (\<lambda>s jb. set_item jb s None) [lo..<lo + n] jb" "lo + n" hi] by simp
qed simp

lemma window_deleteItemList:
  "window_inv jb lo hi \<Longrightarrow> lo \<le> s \<Longrightarrow> s < hi \<Longrightarrow> window_inv (deleteItemList lo s jb) (s + 1) hi"
  using window_delete [of jb lo hi "s + 1 - lo"] by (simp add: deleteItemList_def)

lemma window_drop_min:
  "window_inv jb (mMinSeq jb) (mMaxSeq jb) \<Longrightarrow> mMinSeq jb < mMaxSeq jb \<Longrightarrow>
     window_inv (jb_drop_min jb) (Suc (mMinSeq jb)) (mMaxSeq jb)"
  using window_drop by (simp add: jb_drop_min_def)

text \<open>The window invariant, for a buffer with items.\<close>

definition jb_window :: "'d JitterBuffer \<Rightarrow> bool" where
  "jb_window jb \<longleftrightarrow> window_inv jb (mMinSeq jb) (mMaxSeq jb)"

lemma jb_window_simps [simp]:
  "jb_window (jb\<lparr>jbDepState := d\<rparr>) = jb_window jb" "jb_window (jb\<lparr>mLastFrameTimeStamp := t\<rparr>) = jb_window jb"
  by (simp_all add: jb_window_def)

lemma jb_window_drop_min: "jb_window jb \<Longrightarrow> mMinSeq jb < mMaxSeq jb \<Longrightarrow> jb_window (jb_drop_min jb)"
  using window_drop_min by (simp add: jb_window_def)

lemma jb_window_delete:
  "jb_window jb \<Longrightarrow> mMinSeq jb \<le> s \<Longrightarrow> s < mMaxSeq jb \<Longrightarrow> jb_window ((deleteItemList (mMinSeq jb) s jb)\<lparr>mMinSeq := s + 1\<rparr>)"
  using window_deleteItemList by (simp add: jb_window_def)

text \<open>The buffer after frames have been handed out, up to the removal of their items.\<close>

definition emitted :: "'d JitterBuffer \<Rightarrow> 'd JitterBuffer \<Rightarrow> bool" where
  "emitted jb jb' \<longleftrightarrow> (\<exists>d t. jb' = jb\<lparr>jbDepState := d, mLastFrameTimeStamp := t\<rparr>)"

lemma emitted_refl: "emitted jb jb"
  unfolding emitted_def by (rule exI [of _ "jbDepState jb"], rule exI [of _ "mLastFrameTimeStamp jb"]) simp

lemma emitted_keeps:
  "emitted jb jb' \<Longrightarrow> jb_window jb' = jb_window jb \<and> mMinSeq jb' = mMinSeq jb \<and> mMaxSeq jb' = mMaxSeq jb \<and>
     jbDepacketizer jb' = jbDepacketizer jb \<and> mItemList jb' = mItemList jb \<and> mCapacity jb' = mCapacity jb"
  by (auto simp: emitted_def)

inductive removed :: "'d JitterBuffer \<Rightarrow> 'd JitterBuffer \<Rightarrow> bool" where
  removed_none: "removed jb jb"
| removed_min: "removed jb (jb_drop_min jb)"
| removed_run: "mMinSeq jb \<le> s \<Longrightarrow> s < mMaxSeq jb \<Longrightarrow>
    removed jb ((deleteItemList (mMinSeq jb) s jb)\<lparr>mMinSeq := s + 1\<rparr>)"

lemma removed_window:
  "removed jb jb' \<Longrightarrow> jb_window jb \<Longrightarrow> mMinSeq jb < mMaxSeq jb \<Longrightarrow> jb_window jb' \<and> jbDepacketizer jb' = jbDepacketizer jb"
  by (induction rule: removed.induct) (auto simp: jb_window_drop_min jb_window_delete [simplified])

lemma deque_step_shape:
  assumes "deque_step now jb = Some (fs, jb', cont)"
  shows "\<exists>jb1. emitted jb jb1 \<and> removed jb1 jb'"
proof -
  have same: "removed jb x \<Longrightarrow> ?thesis" if "x = jb'" for x using that emitted_refl by blast
  obtain it where it: "get_item jb (mMinSeq jb) = Some it" using assms by (auto simp: deque_step_def split: bind_splits)
  consider (emit) jb1 ps i l where "jb_emit now ps i l jb = Some (fs, jb1)" "jb' = jb_drop_min jb1"
    | (run) jb1 ps i l s where "jb_emit now ps i l jb = Some (fs, jb1)" "findMultiPacketSequence_loop jb (mMinSeq jb + 1) = Some (Complete s)"
        "jb' = (deleteItemList (mMinSeq jb1) s jb1)\<lparr>mMinSeq := s + 1\<rparr>"
    | (bad) s where "findMultiPacketSequence_loop jb (mMinSeq jb + 1) = Some (Abandoned s)"
        "jb' = (deleteItemList (mMinSeq jb) s jb)\<lparr>mMinSeq := s + 1\<rparr>"
    | (drop) "jb' = jb_drop_min jb" | (keep) "jb' = jb"
    using assms it
    by (cases "it_kind it")
      (auto simp: deque_step_def findMultiPacketSequence_def split: bind_splits if_splits SequenceResult.splits)
  then show ?thesis
  proof cases
    case emit
    then show ?thesis using jb_emit_fields [OF emit(1)] removed_min by (auto simp: emitted_def)
  next
    case run
    then have e: "emitted jb jb1" using jb_emit_fields by (auto simp: emitted_def)
    then show ?thesis using findMulti_bounds [OF run(2)] run(3) removed_run [of jb1 s] emitted_keeps [OF e] by auto
  next
    case bad
    then show ?thesis using findMulti_bounds [OF bad(1)] removed_run [of jb s] same by auto
  qed (use emitted_refl removed_min removed_none in blast)+
qed

lemma deque_step_window:
  assumes s: "deque_step now jb = Some (fs, jb', cont)" and w: "jb_window jb" "mMinSeq jb < mMaxSeq jb"
  shows "jb_window jb' \<and> jbDepacketizer jb' = jbDepacketizer jb"
proof -
  obtain jb1 where "emitted jb jb1" "removed jb1 jb'" using deque_step_shape [OF s] by blast
  then show ?thesis using emitted_keeps [of jb jb1] removed_window [of jb1 jb'] w by auto
qed

context total_depacketizer
begin

lemma jb_emit_total:
  assumes "jbDepacketizer jb = dp" "ps \<noteq> []"
  shows "\<exists>fs jb'. jb_emit now ps item l jb = Some (fs, jb')"
proof -
  obtain out d where "dp_extract dp ps (jbDepState jb) = Some (out, d)" using extract_total [OF assms(2)] by fastforce
  then show ?thesis using assms appendToResult_total [of item l now out "jb\<lparr>jbDepState := d\<rparr>"] by (auto simp: jb_emit_def)
qed

lemma deque_step_total:
  assumes dp: "jbDepacketizer jb = dp" and w: "jb_window jb" and lt: "mMinSeq jb < mMaxSeq jb"
  shows "deque_step now jb \<noteq> None"
proof -
  let ?lo = "mMinSeq jb" and ?hi = "mMaxSeq jb"
  note win = w [unfolded jb_window_def]
  obtain it where it: "get_item jb ?lo = Some it" by (rule window_get [OF win order.refl lt])
  have emit: "\<exists>fs jb'. jb_emit now (p # ps) it l jb = Some (fs, jb')" for p ps l
    by (rule jb_emit_total [OF dp]) simp
  obtain r where r: "findMultiPacketSequence_loop jb (?lo + 1) = Some r"
    using findMultiPacketSequence_loop_total [OF win, of "?lo + 1"] by auto
  obtain b where b: "findNextToDequeue now jb = Some b"
    using it findNextToDequeue_loop_total [OF win, of "[?lo + 1..<?hi]" now "rtp_timestamp_ext it"]
    by (auto simp: findNextToDequeue_def)
  have complete: "\<exists>p ps l. fillItemList jb [?lo..<s + 1] = Some (p # ps) \<and> get_item jb s = Some l"
    if c: "r = Complete s" for s
  proof -
    have s: "?lo \<le> s" "s < ?hi" using findMulti_bounds [OF r] c by auto
    obtain its where "fillItemList jb [?lo..<s + 1] = Some its" "length its = s + 1 - ?lo"
      using fillItemList_total [OF win, of "[?lo..<s + 1]"] s by auto
    moreover obtain l where "get_item jb s = Some l" by (rule window_get [OF win s])
    ultimately show ?thesis using s by (cases its) auto
  qed
  show ?thesis
  proof (cases "it_kind it")
    case Standalone
    then show ?thesis using it emit [of it "[]" it] by (auto simp: deque_step_def)
  next
    case Start
    show ?thesis
    proof (cases r)
      case (Complete s)
      obtain p ps l where c: "fillItemList jb [?lo..<s + 1] = Some (p # ps)" "get_item jb s = Some l"
        using complete [OF Complete] by blast
      obtain fs jb' where e: "jb_emit now (p # ps) it l jb = Some (fs, jb')" using emit [of p ps l] by blast
      show ?thesis using it Start r Complete c e by (auto simp: deque_step_def findMultiPacketSequence_def)
    qed (use it Start r b in \<open>auto simp: deque_step_def findMultiPacketSequence_def\<close>)
  qed (use it in \<open>auto simp: deque_step_def\<close>)
qed

lemma processDeque_loop_total:
  assumes "jbDepacketizer jb = dp" "jb_window jb"
  shows "\<exists>fs jb'. processDeque_loop now jb = Some (fs, jb') \<and> jb_window jb' \<and> jbDepacketizer jb' = dp"
  using assms
proof (induction now jb rule: processDeque_loop.induct)
  case (1 now jb)
  show ?case
  proof (cases "mMinSeq jb < mMaxSeq jb")
    case True
    obtain fs jb1 c where s: "deque_step now jb = Some (fs, jb1, c)"
      using deque_step_total [OF "1.prems" True, of now] by (metis not_None_eq prod_cases3)
    have w: "jb_window jb1" "jbDepacketizer jb1 = dp" using deque_step_window [OF s "1.prems"(2) True] "1.prems" by auto
    show ?thesis
    proof (cases c)
      case c: True
      show ?thesis using "1.IH" [OF True s refl refl c w(2,1)] True s c by (auto simp: processDeque_loop.simps [of now jb])
    next
      case False
      then show ?thesis using w True s by (simp add: processDeque_loop.simps [of now jb])
    qed
  next
    case False
    then show ?thesis using "1.prems" by (simp add: processDeque_loop.simps [of now jb])
  qed
qed

end

interpretation opus: total_depacketizer depacketizer_opus
  by unfold_locales (auto simp: depacketizer_opus_def opus_getPacketKind_def opus_extract_def split: list.split)

section \<open>Nacks\<close>

definition nack_due :: "int \<Rightarrow> 'd JitterBuffer \<Rightarrow> nat \<Rightarrow> bool" where
  "nack_due now jb s \<longleftrightarrow> (case get_item jb s of
     Some it \<Rightarrow> diff_millis (when_nack_request it) now \<le> 0 \<and> \<not> it_received it \<and> nack_needed it | None \<Rightarrow> False)"

definition nack_stop :: "int \<Rightarrow> 'd JitterBuffer \<Rightarrow> nat \<Rightarrow> bool" where
  "nack_stop now jb s \<longleftrightarrow> (case get_item jb s of
     Some it \<Rightarrow> diff_millis (when_nack_request it) now > 0 \<and> diff_millis (when_nack_abandon it) now \<le> 0 | None \<Rightarrow> False)"

text \<open>The lost packets whose request is due, up to the point where the scan stops.\<close>

definition nacks :: "int \<Rightarrow> 'd JitterBuffer \<Rightarrow> nat list \<Rightarrow> nat list" where
  "nacks now jb ss = filter (nack_due now jb) (takeWhile (\<lambda>s. \<not> nack_stop now jb s) ss)"

definition ask :: "nat list \<Rightarrow> 'd JitterBuffer \<Rightarrow> 'd JitterBuffer" where
  "ask ss jb = fold (\<lambda>s jb. set_item jb s (map_option (\<lambda>it. it\<lparr>nack_needed := False\<rparr>) (get_item jb s))) ss jb"

lemma ask_simps [simp]:
  "ask [] jb = jb"
  "ask (s # ss) jb = ask ss (set_item jb s (map_option (\<lambda>it. it\<lparr>nack_needed := False\<rparr>) (get_item jb s)))"
  by (simp_all add: ask_def)

lemma window_fits: "window_inv jb lo hi \<Longrightarrow> hi \<le> lo + mCapacity jb"
  by (simp add: window_inv_def)

lemma nacks_set_other:
  assumes w: "window_inv jb lo hi" and s: "lo \<le> s" "s < hi" and ss: "\<forall>t\<in>set ss. s < t \<and> t < hi"
  shows "nacks now (set_item jb s x) ss = nacks now jb ss"
proof -
  have "get_item (set_item jb s x) t = get_item jb t" if "t \<in> set ss" for t
    by (rule get_set_other [OF window_ring [OF w], of s t lo]) (use ss s that window_fits [OF w] in auto)
  then have "nack_due now (set_item jb s x) t = nack_due now jb t" "nack_stop now (set_item jb s x) t = nack_stop now jb t"
    if "t \<in> set ss" for t using that by (auto simp: nack_due_def nack_stop_def)
  then show ?thesis unfolding nacks_def
    by (intro filter_cong takeWhile_cong) (auto dest: set_takeWhileD)
qed

lemma nack_loop_eq:
  assumes "window_inv jb lo hi" "\<forall>t\<in>set ss. lo \<le> t \<and> t < hi" "sorted_wrt (<) ss"
  shows "nack_loop now ss jb = Some (map of_nat (nacks now jb ss), ask (nacks now jb ss) jb) \<and>
    window_inv (ask (nacks now jb ss) jb) lo hi"
  using assms
proof (induction ss arbitrary: jb)
  case Nil
  then show ?case by (simp add: nacks_def)
next
  case (Cons s ss)
  have s: "lo \<le> s" "s < hi" using Cons.prems(2) by auto
  obtain it where it: "get_item jb s = Some it" "seq_ext it = s" by (rule window_get [OF Cons.prems(1) s])
  let ?jb = "set_item jb s (Some (it\<lparr>nack_needed := False\<rparr>))"
  have w: "window_inv ?jb lo hi" by (rule window_replace [OF Cons.prems(1) s]) (simp add: it)
  have n: "nacks now ?jb ss = nacks now jb ss" by (rule nacks_set_other [OF Cons.prems(1) s]) (use Cons.prems in auto)
  have 1: "nack_loop now ss ?jb = Some (map of_nat (nacks now jb ss), ask (nacks now jb ss) ?jb) \<and>
      window_inv (ask (nacks now jb ss) ?jb) lo hi" using Cons.IH [OF w] Cons.prems n by simp
  have 2: "nack_loop now ss jb = Some (map of_nat (nacks now jb ss), ask (nacks now jb ss) jb) \<and>
      window_inv (ask (nacks now jb ss) jb) lo hi" using Cons by simp
  show ?case
  proof (cases "nack_stop now jb s")
    case True
    then have "nacks now jb (s # ss) = []" by (simp add: nacks_def)
    then show ?thesis using True it Cons.prems(1) by (auto simp: nack_stop_def)
  next
    case False
    then have "nacks now jb (s # ss) = (if nack_due now jb s then s # nacks now jb ss else nacks now jb ss)"
      by (simp add: nacks_def)
    then show ?thesis using False it 1 2 by (auto simp: nack_stop_def nack_due_def)
  qed
qed

lemma get_ask:
  assumes "window_inv jb lo hi" "\<forall>t\<in>set ss. lo \<le> t \<and> t < hi" "lo \<le> s" "s < hi"
  shows "get_item (ask ss jb) s =
    (if s \<in> set ss then map_option (\<lambda>it. it\<lparr>nack_needed := False\<rparr>) (get_item jb s) else get_item jb s)"
  using assms
proof (induction ss arbitrary: jb)
  case (Cons t ss)
  then have t: "lo \<le> t" "t < hi" by auto
  obtain it where it: "get_item jb t = Some it" "seq_ext it = t" by (rule window_get [OF Cons.prems(1) t])
  let ?jb = "set_item jb t (Some (it\<lparr>nack_needed := False\<rparr>))"
  have w: "window_inv ?jb lo hi" by (rule window_replace [OF Cons.prems(1) t]) (simp add: it)
  have other: "s \<noteq> t \<Longrightarrow> get_item ?jb s = get_item jb s"
    by (rule get_set_other [OF window_ring [OF Cons.prems(1)], of t s lo]) (use t Cons.prems window_fits [OF Cons.prems(1)] in auto)
  have same: "get_item ?jb t = Some (it\<lparr>nack_needed := False\<rparr>)" using window_ring [OF Cons.prems(1)] by simp
  show ?case using Cons.IH [OF w] Cons.prems it other same by (cases "s = t") auto
qed simp

lemma ask_fields [simp]:
  "mMinSeq (ask ss jb) = mMinSeq jb" "mMaxSeq (ask ss jb) = mMaxSeq jb" "jbTrack (ask ss jb) = jbTrack jb"
  "mItemList (ask ss jb) = None \<longleftrightarrow> mItemList jb = None" "jbDepacketizer (ask ss jb) = jbDepacketizer jb" "mCapacity (ask ss jb) = mCapacity jb"
  by (induction ss arbitrary: jb) auto

lemma window_None: "window_inv jb lo hi \<Longrightarrow> mItemList jb \<noteq> None"
  by (auto simp: window_inv_def)

text \<open>
  C5. Lost packets are asked for once: on a buffer that satisfies its invariant \<^verbatim>\<open>processNack\<close>
  returns, in increasing order, the 16-bit sequence numbers of exactly the lost packets whose
  request is due and was not made yet (up to the first one whose request is not due and which
  is already abandoned), it keeps the invariant, and called again it asks for nothing.
\<close>
theorem processNack_asks_once:
  assumes "jb_inv jb" "mItemList jb \<noteq> None" "track_hasNack (jbTrack jb)"
  shows "\<exists>jb'. processNack now jb = Some (map of_nat (nacks now jb [mMinSeq jb..<mMaxSeq jb]), jb') \<and>
    jb_inv jb' \<and> processNack now jb' = Some ([], jb')"
proof -
  let ?lo = "mMinSeq jb" and ?hi = "mMaxSeq jb" and ?ss = "nacks now jb [mMinSeq jb..<mMaxSeq jb]"
  have w: "window_inv jb ?lo ?hi" using assms by (simp add: jb_inv_def)
  let ?jb = "ask ?ss jb"
  have sub: "\<forall>t\<in>set ?ss. ?lo \<le> t \<and> t < ?hi" by (auto simp: nacks_def dest: set_takeWhileD)
  have p: "processNack now jb = Some (map of_nat ?ss, ?jb)" and w': "window_inv ?jb ?lo ?hi"
    using nack_loop_eq [OF w, of "[?lo..<?hi]" now] assms by (auto simp: processNack_def nacks_def)
  have get: "get_item ?jb s = (if s \<in> set ?ss then map_option (\<lambda>it. it\<lparr>nack_needed := False\<rparr>) (get_item jb s) else get_item jb s)"
    if "?lo \<le> s" "s < ?hi" for s by (rule get_ask [OF w sub that])
  have stop: "nack_stop now ?jb s = nack_stop now jb s" if "?lo \<le> s" "s < ?hi" for s
    using get [OF that] by (auto simp: nack_stop_def split: option.split)
  have tw: "takeWhile (\<lambda>s. \<not> nack_stop now ?jb s) [?lo..<?hi] = takeWhile (\<lambda>s. \<not> nack_stop now jb s) [?lo..<?hi]"
    by (rule takeWhile_cong) (simp_all add: stop)
  have "\<not> nack_due now ?jb s" if "s \<in> set (takeWhile (\<lambda>s. \<not> nack_stop now jb s) [?lo..<?hi])" for s
  proof -
    have "?lo \<le> s" "s < ?hi" using that by (auto dest: set_takeWhileD)
    then show ?thesis using get [of s] that by (auto simp: nacks_def nack_due_def split: option.split)
  qed
  then have none: "nacks now ?jb [?lo..<?hi] = []"
    by (simp only: nacks_def [of now ?jb] tw) (simp add: filter_empty_conv)
  have "processNack now ?jb = Some ([], ?jb)"
    using nack_loop_eq [OF w', of "[?lo..<?hi]" now] none by (simp add: processNack_def)
  then show ?thesis using p w' assms by (auto simp: jb_inv_def)
qed

section \<open>Timeouts\<close>

lemma timeout_item_keeps:
  "timeout_item now item (a, b, c) = (a', b', c') \<Longrightarrow>
     (a \<noteq> None \<longrightarrow> a' = a) \<and> (b \<noteq> None \<longrightarrow> b' = b) \<and> (c \<noteq> None \<longrightarrow> c' = c)"
  by (auto simp: timeout_item_def split: if_splits)

lemma timeout_loop_step:
  assumes "s < mMaxSeq jb" "get_item jb s = Some it" "timeout_item now it t = t1"
  shows "timeout_loop now cutoff jb s t = Some t1 \<or> timeout_loop now cutoff jb s t = timeout_loop now cutoff jb (s + 1) t1"
  using assms by (cases t1) (simp add: timeout_loop.simps [of now cutoff jb s t] Let_def)

lemma timeout_loop_keeps:
  "window_inv jb lo (mMaxSeq jb) \<Longrightarrow> lo \<le> s \<Longrightarrow>
   \<exists>a' b' c'. timeout_loop now cutoff jb s (a, b, c) = Some (a', b', c') \<and>
     (a \<noteq> None \<longrightarrow> a' = a) \<and> (b \<noteq> None \<longrightarrow> b' = b) \<and> (c \<noteq> None \<longrightarrow> c' = c)"
proof (induction "mMaxSeq jb - s" arbitrary: s a b c)
  case 0
  then show ?case by (simp add: timeout_loop.simps [of now cutoff jb s])
next
  case (Suc n)
  then have "s < mMaxSeq jb" by simp
  obtain it where it: "get_item jb s = Some it" by (rule window_get [OF Suc.prems \<open>s < mMaxSeq jb\<close>])
  obtain a1 b1 c1 where t: "timeout_item now it (a, b, c) = (a1, b1, c1)" by (metis prod_cases3)
  have "n = mMaxSeq jb - (s + 1)" using Suc.hyps(2) by simp
  from Suc.hyps(1) [OF this Suc.prems(1), of a1 b1 c1] Suc.prems(2)
  obtain a2 b2 c2 where r: "timeout_loop now cutoff jb (s + 1) (a1, b1, c1) = Some (a2, b2, c2)"
    "a1 \<noteq> None \<longrightarrow> a2 = a1" "b1 \<noteq> None \<longrightarrow> b2 = b1" "c1 \<noteq> None \<longrightarrow> c2 = c1" by auto
  show ?case using timeout_loop_step [OF \<open>s < mMaxSeq jb\<close> it t, of cutoff] timeout_item_keeps [OF t] r
    by (elim disjE) simp_all
qed

lemma min_timeout_le: "min_timeout t x \<le> x" "min_timeout (Some v) x \<le> v"
  by (auto simp: min_timeout_def split: option.split)

text \<open>
  C6. The event loop never sleeps past the first packet: \<^verbatim>\<open>getTimeoutMillis\<close> returns at most the
  default, at most the time until the first packet of the window is to be dequeued if it was
  received, and, if it was lost on a track with nacks, at most the time until it is abandoned
  and until its request is due.
\<close>
theorem getTimeoutMillis_wakes_up:
  assumes "jb_inv jb" "mItemList jb \<noteq> None" "mMinSeq jb < mMaxSeq jb"
  shows "\<exists>t it. getTimeoutMillis now def jb = Some t \<and> get_item jb (mMinSeq jb) = Some it \<and> t \<le> def \<and>
    (it_received it \<longrightarrow> t \<le> diff_millis (when_dequeue it) now) \<and>
    (\<not> it_received it \<and> track_hasNack (jbTrack jb) \<longrightarrow> t \<le> diff_millis (when_nack_abandon it) now \<and>
       (nack_needed it \<longrightarrow> t \<le> diff_millis (when_nack_request it) now))"
proof -
  let ?lo = "mMinSeq jb" and ?cut = "now + def * millis"
    and ?n = "if track_hasNack (jbTrack jb) then None else Some (2 * def)"
  have w: "window_inv jb ?lo (mMaxSeq jb)" using assms by (simp add: jb_inv_def)
  obtain it where it: "get_item jb ?lo = Some it" by (rule window_get [OF w order.refl assms(3)])
  obtain a1 b1 c1 where t: "timeout_item now it (?n, ?n, None) = (a1, b1, c1)" by (metis prod_cases3)
  obtain a2 b2 c2 where r: "timeout_loop now ?cut jb (?lo + 1) (a1, b1, c1) = Some (a2, b2, c2)"
    "a1 \<noteq> None \<longrightarrow> a2 = a1" "b1 \<noteq> None \<longrightarrow> b2 = b1" "c1 \<noteq> None \<longrightarrow> c2 = c1"
    using timeout_loop_keeps [OF w, of "?lo + 1" now ?cut a1 b1 c1] by auto
  obtain a b c where l: "timeout_loop now ?cut jb ?lo (?n, ?n, None) = Some (a, b, c)"
    "a1 \<noteq> None \<longrightarrow> a = a1" "b1 \<noteq> None \<longrightarrow> b = b1" "c1 \<noteq> None \<longrightarrow> c = c1"
    using timeout_loop_step [OF assms(3) it t, of ?cut] r by (elim disjE) simp_all
  define x y z where "x = min_timeout a def" "y = min_timeout b x" "z = min_timeout c y"
  have chain: "z \<le> y" "y \<le> x" "x \<le> def" by (simp_all add: x_y_z_def min_timeout_le)
  have le: "(a = Some v \<longrightarrow> z \<le> v) \<and> (b = Some v \<longrightarrow> z \<le> v) \<and> (c = Some v \<longrightarrow> z \<le> v)" for v
    using chain min_timeout_le(2) [of v def] min_timeout_le(2) [of v x] min_timeout_le(2) [of v y]
    by (auto simp: x_y_z_def)
  have g: "getTimeoutMillis now def jb = Some z" using l(1) assms(2) by (auto simp: getTimeoutMillis_def x_y_z_def Let_def)
  have first: "it_received it \<Longrightarrow> c1 = Some (diff_millis (when_dequeue it) now)"
    "\<not> it_received it \<Longrightarrow> track_hasNack (jbTrack jb) \<Longrightarrow> b1 = Some (diff_millis (when_nack_abandon it) now)"
    "\<not> it_received it \<Longrightarrow> track_hasNack (jbTrack jb) \<Longrightarrow> nack_needed it \<Longrightarrow> a1 = Some (diff_millis (when_nack_request it) now)"
    using t by (auto simp: timeout_item_def)
  show ?thesis using g it chain first l(2-4) le by (intro exI [of _ z] exI [of _ it]) auto
qed

section \<open>The invariant over a history\<close>

text \<open>No packet has the number right after a full window.\<close>

definition consume_fits :: "int \<Rightarrow> RtpPacket \<Rightarrow> 'd JitterBuffer \<Rightarrow> bool" where
  "consume_fits now p jb \<longleftrightarrow>
     (case unwrap_rtx (jbTrack jb) p of
        Some (seq, _) \<Rightarrow> mItemList jb \<noteq> None \<longrightarrow>
          unat (fst (Extended_Value.extend now (mExtValueSeq jb) seq)) \<noteq> mMinSeq jb + mCapacity jb
      | None \<Rightarrow> True)"

fun jb_fits :: "jb_event list \<Rightarrow> 'd JitterBuffer \<Rightarrow> bool" where
  "jb_fits [] jb \<longleftrightarrow> True"
| "jb_fits (e # es) jb \<longleftrightarrow>
     (case e of Consume now p \<Rightarrow> consume_fits now p jb | _ \<Rightarrow> True) \<and>
     (case jb_step e jb of Some (_, jb') \<Rightarrow> jb_fits es jb' | None \<Rightarrow> True)"

lemma jb_inv_window: "jb_inv jb \<and> mItemList jb \<noteq> None \<longleftrightarrow> jb_window jb"
  by (auto simp: jb_inv_def jb_window_def window_inv_def)

lemma jb_inv_ext [simp]: "jb_inv (jb\<lparr>mExtValueSeq := es, mExtValueRtpTimestamp := et\<rparr>) = jb_inv jb"
  by (simp add: jb_inv_def)

lemma jb_store_dep:
  "jb_store now s ts m e pl jb = Some jb' \<Longrightarrow> jbDepacketizer jb' = jbDepacketizer jb"
proof -
  have "jb_place r a s jb = Some x \<Longrightarrow> jbDepacketizer x = jbDepacketizer jb" for r a x
    using fill_lost_fields(1) [of jb r a _ jb] by (fastforce simp: jb_place_def Let_def same_frame_def split: if_splits)
  then show "jb_store now s ts m e pl jb = Some jb' \<Longrightarrow> jbDepacketizer jb' = jbDepacketizer jb"
    by (auto simp: jb_store_def Let_def jb_fix_next_def split: option.splits bind_splits if_splits)
qed

lemma jb_consume_ext_dep:
  assumes "jb_consume_ext now s ts m e pl jb = Some jb'"
  shows "jbDepacketizer jb' = jbDepacketizer jb"
proof -
  let ?jb = "(jb_maybe_reset now s jb)\<lparr>mLastPacketTime := now\<rparr>"
  have "jb' = jb \<or> jb' = ?jb \<or> jb_store now s ts m e pl ?jb = Some jb' \<or>
      jb_store now s ts m e pl (jb_first now s ts ?jb) = Some jb'"
    using assms by (simp add: jb_consume_ext_def Let_def split: if_splits)
  moreover have "jbDepacketizer (jb_first now s ts ?jb) = jbDepacketizer jb" "jbDepacketizer ?jb = jbDepacketizer jb"
    by (auto simp: jb_first_def jb_maybe_reset_def freeEverything_def)
  ultimately show ?thesis by (auto dest!: jb_store_dep)
qed

lemma nack_loop_dep: "nack_loop now ss jb = Some (rs, jb') \<Longrightarrow> jbDepacketizer jb' = jbDepacketizer jb"
  by (induction now ss jb arbitrary: rs rule: nack_loop.induct) (fastforce split: if_splits bind_splits)+

context total_depacketizer
begin

lemma consume_inv:
  assumes "jb_inv jb" "jbDepacketizer jb = dp" "consume_fits now p jb"
  shows "\<exists>jb'. jb_consume now p jb = Some jb' \<and> jb_inv jb' \<and> jbDepacketizer jb' = dp"
proof (cases "unwrap_rtx (jbTrack jb) p")
  case None
  then show ?thesis using assms by (simp add: jb_consume_def)
next
  case (Some sp)
  obtain seq payload s es ts et where e: "sp = (seq, payload)" "Extended_Value.extend now (mExtValueSeq jb) seq = (s, es)"
    "Extended_Value.extend now (mExtValueRtpTimestamp jb) (pkt_timestamp p) = (ts, et)" by (metis surj_pair)
  let ?jb = "jb\<lparr>mExtValueSeq := es, mExtValueRtpTimestamp := et\<rparr>"
  have "mItemList ?jb \<noteq> None \<Longrightarrow> unat s \<noteq> mMinSeq ?jb + mCapacity ?jb" using assms(3) Some e by (auto simp: consume_fits_def)
  moreover have "dp_getPacketKind (jbDepacketizer ?jb) payload (pkt_marker p) \<noteq> None" using kind_total assms(2) by simp
  ultimately obtain jb' where "jb_consume_ext now (unat s) ts (pkt_marker p) (pkt_extension p) payload ?jb = Some jb'" "jb_inv jb'"
    using jb_consume_ext_ok [of ?jb payload "pkt_marker p" "unat s" now ts "pkt_extension p"] assms(1) by auto
  then show ?thesis using Some e assms(2) jb_consume_ext_dep by (fastforce simp: jb_consume_def)
qed

lemma deque_inv:
  assumes "jb_inv jb" "jbDepacketizer jb = dp"
  shows "\<exists>fs jb'. processDeque now jb = Some (fs, jb') \<and> jb_inv jb' \<and> jbDepacketizer jb' = dp"
proof (cases "mItemList jb = None \<or> mMinSeq jb = mMaxSeq jb")
  case True
  then show ?thesis using assms by (auto simp: processDeque_def)
next
  case False
  then show ?thesis
    using processDeque_loop_total [OF assms(2), of now] assms(1) jb_inv_window by (fastforce simp: processDeque_def)
qed

lemma nack_inv:
  assumes "jb_inv jb" "jbDepacketizer jb = dp"
  shows "\<exists>rs jb'. processNack now jb = Some (rs, jb') \<and> jb_inv jb' \<and> jbDepacketizer jb' = dp"
proof (cases "mItemList jb = None \<or> mMinSeq jb = mMaxSeq jb \<or> \<not> track_hasNack (jbTrack jb)")
  case True
  then show ?thesis using assms by (auto simp: processNack_def)
next
  case False
  then have "window_inv jb (mMinSeq jb) (mMaxSeq jb)" using assms(1) by (simp add: jb_inv_def)
  from nack_loop_eq [OF this, of "[mMinSeq jb..<mMaxSeq jb]" now] False assms
  show ?thesis by (auto simp: processNack_def jb_inv_def)
qed

lemma step_inv:
  assumes "jb_inv jb" "jbDepacketizer jb = dp" "jb_fits [e] jb"
  shows "\<exists>fs jb'. jb_step e jb = Some (fs, jb') \<and> jb_inv jb' \<and> jbDepacketizer jb' = dp"
proof (cases e)
  case (Consume now p)
  then show ?thesis using consume_inv [OF assms(1,2), of now p] assms(3) by auto
next
  case (Deque now)
  then show ?thesis using deque_inv [OF assms(1,2)] by auto
next
  case (Nack now)
  then show ?thesis using nack_inv [OF assms(1,2), of now] by auto
qed

lemma run_inv:
  assumes "jb_inv jb" "jbDepacketizer jb = dp" "jb_fits es jb"
  shows "\<exists>fs jb'. jb_run es jb = Some (fs, jb') \<and> jb_inv jb'"
  using assms
proof (induction es arbitrary: jb)
  case (Cons e es)
  then obtain fs jb' where s: "jb_step e jb = Some (fs, jb')" "jb_inv jb'" "jbDepacketizer jb' = dp"
    using step_inv [of jb e] by (auto split: option.splits)
  then obtain gs jb'' where "jb_run es jb' = Some (gs, jb'')" "jb_inv jb''"
    using Cons.IH [OF s(2,3)] Cons.prems(3) by auto
  then show ?case using s by simp
qed simp

end

text \<open>
  C2. The jitter buffer never breaks: with a capacity that is a power of two and a depacketizer
  whose functions return on all inputs, every history of received packets, dequeue calls and
  nack calls runs to its end, and in the end every number from \<^verbatim>\<open>mMinSeq\<close> up to \<^verbatim>\<open>mMaxSeq\<close> has
  its own labelled item in the ring and all other slots are free; provided no packet has
  exactly the number \<^verbatim>\<open>mMinSeq + mCapacity\<close>.
\<close>
theorem jitter_buffer_invariant:
  assumes "total_depacketizer dp" "capacity = 2 ^ k"
    "jb_fits es (JitterBuffer_new track dp d capacity len nackDelay)"
  shows "\<exists>frames jb'. jb_run es (JitterBuffer_new track dp d capacity len nackDelay) = Some (frames, jb') \<and> jb_inv jb'"
  by (rule total_depacketizer.run_inv [OF assms(1) _ _ assms(3)]) (use assms(2) in \<open>auto simp: JitterBuffer_new_def jb_inv_def\<close>)

lemma jb_place_overflow:
  assumes "jb_inv jb" "mItemList jb \<noteq> None"
  shows "\<exists>jb'. jb_place request abandon (mMinSeq jb + mCapacity jb) jb = Some jb' \<and> jb_ring jb' \<and> same_frame jb jb' \<and>
    get_item jb' (mMinSeq jb) = Some newItem \<and> get_item jb' (mMinSeq jb + mCapacity jb - 1) \<noteq> None \<and>
    mMinSeq jb' = mMinSeq jb \<and> mMaxSeq jb' = mMinSeq jb + mCapacity jb + 1"
proof -
  let ?s = "mMinSeq jb + mCapacity jb"
  let ?f = "fill_lost request abandon [mMaxSeq jb..<?s] jb"
  have w: "window_inv jb (mMinSeq jb) (mMaxSeq jb)" using assms by (simp add: jb_inv_def)
  then have b: "mMaxSeq jb \<le> ?s" by (simp add: window_inv_def)
  have wf: "window_inv ?f (mMinSeq jb) ?s"
    using fill_lost_high [OF w, of "?s - mMaxSeq jb" request abandon] b by simp
  note r = window_ring [OF wf]
  have cap: "0 < mCapacity jb" using assms(1) by (auto simp: jb_inv_def)
  let ?jb = "(set_item ?f ?s (Some newItem))\<lparr>mMaxSeq := ?s + 1\<rparr>"
  have "jb_place request abandon ?s jb = Some ?jb" using b by (simp add: jb_place_def Let_def)
  moreover have "get_item ?jb (mMinSeq jb) = Some newItem" using get_set_item [OF r] by simp
  moreover have "get_item ?f (?s - 1) \<noteq> None" by (rule window_get [OF wf, of "?s - 1"]) (use cap in auto)
  then have "get_item ?jb (?s - 1) \<noteq> None" using get_set_item [OF r] by simp
  ultimately show ?thesis using r by auto
qed

text \<open>
  C34. The guard of \<^verbatim>\<open>consume\<close> against numbers beyond the capacity is off by one: when more than three quarters of the
  ring are in use, a packet with the extended number \<^verbatim>\<open>mMinSeq + mCapacity\<close> passes both range checks of \<^verbatim>\<open>consume\<close>, and its
  item replaces the item of \<^verbatim>\<open>mMinSeq\<close> in the ring, so the window no longer fits. The packet is not late, and no
  silence has reset the buffer.
\<close>
theorem jb_consume_overflow:
  assumes "jb_inv jb" "mItemList jb \<noteq> None" "mMinSeq jb + mCapacity jb < mMaxSeq jb + mCapacity jb div 4"
    and packet: "unwrap_rtx (jbTrack jb) p = Some (seq, payload)"
      "unat (fst (Extended_Value.extend now (mExtValueSeq jb) seq)) = mMinSeq jb + mCapacity jb"
      "after (mLastFrameTimeStamp jb) (fst (Extended_Value.extend now (mExtValueRtpTimestamp jb) (pkt_timestamp p)))"
      "dp_getPacketKind (jbDepacketizer jb) payload (pkt_marker p) \<noteq> None"
    and now: "now - mLastPacketTime jb < kNoPacketsResetDelay"
  shows "\<exists>jb' it. jb_consume now p jb = Some jb' \<and> get_item jb' (mMinSeq jb) = Some it \<and>
    seq_ext it = mMinSeq jb + mCapacity jb \<and> it_payload it = payload \<and>
    mMinSeq jb' = mMinSeq jb \<and> mMaxSeq jb' = mMinSeq jb + mCapacity jb + 1 \<and> \<not> jb_inv jb'"
proof -
  let ?s = "mMinSeq jb + mCapacity jb"
  obtain s es where es: "Extended_Value.extend now (mExtValueSeq jb) seq = (s, es)" "unat s = ?s" using packet(2) by (cases "Extended_Value.extend now (mExtValueSeq jb) seq") auto
  obtain ts et where et: "Extended_Value.extend now (mExtValueRtpTimestamp jb) (pkt_timestamp p) = (ts, et)" "after (mLastFrameTimeStamp jb) ts"
    using packet(3) by (cases "Extended_Value.extend now (mExtValueRtpTimestamp jb) (pkt_timestamp p)") auto
  obtain k where k: "dp_getPacketKind (jbDepacketizer jb) payload (pkt_marker p) = Some k" using packet(4) by auto
  obtain xs where xs: "mItemList jb = Some xs" using assms(2) by auto
  have cap: "0 < mCapacity jb" using assms(1) by (auto simp: jb_inv_def)
  define jb1 where "jb1 = jb\<lparr>mExtValueSeq := es, mExtValueRtpTimestamp := et, mLastPacketTime := now\<rparr>"
  have f: "mMinSeq jb1 = mMinSeq jb" "mMaxSeq jb1 = mMaxSeq jb" "mCapacity jb1 = mCapacity jb" "mItemList jb1 \<noteq> None" "jb_inv jb1"
    "jbDepacketizer jb1 = jbDepacketizer jb"
    using assms(1,2) by (simp_all add: jb1_def jb_inv_def)
  have "\<not> (case mLastFrameTimeStamp jb of None \<Rightarrow> False | Some t \<Rightarrow> t > ts)" using et(2) by (auto simp: after_def split: option.splits)
  then have consume: "jb_consume now p jb = jb_store now ?s ts (pkt_marker p) (pkt_extension p) payload jb1"
    using packet(1) es et(1) now assms(3) xs cap by (simp add: jb_consume_def jb_consume_ext_def jb_maybe_reset_def Let_def jb1_def)
  let ?r = "now + mNackDelay jb1" and ?a = "jb_dequeue_time jb1 ts"
  obtain jb2 where p2: "jb_place ?r ?a ?s jb1 = Some jb2" "jb_ring jb2" "same_frame jb1 jb2" "get_item jb2 (mMinSeq jb) = Some newItem"
      "get_item jb2 (?s - 1) \<noteq> None" "mMinSeq jb2 = mMinSeq jb" "mMaxSeq jb2 = ?s + 1"
    using jb_place_overflow [OF f(5,4), of ?r ?a] unfolding f by blast
  have frame: "mCapacity jb2 = mCapacity jb" "jbDepacketizer jb2 = jbDepacketizer jb" using p2(3) f by (simp_all add: same_frame_def)
  have slot: "jb_index jb2 ?s = jb_index jb2 (mMinSeq jb)" using assms(1) frame by (auto simp: jb_inv_def jb_index_mod)
  have same: "get_item jb' ?s = get_item jb' (mMinSeq jb)" if "mCapacity jb' = mCapacity jb2" for jb' :: "'a JitterBuffer"
  proof -
    have "jb_index jb' ?s = jb_index jb' (mMinSeq jb)" using slot that by (simp add: jb_index_def)
    then show ?thesis by (simp add: get_item_def split: option.split)
  qed
  define it where "it = newItem\<lparr>when_received := now, when_dequeue := ?a, when_nack_request := ?r,
    when_nack_abandon := ?a, it_received := True, nack_needed := False, seq_ext := ?s,
    rtp_timestamp_ext := ts, it_marker := pkt_marker p, it_extension := pkt_extension p, it_payload := payload, it_kind := k\<rparr>"
  have it: "seq_ext it = ?s" "it_payload it = payload" by (simp_all add: it_def)
  obtain it2 where it2: "jb_fix_kind jb2 it = Some it2" "seq_ext it2 = ?s" "it_payload it2 = payload"
  proof -
    obtain y where "get_item jb2 (seq_ext it - 1) = Some y" using p2(5) it(1) by auto
    then show ?thesis using that it by (cases "it_kind it = Start \<and> mMinSeq jb2 < ?s") (auto simp: jb_fix_kind_def)
  qed
  let ?jb' = "set_item jb2 ?s (Some it2)"
  have "jb_store now ?s ts (pkt_marker p) (pkt_extension p) payload jb1 = Some ?jb'"
    using p2(1,4,7) same [of jb2] k frame it2 by (simp add: jb_store_def Let_def it_def [symmetric] jb_fix_next_def)
  moreover have "get_item ?jb' (mMinSeq jb) = Some it2" using same [of ?jb'] get_set_same [OF p2(2)] by simp
  moreover have "\<not> jb_inv ?jb'" using p2(2,6,7) frame by (auto simp: jb_inv_def window_inv_def jb_ring_def)
  ultimately show ?thesis using consume it2 p2(6,7) by auto
qed

definition example_jb :: "unit JitterBuffer" where
  "example_jb = JitterBuffer_new example_track depacketizer_opus () 8 (100 * millis) (10 * millis)"

definition example_arrival :: "u16 \<Rightarrow> u32 \<Rightarrow> RtpPacket" where
  "example_arrival seq ts = example_packet\<lparr>pkt_sequence := seq, pkt_timestamp := ts, pkt_extension := RtpExtension_none\<rparr>"

lemma extended_new_eval:
  "(ExtendedValue_new :: 16 ExtendedValue) = \<lparr>mRolloverIncrement = 0x10000, mRolloverValue = 0, mRolloverTime = 0, mLastValue = None\<rparr>"
  "(ExtendedValue_new :: 32 ExtendedValue) = \<lparr>mRolloverIncrement = 0x100000000, mRolloverValue = 0, mRolloverTime = 0, mLastValue = None\<rparr>"
  "(max_value :: 16 word) = 0xFFFF" "(max_value :: 32 word) = 0xFFFFFFFF" "(margin :: 16 word) = 0x3FFF" "(margin :: 32 word) = 0x3FFFFFFF"
  by (simp_all add: ExtendedValue_new_def max_value_def margin_def unsigned_minus_1_eq_mask mask_eq_exp_minus_1)

lemma example_track_ext: "track_ext_id example_track kExtAbsCaptureTime = 0"
  by (simp add: example_track_def Track_new_def track_ext_id_def ExtensionMap_new_def findByName_def)

lemma replicate_8: "replicate 8 x = [x, x, x, x, x, x, x, x]"
  by (simp add: numeral_eq_Suc)

lemma nth_upd_numeral [simp]: "(x # xs)[numeral n := y] = x # xs[pred_numeral n := y]"
  by (simp add: numeral_eq_Suc)

lemma example_jb_eval:
  "example_jb = \<lparr>jbTrack = example_track, jbDepacketizer = depacketizer_opus, jbDepState = (), mCapacity = 8,
     mLength = 100000000, mNackDelay = 10000000, mAbsCaptureTimeExtensionId = 0,
     mLastPacketTime = - (2 ^ 63), mItemList = None, mMinSeq = 0, mMaxSeq = 0,
     mExtValueSeq = \<lparr>mRolloverIncrement = 0x10000, mRolloverValue = 0, mRolloverTime = 0, mLastValue = None\<rparr>,
     mExtValueRtpTimestamp = \<lparr>mRolloverIncrement = 0x100000000, mRolloverValue = 0, mRolloverTime = 0, mLastValue = None\<rparr>,
     mBaseTime = - (2 ^ 63), mBaseRtpTimestamp = 0, mLastFrameTimeStamp = None\<rparr>"
  by (simp add: example_jb_def JitterBuffer_new_def extended_new_eval example_track_ext millis_def time_point_min_def)

lemmas jb_eval = example_arrival_def example_packet_def example_jb_eval
  jb_consume_def jb_consume_ext_def unwrap_rtx_def Extended_Value.extend_def extended_new_eval Let_def
  jb_maybe_reset_def jb_first_def jb_store_def jb_place_def jb_dequeue_time_def get_item_def set_item_def jb_index_def
  jb_fix_kind_def jb_fix_next_def depacketizer_opus_def opus_getPacketKind_def millis_def newItem_def 
  processDeque_def processDeque_loop.simps deque_step_def diff_millis_def jb_emit_def opus_extract_def
  appendToResult_def absCaptureTime_def jb_drop_min_def fill_lost_def newLostItem_def time_point_min_def time_point_max_def
  RtpExtension_none_def replicate_8

lemma track_facts: "track_rtxSsrc example_track = 2" "track_clockRate example_track = 90000" "track_hasNack example_track"
  by (simp_all add: example_track_def Track_new_def)

definition example_item :: "int \<Rightarrow> nat \<Rightarrow> u64 \<Rightarrow> JitterBufferItem" where
  "example_item now s ts = \<lparr>when_received = now, when_dequeue = 100000000,
     when_nack_request = now + 10000000, when_nack_abandon = 100000000, it_received = True,
     nack_needed = False, it_kind = Standalone, seq_ext = s, rtp_timestamp_ext = ts, it_marker = True,
     it_extension = RtpExtension_none, it_payload = [1, 2, 3]\<rparr>"

definition example_state :: "JitterBufferItem option list \<Rightarrow> nat \<Rightarrow> nat \<Rightarrow> int \<Rightarrow> u16 \<Rightarrow> u32 \<Rightarrow> unit JitterBuffer" where
  "example_state items lo hi now seq ts = example_jb\<lparr>mLastPacketTime := now, mItemList := Some items, mMinSeq := lo, mMaxSeq := hi,
     mExtValueSeq := \<lparr>mRolloverIncrement = 65536, mRolloverValue = 65536, mRolloverTime = 0, mLastValue = Some seq\<rparr>,
     mExtValueRtpTimestamp := \<lparr>mRolloverIncrement = 4294967296, mRolloverValue = 4294967296, mRolloverTime = 0, mLastValue = Some ts\<rparr>,
     mBaseTime := 0, mBaseRtpTimestamp := 4295057296\<rparr>"

abbreviation "example_slots a b c \<equiv> [a, b, None, None, None, None, None, c]"

definition example_one :: "unit JitterBuffer" where
  "example_one = example_state (example_slots None None (Some (example_item 0 65543 4295057296))) 65543 65544 0 7 90000"

definition example_gap :: "unit JitterBuffer" where
  "example_gap = example_state (example_slots (Some (newLostItem 10000000 101000000 65544))
     (Some ((example_item 0 65545 4295057386)\<lparr>when_dequeue := 101000000, when_nack_abandon := 101000000\<rparr>))
     (Some (example_item 0 65543 4295057296))) 65543 65546 0 9 90090"

lemmas jb_eval_defs = example_arrival_def example_packet_def example_jb_eval example_state_def example_item_def
  example_gap_def example_one_def track_facts example_item_def
lemmas jb_eval_consume = jb_consume_def unwrap_rtx_def Extended_Value.extend_def extended_new_eval
  jb_consume_ext_def jb_maybe_reset_def kNoPacketsResetDelay_def millis_def
lemmas jb_eval_store = jb_store_def jb_place_def jb_dequeue_time_def wrap64_def
lemmas jb_eval_items = get_item_def set_item_def jb_index_def jb_fix_kind_def jb_fix_next_def depacketizer_opus_def
  opus_getPacketKind_def newItem_def newLostItem_def time_point_min_def RtpExtension_none_def

lemma example_consume_1: "jb_consume 0 (example_arrival 7 90000) example_jb = Some example_one"
  by (simp add: jb_eval_defs jb_eval_consume)
    (simp add: jb_first_def jb_eval_items replicate_8 jb_eval_store track_facts)

lemma example_consume_2: "jb_consume 0 (example_arrival 9 90090) example_one = Some example_gap"
  by (simp add: jb_eval_defs jb_eval_consume, simp add: jb_eval_store track_facts, simp add: jb_eval_items millis_def)

lemmas jb_eval_deque = processDeque_def processDeque_loop.simps deque_step_def diff_millis_def jb_emit_def opus_extract_def
  appendToResult_def absCaptureTime_def jb_drop_min_def millis_def

lemma example_deque:
  "\<exists>f g jb'. processDeque (200 * millis) example_gap = Some ([f, g], jb') \<and>
     fr_rtp_timestamp_ext f = 4295057296 \<and> fr_rtp_timestamp_ext g = 4295057386"
  by (simp add: jb_eval_defs jb_eval_items jb_eval_deque)

definition example_history :: "jb_event list" where
  "example_history = [Consume 0 (example_arrival 7 90000), Consume 0 (example_arrival 9 90090), Deque (200 * millis)]"

lemma example_quiet: "jb_quiet example_history example_jb"
  using example_deque
  by (auto simp: example_history_def example_consume_1 example_consume_2 kNoPacketsResetDelay_def millis_def)
    (simp_all add: jb_eval_defs)

lemma example_fits:
  "consume_fits 0 (example_arrival 7 90000) example_jb" "consume_fits 0 (example_arrival 9 90090) example_one"
  by (simp_all add: jb_eval_defs consume_fits_def unwrap_rtx_def Extended_Value.extend_def extended_new_eval Let_def)

lemma jitter_buffer_in_order_witness:
  "\<exists>f g jb'. jb_run example_history example_jb = Some ([f, g], jb') \<and> fr_rtp_timestamp_ext f = 4295057296 \<and>
     sorted (map fr_rtp_timestamp_ext [f, g])"
proof -
  obtain f g jb' where run: "jb_run example_history example_jb = Some ([f, g], jb')" "fr_rtp_timestamp_ext f = 4295057296"
    using example_deque by (auto simp: example_history_def example_consume_1 example_consume_2)
  from jitter_buffer_in_order [OF run(1) [unfolded example_jb_def] example_quiet [unfolded example_jb_def]] run
  show ?thesis by blast
qed

lemma jitter_buffer_invariant_witness: "\<exists>frames jb'. jb_run example_history example_jb = Some (frames, jb') \<and> jb_inv jb'"
proof -
  have "jb_fits example_history example_jb"
    using example_deque by (auto simp: example_history_def example_consume_1 example_consume_2 example_fits)
  then show ?thesis
    using jitter_buffer_invariant [OF opus.total_depacketizer_axioms, of 8 3 example_history example_track "()" "100 * millis" "10 * millis"]
    unfolding example_jb_def by simp
qed

lemma example_gap_facts:
  "mItemList example_gap \<noteq> None" "track_hasNack (jbTrack example_gap)" "mMinSeq example_gap = 65543"
  "mMaxSeq example_gap = 65546" "mCapacity example_gap = 8"
  "get_item example_gap 65543 = Some (example_item 0 65543 4295057296)"
  by (simp_all add: jb_eval_defs get_item_def jb_index_def)

lemma example_gap_inv: "jb_inv example_gap"
proof -
  have "jb_inv example_jb" "jbDepacketizer example_jb = depacketizer_opus"
    by (auto simp: example_jb_eval jb_inv_def intro: exI [of _ 3])
  then have one: "jb_inv example_one \<and> jbDepacketizer example_one = depacketizer_opus"
    using opus.consume_inv [OF _ _ example_fits(1)] by (simp add: example_consume_1)
  show ?thesis using opus.consume_inv [OF _ _ example_fits(2)] one by (simp add: example_consume_2)
qed

lemma processNack_asks_once_witness:
  "\<exists>jb'. processNack (20 * millis) example_gap = Some ([8], jb') \<and> jb_inv jb' \<and> processNack (20 * millis) jb' = Some ([], jb')"
proof -
  have "nacks (20 * millis) example_gap [65543..<65546] = [65544]"
    by (simp add: jb_eval_defs jb_eval_items nacks_def nack_due_def nack_stop_def diff_millis_def millis_def)
  then have "map of_nat (nacks (20 * millis) example_gap [mMinSeq example_gap..<mMaxSeq example_gap]) = [8 :: u16]"
    by (simp add: example_gap_facts)
  then show ?thesis
    using processNack_asks_once [OF example_gap_inv example_gap_facts(1,2), of "20 * millis"] by (simp only:)
qed

lemma getTimeoutMillis_wakes_up_witness: "\<exists>t. getTimeoutMillis (20 * millis) 1000 example_gap = Some t \<and> t \<le> 80"
  using getTimeoutMillis_wakes_up [OF example_gap_inv example_gap_facts(1), of "20 * millis" 1000]
  by (auto simp: example_gap_facts diff_millis_def millis_def example_item_def)

definition example_full :: "unit JitterBuffer" where
  "example_full = example_state (map (\<lambda>s. Some (example_item 0 s 4295057296)) [65544, 65545, 65546, 65547, 65548, 65549] @
     [None, Some (example_item 0 65543 4295057296)]) 65543 65550 0 13 90000"

lemma example_full_inv: "jb_inv example_full"
proof -
  let ?xs = "map (\<lambda>s. Some (example_item 0 s 4295057296)) [65544, 65545, 65546, 65547, 65548, 65549] @
     [None, Some (example_item 0 65543 4295057296)]"
  have f: "mCapacity example_full = 2 ^ 3" "mItemList example_full = Some ?xs"
    by (simp_all add: example_full_def example_state_def example_jb_eval)
  have "\<exists>it. ?xs ! (s mod 8) = Some it \<and> seq_ext it = s" if "65543 \<le> s \<and> s < 65550" for s
  proof -
    have "s \<in> {65543, 65544, 65545, 65546, 65547, 65548, 65549}" using that by auto
    then show ?thesis by (elim insertE emptyE) (simp_all add: example_item_def)
  qed
  moreover have "\<exists>s. 65543 \<le> s \<and> s < 65550 \<and> s mod 8 = i" if i: "i < 8" "?xs ! i \<noteq> None" for i
  proof -
    have "i \<noteq> 6" using i(2) by auto
    then consider "i = 7" | "i < 6" using i(1) by linarith
    then show ?thesis
    proof cases
      case 1
      then show ?thesis by (intro exI [of _ 65543]) simp
    next
      case 2
      then have "(65544 + i) mod 8 = i" by presburger
      then show ?thesis using 2 by (intro exI [of _ "65544 + i"]) simp
    qed
  qed
  ultimately have "window_inv example_full 65543 65550"
    unfolding window_inv_def f by (intro conjI exI [of _ 3] exI [of _ ?xs]) simp_all
  then show ?thesis by (auto simp: jb_inv_def example_full_def example_state_def example_jb_eval intro: exI [of _ 3])
qed

lemma example_full_facts:
  "mItemList example_full \<noteq> None" "mMinSeq example_full = 65543" "mMaxSeq example_full = 65550" "mCapacity example_full = 8"
  "unwrap_rtx (jbTrack example_full) (example_arrival 15 90000) = Some (15, [1, 2, 3])"
  "unat (fst (Extended_Value.extend 0 (mExtValueSeq example_full) 15)) = 65551" "mLastFrameTimeStamp example_full = None"
  "dp_getPacketKind (jbDepacketizer example_full) [1, 2, 3] (pkt_marker (example_arrival 15 90000)) \<noteq> None"
  "0 - mLastPacketTime example_full < kNoPacketsResetDelay"
  by (simp_all add: example_full_def jb_eval_defs unwrap_rtx_def Extended_Value.extend_def extended_new_eval Let_def
      depacketizer_opus_def opus_getPacketKind_def kNoPacketsResetDelay_def millis_def)

lemma jb_consume_overflow_witness:
  "\<exists>jb' it. jb_consume 0 (example_arrival 15 90000) example_full = Some jb' \<and> get_item jb' (mMinSeq jb') = Some it \<and>
     seq_ext it = 65551 \<and> mMinSeq jb' = 65543 \<and> \<not> jb_inv jb'"
  using jb_consume_overflow [OF example_full_inv example_full_facts(1) _ example_full_facts(5) _ _ example_full_facts(8,9)]
  by (auto simp: example_full_facts after_def)

end
