(* ===== verification/Rtcp_Packet.thy ===== *)
theory Rtcp_Packet
  imports Rtp_Packet
begin

text \<open>
  \<^verbatim>\<open>src/rtcp_packet.cpp\<close>, \<^verbatim>\<open>src/rtcp_packet_multi.cpp\<close> and \<^verbatim>\<open>src/rtcp_packet_source.cpp\<close>: control
  packets, their serialisation alone and as a compound packet, the parser of received control
  data, and the sequence numbers of the control stream.
\<close>

unbundle bit_operations_syntax

record RtcpPacket =
  rtcp_ssrc :: u32
  rtcp_rc :: u8
  rtcp_payloadId :: u8
  rtcp_payload :: bytes

definition kSenderReport :: u8 where [const_defs]: "kSenderReport = 200"
definition kReceiverReport :: u8 where [const_defs]: "kReceiverReport = 201"
definition kFeedback :: u8 where [const_defs]: "kFeedback = 205"
definition kPayloadSpecific :: u8 where [const_defs]: "kPayloadSpecific = 206"
definition kExtendedReport :: u8 where [const_defs]: "kExtendedReport = 207"

definition rtcp_header :: "u8 \<Rightarrow> u8 \<Rightarrow> u16" where
  "rtcp_header rc payloadId = push_bit 14 2 OR push_bit 8 (ucast rc AND 0x1F) OR ucast payloadId"

definition RtcpPacket_generate :: "RtcpPacket \<Rightarrow> ByteBuffer" where
  "RtcpPacket_generate p =
     (let w = ByteBuffer_new;
          lenRaw = 2 + 2 + 4 + length (rtcp_payload p);
          lenRTCP = (lenRaw + 3) div 4 - 1;
          w = writeU16 w (rtcp_header (rtcp_rc p) (rtcp_payloadId p));
          w = writeU16 w (of_nat lenRTCP);
          w = writeU32 w (rtcp_ssrc p);
          w = ByteWriter_write w (rtcp_payload p)
      in pad4_loop w lenRaw)"

text \<open>
  \<^verbatim>\<open>fromUdpPacket\<close>, on the bytes from the current pointer to the end. The payload size is
  computed with unsigned arithmetic; \<^const>\<open>None\<close> is a read past the end.
\<close>

function rtcp_fromUdpPacket :: "bytes \<Rightarrow> RtcpPacket list option" where
  "rtcp_fromUdpPacket data =
     (if length data \<ge> 8 then
        let padding = data ! 0 AND 0x20;
            rc = data ! 0 AND 0x1F;
            payloadId = data ! 1;
            len4 = unat (push_bit 8 (ucast (data ! 2)) OR ucast (data ! 3) :: u32);
            len = (len4 + 1) * 4;
            ssrc = push_bit 24 (ucast (data ! 4)) OR push_bit 16 (ucast (data ! 5)) OR
                   push_bit 8 (ucast (data ! 6)) OR ucast (data ! 7)
        in if len > length data then Some []
           else if size_sub len 8 > length (drop 8 data) then None
           else
             let payload = take (size_sub len 8) (drop 8 data);
                 payload = (if padding \<noteq> 0 \<and> payload \<noteq> [] then
                              let amount = unat (payload ! (len - 8 - 1)) in
                              if amount \<le> length payload then take (length payload - amount) payload else payload
                            else payload);
                 packet = \<lparr>rtcp_ssrc = ssrc, rtcp_rc = rc, rtcp_payloadId = payloadId, rtcp_payload = payload\<rparr>
             in map_option (\<lambda>rest. packet # rest) (rtcp_fromUdpPacket (drop len data))
      else Some [])"
  by pat_completeness auto
termination
  by (relation "measure length") auto

declare rtcp_fromUdpPacket.simps [simp del]

section \<open>Compound packets\<close>

definition RtcpPacketMulti_combine :: "RtcpPacket list \<Rightarrow> ByteBuffer" where
  "RtcpPacketMulti_combine packetList =
     foldl (\<lambda>w p. ByteWriter_write w (ByteBuffer_bytes (RtcpPacket_generate p))) ByteBuffer_new packetList"

definition RtcpPacketMulti_generate :: "RtcpPacket list \<Rightarrow> ByteBuffer" where
  "RtcpPacketMulti_generate packetList = ByteBuffer_copy (RtcpPacketMulti_combine packetList)"

section \<open>Sequence numbers\<close>

record RtcpPacketSource =
  rps_ssrc :: u32
  rps_nextSequence :: u32

definition RtcpPacketSource_new :: "u32 \<Rightarrow> RtcpPacketSource" where
  "RtcpPacketSource_new ssrc = \<lparr>rps_ssrc = ssrc, rps_nextSequence = 0\<rparr>"

definition rtcp_getNextSequence :: "RtcpPacketSource \<Rightarrow> u32 \<times> RtcpPacketSource" where
  "rtcp_getNextSequence s =
     (let s = s\<lparr>rps_nextSequence := rps_nextSequence s + 1\<rparr> in (rps_nextSequence s, s))"

definition rtcp_source_clear :: "RtcpPacketSource \<Rightarrow> RtcpPacketSource" where
  "rtcp_source_clear s = s\<lparr>rps_nextSequence := 0\<rparr>"

section \<open>Round trip\<close>

definition rtcp_pad :: "bytes \<Rightarrow> bytes" where
  "rtcp_pad xs = xs @ replicate ((4 - length xs mod 4) mod 4) 0"

definition rtcp_bytes :: "RtcpPacket \<Rightarrow> bytes" where
  "rtcp_bytes p = u16_bytes (rtcp_header (rtcp_rc p) (rtcp_payloadId p)) @
     u16_bytes (of_nat ((8 + length (rtcp_payload p) + 3) div 4 - 1)) @ u32_bytes (rtcp_ssrc p) @ rtcp_pad (rtcp_payload p)"

definition rtcp_ok :: "RtcpPacket \<Rightarrow> bool" where
  "rtcp_ok p \<longleftrightarrow> rtcp_rc p < 32 \<and> length (rtcp_payload p) \<le> 4 * 65534"

lemma mod4_add8: "(8 + n) mod 4 = n mod (4::nat)"
  by presburger

lemma RtcpPacket_generate_bytes:
  "ByteBuffer_bytes (RtcpPacket_generate p) = rtcp_bytes p" "ByteBuffer_inv (RtcpPacket_generate p)"
  using pad4_loop_ok [of "ByteWriter_write (writeU32 (writeU16 (writeU16 ByteBuffer_new (rtcp_header (rtcp_rc p) (rtcp_payloadId p)))
      (of_nat ((2 + 2 + 4 + length (rtcp_payload p) + 3) div 4 - 1))) (rtcp_ssrc p)) (rtcp_payload p)" "2 + 2 + 4 + length (rtcp_payload p)"]
  by (simp_all add: RtcpPacket_generate_def Let_def buf_simps rtcp_bytes_def rtcp_pad_def mod4_add8)

lemma RtcpPacketMulti_bytes: "ByteBuffer_bytes (RtcpPacketMulti_generate ps) = concat (map rtcp_bytes ps)"
proof -
  have "ByteBuffer_inv w \<Longrightarrow>
      ByteBuffer_inv (foldl (\<lambda>w p. ByteWriter_write w (ByteBuffer_bytes (RtcpPacket_generate p))) w ps) \<and>
      ByteBuffer_bytes (foldl (\<lambda>w p. ByteWriter_write w (ByteBuffer_bytes (RtcpPacket_generate p))) w ps) =
        ByteBuffer_bytes w @ concat (map rtcp_bytes ps)" for w
    by (induction ps arbitrary: w) (auto simp: buf_simps RtcpPacket_generate_bytes)
  from this [of ByteBuffer_new] show ?thesis
    by (simp add: RtcpPacketMulti_generate_def RtcpPacketMulti_combine_def buf_simps)
qed

lemma rtcp_header_alt: "rtcp_header rc pid = push_bit 15 1 OR push_bit 8 (ucast rc AND mask 5) OR ucast pid"
  by (simp add: rtcp_header_def mask_eq_exp_minus_1)

lemma rtcp_header_bytes:
  assumes "rc < 32"
  shows "ucast (drop_bit 8 (rtcp_header rc pid)) AND (0x20 :: u8) = 0"
    "ucast (drop_bit 8 (rtcp_header rc pid)) AND (0x1F :: u8) = rc"
    "ucast (rtcp_header rc pid) = pid"
proof -
  have "rc AND mask 5 = rc" using assms less_mask_eq [of rc 5] by (simp add: take_bit_eq_mask)
  then have rc: "bit rc n \<Longrightarrow> n < 5" for n by (metis bit_and_iff bit_mask_iff)
  have hi: "ucast (drop_bit 8 (rtcp_header rc pid)) = push_bit 7 1 OR (rc :: u8)"
    by (rule bit_word_eqI) (auto simp: rtcp_header_alt bit_simps dest: rc bit_imp_le_length)
  have "\<not> bit (push_bit 7 1 OR rc) 5" using rc [of 5] by (auto simp: bit_or_iff)
  then show "ucast (drop_bit 8 (rtcp_header rc pid)) AND (0x20 :: u8) = 0"
    unfolding hi using test_mask_bit [of 5 "push_bit 7 1 OR rc"] by (simp add: test_mask_def)
  have "(push_bit 7 1 OR rc) AND mask 5 = rc"
    by (rule bit_word_eqI) (auto simp: bit_and_iff bit_or_iff bit_push_bit_iff bit_mask_iff bit_1_iff simp del: push_bit_of_1 dest: rc)
  then show "ucast (drop_bit 8 (rtcp_header rc pid)) AND (0x1F :: u8) = rc"
    unfolding hi by (simp add: mask_eq_exp_minus_1)
  show "ucast (rtcp_header rc pid) = pid"
    by (rule bit_word_eqI) (auto simp: rtcp_header_alt bit_simps simp del: push_bit_of_1)
qed

lemma unat_ucast_16_32: "unat (ucast (v :: u16) :: u32) = unat v"
  by (simp add: unsigned_ucast_eq take_bit_nat_eq_self order.strict_trans [OF unat_u16_less])

lemma rtcp_len4: "(push_bit 8 (ucast (ucast (drop_bit 8 v) :: u8)) OR ucast (ucast v :: u8) :: u32) = ucast (v :: u16)"
  by (rule bit_word_eqI) (auto simp: bit_simps dest: bit_imp_le_length)

lemma length_rtcp_pad: "length (rtcp_pad xs) = (length xs + 3) div 4 * 4"
  using pad4_total [of "length xs"] by (simp add: rtcp_pad_def)

lemma rtcp_words: "(8 + n + 3) div 4 - 1 = (n + 3) div 4 + (1 :: nat)"
  using div_mult_self1 [of 4 "n + 3" 2] by (simp add: ac_simps)

lemma rtcp_parse_one:
  assumes "rtcp_ok p"
  shows "rtcp_fromUdpPacket (rtcp_bytes p @ rest) =
    map_option (\<lambda>ps. p\<lparr>rtcp_payload := rtcp_pad (rtcp_payload p)\<rparr> # ps) (rtcp_fromUdpPacket rest)"
proof -
  let ?h = "rtcp_header (rtcp_rc p) (rtcp_payloadId p)" and ?n = "(8 + length (rtcp_payload p) + 3) div 4 - 1"
  let ?pad = "rtcp_pad (rtcp_payload p)"
  define d where "d = rtcp_bytes p @ rest"
  have rc: "rtcp_rc p < 32" and len: "length (rtcp_payload p) \<le> 4 * 65534" using assms by (auto simp: rtcp_ok_def)
  have n: "?n < 65536" "(?n + 1) * 4 = 8 + length ?pad" using len unfolding length_rtcp_pad rtcp_words by simp_all
  have d: "d = ucast (drop_bit 8 ?h) # ucast ?h # ucast (drop_bit 8 (of_nat ?n :: u16)) # ucast (of_nat ?n :: u16) #
      u32_bytes (rtcp_ssrc p) @ ?pad @ rest" by (simp add: d_def rtcp_bytes_def u16_bytes_def)
  have nth: "d ! 0 = ucast (drop_bit 8 ?h)" "d ! 1 = ucast ?h" "d ! 2 = ucast (drop_bit 8 (of_nat ?n :: u16))"
    "d ! 3 = ucast (of_nat ?n :: u16)" "d ! 4 = u32_bytes (rtcp_ssrc p) ! 0" "d ! 5 = u32_bytes (rtcp_ssrc p) ! 1"
    "d ! 6 = u32_bytes (rtcp_ssrc p) ! 2" "d ! 7 = u32_bytes (rtcp_ssrc p) ! 3"
    unfolding d by (simp_all add: u32_bytes_def)
  have ssrc: "push_bit 24 (ucast (d ! 4)) OR push_bit 16 (ucast (d ! 5)) OR push_bit 8 (ucast (d ! 6)) OR ucast (d ! 7) = rtcp_ssrc p"
    unfolding nth using be32_u32_bytes [of "rtcp_ssrc p" "[]"] by (simp add: be32_def)
  have len4: "unat (push_bit 8 (ucast (d ! 2)) OR ucast (d ! 3) :: u32) = ?n"
    unfolding nth rtcp_len4 unat_ucast_16_32 using n(1) by (simp only: unsigned_of_nat) (simp add: take_bit_nat_eq_self)
  have drop8: "drop 8 d = ?pad @ rest" and l8: "8 \<le> length d" and ld: "length d = 8 + length ?pad + length rest"
    unfolding d by (simp_all add: u32_bytes_def)
  have packet: "\<lparr>rtcp_ssrc = rtcp_ssrc p, rtcp_rc = rtcp_rc p, rtcp_payloadId = rtcp_payloadId p, rtcp_payload = ?pad\<rparr> =
      p\<lparr>rtcp_payload := ?pad\<rparr>" by (cases p) simp
  have dropl: "drop (8 + length ?pad) d = rest" 
    using drop_drop [of "length ?pad" 8 d] by (simp add: drop8 add.commute)
  show ?thesis
    unfolding d_def [symmetric] rtcp_fromUdpPacket.simps [of d] Let_def ssrc len4 n(2) drop8 dropl
    using l8 ld by (simp add: nth nth(2) [unfolded One_nat_def] rtcp_header_bytes [OF rc] packet)
qed

lemma rtcp_parse_all:
  "list_all rtcp_ok ps \<Longrightarrow> rtcp_fromUdpPacket (concat (map rtcp_bytes ps)) = Some (map (\<lambda>p. p\<lparr>rtcp_payload := rtcp_pad (rtcp_payload p)\<rparr>) ps)"
  by (induction ps) (simp_all add: rtcp_fromUdpPacket.simps [of "[]"] rtcp_parse_one)

text \<open>
  C28. A compound control packet is read back as it was sent: parsing the bytes that
  \<^verbatim>\<open>RtcpPacketMulti\<close> makes of a list of packets gives those packets in order, each payload
  padded with zeros to a multiple of four bytes.
\<close>
theorem rtcp_compound_roundtrip:
  assumes "list_all rtcp_ok ps"
  shows "rtcp_fromUdpPacket (ByteBuffer_bytes (RtcpPacketMulti_generate ps)) =
    Some (map (\<lambda>p. p\<lparr>rtcp_payload := rtcp_pad (rtcp_payload p)\<rparr>) ps)"
  using rtcp_parse_all [OF assms] by (simp add: RtcpPacketMulti_bytes)

lemma rtcp_compound_roundtrip_witness:
  "rtcp_fromUdpPacket (ByteBuffer_bytes (RtcpPacketMulti_generate
     [\<lparr>rtcp_ssrc = 1, rtcp_rc = 1, rtcp_payloadId = kFeedback, rtcp_payload = [1, 2, 3]\<rparr>,
      \<lparr>rtcp_ssrc = 2, rtcp_rc = 0, rtcp_payloadId = kExtendedReport, rtcp_payload = []\<rparr>])) =
   Some [\<lparr>rtcp_ssrc = 1, rtcp_rc = 1, rtcp_payloadId = kFeedback, rtcp_payload = [1, 2, 3, 0]\<rparr>,
      \<lparr>rtcp_ssrc = 2, rtcp_rc = 0, rtcp_payloadId = kExtendedReport, rtcp_payload = []\<rparr>]"
  using rtcp_compound_roundtrip [of "[\<lparr>rtcp_ssrc = 1, rtcp_rc = 1, rtcp_payloadId = kFeedback, rtcp_payload = [1, 2, 3]\<rparr>,
      \<lparr>rtcp_ssrc = 2, rtcp_rc = 0, rtcp_payloadId = kExtendedReport, rtcp_payload = []\<rparr>]"]
  by (simp add: rtcp_ok_def rtcp_pad_def)

text \<open>The parser comes to a packet with a length field of zero and eight bytes left.\<close>

function rtcp_short :: "bytes \<Rightarrow> bool" where
  "rtcp_short data =
     (let n = unat (be16 (drop 2 data)) in
      if length data < 8 then False
      else if n = 0 then True
      else if length data < (n + 1) * 4 then False
      else rtcp_short (drop ((n + 1) * 4) data))"
  by pat_completeness auto
termination
  by (relation "measure length") auto

declare rtcp_short.simps [simp del]

lemma rtcp_len4_be16:
  "8 \<le> length data \<Longrightarrow> unat (push_bit 8 (ucast (data ! 2)) OR ucast (data ! 3) :: u32) = unat (be16 (drop 2 data))"
proof -
  have "(push_bit 8 (ucast a) OR ucast b :: u32) = ucast (push_bit 8 (ucast a) OR ucast b :: u16)" for a b :: u8
    by (rule bit_word_eqI) (auto simp: bit_simps dest: bit_imp_le_length)
  then show "8 \<le> length data \<Longrightarrow> unat (push_bit 8 (ucast (data ! 2)) OR ucast (data ! 3) :: u32) = unat (be16 (drop 2 data))"
    by (simp add: be16_def unat_ucast_16_32)
qed

text \<open>
  C35. What the parser does with any bytes: it fails, by copying a payload of nearly
  \<open>2 ^ 64\<close> bytes, if and only if it comes to a packet whose length field is zero with at least eight
  bytes left; on all other data it returns.
\<close>
theorem rtcp_parse_fails_iff:
  assumes "length data < 2 ^ 63"
  shows "rtcp_fromUdpPacket data = None \<longleftrightarrow> rtcp_short data"
  using assms
proof (induction data rule: rtcp_short.induct)
  case (1 data)
  let ?n = "unat (be16 (drop 2 data))"
  show ?case
  proof (cases "8 \<le> length data")
    case True
    note l = rtcp_len4_be16 [OF True]
    have "size_sub 4 8 > length (drop 8 data)" using "1.prems" by (simp add: size_sub_def)
    then show ?thesis
      using 1 True by (auto simp: rtcp_fromUdpPacket.simps [of data] rtcp_short.simps [of data] l Let_def)
  next
    case False
    then show ?thesis by (simp add: rtcp_fromUdpPacket.simps [of data] rtcp_short.simps [of data])
  qed
qed

lemma rtcp_parse_fails_iff_witness: "rtcp_fromUdpPacket [0x80, 200, 0, 0, 1, 2, 3, 4] = None"
  using rtcp_parse_fails_iff [of "[0x80, 200, 0, 0, 1, 2, 3, 4]"]
  by (simp add: rtcp_short.simps [of "[0x80, 200, 0, 0, 1, 2, 3, 4]"] be16_def)

end
