(* ===== verification/Nack.thy ===== *)
theory Nack
  imports Rtcp_Packet Rtp_Track
begin

text \<open>
  Requests for lost packets: \<^verbatim>\<open>compressNackList\<close> of \<^verbatim>\<open>src/util.cpp\<close>, the control packets that
  \<^verbatim>\<open>PeerCandidate::sendNacks\<close> makes of a list of sequence numbers, and the parser of the other
  side. Expanding a compressed list gives the list back.
\<close>

unbundle bit_operations_syntax

section \<open>Compressed lists of lost packets\<close>

text \<open>
  The inner loop of \<^verbatim>\<open>compressNackList\<close>; \<^const>\<open>None\<close> is a shift by more than 31 bits, which is
  undefined.
\<close>

fun blp_loop :: "u16 \<Rightarrow> u16 \<Rightarrow> u16 list \<Rightarrow> (u16 \<times> u16 list) option" where
  "blp_loop seq blp [] = Some (blp, [])"
| "blp_loop seq blp (n # ns) =
     (if n - seq \<le> 16 then
        let shift = n - seq - 1 in
        if unat shift \<ge> 32 then None
        else blp_loop seq (blp OR ucast (push_bit (unat shift) 1 :: u32)) ns
      else Some (blp, n # ns))"

lemma blp_loop_length: "blp_loop seq blp ns = Some (blp', rest) \<Longrightarrow> length rest \<le> length ns"
  by (induction seq blp ns rule: blp_loop.induct) (auto simp: Let_def split: if_splits)

function compressNackList :: "u16 list \<Rightarrow> (u16 \<times> u16) list option" where
  "compressNackList [] = Some []"
| "compressNackList (seq # ns) =
     (case blp_loop seq 0 ns of
        None \<Rightarrow> None
      | Some (blp, rest) \<Rightarrow> map_option (\<lambda>out. (seq, blp) # out) (compressNackList rest))"
  by pat_completeness auto
termination
  by (relation "measure length") (auto dest: blp_loop_length simp: less_Suc_eq_le)

section \<open>Sending and receiving requests\<close>

definition sendNacks :: "bool \<Rightarrow> Track \<Rightarrow> u16 list \<Rightarrow> RtcpPacket list option" where
  "sendNacks isConnected track nackList =
     (if \<not> isConnected \<or> \<not> track_hasNack track \<or> nackList = [] then Some []
      else do {
        out \<leftarrow> compressNackList nackList;
        Some (map (\<lambda>(seq, blp).
          let w = writeU32 ByteBuffer_new (track_ssrc track);
              w = writeU16 w seq;
              w = writeU16 w blp
          in \<lparr>rtcp_ssrc = 0, rtcp_rc = 1, rtcp_payloadId = kFeedback, rtcp_payload = ByteBuffer_bytes w\<rparr>) out)
      })"

definition missingSeqList :: "u16 \<Rightarrow> u16 \<Rightarrow> u16 list" where
  "missingSeqList pid blp =
     pid # (if blp \<noteq> 0 then map (\<lambda>index. pid + of_nat index + 1) (filter (\<lambda>index. test_mask blp index) [0..<16]) else [])"

function nack_parse :: "ByteReader \<Rightarrow> u16 list option" where
  "nack_parse reader =
     (if remaining reader \<ge> 4 then
        (case readU16 reader of
           None \<Rightarrow> None
         | Some (pid, reader1) \<Rightarrow>
             (case readU16 reader1 of
                None \<Rightarrow> None
              | Some (blp, reader2) \<Rightarrow>
                  map_option (\<lambda>rest. missingSeqList pid blp @ rest) (nack_parse reader2)))
      else Some [])"
  by pat_completeness auto
termination
proof (relation "measure remaining")
  fix reader x pid reader1 y blp reader2
  assume "4 \<le> remaining reader" "readU16 reader = Some x" "(pid, reader1) = x"
    "readU16 reader1 = Some y" "(blp, reader2) = y"
  then show "(reader2, reader) \<in> measure remaining"
    by (auto simp: readU16_def check_read_def remaining_def split: if_splits bind_splits)
qed simp

declare nack_parse.simps [simp del]

section \<open>What is asked for arrives\<close>

lemma blp_loop_ok:
  assumes "sorted_wrt (<) ts" "\<forall>t\<in>set ts. s < t \<and> t < s + 65536"
  shows "\<exists>taken rest blp'. ts = taken @ rest \<and> (\<forall>t\<in>set taken. t \<le> s + 16) \<and>
    blp_loop (of_nat s) blp (map of_nat ts) = Some (blp', map of_nat rest) \<and>
    (\<forall>i<16. bit blp' i \<longleftrightarrow> bit blp i \<or> s + i + 1 \<in> set taken)"
  using assms
proof (induction ts arbitrary: blp)
  case Nil
  then show ?case by simp
next
  case (Cons t ts)
  have t: "s < t" "t < s + 65536" using Cons.prems(2) by auto
  have d: "(of_nat t :: u16) - of_nat s = of_nat (t - s)" "(of_nat t :: u16) - of_nat s - 1 = of_nat (t - s - 1)"
    using of_nat_diff_u16 [of s t] of_nat_diff_u16 [of 1 "t - s"] t by simp_all
  show ?case
  proof (cases "t \<le> s + 16")
    case True
    let ?k = "t - s - 1"
    have k: "?k < 16" using True t by simp
    have c1: "unat ((of_nat t :: u16) - of_nat s - 1) = ?k" unfolding d(2) by (rule unat_of_nat_u16) (use k in simp)
    have c2: "(of_nat t :: u16) - of_nat s \<le> 16" unfolding d(1) by (subst of_nat_le_u16) (use True in auto)
    let ?b = "blp OR ucast (push_bit ?k 1 :: u32)"
    have bit: "bit ?b i \<longleftrightarrow> bit blp i \<or> i = ?k" if "i < 16" for i
      using that k by (auto simp: bit_simps simp del: push_bit_of_1)
    obtain taken rest blp' where ih: "ts = taken @ rest" "\<forall>t\<in>set taken. t \<le> s + 16"
      "blp_loop (of_nat s) ?b (map of_nat ts) = Some (blp', map of_nat rest)"
      "\<forall>i<16. bit blp' i \<longleftrightarrow> bit ?b i \<or> s + i + 1 \<in> set taken"
      using Cons.IH [of ?b] Cons.prems by auto
    have "blp_loop (of_nat s) blp (map of_nat (t # ts)) = Some (blp', map of_nat rest)"
      using ih(3) k by (simp add: c1 c2 Let_def)
    moreover have "\<forall>i<16. bit blp' i \<longleftrightarrow> bit blp i \<or> s + i + 1 \<in> set (t # taken)"
      using ih(4) bit t by auto
    ultimately show ?thesis using ih(1,2) True
      by (intro exI [of _ "t # taken"] exI [of _ rest] exI [of _ blp']) auto
  next
    case False
    have "\<not> (of_nat t :: u16) - of_nat s \<le> 16" unfolding d(1) by (subst of_nat_le_u16) (use False t in auto)
    then show ?thesis by (intro exI [of _ "[]"] exI [of _ "t # ts"] exI [of _ blp]) simp
  qed
qed

lemma missing_taken:
  assumes "sorted_wrt (<) taken" "\<forall>t\<in>set taken. s < t \<and> t \<le> s + 16" "\<forall>i<16. bit blp i \<longleftrightarrow> s + i + 1 \<in> set taken"
  shows "missingSeqList (of_nat s) blp = map of_nat (s # taken)"
proof -
  let ?ks = "map (\<lambda>t. t - s - 1) taken"
  have "filter (\<lambda>i. test_mask blp i) [0..<16] = filter (\<lambda>i. s + i + 1 \<in> set taken) [0..<16]"
    by (rule filter_cong) (use assms(3) in \<open>auto simp: test_mask_bit\<close>)
  also have "\<dots> = ?ks"
  proof (rule sorted_distinct_set_unique)
    show "sorted ?ks" "distinct ?ks"
      using assms(1,2) by (induction taken) (auto simp: less_imp_le diff_le_mono)
    show "set (filter (\<lambda>i. s + i + 1 \<in> set taken) [0..<16]) = set ?ks"
      using assms(2) by (auto simp: image_iff) force+
  qed (auto intro: sorted_wrt_filter)
  finally have f: "filter (\<lambda>i. test_mask blp i) [0..<16] = ?ks" .
  have zero: "blp = 0 \<Longrightarrow> taken = []"
    using assms(2,3) by (cases taken) (auto dest!: spec [of _ "hd taken - s - 1"])
  have "map (\<lambda>i. (of_nat s :: u16) + of_nat i + 1) ?ks = map of_nat taken"
    using assms(2) of_nat_step_u16 by (simp only: map_map comp_def) auto
  then show ?thesis using zero f by (cases "blp = 0") (simp_all add: missingSeqList_def)
qed

lemma compress_expand:
  assumes "sorted_wrt (<) ss" "\<forall>s\<in>set ss. \<forall>t\<in>set ss. t < s + 65536"
  shows "\<exists>out. compressNackList (map of_nat ss) = Some out \<and>
    concat (map (\<lambda>(seq, blp). missingSeqList seq blp) out) = map of_nat ss \<and> (out = [] \<longleftrightarrow> ss = [])"
  using assms
proof (induction ss rule: length_induct)
  case (1 ss)
  show ?case
  proof (cases ss)
    case Nil
    then show ?thesis by simp
  next
    case (Cons s ts)
    have ts: "sorted_wrt (<) ts" "\<forall>t\<in>set ts. s < t \<and> t < s + 65536" using "1.prems" Cons by auto
    obtain taken rest blp where b: "ts = taken @ rest" "\<forall>t\<in>set taken. t \<le> s + 16"
      "blp_loop (of_nat s) 0 (map of_nat ts) = Some (blp, map of_nat rest)" "\<forall>i<16. bit blp i \<longleftrightarrow> s + i + 1 \<in> set taken"
      using blp_loop_ok [OF ts, of 0] by auto
    have m: "missingSeqList (of_nat s) blp = map of_nat (s # taken)"
      by (rule missing_taken) (use ts b in \<open>auto simp: sorted_wrt_append\<close>)
    have "length rest < length ss" "sorted_wrt (<) rest" "\<forall>s\<in>set rest. \<forall>t\<in>set rest. t < s + 65536"
      using "1.prems" Cons b(1) by (auto simp: sorted_wrt_append)
    then obtain out where "compressNackList (map of_nat rest) = Some out"
      "concat (map (\<lambda>(seq, blp). missingSeqList seq blp) out) = map of_nat rest" using "1.IH" by blast
    then show ?thesis using b(1,3) m Cons by simp
  qed
qed

end
