(* ===== verification/Send_History.thy ===== *)
theory Send_History
  imports Rtp_Packet
begin

text \<open>
  \<^verbatim>\<open>src/send_rtp_history.cpp\<close>: the packets that were sent, by stream and sequence number, for
  retransmission. Shared pointers to packets are packets.
\<close>

unbundle bit_operations_syntax

section \<open>The history of sent packets\<close>

record TrackHistory =
  th_packetList :: "RtpPacket list"
  th_packetMap :: "u16 \<rightharpoonup> RtpPacket"

type_synonym SendRtpHistory = "u32 \<rightharpoonup> TrackHistory"

definition kMaxHistory :: nat where [const_defs]: "kMaxHistory = 512"

definition SendRtpHistory_new :: SendRtpHistory where
  "SendRtpHistory_new = Map.empty"

text \<open>The loop that makes room: the oldest packets, at the back of the list, are removed.\<close>

function history_trim :: "TrackHistory \<Rightarrow> TrackHistory" where
  "history_trim item =
     (if length (th_packetList item) \<ge> kMaxHistory
      then history_trim (item\<lparr>th_packetMap := (th_packetMap item)(pkt_sequence (last (th_packetList item)) := None),
             th_packetList := butlast (th_packetList item)\<rparr>)
      else item)"
  by pat_completeness auto
termination
  by (relation "measure (\<lambda>item. length (th_packetList item))") (auto simp: kMaxHistory_def)

declare history_trim.simps [simp del]

definition history_save :: "RtpPacket \<Rightarrow> SendRtpHistory \<Rightarrow> SendRtpHistory" where
  "history_save packet h =
     (let ssrc = pkt_ssrc packet;
          item = (case h ssrc of Some item \<Rightarrow> item | None \<Rightarrow> \<lparr>th_packetList = [], th_packetMap = Map.empty\<rparr>);
          item = history_trim item;
          item = item\<lparr>th_packetList := packet # th_packetList item,
            th_packetMap := (th_packetMap item)(pkt_sequence packet \<mapsto> packet)\<rparr>
      in h(ssrc \<mapsto> item))"

definition history_find :: "u32 \<Rightarrow> u16 \<Rightarrow> SendRtpHistory \<Rightarrow> RtpPacket option" where
  "history_find ssrc seq h = (case h ssrc of Some item \<Rightarrow> th_packetMap item seq | None \<Rightarrow> None)"

section \<open>What the history finds\<close>

text \<open>The last 512 packets of a stream, newest first, each with a sequence number of its own.\<close>

definition history_rel :: "RtpPacket list \<Rightarrow> TrackHistory \<Rightarrow> bool" where
  "history_rel recent item \<longleftrightarrow> th_packetList item = recent \<and> length recent \<le> 512 \<and>
     distinct (map pkt_sequence recent) \<and> th_packetMap item = map_of (map (\<lambda>p. (pkt_sequence p, p)) recent)"

lemma history_trim_short: "length (th_packetList item) < 512 \<Longrightarrow> history_trim item = item"
  by (simp add: history_trim.simps [of item] const_defs)

lemma map_of_butlast:
  assumes "xs \<noteq> []" "distinct (map pkt_sequence xs)"
  shows "(map_of (map (\<lambda>p. (pkt_sequence p, p)) xs))(pkt_sequence (last xs) := None) =
    map_of (map (\<lambda>p. (pkt_sequence p, p)) (butlast xs))"
proof -
  obtain ys y where xs: "xs = ys @ [y]" using assms(1) by (metis append_butlast_last_id)
  then have "pkt_sequence y \<notin> pkt_sequence ` set ys" using assms(2) by auto
  then have "map_of (map (\<lambda>p. (pkt_sequence p, p)) ys) (pkt_sequence y) = None" by (simp add: map_of_eq_None_iff image_image)
  then show ?thesis unfolding xs by (auto simp: map_add_def fun_eq_iff split: option.split)
qed

lemma history_trim_rel:
  assumes "history_rel recent item"
  shows "history_rel (take 511 recent) (history_trim item)"
proof (cases "length recent = 512")
  case False
  then show ?thesis using assms history_trim_short [of item] by (auto simp: history_rel_def)
next
  case True
  let ?item = "item\<lparr>th_packetMap := (th_packetMap item)(pkt_sequence (last recent) := None), th_packetList := butlast recent\<rparr>"
  have "history_trim item = history_trim ?item"
    using assms True by (simp add: history_trim.simps [of item] history_rel_def const_defs)
  moreover have "history_trim ?item = ?item" by (rule history_trim_short) (use True in simp)
  moreover have "butlast recent = take 511 recent" using True by (simp add: butlast_conv_take)
  moreover have "recent \<noteq> []" using True by auto
  ultimately show ?thesis
    using assms map_of_butlast [of recent] by (auto simp: history_rel_def map_butlast [symmetric] distinct_butlast take_map [symmetric] distinct_take)
qed

definition of_stream :: "u32 \<Rightarrow> RtpPacket list \<Rightarrow> RtpPacket list" where
  "of_stream ssrc ps = filter (\<lambda>p. pkt_ssrc p = ssrc) ps"

text \<open>The packets of each stream are numbered consecutively.\<close>

definition numbered_streams :: "RtpPacket list \<Rightarrow> bool" where
  "numbered_streams ps \<longleftrightarrow> (\<forall>ssrc. \<exists>start. map pkt_sequence (of_stream ssrc ps) =
     map (\<lambda>i. start + of_nat i) [0..<length (of_stream ssrc ps)])"

definition history_of :: "RtpPacket list \<Rightarrow> SendRtpHistory" where
  "history_of ps = foldl (\<lambda>h p. history_save p h) SendRtpHistory_new ps"

lemma history_save_rel:
  assumes "history_rel recent (case h (pkt_ssrc p) of Some item \<Rightarrow> item | None \<Rightarrow> \<lparr>th_packetList = [], th_packetMap = Map.empty\<rparr>)"
    "pkt_sequence p \<notin> pkt_sequence ` set (take 511 recent)"
  shows "\<exists>item. history_save p h = h(pkt_ssrc p \<mapsto> item) \<and> history_rel (p # take 511 recent) item"
  using history_trim_rel [OF assms(1)] assms(2)
  by (auto simp: history_save_def Let_def history_rel_def)

lemma distinct_numbers:
  fixes start :: u16
  assumes "i < j" "j - i < 65536"
  shows "start + of_nat i \<noteq> start + of_nat j"
proof
  assume "start + of_nat i = start + of_nat j"
  then have "(of_nat (j - i) :: u16) = 0" using assms(1) by (simp add: of_nat_diff)
  then show False using assms unat_of_nat_u16 [of "j - i"] by (metis diff_is_0_eq not_le unsigned_0)
qed

lemma numbered_fresh:
  assumes "numbered_streams (ps @ [p])"
  shows "pkt_sequence p \<notin> pkt_sequence ` set (take 511 (rev (of_stream (pkt_ssrc p) ps)))"
proof
  let ?s = "of_stream (pkt_ssrc p) ps" and ?n = "length (of_stream (pkt_ssrc p) ps)"
  obtain start where s: "map pkt_sequence (?s @ [p]) = map (\<lambda>i. start + of_nat i) [0..<?n + 1]"
    using assms by (auto simp: numbered_streams_def of_stream_def dest: spec [of _ "pkt_ssrc p"])
  have seq: "pkt_sequence (?s ! i) = start + of_nat i" if "i < ?n" for i
  proof -
    have "map pkt_sequence (?s @ [p]) ! i = start + of_nat i" unfolding s using that by (simp del: upt_Suc)
    then show ?thesis using that by (simp add: nth_append)
  qed
  have p: "pkt_sequence p = start + of_nat ?n" using s by simp
  assume "pkt_sequence p \<in> pkt_sequence ` set (take 511 (rev ?s))"
  then obtain j where j: "j < 511" "j < ?n" "pkt_sequence p = pkt_sequence (rev ?s ! j)" by (auto simp: in_set_conv_nth)
  have "pkt_sequence p = start + of_nat (?n - Suc j)" using j seq [of "?n - Suc j"] by (simp add: rev_nth)
  moreover have "start + of_nat (?n - Suc j) \<noteq> start + of_nat ?n" by (rule distinct_numbers) (use j in auto)
  ultimately show False using p by simp
qed

lemma numbered_butlast: "numbered_streams (ps @ [p]) \<Longrightarrow> numbered_streams ps"
  unfolding numbered_streams_def
proof
  fix ssrc assume "\<forall>ssrc. \<exists>start. map pkt_sequence (of_stream ssrc (ps @ [p])) =
      map (\<lambda>i. start + of_nat i) [0..<length (of_stream ssrc (ps @ [p]))]"
  then obtain start where s: "map pkt_sequence (of_stream ssrc (ps @ [p])) =
      map (\<lambda>i. start + of_nat i) [0..<length (of_stream ssrc (ps @ [p]))]" by blast
  then show "\<exists>start. map pkt_sequence (of_stream ssrc ps) = map (\<lambda>i. start + of_nat i) [0..<length (of_stream ssrc ps)]"
    by (intro exI [of _ start]) (cases "pkt_ssrc p = ssrc"; simp add: of_stream_def)
qed

lemma history_of_rel:
  "numbered_streams ps \<Longrightarrow> history_rel (take 512 (rev (of_stream ssrc ps)))
     (case history_of ps ssrc of Some item \<Rightarrow> item | None \<Rightarrow> \<lparr>th_packetList = [], th_packetMap = Map.empty\<rparr>)"
proof (induction ps arbitrary: ssrc rule: rev_induct)
  case Nil
  then show ?case by (simp add: history_of_def SendRtpHistory_new_def history_rel_def of_stream_def)
next
  case (snoc p ps)
  let ?r = "take 512 (rev (of_stream (pkt_ssrc p) ps))"
  have n: "numbered_streams ps" by (rule numbered_butlast [OF snoc.prems])
  obtain item where i: "history_save p (history_of ps) = (history_of ps)(pkt_ssrc p \<mapsto> item)" "history_rel (p # take 511 ?r) item"
    using history_save_rel [of ?r "history_of ps" p] snoc.IH [OF n, of "pkt_ssrc p"] numbered_fresh [OF snoc.prems] by (auto simp: min_def)
  have s: "history_of (ps @ [p]) = (history_of ps)(pkt_ssrc p \<mapsto> item)" using i(1) by (simp add: history_of_def)
  show ?case
  proof (cases "ssrc = pkt_ssrc p")
    case True
    then show ?thesis using i(2) s by (simp add: of_stream_def take_Cons' min_def)
  next
    case False
    then show ?thesis using s snoc.IH [OF n] by (simp add: of_stream_def)
  qed
qed

lemma map_of_find: "map_of (map (\<lambda>p. (f p, p)) xs) k = List.find (\<lambda>p. f p = k) xs"
  by (induction xs) auto

text \<open>
  C27. The history finds exactly the recent packets: when the packets of each stream are saved
  with consecutive sequence numbers (through any number of wraps), a lookup returns the packet
  with that number among the last 512 packets of the stream, and nothing if there is none.
\<close>
theorem history_finds_recent:
  assumes "numbered_streams ps"
  shows "history_find ssrc seq (history_of ps) = List.find (\<lambda>p. pkt_sequence p = seq) (take 512 (rev (of_stream ssrc ps)))"
  using history_of_rel [OF assms, of ssrc]
  by (cases "history_of ps ssrc") (auto simp: history_find_def history_rel_def map_of_find)

definition example_sent :: "RtpPacket list" where
  "example_sent = [example_packet\<lparr>pkt_sequence := 65534\<rparr>, example_packet\<lparr>pkt_sequence := 65535\<rparr>, example_packet\<lparr>pkt_sequence := 0\<rparr>, example_packet\<lparr>pkt_sequence := 1\<rparr>]"

lemma history_finds_recent_witness:
  "history_find (pkt_ssrc example_packet) 1 (history_of example_sent) = Some (example_packet\<lparr>pkt_sequence := 1\<rparr>)"
proof -
  have "of_stream ssrc example_sent = (if ssrc = pkt_ssrc example_packet then example_sent else [])" for ssrc
    by (auto simp: of_stream_def example_sent_def)
  then have "numbered_streams example_sent"
    by (auto simp: numbered_streams_def example_sent_def intro: exI [of _ 65534])
  from history_finds_recent [OF this, of "pkt_ssrc example_packet" 1] show ?thesis
    by (simp add: example_sent_def of_stream_def)
qed

end
