(* ===== verification/Srtp_Crypto.thy ===== *)
theory Srtp_Crypto
  imports Byte_Buffer "HOL-Library.Monad_Syntax"
begin

text \<open>
  \<^verbatim>\<open>src/srtp_util.cpp\<close> and \<^verbatim>\<open>src/srtp_crypto.cpp\<close>: key derivation and the protection of media and control packets
  for the four SRTP profiles. OpenSSL is a parameter with its documented behaviour as the hypothesis \<open>openssl_ok\<close>.
  What one side protects, a side with the matching keys unprotects.
\<close>

unbundle bit_operations_syntax

section \<open>Keys and initialisation vectors\<close>

text \<open>\<^verbatim>\<open>CryptoBytes\<close> is an array of 32 bytes with a count of those in use.\<close>

record CryptoBytes =
  v8 :: bytes
  cb_size :: nat

definition CryptoBytes_new :: CryptoBytes where
  "CryptoBytes_new = \<lparr>v8 = replicate 32 0, cb_size = 0\<rparr>"

definition crypto_assign :: "bytes \<Rightarrow> CryptoBytes" where
  "crypto_assign src = (let n = min 32 (length src) in \<lparr>v8 = take n src @ replicate (32 - n) 0, cb_size = n\<rparr>)"

definition crypto_xor :: "CryptoBytes \<Rightarrow> CryptoBytes \<Rightarrow> CryptoBytes" where
  "crypto_xor b other = b\<lparr>v8 := map2 (XOR) (v8 b) (v8 other)\<rparr>"

text \<open>The operations of \<^verbatim>\<open>CryptoWriter\<close> put bytes behind those in use, if there is room.\<close>

definition crypto_put :: "bytes \<Rightarrow> CryptoBytes \<Rightarrow> CryptoBytes" where
  "crypto_put data b =
     (if cb_size b \<le> size_sub 32 (length data)
      then b\<lparr>v8 := take (cb_size b) (v8 b) @ data @ drop (cb_size b + length data) (v8 b), cb_size := cb_size b + length data\<rparr>
      else b)"

definition crypto_writeU8 :: "u8 \<Rightarrow> CryptoBytes \<Rightarrow> CryptoBytes" where
  "crypto_writeU8 value = crypto_put (u8_bytes value)"

definition crypto_writeU16 :: "u16 \<Rightarrow> CryptoBytes \<Rightarrow> CryptoBytes" where
  "crypto_writeU16 value = crypto_put (u16_bytes value)"

definition crypto_writeU32 :: "u32 \<Rightarrow> CryptoBytes \<Rightarrow> CryptoBytes" where
  "crypto_writeU32 value = crypto_put (u32_bytes value)"

section \<open>OpenSSL\<close>

text \<open>
  What is used of OpenSSL, one function for the sequence of calls that handles one packet: AES-GCM (the
  ciphertext and the tag), AES in counter mode, AES on one block and HMAC-SHA1. Nothing is the failure of a call.
\<close>

record OpenSSL =
  gcm_encrypt :: "bytes \<Rightarrow> bytes \<Rightarrow> bytes \<Rightarrow> bytes \<Rightarrow> (bytes \<times> bytes) option"
  gcm_decrypt :: "bytes \<Rightarrow> bytes \<Rightarrow> bytes \<Rightarrow> bytes \<Rightarrow> bytes \<Rightarrow> bytes option"
  ctr_encrypt :: "bytes \<Rightarrow> bytes \<Rightarrow> bytes \<Rightarrow> bytes option"
  ctr_decrypt :: "bytes \<Rightarrow> bytes \<Rightarrow> bytes \<Rightarrow> bytes option"
  ecb_block :: "bytes \<Rightarrow> bytes \<Rightarrow> bytes option"
  hmac_sha1 :: "bytes \<Rightarrow> bytes \<Rightarrow> bytes option"

text \<open>
  The documented behaviour: ciphertexts are as long as their plain texts, tags have 16 bytes and digests 20,
  and decryption with the same key, vector, associated data and tag gives the plain text back.
\<close>

definition openssl_ok :: "OpenSSL \<Rightarrow> bool" where
  "openssl_ok ssl \<longleftrightarrow>
     (\<forall>key iv aad p c tag. gcm_encrypt ssl key iv aad p = Some (c, tag) \<longrightarrow>
        length c = length p \<and> length tag = 16 \<and> gcm_decrypt ssl key iv aad c tag = Some p) \<and>
     (\<forall>key iv p c. ctr_encrypt ssl key iv p = Some c \<longrightarrow> length c = length p \<and> ctr_decrypt ssl key iv c = Some p) \<and>
     (\<forall>key data d. hmac_sha1 ssl key data = Some d \<longrightarrow> length d = 20)"

section \<open>Key derivation\<close>

definition kLabelRtpKey :: u8 where [const_defs]: "kLabelRtpKey = 0"
definition kLabelRtpAuth :: u8 where [const_defs]: "kLabelRtpAuth = 1"
definition kLabelRtpSalt :: u8 where [const_defs]: "kLabelRtpSalt = 2"
definition kLabelRtcpKey :: u8 where [const_defs]: "kLabelRtcpKey = 3"
definition kLabelRtcpAuth :: u8 where [const_defs]: "kLabelRtcpAuth = 4"
definition kLabelRtcpSalt :: u8 where [const_defs]: "kLabelRtcpSalt = 5"

definition derivation_input :: "CryptoBytes \<Rightarrow> u8 \<Rightarrow> bytes" where
  "derivation_input masterSalt label =
     (let input = take (cb_size masterSalt) (v8 masterSalt) @ replicate (16 - cb_size masterSalt) 0
      in input[7 := input ! 7 XOR label])"

fun derivation_loop :: "OpenSSL \<Rightarrow> CryptoBytes \<Rightarrow> bytes \<Rightarrow> nat \<Rightarrow> nat \<Rightarrow> nat list \<Rightarrow> CryptoBytes \<Rightarrow> CryptoBytes option" where
  "derivation_loop ssl masterKey input blockCount desired [] output = Some output"
| "derivation_loop ssl masterKey input blockCount desired (blockIndex # rest) output =
     (let input = input[14 := of_nat (blockIndex div 2 ^ 16), 15 := of_nat blockIndex] in
      case ecb_block ssl (take (cb_size masterKey) (v8 masterKey)) input of
        None \<Rightarrow> None
      | Some outbuf \<Rightarrow>
          derivation_loop ssl masterKey input blockCount desired rest
            (crypto_put (take (if blockIndex < blockCount - 1 then 16 else desired - 16 * blockIndex) outbuf) output))"

definition KeyDerivation_generate :: "OpenSSL \<Rightarrow> CryptoBytes \<Rightarrow> CryptoBytes \<Rightarrow> u8 \<Rightarrow> nat \<Rightarrow> CryptoBytes option" where
  "KeyDerivation_generate ssl masterKey masterSalt label desiredOutputSize =
     (let blockCount = (desiredOutputSize + 15) div 16 in
      if cb_size masterKey \<noteq> 16 \<and> cb_size masterKey \<noteq> 32 then None
      else derivation_loop ssl masterKey (derivation_input masterSalt label) blockCount desiredOutputSize [0..<blockCount] CryptoBytes_new)"

section \<open>The state\<close>

datatype SrtpProfile = SRTP_AEAD_AES_256_GCM | SRTP_AEAD_AES_128_GCM | SRTP_AES128_CM_SHA1_80 | SRTP_AES128_CM_SHA1_32 | SRTP_other

record CryptoVectors =
  cv_key :: CryptoBytes
  cv_auth :: CryptoBytes
  cv_salt :: CryptoBytes

record SrtpCrypto =
  mProfileId :: SrtpProfile
  mSendRtp :: CryptoVectors
  mReceiveRtp :: CryptoVectors
  mSendRtcp :: CryptoVectors
  mReceiveRtcp :: CryptoVectors

definition derive_vectors :: "OpenSSL \<Rightarrow> CryptoBytes \<Rightarrow> CryptoBytes \<Rightarrow> u8 \<Rightarrow> u8 \<Rightarrow> u8 \<Rightarrow> CryptoVectors option" where
  "derive_vectors ssl masterKey masterSalt labelKey labelAuth labelSalt = do {
     key \<leftarrow> KeyDerivation_generate ssl masterKey masterSalt labelKey (cb_size masterKey);
     auth \<leftarrow> KeyDerivation_generate ssl masterKey masterSalt labelAuth 20;
     salt \<leftarrow> KeyDerivation_generate ssl masterKey masterSalt labelSalt (cb_size masterSalt);
     Some \<lparr>cv_key = key, cv_auth = auth, cv_salt = salt\<rparr>
   }"

definition SrtpCrypto_create ::
  "OpenSSL \<Rightarrow> SrtpProfile \<Rightarrow> CryptoBytes \<Rightarrow> CryptoBytes \<Rightarrow> CryptoBytes \<Rightarrow> CryptoBytes \<Rightarrow> SrtpCrypto option" where
  "SrtpCrypto_create ssl profileId sendMasterKey sendMasterSalt receiveMasterKey receiveMasterSalt =
     (if cb_size sendMasterKey = 0 \<or> cb_size receiveMasterKey = 0 then None
      else if cb_size sendMasterSalt = 0 \<or> cb_size receiveMasterSalt = 0 then None
      else if profileId = SRTP_other then None
      else do {
        sendRtp \<leftarrow> derive_vectors ssl sendMasterKey sendMasterSalt kLabelRtpKey kLabelRtpAuth kLabelRtpSalt;
        receiveRtp \<leftarrow> derive_vectors ssl receiveMasterKey receiveMasterSalt kLabelRtpKey kLabelRtpAuth kLabelRtpSalt;
        sendRtcp \<leftarrow> derive_vectors ssl sendMasterKey sendMasterSalt kLabelRtcpKey kLabelRtcpAuth kLabelRtcpSalt;
        receiveRtcp \<leftarrow> derive_vectors ssl receiveMasterKey receiveMasterSalt kLabelRtcpKey kLabelRtcpAuth kLabelRtcpSalt;
        Some \<lparr>mProfileId = profileId, mSendRtp = sendRtp, mReceiveRtp = receiveRtp, mSendRtcp = sendRtcp, mReceiveRtcp = receiveRtcp\<rparr>
      })"

definition kAESGCM_TagSize :: nat where [const_defs]: "kAESGCM_TagSize = 16"
definition kRTCP_HeaderSize :: nat where [const_defs]: "kRTCP_HeaderSize = 8"
definition kRTCP_TrailerSize :: nat where [const_defs]: "kRTCP_TrailerSize = 4"
definition kRTCP_EncryptedBit :: u32 where [const_defs]: "kRTCP_EncryptedBit = 0x80000000"

definition crypto_overhead :: "SrtpProfile \<Rightarrow> nat" where
  "crypto_overhead profile =
     (case profile of
        SRTP_AEAD_AES_256_GCM \<Rightarrow> kAESGCM_TagSize
      | SRTP_AEAD_AES_128_GCM \<Rightarrow> kAESGCM_TagSize
      | SRTP_AES128_CM_SHA1_80 \<Rightarrow> 10
      | SRTP_AES128_CM_SHA1_32 \<Rightarrow> 4
      | SRTP_other \<Rightarrow> 0)"

text \<open>The part of a key that the cipher of the profile reads (\<^verbatim>\<open>createCipher\<close>).\<close>

definition cipher_key :: "SrtpProfile \<Rightarrow> CryptoVectors \<Rightarrow> bytes" where
  "cipher_key profile vectors = take (if profile = SRTP_AEAD_AES_256_GCM then 32 else 16) (v8 (cv_key vectors))"

definition auth_key :: "CryptoVectors \<Rightarrow> bytes" where
  "auth_key vectors = take (cb_size (cv_auth vectors)) (v8 (cv_auth vectors))"

section \<open>Media packets\<close>

text \<open>
  Results have two layers: the outer \<^const>\<open>None\<close> is a read outside of the packet, the inner one the result
  \<^verbatim>\<open>false\<close>.
\<close>

definition media_gcm_iv :: "bytes \<Rightarrow> u32 \<Rightarrow> CryptoVectors \<Rightarrow> bytes" where
  "media_gcm_iv packet rolloverCount vectors =
     (let iv = crypto_writeU16 0 CryptoBytes_new;
          iv = crypto_writeU32 (be32 (drop 8 packet)) iv;
          iv = crypto_writeU32 rolloverCount iv;
          iv = crypto_writeU16 (be16 (drop 2 packet)) iv
      in take 12 (v8 (crypto_xor iv (cv_salt vectors))))"

definition media_cm_iv :: "bytes \<Rightarrow> u32 \<Rightarrow> CryptoVectors \<Rightarrow> bytes" where
  "media_cm_iv packet rolloverCount vectors =
     (let iv = crypto_writeU32 0 CryptoBytes_new;
          iv = crypto_writeU32 (be32 (drop 8 packet)) iv;
          iv = crypto_writeU32 rolloverCount iv;
          iv = crypto_writeU16 (be16 (drop 2 packet)) iv;
          iv = crypto_writeU16 0 iv
      in take 16 (v8 (crypto_xor iv (cv_salt vectors))))"

definition protect_headerSize :: "bytes \<Rightarrow> (nat option) option" where
  "protect_headerSize packet =
     (if bit (be16 packet) 12 then
        if length packet < 16 then None
        else let headerSize = 12 + 4 + unat (be16 (drop 14 packet)) * 4
             in if headerSize \<ge> length packet then Some None else Some (Some headerSize)
      else Some (Some 12))"

definition protectSendMediaGCM :: "OpenSSL \<Rightarrow> SrtpCrypto \<Rightarrow> bytes \<Rightarrow> u32 \<Rightarrow> (bytes option) option" where
  "protectSendMediaGCM ssl crypto packet rolloverCount =
     (if length packet < 12 then None
      else let iv = media_gcm_iv packet rolloverCount (mSendRtp crypto) in
        case protect_headerSize packet of
          None \<Rightarrow> None
        | Some None \<Rightarrow> Some None
        | Some (Some headerSize) \<Rightarrow>
            (case gcm_encrypt ssl (cipher_key (mProfileId crypto) (mSendRtp crypto)) iv (take headerSize packet) (drop headerSize packet) of
               None \<Rightarrow> Some None
             | Some (body, digest) \<Rightarrow> Some (Some (take headerSize packet @ body @ digest))))"

definition cm_digestSize :: "SrtpProfile \<Rightarrow> nat option" where
  "cm_digestSize profile =
     (case profile of SRTP_AES128_CM_SHA1_80 \<Rightarrow> Some 10 | SRTP_AES128_CM_SHA1_32 \<Rightarrow> Some 4 | _ \<Rightarrow> None)"

definition protectSendMediaCM :: "OpenSSL \<Rightarrow> SrtpCrypto \<Rightarrow> bytes \<Rightarrow> u32 \<Rightarrow> (bytes option) option" where
  "protectSendMediaCM ssl crypto packet rolloverCount =
     (case cm_digestSize (mProfileId crypto) of
        None \<Rightarrow> Some None
      | Some digestSize \<Rightarrow>
          if length packet < 12 then None
          else let iv = media_cm_iv packet rolloverCount (mSendRtp crypto) in
            case protect_headerSize packet of
              None \<Rightarrow> None
            | Some None \<Rightarrow> Some None
            | Some (Some headerSize) \<Rightarrow>
                let trailer = u32_bytes rolloverCount in
                (case ctr_encrypt ssl (cipher_key (mProfileId crypto) (mSendRtp crypto)) iv (drop headerSize packet) of
                   None \<Rightarrow> Some None
                 | Some body \<Rightarrow>
                     let encrypted = take headerSize packet @ body in
                     (case hmac_sha1 ssl (auth_key (mSendRtp crypto)) (encrypted @ trailer) of
                        None \<Rightarrow> Some None
                      | Some digest \<Rightarrow> Some (Some (encrypted @ take digestSize digest)))))"

definition protectSendMedia :: "OpenSSL \<Rightarrow> SrtpCrypto \<Rightarrow> bytes \<Rightarrow> u32 \<Rightarrow> (bytes option) option" where
  "protectSendMedia ssl crypto packet rolloverCount =
     (case mProfileId crypto of
        SRTP_AEAD_AES_256_GCM \<Rightarrow> protectSendMediaGCM ssl crypto packet rolloverCount
      | SRTP_AEAD_AES_128_GCM \<Rightarrow> protectSendMediaGCM ssl crypto packet rolloverCount
      | SRTP_AES128_CM_SHA1_80 \<Rightarrow> protectSendMediaCM ssl crypto packet rolloverCount
      | SRTP_AES128_CM_SHA1_32 \<Rightarrow> protectSendMediaCM ssl crypto packet rolloverCount
      | SRTP_other \<Rightarrow> Some None)"

definition unprotect_headerSize :: "bytes \<Rightarrow> nat \<Rightarrow> nat option" where
  "unprotect_headerSize packet digestSize =
     (if bit (be16 packet) 12 then
        if length packet < 4 + 4 + 4 + 4 + digestSize then None
        else let headerSize = 12 + 4 + unat (be16 (drop 14 packet)) * 4
             in if headerSize + digestSize \<ge> length packet then None else Some headerSize
      else Some 12)"

definition unprotectReceiveMediaGCM :: "OpenSSL \<Rightarrow> SrtpCrypto \<Rightarrow> bytes \<Rightarrow> u32 \<Rightarrow> bytes option" where
  "unprotectReceiveMediaGCM ssl crypto packet rolloverCount =
     (let digestSize = kAESGCM_TagSize in
      if length packet \<le> 4 + 4 + 4 + digestSize then None
      else let iv = media_gcm_iv packet rolloverCount (mReceiveRtp crypto) in
        case unprotect_headerSize packet digestSize of
          None \<Rightarrow> None
        | Some headerSize \<Rightarrow>
            let plainSize = length packet - digestSize in
            map_option (\<lambda>body. take headerSize packet @ body)
              (gcm_decrypt ssl (cipher_key (mProfileId crypto) (mReceiveRtp crypto)) iv (take headerSize packet)
                 (drop headerSize (take plainSize packet)) (drop plainSize packet)))"

definition unprotectReceiveMediaCM :: "OpenSSL \<Rightarrow> SrtpCrypto \<Rightarrow> bytes \<Rightarrow> u32 \<Rightarrow> bytes option" where
  "unprotectReceiveMediaCM ssl crypto packet rolloverCount =
     (case cm_digestSize (mProfileId crypto) of
        None \<Rightarrow> None
      | Some digestSize \<Rightarrow>
          if length packet \<le> 4 + 4 + 4 + digestSize then None
          else let iv = media_cm_iv packet rolloverCount (mReceiveRtp crypto) in
            case unprotect_headerSize packet digestSize of
              None \<Rightarrow> None
            | Some headerSize \<Rightarrow>
                let plainSize = length packet - digestSize;
                    trailer = u32_bytes rolloverCount in
                case ctr_decrypt ssl (cipher_key (mProfileId crypto) (mReceiveRtp crypto)) iv (drop headerSize (take plainSize packet)) of
                  None \<Rightarrow> None
                | Some body \<Rightarrow>
                    (case hmac_sha1 ssl (auth_key (mReceiveRtp crypto)) (take plainSize packet @ trailer) of
                       None \<Rightarrow> None
                     | Some digest \<Rightarrow>
                         if take digestSize digest \<noteq> drop plainSize packet then None
                         else Some (take headerSize packet @ body)))"

definition unprotectReceiveMedia :: "OpenSSL \<Rightarrow> SrtpCrypto \<Rightarrow> bytes \<Rightarrow> u32 \<Rightarrow> bytes option" where
  "unprotectReceiveMedia ssl crypto packet rolloverCount =
     (case mProfileId crypto of
        SRTP_AEAD_AES_256_GCM \<Rightarrow> unprotectReceiveMediaGCM ssl crypto packet rolloverCount
      | SRTP_AEAD_AES_128_GCM \<Rightarrow> unprotectReceiveMediaGCM ssl crypto packet rolloverCount
      | SRTP_AES128_CM_SHA1_80 \<Rightarrow> unprotectReceiveMediaCM ssl crypto packet rolloverCount
      | SRTP_AES128_CM_SHA1_32 \<Rightarrow> unprotectReceiveMediaCM ssl crypto packet rolloverCount
      | SRTP_other \<Rightarrow> None)"

section \<open>Control packets\<close>

definition control_gcm_iv :: "u32 \<Rightarrow> u32 \<Rightarrow> CryptoVectors \<Rightarrow> bytes" where
  "control_gcm_iv ssrc seqno vectors =
     (let iv = crypto_writeU16 0 CryptoBytes_new;
          iv = crypto_writeU32 ssrc iv;
          iv = crypto_writeU8 0 iv;
          iv = crypto_writeU8 0 iv;
          iv = crypto_writeU32 seqno iv
      in take 12 (v8 (crypto_xor iv (cv_salt vectors))))"

definition control_cm_iv :: "u32 \<Rightarrow> u32 \<Rightarrow> CryptoVectors \<Rightarrow> bytes" where
  "control_cm_iv ssrc seqno vectors =
     (let iv = crypto_writeU16 0 CryptoBytes_new;
          iv = crypto_writeU16 0 iv;
          iv = crypto_writeU32 ssrc iv;
          iv = crypto_writeU8 0 iv;
          iv = crypto_writeU8 0 iv;
          iv = crypto_writeU32 seqno iv
      in take 16 (v8 (crypto_xor iv (cv_salt vectors))))"

definition protectSendControlGCM :: "OpenSSL \<Rightarrow> SrtpCrypto \<Rightarrow> bytes \<Rightarrow> u32 \<Rightarrow> (bytes option) option" where
  "protectSendControlGCM ssl crypto packet seqno =
     (if length packet < 8 then None
      else let trailer = u32_bytes (seqno OR kRTCP_EncryptedBit);
               iv = control_gcm_iv (be32 (drop 4 packet)) seqno (mSendRtcp crypto);
               header = take kRTCP_HeaderSize packet
           in case gcm_encrypt ssl (cipher_key (mProfileId crypto) (mSendRtcp crypto)) iv (header @ trailer) (drop kRTCP_HeaderSize packet) of
                None \<Rightarrow> Some None
              | Some (body, digest) \<Rightarrow> Some (Some (header @ body @ digest @ trailer)))"

definition protectSendControlCM :: "OpenSSL \<Rightarrow> SrtpCrypto \<Rightarrow> bytes \<Rightarrow> u32 \<Rightarrow> (bytes option) option" where
  "protectSendControlCM ssl crypto packet seqno =
     (if length packet < 8 then None
      else let trailer = u32_bytes (seqno OR kRTCP_EncryptedBit);
               iv = control_cm_iv (be32 (drop 4 packet)) seqno (mSendRtcp crypto)
           in case ctr_encrypt ssl (cipher_key (mProfileId crypto) (mSendRtcp crypto)) iv (drop kRTCP_HeaderSize packet) of
                None \<Rightarrow> Some None
              | Some body \<Rightarrow>
                  let encrypted = take kRTCP_HeaderSize packet @ body @ trailer in
                  (case hmac_sha1 ssl (auth_key (mSendRtcp crypto)) encrypted of
                     None \<Rightarrow> Some None
                   | Some digest \<Rightarrow> Some (Some (encrypted @ take 10 digest))))"

definition protectSendControl :: "OpenSSL \<Rightarrow> SrtpCrypto \<Rightarrow> bytes \<Rightarrow> u32 \<Rightarrow> (bytes option) option" where
  "protectSendControl ssl crypto packet seqno =
     (case mProfileId crypto of
        SRTP_AEAD_AES_256_GCM \<Rightarrow> protectSendControlGCM ssl crypto packet seqno
      | SRTP_AEAD_AES_128_GCM \<Rightarrow> protectSendControlGCM ssl crypto packet seqno
      | SRTP_AES128_CM_SHA1_80 \<Rightarrow> protectSendControlCM ssl crypto packet seqno
      | SRTP_AES128_CM_SHA1_32 \<Rightarrow> protectSendControlCM ssl crypto packet seqno
      | SRTP_other \<Rightarrow> Some None)"

text \<open>A packet whose encryption bit is clear is authenticated and not decrypted.\<close>

definition unprotectReceiveControlGCM :: "OpenSSL \<Rightarrow> SrtpCrypto \<Rightarrow> bytes \<Rightarrow> bytes option" where
  "unprotectReceiveControlGCM ssl crypto packet =
     (if length packet < 4 + 4 + 16 + 4 then None
      else let trailerBytes = drop (length packet - kRTCP_TrailerSize) packet;
               trailer = be32 trailerBytes;
               seqno = trailer AND NOT kRTCP_EncryptedBit;
               isEncrypted = (trailer AND kRTCP_EncryptedBit \<noteq> 0);
               iv = control_gcm_iv (be32 (drop 4 packet)) seqno (mReceiveRtcp crypto);
               plainSize = length packet - kAESGCM_TagSize - kRTCP_TrailerSize;
               tag = take kAESGCM_TagSize (drop plainSize packet);
               header = take kRTCP_HeaderSize packet;
               body = drop kRTCP_HeaderSize (take plainSize packet);
               key = cipher_key (mProfileId crypto) (mReceiveRtcp crypto)
           in if isEncrypted
              then map_option (\<lambda>plain. header @ plain) (gcm_decrypt ssl key iv (header @ trailerBytes) body tag)
              else map_option (\<lambda>_. header @ body) (gcm_decrypt ssl key iv (take plainSize packet @ trailerBytes) [] tag))"

definition unprotectReceiveControlCM :: "OpenSSL \<Rightarrow> SrtpCrypto \<Rightarrow> bytes \<Rightarrow> bytes option" where
  "unprotectReceiveControlCM ssl crypto packet =
     (let digestSize = 10 in
      if length packet < 4 + 4 + 4 + digestSize then None
      else let authSize = length packet - digestSize;
               trailer = be32 (drop (authSize - kRTCP_TrailerSize) packet);
               seqno = trailer AND NOT kRTCP_EncryptedBit;
               isEncrypted = (trailer AND kRTCP_EncryptedBit \<noteq> 0);
               iv = control_cm_iv (be32 (drop 4 packet)) seqno (mReceiveRtcp crypto);
               plainSize = authSize - kRTCP_TrailerSize;
               header = take kRTCP_HeaderSize packet;
               body = drop kRTCP_HeaderSize (take plainSize packet)
           in case (if isEncrypted then ctr_decrypt ssl (cipher_key (mProfileId crypto) (mReceiveRtcp crypto)) iv body else Some body) of
                None \<Rightarrow> None
              | Some plain \<Rightarrow>
                  (case hmac_sha1 ssl (auth_key (mReceiveRtcp crypto)) (take authSize packet) of
                     None \<Rightarrow> None
                   | Some digest \<Rightarrow>
                       if take digestSize digest \<noteq> drop authSize packet then None else Some (header @ plain)))"

definition unprotectReceiveControl :: "OpenSSL \<Rightarrow> SrtpCrypto \<Rightarrow> bytes \<Rightarrow> bytes option" where
  "unprotectReceiveControl ssl crypto packet =
     (case mProfileId crypto of
        SRTP_AEAD_AES_256_GCM \<Rightarrow> unprotectReceiveControlGCM ssl crypto packet
      | SRTP_AEAD_AES_128_GCM \<Rightarrow> unprotectReceiveControlGCM ssl crypto packet
      | SRTP_AES128_CM_SHA1_80 \<Rightarrow> unprotectReceiveControlCM ssl crypto packet
      | SRTP_AES128_CM_SHA1_32 \<Rightarrow> unprotectReceiveControlCM ssl crypto packet
      | SRTP_other \<Rightarrow> None)"

section \<open>Media packets, there and back\<close>

text \<open>The fields of the fixed header depend on the first twelve bytes only.\<close>

lemma header_fields:
  assumes "take 12 a = take 12 b"
  shows "12 \<le> length a \<Longrightarrow> 12 \<le> length b \<Longrightarrow> be16 a = be16 b \<and> be16 (drop 2 a) = be16 (drop 2 b) \<and> be32 (drop 8 a) = be32 (drop 8 b)"
proof -
  assume l: "12 \<le> length a" "12 \<le> length b"
  have "a ! i = b ! i" if "i < 12" for i using arg_cong [OF assms, of "\<lambda>x. x ! i"] that by simp
  then show ?thesis using l by (simp add: be16_def be32_def)
qed

text \<open>The packet on the wire: the header as it was, then as many bytes as before, then the digest.\<close>

lemma protected_layout:
  fixes digest :: bytes
  assumes "protect_headerSize packet = Some (Some hs)" "12 \<le> length packet" "hs < length packet" "length body = length packet - hs"
  defines "e \<equiv> take hs packet @ body @ digest"
  shows "be16 e = be16 packet" "be16 (drop 2 e) = be16 (drop 2 packet)" "be32 (drop 8 e) = be32 (drop 8 packet)"
    "unprotect_headerSize e (length digest) = Some hs" "take hs e = take hs packet"
    "drop hs (take (length packet) e) = body" "drop (length packet) e = digest" "take (length packet) e = take hs packet @ body"
    "length e = length packet + length digest"
proof -
  have hs: "12 \<le> hs" "bit (be16 packet) 12 \<Longrightarrow> 16 \<le> hs \<and> 16 \<le> length packet \<and> hs = 16 + unat (be16 (drop 14 packet)) * 4"
    using assms(1) by (auto simp: protect_headerSize_def Let_def split: if_splits)
  show l: "length e = length packet + length digest" using assms(3,4) by (simp add: e_def)
  have t: "take 12 e = take 12 packet" using hs(1) assms(3) by (simp add: e_def min_def)
  then show h: "be16 e = be16 packet" "be16 (drop 2 e) = be16 (drop 2 packet)" "be32 (drop 8 e) = be32 (drop 8 packet)"
    using header_fields [OF t] assms(2) l by auto
  show "take hs e = take hs packet" "drop (length packet) e = digest" "drop hs (take (length packet) e) = body"
    "take (length packet) e = take hs packet @ body"
    using assms(3,4) by (simp_all add: e_def min_def)
  have "be16 (drop 14 e) = be16 (drop 14 packet)" if "16 \<le> hs"
  proof -
    have "1 < hs - 14" using that by linarith
    then show ?thesis using assms(3) by (simp add: be16_def e_def nth_append)
  qed
  then show "unprotect_headerSize e (length digest) = Some hs"
    using assms(1,3) hs h(1) l by (auto simp: unprotect_headerSize_def protect_headerSize_def Let_def split: if_splits)
qed

definition same_header :: "bytes \<Rightarrow> bytes \<Rightarrow> bool" where
  "same_header e packet \<longleftrightarrow> be16 e = be16 packet \<and> be16 (drop 2 e) = be16 (drop 2 packet) \<and> be32 (drop 8 e) = be32 (drop 8 packet)"

definition media_ok :: "bytes \<Rightarrow> bool" where
  "media_ok packet \<longleftrightarrow> 12 < length packet \<and> (bit (be16 packet) 12 \<longrightarrow> 16 \<le> length packet \<and> 16 + unat (be16 (drop 14 packet)) * 4 < length packet)"

lemma media_ok_header: "media_ok packet \<Longrightarrow> \<exists>hs. protect_headerSize packet = Some (Some hs) \<and> hs < length packet"
  by (auto simp: media_ok_def protect_headerSize_def Let_def)

lemma gcm_media_roundtrip:
  assumes ok: "openssl_ok ssl" "media_ok packet" "mProfileId b = mProfileId a" "mReceiveRtp b = mSendRtp a"
    and p: "protectSendMediaGCM ssl a packet roc = Some (Some e)"
  shows "unprotectReceiveMediaGCM ssl b e roc = Some packet \<and> length e = length packet + 16 \<and> same_header e packet"
proof -
  obtain hs where hs: "protect_headerSize packet = Some (Some hs)" "hs < length packet" using media_ok_header [OF ok(2)] by blast
  have l: "12 < length packet" using ok(2) by (simp add: media_ok_def)
  obtain body tag where g: "gcm_encrypt ssl (cipher_key (mProfileId a) (mSendRtp a)) (media_gcm_iv packet roc (mSendRtp a)) (take hs packet) (drop hs packet) = Some (body, tag)"
      "e = take hs packet @ body @ tag"
    using p hs l by (auto simp: protectSendMediaGCM_def Let_def split: option.splits prod.splits)
  have o: "length body = length packet - hs" "length tag = 16"
      "gcm_decrypt ssl (cipher_key (mProfileId a) (mSendRtp a)) (media_gcm_iv packet roc (mSendRtp a)) (take hs packet) body tag = Some (drop hs packet)"
    using ok(1) g(1) unfolding openssl_ok_def by (metis length_drop)+
  note w = protected_layout [OF hs(1) less_imp_le [OF l] hs(2) o(1), of tag, folded g(2), unfolded o(2)]
  have "media_gcm_iv e roc (mSendRtp a) = media_gcm_iv packet roc (mSendRtp a)" using w(2,3) by (simp add: media_gcm_iv_def)
  then show ?thesis using w l o(3) ok(3,4) by (simp add: unprotectReceiveMediaGCM_def const_defs Let_def same_header_def)
qed

lemma cm_media_roundtrip:
  assumes ok: "openssl_ok ssl" "media_ok packet" "mProfileId b = mProfileId a" "mReceiveRtp b = mSendRtp a"
    and ds: "cm_digestSize (mProfileId a) = Some ds" and p: "protectSendMediaCM ssl a packet roc = Some (Some e)"
  shows "unprotectReceiveMediaCM ssl b e roc = Some packet \<and> length e = length packet + ds \<and> same_header e packet"
proof -
  obtain hs where hs: "protect_headerSize packet = Some (Some hs)" "hs < length packet" using media_ok_header [OF ok(2)] by blast
  have l: "12 < length packet" using ok(2) by (simp add: media_ok_def)
  obtain body digest where g: "ctr_encrypt ssl (cipher_key (mProfileId a) (mSendRtp a)) (media_cm_iv packet roc (mSendRtp a)) (drop hs packet) = Some body"
      "hmac_sha1 ssl (auth_key (mSendRtp a)) (take hs packet @ body @ u32_bytes roc) = Some digest" "e = take hs packet @ body @ take ds digest"
    using p hs l ds by (auto simp: protectSendMediaCM_def Let_def split: option.splits)
  have o: "length body = length packet - hs" "length digest = 20"
      "ctr_decrypt ssl (cipher_key (mProfileId a) (mSendRtp a)) (media_cm_iv packet roc (mSendRtp a)) body = Some (drop hs packet)"
    using ok(1) g(1,2) unfolding openssl_ok_def by (metis length_drop)+
  have d: "length (take ds digest) = ds" using ds o(2) by (auto simp: cm_digestSize_def split: SrtpProfile.splits)
  note w = protected_layout [OF hs(1) less_imp_le [OF l] hs(2) o(1), of "take ds digest", folded g(3), unfolded d]
  have "media_cm_iv e roc (mSendRtp a) = media_cm_iv packet roc (mSendRtp a)" using w(2,3) by (simp add: media_cm_iv_def)
  then show ?thesis using w l o(3) ok(3,4) ds g(2) by (simp add: unprotectReceiveMediaCM_def Let_def same_header_def)
qed

lemma media_received:
  assumes "openssl_ok ssl" "media_ok packet" "mProfileId b = mProfileId a" "mReceiveRtp b = mSendRtp a"
    "protectSendMedia ssl a packet roc = Some (Some e)"
  shows "unprotectReceiveMedia ssl b e roc = Some packet \<and> length e = length packet + crypto_overhead (mProfileId a) \<and> same_header e packet"
  using assms gcm_media_roundtrip [OF assms(1-4)] cm_media_roundtrip [OF assms(1-4)]
  by (cases "mProfileId a")
    (simp_all add: protectSendMedia_def unprotectReceiveMedia_def crypto_overhead_def const_defs cm_digestSize_def)

text \<open>
  A media packet with a payload that one side protects is unprotected by a side with the matching keys
  to the very same bytes, for every profile; it grows by exactly the overhead that the packetizers reserve.
\<close>
theorem srtp_media_roundtrip:
  assumes "openssl_ok ssl" "media_ok packet" "mProfileId b = mProfileId a" "mReceiveRtp b = mSendRtp a"
    "protectSendMedia ssl a packet roc = Some (Some e)"
  shows "unprotectReceiveMedia ssl b e roc = Some packet \<and> length e = length packet + crypto_overhead (mProfileId a)"
  using media_received [OF assms] by blast

section \<open>Control packets, there and back\<close>

lemma encrypted_bit:
  assumes "unat seqno < 2 ^ 31"
  shows "(seqno OR kRTCP_EncryptedBit) AND NOT kRTCP_EncryptedBit = seqno" "(seqno OR kRTCP_EncryptedBit) AND kRTCP_EncryptedBit \<noteq> 0"
proof -
  have "kRTCP_EncryptedBit = 2 ^ 31" by (simp add: kRTCP_EncryptedBit_def)
  then have k: "bit kRTCP_EncryptedBit n \<longleftrightarrow> n = 31" for n
    using bit_exp_iff [of 31 n, where 'a = u32] by (auto simp: bit_simps)
  have "\<not> bit seqno 31"
  proof
    assume "bit seqno 31"
    then have "bit (unat seqno) 31" by (simp only: bit_unsigned_iff possible_bit_nat simp_thms)
    then have "odd (unat seqno div 2 ^ 31)" by (rule bit_iff_odd [THEN iffD1])
    moreover have "unat seqno div 2 ^ 31 = 0" using assms by (rule div_less)
    ultimately show False by (metis even_zero)
  qed
  then show "(seqno OR kRTCP_EncryptedBit) AND NOT kRTCP_EncryptedBit = seqno"
    by (intro bit_word_eqI) (auto simp: bit_simps k)
  have "bit ((seqno OR kRTCP_EncryptedBit) AND kRTCP_EncryptedBit) 31" by (simp add: bit_and_iff bit_or_iff k)
  then show "(seqno OR kRTCP_EncryptedBit) AND kRTCP_EncryptedBit \<noteq> 0" by auto
qed

lemma gcm_control_roundtrip:
  assumes ok: "openssl_ok ssl" "8 \<le> length packet" "unat seqno < 2 ^ 31" "mProfileId b = mProfileId a" "mReceiveRtcp b = mSendRtcp a"
    and p: "protectSendControlGCM ssl a packet seqno = Some (Some e)"
  shows "unprotectReceiveControlGCM ssl b e = Some packet"
proof -
  let ?t = "u32_bytes (seqno OR kRTCP_EncryptedBit)" and ?key = "cipher_key (mProfileId a) (mSendRtcp a)" and ?h = "take 8 packet"
  let ?iv = "control_gcm_iv (be32 (drop 4 packet)) seqno (mSendRtcp a)"
  obtain body tag where g: "gcm_encrypt ssl ?key ?iv (?h @ ?t) (drop 8 packet) = Some (body, tag)" "e = ?h @ body @ tag @ ?t"
    using p ok(2) by (auto simp: protectSendControlGCM_def const_defs Let_def split: option.splits prod.splits)
  have o: "length body = length packet - 8" "length tag = 16" "gcm_decrypt ssl ?key ?iv (?h @ ?t) body tag = Some (drop 8 packet)"
    using ok(1) g(1) unfolding openssl_ok_def by (metis length_drop)+
  define n where "n = length packet + 16"
  have l: "\<not> length e < 4 + 4 + 16 + 4" "length e - 4 = n" "length e - 16 - 4 = length packet"
    using g(2) o ok(2) by (simp_all add: n_def u32_bytes_def)
  have d: "drop n e = ?t" "take 16 (drop (length packet) e) = tag" "take 8 e = ?h" "drop 8 (take (length packet) e) = body"
    using g(2) o(1,2) ok(2) by (simp_all add: n_def)
  have b: "be32 (drop 4 e) = be32 (drop 4 packet)" using g(2) ok(2) by (simp add: be32_def nth_append)
  have s: "be32 ?t = seqno OR kRTCP_EncryptedBit" using be32_u32_bytes [of _ "[]"] by simp
  show ?thesis
    unfolding unprotectReceiveControlGCM_def Let_def kRTCP_TrailerSize_def kAESGCM_TagSize_def kRTCP_HeaderSize_def l d b s ok(4,5)
      encrypted_bit(1) [OF ok(3)] o(3) using l encrypted_bit(2) [OF ok(3)] by simp
qed

lemma cm_control_roundtrip:
  assumes ok: "openssl_ok ssl" "8 \<le> length packet" "unat seqno < 2 ^ 31" "mProfileId b = mProfileId a" "mReceiveRtcp b = mSendRtcp a"
    and p: "protectSendControlCM ssl a packet seqno = Some (Some e)"
  shows "unprotectReceiveControlCM ssl b e = Some packet"
proof -
  let ?t = "u32_bytes (seqno OR kRTCP_EncryptedBit)" and ?key = "cipher_key (mProfileId a) (mSendRtcp a)" and ?h = "take 8 packet"
  let ?iv = "control_cm_iv (be32 (drop 4 packet)) seqno (mSendRtcp a)"
  obtain body digest where g: "ctr_encrypt ssl ?key ?iv (drop 8 packet) = Some body"
      "hmac_sha1 ssl (auth_key (mSendRtcp a)) (?h @ body @ ?t) = Some digest" "e = ?h @ body @ ?t @ take 10 digest"
    using p ok(2) by (auto simp: protectSendControlCM_def const_defs Let_def split: option.splits)
  have o: "length body = length packet - 8" "length digest = 20" "ctr_decrypt ssl ?key ?iv body = Some (drop 8 packet)"
    using ok(1) g(1,2) unfolding openssl_ok_def by (metis length_drop)+
  define n where "n = length packet + 4"
  have l: "\<not> length e < 4 + 4 + 4 + 10" "length e - 10 = n" "n - 4 = length packet"
    using g(3) o ok(2) by (simp_all add: n_def u32_bytes_def)
  have d: "drop (length packet) e = ?t @ take 10 digest" "drop n e = take 10 digest" "take n e = ?h @ body @ ?t"
      "take 8 e = ?h" "drop 8 (take (length packet) e) = body"
    using g(3) o ok(2) by (simp_all add: n_def u32_bytes_def)
  have b: "be32 (drop 4 e) = be32 (drop 4 packet)" using g(3) ok(2) by (simp add: be32_def nth_append)
  show ?thesis
    unfolding unprotectReceiveControlCM_def Let_def kRTCP_TrailerSize_def kRTCP_HeaderSize_def l d b ok(4,5) be32_u32_bytes
      encrypted_bit(1) [OF ok(3)] o(3) g(2) using l encrypted_bit(2) [OF ok(3)] o(3) by simp
qed

text \<open>
  C13. A control packet that one side protects with an index below \<open>2 ^ 31\<close> is unprotected by a side with the
  matching keys to the very same bytes, for every profile.
\<close>
theorem srtp_control_roundtrip:
  assumes "openssl_ok ssl" "8 \<le> length packet" "unat seqno < 2 ^ 31" "mProfileId b = mProfileId a" "mReceiveRtcp b = mSendRtcp a"
    "protectSendControl ssl a packet seqno = Some (Some e)"
  shows "unprotectReceiveControl ssl b e = Some packet"
  using assms gcm_control_roundtrip [OF assms(1-5)] cm_control_roundtrip [OF assms(1-5)]
  by (cases "mProfileId a") (simp_all add: protectSendControl_def unprotectReceiveControl_def)

section \<open>An instance\<close>

text \<open>Functions that have the documented behaviour, without any secrecy.\<close>

definition plain_digest :: "bytes \<Rightarrow> bytes" where
  "plain_digest data = take 20 (rev data @ replicate 20 0)"

definition plain_ssl :: OpenSSL where
  "plain_ssl = \<lparr>gcm_encrypt = (\<lambda>key iv aad p. Some (p, take 16 (plain_digest iv))),
     gcm_decrypt = (\<lambda>key iv aad c tag. if tag = take 16 (plain_digest iv) then Some c else None),
     ctr_encrypt = (\<lambda>key iv p. Some p), ctr_decrypt = (\<lambda>key iv c. Some c),
     ecb_block = (\<lambda>key b. Some b), hmac_sha1 = (\<lambda>key data. Some (plain_digest data))\<rparr>"

lemma length_plain_digest: "length (plain_digest data) = 20"
  by (auto simp: plain_digest_def min_def)

lemma plain_ssl_ok: "openssl_ok plain_ssl"
  by (simp add: openssl_ok_def plain_ssl_def length_plain_digest)

definition plain_vectors :: CryptoVectors where
  "plain_vectors = \<lparr>cv_key = CryptoBytes_new, cv_auth = CryptoBytes_new, cv_salt = CryptoBytes_new\<rparr>"

definition plain_crypto :: "SrtpProfile \<Rightarrow> SrtpCrypto" where
  "plain_crypto profile = \<lparr>mProfileId = profile, mSendRtp = plain_vectors, mReceiveRtp = plain_vectors,
     mSendRtcp = plain_vectors, mReceiveRtcp = plain_vectors\<rparr>"

definition example_media :: "nat \<Rightarrow> bytes" where
  "example_media i = [0x80, 96] @ u16_bytes (of_nat (i mod 65536)) @ [0, 0, 0, 0, 0, 0, 0, 7, 0xAA, 0xBB]"

definition example_sealed :: "nat \<Rightarrow> bytes" where
  "example_sealed i = example_media i @ take 10 (plain_digest (example_media i @ u32_bytes (of_nat (i div 65536))))"

lemma example_media_facts:
  "media_ok (example_media i)" "(be32 (drop 8 (example_media i)), ucast (be16 (example_media i) AND 0x7F) :: u8) = (7, 96)"
  "be16 (drop 2 (example_media i)) = of_nat (i mod 65536)"
proof -
  have "be16 (drop 2 (example_media i)) = be16 (u16_bytes (of_nat (i mod 65536)) @ [0, 0, 0, 0, 0, 0, 0, 7, 0xAA, 0xBB])"
    by (simp add: example_media_def)
  then show "be16 (drop 2 (example_media i)) = of_nat (i mod 65536)" by (simp only: be16_u16_bytes)
  show "media_ok (example_media i)" by (simp add: media_ok_def example_media_def be16_def u16_bytes_def)
  show "(be32 (drop 8 (example_media i)), ucast (be16 (example_media i) AND 0x7F) :: u8) = (7, 96)"
    by (simp add: example_media_def be16_def be32_def u16_bytes_def)
qed

lemma example_sealed_eq:
  assumes "mProfileId a = SRTP_AES128_CM_SHA1_80"
  shows "protectSendMedia plain_ssl a (example_media i) (of_nat (i div 65536)) = Some (Some (example_sealed i))"
proof -
  have "protect_headerSize (example_media i) = Some (Some 12)" "length (example_media i) = 14"
    by (simp_all add: protect_headerSize_def example_media_def be16_def u16_bytes_def)
  then show ?thesis using assms by (simp add: protectSendMedia_def protectSendMediaCM_def cm_digestSize_def plain_ssl_def example_sealed_def Let_def)
qed

lemma srtp_media_roundtrip_witness:
  "unprotectReceiveMedia plain_ssl (plain_crypto SRTP_AES128_CM_SHA1_80) (example_sealed 70000) 1 = Some (example_media 70000) \<and>
   length (example_sealed 70000) = length (example_media 70000) + 10"
  using srtp_media_roundtrip [OF plain_ssl_ok example_media_facts(1), where a = "plain_crypto SRTP_AES128_CM_SHA1_80"
      and b = "plain_crypto SRTP_AES128_CM_SHA1_80" and roc = 1 and e = "example_sealed 70000"] example_sealed_eq [of "plain_crypto SRTP_AES128_CM_SHA1_80" 70000]
  by (simp add: plain_crypto_def crypto_overhead_def)

lemma srtp_control_roundtrip_witness:
  "\<exists>e. protectSendControl plain_ssl (plain_crypto SRTP_AEAD_AES_128_GCM) [0x80, 201, 0, 2, 0, 0, 0, 7, 1, 2, 3, 4] 5 = Some (Some e) \<and>
     unprotectReceiveControl plain_ssl (plain_crypto SRTP_AEAD_AES_128_GCM) e = Some [0x80, 201, 0, 2, 0, 0, 0, 7, 1, 2, 3, 4]"
proof -
  have "\<exists>e. protectSendControl plain_ssl (plain_crypto SRTP_AEAD_AES_128_GCM) [0x80, 201, 0, 2, 0, 0, 0, 7, 1, 2, 3, 4] 5 = Some (Some e)"
    by (simp add: protectSendControl_def protectSendControlGCM_def plain_crypto_def plain_ssl_def Let_def)
  then show ?thesis
    using srtp_control_roundtrip [OF plain_ssl_ok, of "[0x80, 201, 0, 2, 0, 0, 0, 7, 1, 2, 3, 4]" 5
        "plain_crypto SRTP_AEAD_AES_128_GCM" "plain_crypto SRTP_AEAD_AES_128_GCM"] by (auto simp: plain_crypto_def)
qed

end
