(* ===== verification/Srtp_Connection.thy ===== *)
theory Srtp_Connection
  imports Srtp_Crypto Replay_Protection
begin

text \<open>
  \<^verbatim>\<open>src/srtp_connection.cpp\<close>: the keys that both ends take from the DTLS session, and the channels with replay
  protection and rollover count. A stream of media packets is received exactly once; the rollover count can be
  changed by packets that are not authentic.
\<close>

unbundle bit_operations_syntax

section \<open>Connections\<close>

record ChannelValue =
  replayProtection :: ReplayProtection
  rolloverCount :: u32
  lastSequence16 :: "u16 option"

type_synonym ChannelKey = "u32 \<times> u8"

record SrtpConnection =
  mCrypto :: SrtpCrypto
  mSrtpInMap :: "ChannelKey \<Rightarrow> ChannelValue option"
  mSrtpOutMap :: "ChannelKey \<Rightarrow> ChannelValue option"

definition SrtpConnection_new :: "SrtpCrypto \<Rightarrow> SrtpConnection" where
  "SrtpConnection_new crypto = \<lparr>mCrypto = crypto, mSrtpInMap = (\<lambda>_. None), mSrtpOutMap = (\<lambda>_. None)\<rparr>"

definition srtp_sizes :: "SrtpProfile \<Rightarrow> (nat \<times> nat) option" where
  "srtp_sizes profile =
     (case profile of
        SRTP_AEAD_AES_256_GCM \<Rightarrow> Some (32, 12)
      | SRTP_AEAD_AES_128_GCM \<Rightarrow> Some (16, 12)
      | SRTP_AES128_CM_SHA1_80 \<Rightarrow> Some (16, 14)
      | SRTP_AES128_CM_SHA1_32 \<Rightarrow> Some (16, 14)
      | SRTP_other \<Rightarrow> None)"

text \<open>\<open>exported n\<close> is the keying material that the DTLS session exports, \<open>n\<close> bytes of it; no profile: none was selected.\<close>

definition SrtpConnection_create ::
  "OpenSSL \<Rightarrow> SrtpProfile option \<Rightarrow> (nat \<Rightarrow> bytes) \<Rightarrow> bool \<Rightarrow> SrtpConnection option" where
  "SrtpConnection_create ssl srtpProfile exported isSetupActive = do {
     profile \<leftarrow> srtpProfile;
     (srtpKeySize, srtpSaltSize) \<leftarrow> srtp_sizes profile;
     let material = exported ((srtpKeySize + srtpSaltSize) * 2);
     let clientKey = crypto_assign (take srtpKeySize material);
     let serverKey = crypto_assign (take srtpKeySize (drop srtpKeySize material));
     let clientSalt = crypto_assign (take srtpSaltSize (drop (2 * srtpKeySize) material));
     let serverSalt = crypto_assign (take srtpSaltSize (drop (2 * srtpKeySize + srtpSaltSize) material));
     crypto \<leftarrow> (if isSetupActive then SrtpCrypto_create ssl profile serverKey serverSalt clientKey clientSalt
                else SrtpCrypto_create ssl profile clientKey clientSalt serverKey serverSalt);
     Some (SrtpConnection_new crypto)
   }"

definition onPeerConnected :: "SrtpConnection \<Rightarrow> SrtpConnection" where
  "onPeerConnected c = c\<lparr>mSrtpInMap := (\<lambda>_. None), mSrtpOutMap := (\<lambda>_. None)\<rparr>"

definition getMediaProtectionOverhead :: "SrtpConnection \<Rightarrow> nat" where
  "getMediaProtectionOverhead c = crypto_overhead (mProfileId (mCrypto c))"

definition conn_protectSendControl :: "OpenSSL \<Rightarrow> SrtpConnection \<Rightarrow> bytes \<Rightarrow> u32 \<Rightarrow> (bytes option) option" where
  "conn_protectSendControl ssl c packetData seqno =
     (if length packetData < 4 + 4 then Some None else protectSendControl ssl (mCrypto c) packetData seqno)"

definition conn_protectSendMedia :: "OpenSSL \<Rightarrow> SrtpConnection \<Rightarrow> bytes \<Rightarrow> u32 \<Rightarrow> (bytes option) option" where
  "conn_protectSendMedia ssl c packetData rollover =
     (if length packetData < 4 + 4 + 4 then Some None else protectSendMedia ssl (mCrypto c) packetData rollover)"

definition ensureSrtpChannel :: "ChannelKey \<Rightarrow> u32 \<Rightarrow> SrtpConnection \<Rightarrow> ChannelValue" where
  "ensureSrtpChannel key maxPossibleValue c =
     (case mSrtpInMap c key of
        Some value \<Rightarrow> value
      | None \<Rightarrow> \<lparr>replayProtection = ReplayProtection_new maxPossibleValue 2048, rolloverCount = 0, lastSequence16 = None\<rparr>)"

definition set_channel :: "ChannelKey \<Rightarrow> ChannelValue \<Rightarrow> SrtpConnection \<Rightarrow> SrtpConnection" where
  "set_channel key value c = c\<lparr>mSrtpInMap := (mSrtpInMap c)(key \<mapsto> value)\<rparr>"

definition getControlSequenceNumber :: "SrtpProfile \<Rightarrow> bytes \<Rightarrow> u32 option" where
  "getControlSequenceNumber profile packet =
     (let offsetFromEnd = (case profile of
          SRTP_AEAD_AES_256_GCM \<Rightarrow> Some 4
        | SRTP_AEAD_AES_128_GCM \<Rightarrow> Some 4
        | SRTP_AES128_CM_SHA1_80 \<Rightarrow> Some (4 + 10)
        | SRTP_AES128_CM_SHA1_32 \<Rightarrow> Some (4 + 10)
        | SRTP_other \<Rightarrow> None)
      in case offsetFromEnd of
           None \<Rightarrow> None
         | Some off \<Rightarrow>
             if length packet < off + 8 then None
             else Some (be32 (drop (length packet - off) packet) AND NOT 0x80000000))"

definition getMediaSequenceNumber :: "bytes \<Rightarrow> u16 option" where
  "getMediaSequenceNumber packet = (if length packet < 12 then None else Some (be16 (drop 2 packet)))"

text \<open>The results: nothing if the loop of the replay filter does not end, else what is returned and the new state.\<close>

definition conn_unprotectReceiveControl :: "OpenSSL \<Rightarrow> SrtpConnection \<Rightarrow> bytes \<Rightarrow> (bytes option \<times> SrtpConnection) option" where
  "conn_unprotectReceiveControl ssl c packetData =
     (if length packetData < 4 + 4 + 4 then Some (None, c)
      else let key = (be32 (drop 4 packetData), 0);
               channel = ensureSrtpChannel key (- 1) c;
               c = set_channel key channel c
           in case getControlSequenceNumber (mProfileId (mCrypto c)) packetData of
                None \<Rightarrow> Some (None, c)
              | Some sequenceNumber \<Rightarrow>
                  if \<not> canProceed (replayProtection channel) sequenceNumber then Some (None, c)
                  else (case unprotectReceiveControl ssl (mCrypto c) packetData of
                          None \<Rightarrow> Some (None, c)
                        | Some output \<Rightarrow>
                            if length output < 4 + 4 then Some (None, c)
                            else do {
                              (_, rp) \<leftarrow> rp_set (replayProtection channel) sequenceNumber;
                              Some (Some output, set_channel key (channel\<lparr>replayProtection := rp\<rparr>) c)
                            }))"

text \<open>The rollover count for a packet, and the channel after it.\<close>

definition media_rollover :: "u16 \<Rightarrow> ChannelValue \<Rightarrow> u32 \<times> ChannelValue" where
  "media_rollover sequenceNumber channel =
     (let rollover = rolloverCount channel in
      case lastSequence16 channel of
        None \<Rightarrow> (rollover, channel\<lparr>lastSequence16 := Some sequenceNumber\<rparr>)
      | Some lst \<Rightarrow>
          if lst \<le> 0x1000 \<and> sequenceNumber \<ge> 0xF000 then (if rollover > 0 then rollover - 1 else rollover, channel)
          else if lst \<ge> 0xF000 \<and> sequenceNumber \<le> 0x1000 then
            (rollover + 1, channel\<lparr>rolloverCount := rolloverCount channel + 1, lastSequence16 := Some sequenceNumber\<rparr>)
          else (rollover, channel\<lparr>lastSequence16 := Some sequenceNumber\<rparr>))"

definition conn_unprotectReceiveMedia :: "OpenSSL \<Rightarrow> SrtpConnection \<Rightarrow> bytes \<Rightarrow> (bytes option \<times> SrtpConnection) option" where
  "conn_unprotectReceiveMedia ssl c packetData =
     (if length packetData < 4 + 4 + 4 then Some (None, c)
      else let key = (be32 (drop 8 packetData), ucast (be16 packetData AND 0x7F));
               channel = ensureSrtpChannel key 0xFFFF c;
               c = set_channel key channel c
           in case getMediaSequenceNumber packetData of
                None \<Rightarrow> Some (None, c)
              | Some sequenceNumber \<Rightarrow>
                  if \<not> canProceed (replayProtection channel) (ucast sequenceNumber) then Some (None, c)
                  else let (rollover, channel) = media_rollover sequenceNumber channel;
                           c = set_channel key channel c
                       in case unprotectReceiveMedia ssl (mCrypto c) packetData rollover of
                            None \<Rightarrow> Some (None, c)
                          | Some output \<Rightarrow>
                              if length output < 4 + 4 + 4 then Some (None, c)
                              else do {
                                (_, rp) \<leftarrow> rp_set (replayProtection channel) (ucast sequenceNumber);
                                Some (Some output, set_channel key (channel\<lparr>replayProtection := rp\<rparr>) c)
                              })"

section \<open>The replay filter in its window\<close>

lemma rp_set_config: "rp_set s v = Some (b, s') \<Longrightarrow> mSize s' = mSize s \<and> mMaxDistanceForward s' = mMaxDistanceForward s \<and> mStorage s' \<noteq> None"
  by (auto simp: rp_set_def setForward_def split: option.splits if_splits)

definition replay_ok :: "ReplayProtection \<Rightarrow> nat \<Rightarrow> nat set \<Rightarrow> bool" where
  "replay_ok s M A \<longleftrightarrow> rp_rel 16 s (int M) (int ` A) \<and> mStorage s \<noteq> None \<and> unat (mSize s) = 2048 \<and> unat (mMaxDistanceForward s) = 512"

definition in_window :: "nat \<Rightarrow> nat \<Rightarrow> bool" where
  "in_window M i \<longleftrightarrow> M < i + 2048 \<and> i \<le> M + 512"

definition seq32 :: "nat \<Rightarrow> u32" where
  "seq32 i = ucast (of_nat (i mod 65536) :: u16)"

lemma unat_seq32: "unat (seq32 i) = i mod 65536"
proof -
  have "unat (of_nat (i mod 65536) :: u16) = i mod 65536" by (simp add: unat_of_nat)
  then show ?thesis by (simp add: seq32_def unsigned_ucast_eq take_bit_nat_eq_self)
qed

lemma cycles: "in_window M i \<Longrightarrow>
  (i div 65536 = M div 65536 \<and> i mod 65536 + M = M mod 65536 + i) \<or>
  (i div 65536 = M div 65536 + 1 \<and> i mod 65536 + 65536 + M = M mod 65536 + i) \<or>
  (i div 65536 + 1 = M div 65536 \<and> i mod 65536 + M = M mod 65536 + i + 65536)"
proof -
  assume "in_window M i"
  then have w: "M < i + 2048" "i \<le> M + 512" by (simp_all add: in_window_def)
  have i: "65536 * (i div 65536) + i mod 65536 = i" "i mod 65536 < 65536" by simp_all
  have M: "65536 * (M div 65536) + M mod 65536 = M" "M mod 65536 < 65536" by simp_all
  have "i div 65536 < M div 65536 + 2" "M div 65536 < i div 65536 + 2" using w i M by linarith+
  then consider "i div 65536 = M div 65536" | "i div 65536 = M div 65536 + 1" | "i div 65536 + 1 = M div 65536" by linarith
  then show ?thesis using i(1) M(1) by cases linarith+
qed

lemma replay_window:
  assumes ok: "replay_ok s M A" and w: "in_window M i"
  shows "canProceed s (seq32 i) \<longleftrightarrow> i \<notin> A \<and> M div 65536 \<le> i div 65536"
    and "canProceed s (seq32 i) \<Longrightarrow> rp_index 16 s (int M) (seq32 i) = int i"
proof -
  let ?v = "seq32 i" and ?c = "mCurMax s"
  obtain st where st: "mStorage s = Some st" using ok by (auto simp: replay_ok_def)
  have rel: "rp_rel 16 s (int M) (int ` A)" using ok by (simp add: replay_ok_def)
  note p = rp_rel_parts [OF rel st]
  have sz: "unat (mSize s) = 2048" "unat (mMaxDistanceForward s) = 512" using ok by (simp_all add: replay_ok_def)
  have v: "unat ?v = i mod 65536" by (rule unat_seq32)
  have "int (unat ?c) = int M mod 2 ^ 16" using rel st by (simp add: rp_rel_def)
  then have "int (unat ?c) = int (M mod 65536)" by (simp add: zmod_int)
  then have c: "unat ?c = M mod 65536" by (simp only: of_nat_eq_iff)
  have A: "a \<le> M" if "a \<in> A" for a using p(7) that by force
  have M: "M \<in> A" using p(8) by auto
  have vlt: "unat ?v < 2 ^ 16" "unat ?c < 2 ^ 16" using v c by simp_all
  have dist: "unat (getRolloverForwadDistance (mMaxPossibleValue s) ?c ?v) = 65536 - M mod 65536 + i mod 65536" if "?v < ?c"
    using rollover_distance [OF _ that, of 16] vlt(2) p(2) v c by simp
  have sub: "unat (?v - ?c) = i mod 65536 - M mod 65536" if "?c < ?v"
    using that v c by (simp add: unat_sub)
  have w': "M < i + 2048" "i \<le> M + 512" using w by (simp_all add: in_window_def)
  consider (same) "i div 65536 = M div 65536" "i mod 65536 + M = M mod 65536 + i"
    | (nxt) "i div 65536 = M div 65536 + 1" "i mod 65536 + 65536 + M = M mod 65536 + i"
    | (prev) "i div 65536 + 1 = M div 65536" "i mod 65536 + M = M mod 65536 + i + 65536"
    using cycles [OF w] by blast
  then have "(canProceed s ?v \<longleftrightarrow> i \<notin> A \<and> M div 65536 \<le> i div 65536) \<and> (canProceed s ?v \<longrightarrow> rp_index 16 s (int M) ?v = int i)"
  proof cases
    case same
    consider (above) "M < i" | (eq) "i = M" | (behind) "i < M" by linarith
    then show ?thesis
    proof cases
      case above
      then have lt: "?c < ?v" using same(2) v c unfolding word_less_nat_alt by linarith
      have "\<not> unat (?v - ?c) > 512" using sub [OF lt] w' same(2) by linarith
      then have "canProceed s ?v" using st lt sz by (auto simp: canProceed_def word_less_nat_alt)
      moreover have "rp_index 16 s (int M) ?v = int i" using st lt v c same(2) above by (simp add: rp_index_def)
      moreover have "i \<notin> A" using A above by force
      ultimately show ?thesis using same(1) by simp
    next
      case eq
      then have "?v = ?c" using v c by (intro word_unat_eq_iff [THEN iffD2]) simp
      then show ?thesis using st M eq by (simp add: canProceed_def)
    next
      case behind
      then have lt: "?v < ?c" using same(2) v c unfolding word_less_nat_alt by linarith
      have "\<not> getRolloverForwadDistance (mMaxPossibleValue s) ?c ?v \<le> mMaxDistanceForward s"
        unfolding word_le_nat_alt dist [OF lt] sz using w' same(2) behind by linarith
      then have i: "rp_index 16 s (int M) ?v = int i"
        using st lt v c same(2) behind by (simp add: rp_index_def word_less_nat_alt)
      then have "canProceed s ?v \<longleftrightarrow> int i \<notin> int ` A" using canProceed_index [OF rel _ vlt(1)] st sz w' by simp
      then show ?thesis using same(1) i by auto
    qed
  next
    case nxt
    then have gt: "M mod 65536 > i mod 65536" using w' by linarith
    then have lt: "?v < ?c" using v c unfolding word_less_nat_alt by linarith
    have le: "getRolloverForwadDistance (mMaxPossibleValue s) ?c ?v \<le> mMaxDistanceForward s"
      unfolding word_le_nat_alt dist [OF lt] sz using w' nxt(2) gt by linarith
    have "canProceed s ?v" using st lt le by (auto simp: canProceed_def)
    moreover have "rp_index 16 s (int M) ?v = int i"
      using st lt le v c nxt(2) gt by (auto simp: rp_index_def word_less_nat_alt)
    moreover have "M < i" using nxt(2) vlt(2) c by linarith
    then have "i \<notin> A" using A by force
    ultimately show ?thesis using nxt(1) by simp
  next
    case prev
    then have lt: "?c < ?v" using w' v c unfolding word_less_nat_alt by linarith
    have "unat (?v - ?c) > 512" using sub [OF lt] prev w' by linarith
    then have "\<not> canProceed s ?v" using st lt sz by (auto simp: canProceed_def word_less_nat_alt)
    then show ?thesis using prev(1) by simp
  qed
  then show "canProceed s ?v \<longleftrightarrow> i \<notin> A \<and> M div 65536 \<le> i div 65536" "canProceed s ?v \<Longrightarrow> rp_index 16 s (int M) ?v = int i" by blast+
qed

lemma replay_set:
  assumes ok: "replay_ok s M A" and w: "in_window M i" and can: "canProceed s (seq32 i)"
  obtains b s' where "rp_set s (seq32 i) = Some (b, s')" "replay_ok s' (max M i) (insert i A)"
proof -
  have rel: "rp_rel 16 s (int M) (int ` A)" "mStorage s \<noteq> None" using ok by (simp_all add: replay_ok_def)
  have i: "rp_index 16 s (int M) (seq32 i) = int i" using replay_window(2) [OF ok w can] .
  have "unat (seq32 i) < 2 ^ 16" by (simp add: unat_seq32)
  from rp_set_refines [OF rel(1) can this] obtain s' where s: "rp_set s (seq32 i) = Some (True, s')"
    "rp_rel 16 s' (rp_newest 16 s (int M) (seq32 i)) (insert (int i) (int ` A))" using i by auto
  have "rp_newest 16 s (int M) (seq32 i) = int (max M i)" using rel(2) i by (auto simp: rp_newest_def of_nat_max)
  then have "replay_ok s' (max M i) (insert i A)"
    using s ok rp_set_config [OF s(1)] by (simp add: replay_ok_def)
  then show ?thesis using that s(1) by blast
qed

lemma replay_first:
  assumes "i < 65536"
  obtains b s' where "rp_set (ReplayProtection_new 0xFFFF 2048) (seq32 i) = Some (b, s')" "replay_ok s' i {i}"
proof -
  let ?s = "ReplayProtection_new 0xFFFF 2048"
  have m: "(mask 16 :: u32) = 0xFFFF" by (simp add: mask_eq_exp_minus_1)
  have rel: "rp_rel 16 ?s 0 {}" using rp_new_rel [of 16] unfolding m by simp
  have none: "mStorage ?s = None" by (simp add: ReplayProtection_new_def)
  then have can: "canProceed ?s (seq32 i)" by (simp add: canProceed_def)
  have v: "unat (seq32 i) = i" using assms by (simp add: unat_seq32)
  then have "unat (seq32 i) < 2 ^ 16" using assms by simp
  from rp_set_refines [OF rel can this] obtain s' where s: "rp_set ?s (seq32 i) = Some (True, s')"
    "rp_rel 16 s' (int i) {int i}" using none v by (auto simp: rp_newest_def rp_index_def)
  have "replay_ok s' i {i}" using s rp_set_config [OF s(1)] by (simp add: replay_ok_def ReplayProtection_new_def)
  then show ?thesis using that s(1) by blast
qed

section \<open>A stream of media packets\<close>

text \<open>
  The channel after packets with the largest index \<open>M\<close> were accepted, of the indices \<open>A\<close>. The index of a packet
  is its rollover count and its sequence number together. \<open>L\<close> is the index that the channel took note of last.
\<close>

definition channel_ok :: "ChannelValue \<Rightarrow> nat \<Rightarrow> nat set \<Rightarrow> bool" where
  "channel_ok ch M A \<longleftrightarrow> replay_ok (replayProtection ch) M A \<and> rolloverCount ch = of_nat (M div 65536) \<and>
     (\<exists>L. lastSequence16 ch = Some (of_nat (L mod 65536)) \<and> L div 65536 = M div 65536 \<and> L \<le> M \<and> M < L + 2048)"

lemma unat_seq16: "unat (of_nat (i mod 65536) :: u16) = i mod 65536"
  by (simp add: unat_of_nat)

lemma media_rollover_ok:
  assumes ch: "channel_ok ch M A" and w: "in_window M i" and le: "M div 65536 \<le> i div 65536"
  shows "media_rollover (of_nat (i mod 65536)) ch =
    (of_nat (i div 65536), ch\<lparr>rolloverCount := of_nat (i div 65536), lastSequence16 := Some (of_nat (i mod 65536))\<rparr>)"
proof -
  obtain L where L: "lastSequence16 ch = Some (of_nat (L mod 65536))" "L div 65536 = M div 65536" "L \<le> M" "M < L + 2048"
    using ch by (auto simp: channel_ok_def)
  have r: "rolloverCount ch = of_nat (M div 65536)" using ch by (simp add: channel_ok_def)
  have w': "M < i + 2048" "i \<le> M + 512" using w by (simp_all add: in_window_def)
  have d: "65536 * (i div 65536) + i mod 65536 = i" "65536 * (M div 65536) + L mod 65536 = L" "i mod 65536 < 65536" "L mod 65536 < 65536"
    using L(2) by (simp_all flip: L(2))
  have test: "(of_nat (L mod 65536) :: u16) \<le> 0x1000 \<longleftrightarrow> L mod 65536 \<le> 4096" "(of_nat (i mod 65536) :: u16) \<ge> 0xF000 \<longleftrightarrow> i mod 65536 \<ge> 61440"
      "(of_nat (L mod 65536) :: u16) \<ge> 0xF000 \<longleftrightarrow> L mod 65536 \<ge> 61440" "(of_nat (i mod 65536) :: u16) \<le> 0x1000 \<longleftrightarrow> i mod 65536 \<le> 4096"
    unfolding word_le_nat_alt unat_seq16 by simp_all
  show ?thesis
  proof (cases "i div 65536 = M div 65536")
    case True
    then have "\<not> (L mod 65536 \<le> 4096 \<and> i mod 65536 \<ge> 61440)" "\<not> (L mod 65536 \<ge> 61440 \<and> i mod 65536 \<le> 4096)"
      using d w' L(3,4) by linarith+
    then show ?thesis using L(1) r True by (auto simp: media_rollover_def test Let_def)
  next
    case False
    then have n: "i div 65536 = M div 65536 + 1" using cycles [OF w] le by auto
    then have "\<not> (L mod 65536 \<le> 4096 \<and> i mod 65536 \<ge> 61440)" "L mod 65536 \<ge> 61440 \<and> i mod 65536 \<le> 4096"
      using d w' L(3,4) by linarith+
    then show ?thesis using L(1) r n by (simp add: media_rollover_def test Let_def)
  qed
qed

definition genuine :: "OpenSSL \<Rightarrow> SrtpCrypto \<Rightarrow> ChannelKey \<Rightarrow> nat \<times> bytes \<times> bytes \<Rightarrow> bool" where
  "genuine ssl a key = (\<lambda>(i, packet, e). media_ok packet \<and> key = (be32 (drop 8 packet), ucast (be16 packet AND 0x7F)) \<and>
     be16 (drop 2 packet) = of_nat (i mod 65536) \<and> protectSendMedia ssl a packet (of_nat (i div 65536)) = Some (Some e))"

definition paired :: "SrtpCrypto \<Rightarrow> SrtpCrypto \<Rightarrow> bool" where
  "paired a b \<longleftrightarrow> mProfileId b = mProfileId a \<and> mReceiveRtp b = mSendRtp a \<and> mReceiveRtcp b = mSendRtcp a"

lemma genuine_facts:
  assumes "openssl_ok ssl" "paired a b" "genuine ssl a key (i, packet, e)"
  shows "unprotectReceiveMedia ssl b e (of_nat (i div 65536)) = Some packet" "12 < length packet" "\<not> length e < 12"
    "(be32 (drop 8 e), ucast (be16 e AND 0x7F)) = key" "getMediaSequenceNumber e = Some (of_nat (i mod 65536))"
proof -
  have m: "media_ok packet" "protectSendMedia ssl a packet (of_nat (i div 65536)) = Some (Some e)"
    "be16 (drop 2 packet) = of_nat (i mod 65536)" "key = (be32 (drop 8 packet), ucast (be16 packet AND 0x7F))"
    using assms(3) by (simp_all add: genuine_def)
  have r: "unprotectReceiveMedia ssl b e (of_nat (i div 65536)) = Some packet" "length packet \<le> length e" "same_header e packet"
    using media_received [OF assms(1) m(1) _ _ m(2), of b] assms(2) by (auto simp: paired_def)
  then show "unprotectReceiveMedia ssl b e (of_nat (i div 65536)) = Some packet" by simp
  show l: "12 < length packet" using m(1) by (simp add: media_ok_def)
  then show "\<not> length e < 12" using r(2) by simp
  then show "(be32 (drop 8 e), ucast (be16 e AND 0x7F)) = key" "getMediaSequenceNumber e = Some (of_nat (i mod 65536))"
    using r(3) m(3,4) by (simp_all add: same_header_def getMediaSequenceNumber_def)
qed

definition accepted_by :: "nat \<Rightarrow> nat set \<Rightarrow> nat \<Rightarrow> bool" where
  "accepted_by M A i \<longleftrightarrow> i \<notin> A \<and> M div 65536 \<le> i div 65536"

lemma receive_step:
  assumes ok: "openssl_ok ssl" "paired a (mCrypto c)" "genuine ssl a key (i, packet, e)"
    and ch: "mSrtpInMap c key = Some ch" "channel_ok ch M A" and w: "in_window M i"
  obtains c' ch' where "conn_unprotectReceiveMedia ssl c e = Some (if accepted_by M A i then Some packet else None, c')"
    "mCrypto c' = mCrypto c" "mSrtpInMap c' key = Some ch'" "channel_ok ch' (max M i) (if accepted_by M A i then insert i A else A)"
proof -
  note g = genuine_facts [OF ok]
  have r: "replay_ok (replayProtection ch) M A" using ch(2) by (simp add: channel_ok_def)
  have can: "canProceed (replayProtection ch) (ucast (of_nat (i mod 65536) :: u16)) \<longleftrightarrow> accepted_by M A i"
    using replay_window(1) [OF r w] by (simp add: accepted_by_def seq32_def)
  have set: "set_channel key ch c = c" using ch(1) by (simp add: set_channel_def fun_upd_idem)
  have ens: "ensureSrtpChannel key 0xFFFF c = ch" using ch(1) by (simp add: ensureSrtpChannel_def)
  show ?thesis
  proof (cases "accepted_by M A i")
    case False
    have "conn_unprotectReceiveMedia ssl c e = Some (None, c)"
      unfolding conn_unprotectReceiveMedia_def Let_def g(4,5) ens set using g(3) can False by simp
    moreover have "max M i = M"
    proof -
      have "a \<in> A \<Longrightarrow> a \<le> M" for a using r by (auto simp: replay_ok_def rp_rel_def split: option.splits)
      then have "i \<le> M" using False by (metis accepted_by_def div_le_mono nat_le_linear)
      then show ?thesis by simp
    qed
    ultimately show ?thesis using that [of c ch] ch False by simp
  next
    case True
    let ?ch = "ch\<lparr>rolloverCount := of_nat (i div 65536), lastSequence16 := Some (of_nat (i mod 65536))\<rparr>"
    have le: "M div 65536 \<le> i div 65536" using True by (simp add: accepted_by_def)
    obtain b s' where s: "rp_set (replayProtection ch) (seq32 i) = Some (b, s')" "replay_ok s' (max M i) (insert i A)"
      using replay_set [OF r w] can True by (auto simp: seq32_def)
    have "conn_unprotectReceiveMedia ssl c e = Some (Some packet, set_channel key (?ch\<lparr>replayProtection := s'\<rparr>) (set_channel key ?ch c))"
      unfolding conn_unprotectReceiveMedia_def Let_def g(4,5) ens set
      using g(1,2,3) can True media_rollover_ok [OF ch(2) w le] s(1) by (simp add: set_channel_def seq32_def)
    moreover have "channel_ok (?ch\<lparr>replayProtection := s'\<rparr>) (max M i) (insert i A)"
    proof -
      have "i div 65536 = max M i div 65536" using le by (simp add: max_def div_le_mono le_antisym)
      moreover have "max M i < i + 2048" using w by (simp add: in_window_def)
      ultimately show ?thesis using s(2) by (auto simp: channel_ok_def)
    qed
    ultimately show ?thesis using that True by (simp add: set_channel_def)
  qed
qed

lemma receive_first:
  assumes ok: "openssl_ok ssl" "paired a (mCrypto c)" "genuine ssl a key (i, packet, e)"
    and fresh: "mSrtpInMap c key = None" and i: "i < 65536"
  obtains c' ch' where "conn_unprotectReceiveMedia ssl c e = Some (Some packet, c')"
    "mCrypto c' = mCrypto c" "mSrtpInMap c' key = Some ch'" "channel_ok ch' i {i}"
proof -
  note g = genuine_facts [OF ok]
  let ?ch = "\<lparr>replayProtection = ReplayProtection_new 0xFFFF 2048, rolloverCount = 0, lastSequence16 = None\<rparr>"
  have ens: "ensureSrtpChannel key 0xFFFF c = ?ch" using fresh by (simp add: ensureSrtpChannel_def)
  have can: "canProceed (ReplayProtection_new 0xFFFF 2048) v" for v by (simp add: canProceed_def ReplayProtection_new_def)
  have r: "media_rollover s ?ch = (0, ?ch\<lparr>lastSequence16 := Some s\<rparr>)" for s by (simp add: media_rollover_def)
  obtain b s' where s: "rp_set (ReplayProtection_new 0xFFFF 2048) (seq32 i) = Some (b, s')" "replay_ok s' i {i}"
    using replay_first [OF i] by blast
  let ?ch' = "\<lparr>replayProtection = s', rolloverCount = 0, lastSequence16 = Some (of_nat (i mod 65536))\<rparr>"
  have "\<exists>c'. conn_unprotectReceiveMedia ssl c e = Some (Some packet, c') \<and> mCrypto c' = mCrypto c \<and> mSrtpInMap c' key = Some ?ch'"
    unfolding conn_unprotectReceiveMedia_def Let_def g(4,5) ens
    using g(1,2,3) i can r s(1) by (simp add: set_channel_def seq32_def)
  moreover have "channel_ok ?ch' i {i}" using s(2) i by (auto simp: channel_ok_def intro: exI [of _ i])
  ultimately show ?thesis using that by blast
qed

fun receive_all :: "OpenSSL \<Rightarrow> SrtpConnection \<Rightarrow> bytes list \<Rightarrow> (bytes option list \<times> SrtpConnection) option" where
  "receive_all ssl c [] = Some ([], c)"
| "receive_all ssl c (e # es) = do {
     (r, c) \<leftarrow> conn_unprotectReceiveMedia ssl c e;
     (rs, c) \<leftarrow> receive_all ssl c es;
     Some (r # rs, c)
   }"

text \<open>What should come out of arrivals: each packet the first time, if it is not of a cycle that is over.\<close>

fun expected :: "nat \<Rightarrow> nat set \<Rightarrow> (nat \<times> bytes \<times> bytes) list \<Rightarrow> bytes option list" where
  "expected M A [] = []"
| "expected M A ((i, packet, e) # arrivals) =
     (if accepted_by M A i then Some packet # expected (max M i) (insert i A) arrivals else None # expected (max M i) A arrivals)"

fun arrivals_ok :: "nat \<Rightarrow> (nat \<times> bytes \<times> bytes) list \<Rightarrow> bool" where
  "arrivals_ok M [] = True"
| "arrivals_ok M ((i, packet, e) # arrivals) = (in_window M i \<and> arrivals_ok (max M i) arrivals)"

lemma receive_stream:
  "openssl_ok ssl \<Longrightarrow> paired a (mCrypto c) \<Longrightarrow> list_all (genuine ssl a key) arrivals \<Longrightarrow> mSrtpInMap c key = Some ch \<Longrightarrow>
   channel_ok ch M A \<Longrightarrow> arrivals_ok M arrivals \<Longrightarrow> \<exists>c'. receive_all ssl c (map (\<lambda>x. snd (snd x)) arrivals) = Some (expected M A arrivals, c')"
proof (induction M A arrivals arbitrary: c ch rule: expected.induct)
  case (2 M A i packet e arrivals)
  let ?A = "if accepted_by M A i then insert i A else A"
  obtain c' ch' where s: "conn_unprotectReceiveMedia ssl c e = Some (if accepted_by M A i then Some packet else None, c')"
      "mCrypto c' = mCrypto c" "mSrtpInMap c' key = Some ch'" "channel_ok ch' (max M i) ?A"
    using receive_step [of ssl a c key i packet e ch M A] 2(3-8) by auto
  have "\<exists>c''. receive_all ssl c' (map (\<lambda>x. snd (snd x)) arrivals) = Some (expected (max M i) ?A arrivals, c'')"
    using 2(1) [of c' ch'] 2(2) [of c' ch'] 2(3-8) s by (cases "accepted_by M A i") auto
  then show ?case using s(1) by auto
qed simp

text \<open>The two ends derive matching keys from the same exported material.\<close>

lemma crypto_create_vectors:
  assumes "SrtpCrypto_create ssl profile sk ss rk rs = Some x"
  shows "mProfileId x = profile" "derive_vectors ssl sk ss kLabelRtpKey kLabelRtpAuth kLabelRtpSalt = Some (mSendRtp x)"
    "derive_vectors ssl rk rs kLabelRtpKey kLabelRtpAuth kLabelRtpSalt = Some (mReceiveRtp x)"
    "derive_vectors ssl sk ss kLabelRtcpKey kLabelRtcpAuth kLabelRtcpSalt = Some (mSendRtcp x)"
    "derive_vectors ssl rk rs kLabelRtcpKey kLabelRtcpAuth kLabelRtcpSalt = Some (mReceiveRtcp x)"
  using assms unfolding SrtpCrypto_create_def by (auto split: bind_splits if_splits)

lemma crypto_create_paired:
  assumes "SrtpCrypto_create ssl profile ck cs sk ss = Some x" "SrtpCrypto_create ssl profile sk ss ck cs = Some y"
  shows "paired x y" "paired y x"
  using crypto_create_vectors [OF assms(1)] crypto_create_vectors [OF assms(2)] by (simp_all add: paired_def)

lemma create_paired:
  assumes "SrtpConnection_create ssl profile exported active = Some c1" "SrtpConnection_create ssl profile exported (\<not> active) = Some c2"
  shows "paired (mCrypto c1) (mCrypto c2)" "mSrtpInMap c2 = (\<lambda>_. None)"
proof -
  obtain p ks ss where p: "profile = Some p" "srtp_sizes p = Some (ks, ss)"
    using assms(1) by (auto simp: SrtpConnection_create_def split: bind_splits)
  let ?m = "exported ((ks + ss) * 2)"
  let ?ck = "crypto_assign (take ks ?m)" and ?sk = "crypto_assign (take ks (drop ks ?m))"
  let ?cs = "crypto_assign (take ss (drop (2 * ks) ?m))" and ?ss = "crypto_assign (take ss (drop (2 * ks + ss) ?m))"
  have c: "SrtpConnection_create ssl profile exported role =
      map_option SrtpConnection_new (if role then SrtpCrypto_create ssl p ?sk ?ss ?ck ?cs else SrtpCrypto_create ssl p ?ck ?cs ?sk ?ss)" for role
    using p by (simp add: SrtpConnection_create_def Let_def map_conv_bind_option comp_def)
  show "mSrtpInMap c2 = (\<lambda>_. None)" using assms(2) unfolding c by (auto simp: SrtpConnection_new_def)
  show "paired (mCrypto c1) (mCrypto c2)"
    using assms crypto_create_paired [of ssl p ?ck ?cs ?sk ?ss] unfolding c by (cases active) (auto simp: SrtpConnection_new_def)
qed

text \<open>
  C12. Exactly once: the two ends of a DTLS session protect and unprotect media packets of one source. For
  packets that arrive in any order, any number of times and with losses, each at most 512 packets ahead and less
  than 2048 behind the newest one so far, the receiver returns every packet unchanged when it arrives for the
  first time and rejects it afterwards, through any number of wraps of the sequence number. The exception is a
  packet from before a wrap that arrives after it, which is always rejected. The stream starts with a rollover
  count of zero.
\<close>
theorem srtp_stream_exactly_once:
  assumes "openssl_ok ssl" "SrtpConnection_create ssl profile exported active = Some sender"
    "SrtpConnection_create ssl profile exported (\<not> active) = Some receiver"
    "list_all (genuine ssl (mCrypto sender) key) ((i, packet, e) # arrivals)" "i < 65536" "arrivals_ok i arrivals"
  shows "\<exists>c'. receive_all ssl receiver (e # map (\<lambda>x. snd (snd x)) arrivals) = Some (Some packet # expected i {i} arrivals, c')"
proof -
  note p = create_paired [OF assms(2,3)]
  obtain c' ch' where s: "conn_unprotectReceiveMedia ssl receiver e = Some (Some packet, c')" "mCrypto c' = mCrypto receiver"
      "mSrtpInMap c' key = Some ch'" "channel_ok ch' i {i}"
    using receive_first [OF assms(1) p(1), of key i packet e] assms(4,5) p(2) by auto
  then have "paired (mCrypto sender) (mCrypto c')" using p(1) by simp
  then obtain c'' where "receive_all ssl c' (map (\<lambda>x. snd (snd x)) arrivals) = Some (expected i {i} arrivals, c'')"
    using receive_stream [OF assms(1) _ _ s(3,4) assms(6)] assms(4) by auto
  then show ?thesis using s(1) by simp
qed

text \<open>
  C38. The rollover count is changed before a packet is authenticated: two forged packets before the first one of
  a source, with numbers around the wrap, raise the count to one, and the first genuine packet is then tried
  with this count and rejected.
\<close>
theorem srtp_forged_rollover:
  assumes "mSrtpInMap c key = None"
    and forged: "\<forall>e \<in> {e1, e2}. 12 \<le> length e \<and> (be32 (drop 8 e), ucast (be16 e AND 0x7F)) = key" "be16 (drop 2 e1) \<ge> 0xF000" "be16 (drop 2 e2) \<le> 0x1000"
      "unprotectReceiveMedia ssl (mCrypto c) e1 0 = None" "unprotectReceiveMedia ssl (mCrypto c) e2 1 = None"
    and genuine: "12 \<le> length e" "(be32 (drop 8 e), ucast (be16 e AND 0x7F)) = key" "be16 (drop 2 e) < 0xF000"
      "unprotectReceiveMedia ssl (mCrypto c) e 0 = Some packet" "unprotectReceiveMedia ssl (mCrypto c) e 1 = None"
  shows "\<exists>c'. receive_all ssl c [e1, e2, e] = Some ([None, None, None], c') \<and>
    (\<exists>ch. mSrtpInMap c' key = Some ch \<and> rolloverCount ch = 1)"
proof -
  let ?ch = "\<lambda>r l. \<lparr>replayProtection = ReplayProtection_new 0xFFFF 2048, rolloverCount = r, lastSequence16 = l\<rparr>"
  have can: "canProceed (ReplayProtection_new 0xFFFF 2048) v" for v by (simp add: canProceed_def ReplayProtection_new_def)
  have step: "conn_unprotectReceiveMedia ssl d x = Some (None, set_channel key (?ch r' l') d)"
    if "ensureSrtpChannel key 0xFFFF d = ?ch r l" "12 \<le> length x" "(be32 (drop 8 x), ucast (be16 x AND 0x7F)) = key"
      "media_rollover (be16 (drop 2 x)) (?ch r l) = (roc, ?ch r' l')" "unprotectReceiveMedia ssl (mCrypto d) x roc = None" for d x r l r' l' roc
    unfolding conn_unprotectReceiveMedia_def Let_def that(3) that(1) using that(2,4,5) can
    by (simp add: getMediaSequenceNumber_def set_channel_def)
  have ens: "ensureSrtpChannel key m (set_channel key ch d) = ch" "mCrypto (set_channel key ch d) = mCrypto d" for m ch d
    by (simp_all add: ensureSrtpChannel_def set_channel_def)
  let ?c1 = "set_channel key (?ch 0 (Some (be16 (drop 2 e1)))) c"
  let ?c2 = "set_channel key (?ch 1 (Some (be16 (drop 2 e2)))) ?c1"
  have 1: "conn_unprotectReceiveMedia ssl c e1 = Some (None, ?c1)"
    by (rule step [where r = 0 and l = None and roc = 0]) (use assms in \<open>auto simp: ensureSrtpChannel_def media_rollover_def\<close>)
  have n: "\<not> be16 (drop 2 e1) \<le> 0x1000" using order_trans [OF forged(2), of "0x1000"] by auto
  have 2: "conn_unprotectReceiveMedia ssl ?c1 e2 = Some (None, ?c2)"
    by (rule step [where r = 0 and l = "Some (be16 (drop 2 e1))" and roc = 1]) (use assms n in \<open>auto simp: ens media_rollover_def\<close>)
  have n2: "\<not> 0xF000 \<le> be16 (drop 2 e2)" using order_trans [OF _ forged(3), of "0xF000"] by auto
  have 3: "conn_unprotectReceiveMedia ssl ?c2 e = Some (None, set_channel key (?ch 1 (Some (be16 (drop 2 e)))) ?c2)"
    by (rule step [where r = 1 and l = "Some (be16 (drop 2 e2))" and roc = 1])
      (use assms n2 in \<open>auto simp: ens media_rollover_def\<close>)
  show ?thesis using 1 2 3 by (simp add: set_channel_def)
qed

lemma plain_derivation: "\<exists>o'. derivation_loop plain_ssl k input n d is out = Some o'"
  by (induction plain_ssl k input n d "is" out rule: derivation_loop.induct) (auto simp: plain_ssl_def Let_def)

lemma plain_create:
  "\<exists>c. SrtpConnection_create plain_ssl (Some SRTP_AES128_CM_SHA1_80) (\<lambda>n. replicate n 7) active = Some c \<and> mProfileId (mCrypto c) = SRTP_AES128_CM_SHA1_80"
proof -
  have "\<exists>v. derive_vectors plain_ssl (crypto_assign (replicate 16 7)) (crypto_assign (replicate 14 7)) l1 l2 l3 = Some v" for l1 l2 l3
  proof -
    have s: "cb_size (crypto_assign (replicate 16 7)) = 16" by (simp add: crypto_assign_def Let_def)
    have "\<exists>o'. KeyDerivation_generate plain_ssl (crypto_assign (replicate 16 7)) (crypto_assign (replicate 14 7)) l n = Some o'" for l n
      unfolding KeyDerivation_generate_def Let_def using s plain_derivation by simp
    then show ?thesis unfolding derive_vectors_def by (metis bind.bind_lunit)
  qed
  then obtain v w where "derive_vectors plain_ssl (crypto_assign (replicate 16 7)) (crypto_assign (replicate 14 7)) kLabelRtpKey kLabelRtpAuth kLabelRtpSalt = Some v"
    "derive_vectors plain_ssl (crypto_assign (replicate 16 7)) (crypto_assign (replicate 14 7)) kLabelRtcpKey kLabelRtcpAuth kLabelRtcpSalt = Some w" by blast
  moreover have "cb_size (crypto_assign (replicate 16 7)) = 16" "cb_size (crypto_assign (replicate 14 7)) = 14"
    by (simp_all add: crypto_assign_def Let_def)
  ultimately show ?thesis
    by (cases active) (auto simp: SrtpConnection_create_def srtp_sizes_def SrtpCrypto_create_def SrtpConnection_new_def Let_def)
qed

lemma srtp_stream_exactly_once_witness:
  "\<exists>sender receiver c'. SrtpConnection_create plain_ssl (Some SRTP_AES128_CM_SHA1_80) (\<lambda>n. replicate n 7) True = Some sender \<and>
     SrtpConnection_create plain_ssl (Some SRTP_AES128_CM_SHA1_80) (\<lambda>n. replicate n 7) False = Some receiver \<and>
     receive_all plain_ssl receiver [example_sealed 65535, example_sealed 65537, example_sealed 65536, example_sealed 65537] =
       Some ([Some (example_media 65535), Some (example_media 65537), Some (example_media 65536), None], c')"
proof -
  obtain a b where c: "SrtpConnection_create plain_ssl (Some SRTP_AES128_CM_SHA1_80) (\<lambda>n. replicate n 7) True = Some a"
      "SrtpConnection_create plain_ssl (Some SRTP_AES128_CM_SHA1_80) (\<lambda>n. replicate n 7) (\<not> True) = Some b"
      "mProfileId (mCrypto a) = SRTP_AES128_CM_SHA1_80"
    using plain_create [of True] plain_create [of False] by auto
  let ?p = "\<lambda>i. (i, example_media i, example_sealed i)"
  have "genuine plain_ssl (mCrypto a) (7, 96) (?p i)" for i
    using example_media_facts [of i] example_sealed_eq [OF c(3), of i] by (simp add: genuine_def)
  then have "list_all (genuine plain_ssl (mCrypto a) (7, 96)) (?p 65535 # map ?p [65537, 65536, 65537])" by simp
  from srtp_stream_exactly_once [OF plain_ssl_ok c(1,2) this] show ?thesis
    using c by (simp add: in_window_def accepted_by_def)
qed

lemma plain_unprotect:
  assumes "22 < length e" "\<not> bit (be16 e) 12"
  shows "unprotectReceiveMedia plain_ssl (plain_crypto SRTP_AES128_CM_SHA1_80) e roc =
    (if take 10 (plain_digest (take (length e - 10) e @ u32_bytes roc)) = drop (length e - 10) e then Some (take (length e - 10) e) else None)"
proof -
  have "take 12 e @ drop 12 (take (length e - 10) e) = take (length e - 10) e"
    using assms(1) append_take_drop_id [of 12 "take (length e - 10) e"] by (simp add: min_absorb1)
  then show ?thesis
    using assms by (simp add: unprotectReceiveMedia_def unprotectReceiveMediaCM_def plain_crypto_def cm_digestSize_def
        unprotect_headerSize_def plain_ssl_def Let_def)
qed

lemma srtp_forged_rollover_witness:
  "let c = SrtpConnection_new (plain_crypto SRTP_AES128_CM_SHA1_80);
       forged = \<lambda>n. [0x80, 96, n, 0, 0, 0, 0, 0, 0, 0, 0, 7, 1, 2, 9, 9, 9, 9, 9, 9, 9, 9, 9, 9]
   in unprotectReceiveMedia plain_ssl (mCrypto c) (example_sealed 100) 0 = Some (example_media 100) \<and>
      (\<exists>c'. receive_all plain_ssl c [forged 0xF0, forged 0, example_sealed 100] = Some ([None, None, None], c') \<and>
         (\<exists>ch. mSrtpInMap c' (7, 96) = Some ch \<and> rolloverCount ch = 1))"
proof -
  let ?k = "plain_crypto SRTP_AES128_CM_SHA1_80" and ?f = "\<lambda>n :: u8. [0x80, 96, n, 0, 0, 0, 0, 0, 0, 0, 0, 7, 1, 2, 9, 9, 9, 9, 9, 9, 9, 9, 9, 9]"
  have r: "unprotectReceiveMedia plain_ssl ?k (?f 0xF0) 0 = None" "unprotectReceiveMedia plain_ssl ?k (?f 0) 1 = None"
      "unprotectReceiveMedia plain_ssl ?k (example_sealed 100) 0 = Some (example_media 100)"
      "unprotectReceiveMedia plain_ssl ?k (example_sealed 100) 1 = None" "12 \<le> length (example_sealed 100)"
      "(be32 (drop 8 (example_sealed 100)), ucast (be16 (example_sealed 100) AND 0x7F) :: u8) = (7, 96)" "be16 (drop 2 (example_sealed 100)) < 0xF000"
    by (simp_all add: plain_unprotect be16_def be32_def plain_digest_def u32_bytes_def u16_bytes_def example_sealed_def example_media_def)
  show ?thesis
    using srtp_forged_rollover [of "SrtpConnection_new ?k" "(7, 96)" "?f 0xF0" "?f 0" plain_ssl "example_sealed 100" "example_media 100"] r
    by (simp add: SrtpConnection_new_def be16_def be32_def)
qed

end
