(* ===== verification/Retransmission.thy ===== *)
theory Retransmission
  imports Nack Send_History Jitter_Buffer Srtp_Connection
begin

text \<open>
  The way of a lost packet: the receiver's request (\<^verbatim>\<open>Nack\<close>), the sender's lookup in its history
  (\<^verbatim>\<open>Send_History\<close>) and answer on the RTX stream (\<^verbatim>\<open>Rtp_Packet\<close>), protected by its SRTP connection
  (\<^verbatim>\<open>Srtp_Connection\<close>), in \<^verbatim>\<open>src/peer_candidate.cpp\<close>; the receiver's SRTP connection, and the unwrapping of the
  answer in \<^verbatim>\<open>src/jitter_buffer.cpp\<close>. The records of a request in the congestion controller and in the
  statistics of the track are left out.
\<close>

unbundle bit_operations_syntax

section \<open>Retransmission\<close>

text \<open>
  The answer to a request, in \<^verbatim>\<open>PeerCandidate\<close>: \<open>srtp\<close> is the SRTP connection, \<open>hasSimulcast\<close> tells whether there is a
  simulcast extension source, and \<open>trackMap\<close> are the tracks that packets point to, by ssrc. The results are the
  datagrams sent; a packet that cannot be protected is not sent.
\<close>

definition resend ::
  "OpenSSL \<Rightarrow> SrtpConnection \<Rightarrow> bool \<Rightarrow> RtpPacket \<Rightarrow> Track \<Rightarrow> (bytes list \<times> Track) option" where
  "resend ssl srtp hasSimulcast packet track = do {
     (packetData, track') \<leftarrow>
       (if track_rtxPayloadId track > 0 then do {
          let extension = ext_copy (pkt_extension packet);
          extension \<leftarrow> (if isSimulcast track \<and> hasSimulcast then do {
              builder \<leftarrow> sim_updateForRtx (builder_from extension) track;
              Some (ext_build builder)
            } else Some extension);
          Some (RtpPacket_generateRtx track packet extension)
        } else Some (RtpPacket_generate packet, track));
     protectedBuf \<leftarrow> conn_protectSendMedia ssl srtp (ByteBuffer_bytes (fst packetData)) (snd packetData);
     Some (case protectedBuf of Some buf \<Rightarrow> [buf] | None \<Rightarrow> [], track')
   }"

text \<open>No SRTP connection (\<^const>\<open>None\<close>): nothing is sent.\<close>

fun resend_all ::
  "OpenSSL \<Rightarrow> SrtpConnection option \<Rightarrow> bool \<Rightarrow> SendRtpHistory \<Rightarrow> u32 \<Rightarrow> u16 list \<Rightarrow> (u32 \<Rightarrow> Track) \<Rightarrow>
   (bytes list \<times> (u32 \<Rightarrow> Track)) option" where
  "resend_all ssl srtp hasSimulcast h ssrc [] trackMap = Some ([], trackMap)"
| "resend_all ssl srtp hasSimulcast h ssrc (seq # seqs) trackMap =
     (case (history_find ssrc seq h, srtp) of
        (Some packet, Some connection) \<Rightarrow> do {
          (sent, track) \<leftarrow> resend ssl connection hasSimulcast packet (trackMap (pkt_ssrc packet));
          (rest, trackMap') \<leftarrow> resend_all ssl srtp hasSimulcast h ssrc seqs (trackMap(pkt_ssrc packet := track));
          Some (sent @ rest, trackMap')
        }
      | _ \<Rightarrow> resend_all ssl srtp hasSimulcast h ssrc seqs trackMap)"

definition onReceivedControlMessage_NACK ::
  "OpenSSL \<Rightarrow> SrtpConnection option \<Rightarrow> bool \<Rightarrow> SendRtpHistory \<Rightarrow> u32 \<Rightarrow> ByteReader \<Rightarrow> (u32 \<Rightarrow> Track) \<Rightarrow>
   (bytes list \<times> (u32 \<Rightarrow> Track)) option" where
  "onReceivedControlMessage_NACK ssl srtp hasSimulcast h ssrc reader trackMap = do {
     missing \<leftarrow> nack_parse reader;
     resend_all ssl srtp hasSimulcast h ssrc missing trackMap
   }"

text \<open>The part of \<^verbatim>\<open>onReceivedControlPacket\<close> that leads to a retransmission.\<close>

definition control_nack ::
  "OpenSSL \<Rightarrow> SrtpConnection option \<Rightarrow> bool \<Rightarrow> SendRtpHistory \<Rightarrow> RtcpPacket \<Rightarrow> (u32 \<Rightarrow> Track) \<Rightarrow>
   (bytes list \<times> (u32 \<Rightarrow> Track)) option" where
  "control_nack ssl srtp hasSimulcast h packet trackMap =
     (let reader = ByteReader_new (rtcp_payload packet) in
      if rtcp_payloadId packet = 205 \<and> remaining reader \<ge> 4 then do {
        (ssrc, reader) \<leftarrow> readU32 reader;
        if rtcp_rc packet = 1 then onReceivedControlMessage_NACK ssl srtp hasSimulcast h ssrc reader trackMap
        else Some ([], trackMap)
      } else Some ([], trackMap))"

fun control_all ::
  "OpenSSL \<Rightarrow> SrtpConnection option \<Rightarrow> bool \<Rightarrow> SendRtpHistory \<Rightarrow> RtcpPacket list \<Rightarrow> (u32 \<Rightarrow> Track) \<Rightarrow>
   (bytes list \<times> (u32 \<Rightarrow> Track)) option" where
  "control_all ssl srtp hasSimulcast h [] trackMap = Some ([], trackMap)"
| "control_all ssl srtp hasSimulcast h (p # ps) trackMap = do {
     (sent, trackMap) \<leftarrow> control_nack ssl srtp hasSimulcast h p trackMap;
     (rest, trackMap) \<leftarrow> control_all ssl srtp hasSimulcast h ps trackMap;
     Some (sent @ rest, trackMap)
   }"

text \<open>The requests, each a control packet of its own, as they are after the SRTP protection has been removed.\<close>

definition control_datagrams ::
  "OpenSSL \<Rightarrow> SrtpConnection option \<Rightarrow> bool \<Rightarrow> SendRtpHistory \<Rightarrow> bytes list \<Rightarrow> (u32 \<Rightarrow> Track) \<Rightarrow>
   (bytes list \<times> (u32 \<Rightarrow> Track)) option" where
  "control_datagrams ssl srtp hasSimulcast h datagrams trackMap = do {
     packets \<leftarrow> those (map rtcp_fromUdpPacket datagrams);
     control_all ssl srtp hasSimulcast h (concat packets) trackMap
   }"

text \<open>
  What the receiver makes of datagrams of the retransmission stream: they pass its SRTP connection, and the jitter
  buffer takes the original number and payload out of each packet.
\<close>

definition rtx_content :: "Track \<Rightarrow> bytes option \<Rightarrow> (u16 \<times> bytes) option" where
  "rtx_content track output = do {
     output \<leftarrow> output;
     packet \<leftarrow> fromUdpPacket output;
     packet \<leftarrow> packet;
     unwrap_rtx track packet
   }"

definition receive_rtx :: "OpenSSL \<Rightarrow> SrtpConnection \<Rightarrow> Track \<Rightarrow> bytes list \<Rightarrow> ((u16 \<times> bytes) option list \<times> SrtpConnection) option" where
  "receive_rtx ssl srtp track datagrams = do {
     (outputs, srtp) \<leftarrow> receive_all ssl srtp datagrams;
     Some (map (rtx_content track) outputs, srtp)
   }"

section \<open>Requests are answered\<close>

lemma nack_parse_pair:
  assumes "reader_inv r" "unread r = u16_bytes pid @ u16_bytes blp"
  shows "nack_parse r = Some (missingSeqList pid blp)"
proof -
  have "unread (advance 4 r) = []" "reader_inv (advance 4 r)" using assms by (simp_all add: read_simps)
  then have "nack_parse (advance 4 r) = Some []" by (simp add: nack_parse.simps [of "advance 4 r"] read_simps)
  then show ?thesis using assms be16_u16_bytes [of blp "[]"]
    by (simp add: nack_parse.simps [of r] read_simps)
qed

text \<open>The request packet of one pair of sequence number and bit mask.\<close>

definition nack_packet :: "u32 \<Rightarrow> u16 \<times> u16 \<Rightarrow> RtcpPacket" where
  "nack_packet ssrc = (\<lambda>(seq, blp). \<lparr>rtcp_ssrc = 0, rtcp_rc = 1, rtcp_payloadId = kFeedback,
     rtcp_payload = u32_bytes ssrc @ u16_bytes seq @ u16_bytes blp\<rparr>)"

lemma sendNacks_packets:
  "track_hasNack track \<Longrightarrow> compressNackList ns = Some out \<Longrightarrow> out = [] \<longleftrightarrow> ns = [] \<Longrightarrow>
     sendNacks True track ns = Some (map (nack_packet (track_ssrc track)) out)"
  by (auto simp: sendNacks_def nack_packet_def buf_simps Let_def)

lemma control_nack_packet:
  "control_nack ssl srtp hasSim h (nack_packet ssrc (seq, blp)) trackMap =
     resend_all ssl srtp hasSim h ssrc (missingSeqList seq blp) trackMap"
proof -
  let ?r = "ByteReader_new (u32_bytes ssrc @ u16_bytes seq @ u16_bytes blp)"
  have "nack_parse (advance 4 ?r) = Some (missingSeqList seq blp)"
    by (rule nack_parse_pair) (simp_all add: read_simps)
  then show ?thesis
    by (simp add: control_nack_def nack_packet_def kFeedback_def read_simps onReceivedControlMessage_NACK_def)
qed

text \<open>One packet of the list of requests.\<close>

definition resend_one ::
  "OpenSSL \<Rightarrow> SrtpConnection option \<Rightarrow> bool \<Rightarrow> SendRtpHistory \<Rightarrow> u32 \<Rightarrow> u16 \<Rightarrow> (u32 \<Rightarrow> Track) \<Rightarrow> (bytes list \<times> (u32 \<Rightarrow> Track)) option" where
  "resend_one ssl srtp hasSim h ssrc seq m =
     (case (history_find ssrc seq h, srtp) of
        (Some packet, Some connection) \<Rightarrow>
          map_option (\<lambda>(sent, track). (sent, m(pkt_ssrc packet := track))) (resend ssl connection hasSim packet (m (pkt_ssrc packet)))
      | _ \<Rightarrow> Some ([], m))"

lemma resend_all_Cons:
  "resend_all ssl srtp hasSim h ssrc (seq # seqs) m = do {
     (a, m) \<leftarrow> resend_one ssl srtp hasSim h ssrc seq m;
     (b, m) \<leftarrow> resend_all ssl srtp hasSim h ssrc seqs m;
     Some (a @ b, m)
   }"
proof (cases "history_find ssrc seq h = None \<or> srtp = None")
  case True
  then show ?thesis
    by (cases "resend_all ssl srtp hasSim h ssrc seqs m") (auto simp: resend_one_def split: option.split)
next
  case False
  then obtain p c where "history_find ssrc seq h = Some p" "srtp = Some c" by auto
  then show ?thesis by (cases "resend ssl c hasSim p (m (pkt_ssrc p))") (auto simp: resend_one_def)
qed

declare resend_all.simps(2) [simp del]

lemma resend_all_append:
  "resend_all ssl srtp hasSim h ssrc (xs @ ys) m = do {
     (a, m) \<leftarrow> resend_all ssl srtp hasSim h ssrc xs m;
     (b, m) \<leftarrow> resend_all ssl srtp hasSim h ssrc ys m;
     Some (a @ b, m)
   }"
proof (induction xs arbitrary: m)
  case Nil
  then show ?case by (cases "resend_all ssl srtp hasSim h ssrc ys m") auto
next
  case (Cons x xs)
  show ?case
  proof (cases "resend_one ssl srtp hasSim h ssrc x m")
    case None
    then show ?thesis by (simp add: resend_all_Cons)
  next
    case (Some am)
    obtain a m1 where am: "am = (a, m1)" by fastforce
    show ?thesis
    proof (cases "resend_all ssl srtp hasSim h ssrc xs m1")
      case None
      then show ?thesis using Some am Cons.IH by (simp add: resend_all_Cons)
    next
      case (Some bm)
      obtain b m2 where "bm = (b, m2)" by fastforce
      then show ?thesis using Some \<open>resend_one ssl srtp hasSim h ssrc x m = Some am\<close> am Cons.IH
        by (cases "resend_all ssl srtp hasSim h ssrc ys m2") (auto simp: resend_all_Cons)
    qed
  qed
qed

lemma control_all_packets:
  "control_all ssl srtp hasSim h (map (nack_packet ssrc) out) m =
     resend_all ssl srtp hasSim h ssrc (concat (map (\<lambda>(seq, blp). missingSeqList seq blp) out)) m"
proof (induction out arbitrary: m)
  case (Cons x out)
  then show ?case by (cases x) (simp add: control_nack_packet resend_all_append)
qed simp

section \<open>Answers are received\<close>

text \<open>The calls of OpenSSL do not fail.\<close>

definition encryption_succeeds :: "OpenSSL \<Rightarrow> bool" where
  "encryption_succeeds ssl \<longleftrightarrow> (\<forall>key iv aad p. gcm_encrypt ssl key iv aad p \<noteq> None) \<and>
     (\<forall>key iv p. ctr_encrypt ssl key iv p \<noteq> None) \<and> (\<forall>key data. hmac_sha1 ssl key data \<noteq> None)"

lemma protectSendMedia_succeeds:
  assumes "encryption_succeeds ssl" "media_ok packet" "mProfileId a \<noteq> SRTP_other"
  shows "\<exists>e. protectSendMedia ssl a packet roc = Some (Some e)"
proof -
  obtain hs where hs: "protect_headerSize packet = Some (Some hs)" using media_ok_header [OF assms(2)] by blast
  have l: "\<not> length packet < 12" using assms(2) by (auto simp: media_ok_def)
  have gcm: "\<exists>x. gcm_encrypt ssl k v d b = Some x" and ctr: "\<exists>x. ctr_encrypt ssl k v b = Some x" and hmac: "\<exists>x. hmac_sha1 ssl k b = Some x"
    for k v d b using assms(1) unfolding encryption_succeeds_def by fastforce+
  have g: "\<exists>e. protectSendMediaGCM ssl a packet roc = Some (Some e)"
    using gcm [of "cipher_key (mProfileId a) (mSendRtp a)" "media_gcm_iv packet roc (mSendRtp a)" "take hs packet" "drop hs packet"] hs l
    by (auto simp: protectSendMediaGCM_def Let_def)
  have c: "\<exists>e. protectSendMediaCM ssl a packet roc = Some (Some e)" if "cm_digestSize (mProfileId a) = Some ds" for ds
  proof -
    obtain body where b: "ctr_encrypt ssl (cipher_key (mProfileId a) (mSendRtp a)) (media_cm_iv packet roc (mSendRtp a)) (drop hs packet) = Some body"
      using ctr by blast
    obtain d where "hmac_sha1 ssl (auth_key (mSendRtp a)) ((take hs packet @ body) @ u32_bytes roc) = Some d" using hmac by blast
    then show ?thesis using b hs l that by (simp add: protectSendMediaCM_def Let_def)
  qed
  show ?thesis using assms(3) g c by (cases "mProfileId a") (simp_all add: protectSendMedia_def cm_digestSize_def)
qed

lemma media_ok_wire:
  assumes "d = u16_bytes h @ u16_bytes s @ u32_bytes t @ u32_bytes q @ ext_bytes e @ rest" "bit h 12 = (\<not> ext_empty e)" "rest \<noteq> []"
    "length (ext_data e) \<le> 262140"
  shows "media_ok d"
proof -
  note p = parse_header [OF assms(1)]
  show ?thesis
  proof (cases "ext_empty e")
    case True
    then show ?thesis using p assms(2,3) by (simp add: media_ok_def)
  next
    case False
    let ?n = "length (ext_data e)"
    have "drop 14 d = drop 2 (ext_bytes e @ rest)" using p(5) drop_drop [of 2 12 d] by simp
    then have "be16 (drop 14 d) = of_nat ((?n + 3) div 4)" using False by (simp add: ext_bytes_def)
    moreover have "unat (of_nat ((?n + 3) div 4) :: u16) = (?n + 3) div 4" using assms(4) by (simp add: unat_of_nat)
    moreover have "length (ext_bytes e) = 4 + (?n + 3) div 4 * 4" using False pad4_total [of ?n] by (simp add: ext_bytes_def)
    moreover have "0 < length rest" using assms(3) by simp
    ultimately show ?thesis using p(6) by (simp add: media_ok_def)
  qed
qed

text \<open>A packet whose header extension the library built.\<close>

definition sendable :: "RtpPacket \<Rightarrow> bool" where
  "sendable p \<longleftrightarrow> (\<exists>es. pkt_extension p = ext_build (enc_elements es) \<and> list_all element_ok es \<and> length (enc_elements es) \<le> 262140)"

definition rtx_track :: "Track \<Rightarrow> bool" where
  "rtx_track track \<longleftrightarrow> 0 < track_rtxPayloadId track \<and> unat (track_rtxPayloadId track) < 128 \<and> \<not> isSimulcast track"

lemma ext_copy_build: "ext_copy (ext_build b) = ext_build b"
  by (simp add: ext_copy_def ext_build_def ext_empty_def RtpExtension_none_def)

lemma ext_build_data: "ext_data (ext_build b) = b"
  by (simp add: ext_build_def RtpExtension_none_def)

text \<open>The index of the packet that a source numbers next, if it does not run over.\<close>

definition next_index :: "RtpPacketSource \<Rightarrow> nat" where
  "next_index src = packet_index (mRollover src, mNextSequence src) + 1"

definition source_ok :: "nat \<Rightarrow> RtpPacketSource \<Rightarrow> bool" where
  "source_ok n src \<longleftrightarrow> (0 < unat (mGeneratedCount src) \<or> unat (mNextSequence src) < 65535) \<and>
     unat (mGeneratedCount src) + n < 2 ^ 32 \<and> next_index src + n < 2 ^ 48"

lemma source_step:
  assumes "source_ok (Suc n) src"
  shows "packet_index (fst (getNextSequence src)) = next_index src" "next_index (snd (getNextSequence src)) = next_index src + 1"
    "source_ok n (snd (getNextSequence src))"
proof -
  have "packet_index (fst (getNextSequence src)) = next_index src \<and>
      mRollover (snd (getNextSequence src)) = fst (fst (getNextSequence src)) \<and>
      mNextSequence (snd (getNextSequence src)) = snd (fst (getNextSequence src)) \<and>
      unat (mGeneratedCount (snd (getNextSequence src))) = unat (mGeneratedCount src) + 1"
  proof (cases "0 < unat (mGeneratedCount src)")
    case True
    then show ?thesis using getNextSequence_step [of src] assms by (simp add: source_ok_def next_index_def)
  next
    case False
    then have z: "mGeneratedCount src = 0" and s: "unat (mNextSequence src) < 65535"
      using assms by (auto simp: source_ok_def unat_eq_zero)
    then have "unat (mNextSequence src + 1) = unat (mNextSequence src) + 1" by (simp add: unat_word_ariths)
    then show ?thesis using z by (simp add: getNextSequence_def packet_index_def next_index_def Let_def)
  qed
  then show "packet_index (fst (getNextSequence src)) = next_index src" "next_index (snd (getNextSequence src)) = next_index src + 1"
    "source_ok n (snd (getNextSequence src))"
    using assms by (auto simp: source_ok_def next_index_def)
qed

lemma packet_index_parts: "packet_index (r, s) div 65536 = unat r" "packet_index (r, s) mod 65536 = unat s"
  by (simp_all add: packet_index_def)

text \<open>One answer: what is sent is a genuine packet of the retransmission stream, and holds the packet that was asked for.\<close>

lemma resend_genuine:
  assumes "sendable p" "rtx_track track" "encryption_succeeds ssl" "mProfileId (mCrypto srtp) \<noteq> SRTP_other"
    "source_ok (Suc n) (track_rtxPacketSource track)"
  defines "src \<equiv> snd (getNextSequence (track_rtxPacketSource track))"
  shows "\<exists>c plain. resend ssl srtp hasSim p track = Some ([c], track\<lparr>track_rtxPacketSource := src\<rparr>) \<and>
    genuine ssl (mCrypto srtp) (track_rtxSsrc track, track_rtxPayloadId track) (next_index (track_rtxPacketSource track), plain, c) \<and>
    rtx_content track (Some plain) = Some (pkt_sequence p, pkt_payload p)"
proof -
  obtain es where e: "pkt_extension p = ext_build (enc_elements es)" "list_all element_ok es" "length (enc_elements es) \<le> 262140"
    using assms(1) by (auto simp: sendable_def)
  have t: "unat (track_rtxPayloadId track) < 128" "0 < track_rtxPayloadId track" "\<not> isSimulcast track"
    using assms(2) by (auto simp: rtx_track_def)
  obtain ro s where rs: "getNextSequence (track_rtxPacketSource track) = ((ro, s), src)"
    by (metis src_def prod.collapse)
  obtain buf ro' track' where g: "RtpPacket_generateRtx track p (pkt_extension p) = ((buf, ro'), track')" by (metis surj_pair)
  have g': "ro' = ro" "track' = track\<lparr>track_rtxPacketSource := src\<rparr>"
    "fromUdpPacket (ByteBuffer_bytes buf) = Some (Some (RtpPacket_full (track_rtxSsrc track) (track_rtxPayloadId track) (pkt_marker p) 0
       s (pkt_timestamp p) 0 (pkt_extension p) (u16_bytes (pkt_sequence p) @ pkt_payload p)))"
    using generateRtx_parse [OF t(1) e g] rs by auto
  let ?plain = "ByteBuffer_bytes buf"
  let ?h = "rtp_header (pkt_paddingSize p \<noteq> 0) (\<not> ext_empty (pkt_extension p)) (pkt_marker p) (track_rtxPayloadId track)"
  have wire: "?plain = u16_bytes ?h @ u16_bytes s @ u32_bytes (pkt_timestamp p) @ u32_bytes (track_rtxSsrc track) @ ext_bytes (pkt_extension p) @
      (u16_bytes (pkt_sequence p) @ pkt_payload p @ padding_bytes (pkt_paddingSize p))"
    using g rs by (auto simp: RtpPacket_generateRtx_def Let_def buf_simps)
  note parts = parse_header [OF wire]
  have ok: "media_ok ?plain"
    by (rule media_ok_wire [OF wire]) (use e in \<open>auto simp: ext_build_data u16_bytes_def\<close>)
  have "track_rtxPayloadId track AND 0x7F = track_rtxPayloadId track"
    using t(1) unfolding mask7 by (simp add: word_unat_eq_iff unsigned_take_bit_eq take_bit_nat_eq_self flip: take_bit_eq_mask)
  then have key: "(be32 (drop 8 ?plain), ucast (be16 ?plain AND 0x7F)) = (track_rtxSsrc track, track_rtxPayloadId track)"
    using parts(1,4) rtp_header_payloadId by simp
  have "packet_index (ro, s) = next_index (track_rtxPacketSource track)" using source_step(1) [OF assms(5)] rs by simp
  note idx = packet_index_parts [of ro s, unfolded this]
  obtain c where c: "protectSendMedia ssl (mCrypto srtp) ?plain ro = Some (Some c)"
    using protectSendMedia_succeeds [OF assms(3) ok assms(4)] by blast
  have "resend ssl srtp hasSim p track = Some ([c], track\<lparr>track_rtxPacketSource := src\<rparr>)"
    using t g g'(1,2) c ok by (simp add: resend_def e(1) ext_copy_build conn_protectSendMedia_def media_ok_def)
  moreover have "genuine ssl (mCrypto srtp) (track_rtxSsrc track, track_rtxPayloadId track) (next_index (track_rtxPacketSource track), ?plain, c)"
    using ok key parts(2) idx c by (simp add: genuine_def)
  moreover have "rtx_content track (Some ?plain) = Some (pkt_sequence p, pkt_payload p)"
    using g'(3) by (simp add: rtx_content_def unwrap_rtx_def RtpPacket_full_def)
  ultimately show ?thesis by blast
qed

text \<open>
  The receiver can take the next packet of the retransmission stream: it has seen none yet, or the last one that it
  accepted was at most 512 packets before.
\<close>

definition rtx_ready :: "SrtpConnection \<Rightarrow> ChannelKey \<Rightarrow> nat \<Rightarrow> bool" where
  "rtx_ready c key i \<longleftrightarrow> (mSrtpInMap c key = None \<and> i < 65536) \<or>
     (\<exists>ch M A. mSrtpInMap c key = Some ch \<and> channel_ok ch M A \<and> M < i \<and> i \<le> M + 512)"

lemma rtx_ready_after: "mSrtpInMap c key = Some ch \<Longrightarrow> channel_ok ch i A \<Longrightarrow> rtx_ready c key (i + 1)"
  unfolding rtx_ready_def by (intro disjI2 exI [of _ ch] exI [of _ i] exI [of _ A]) simp

lemma receive_next:
  assumes "openssl_ok ssl" "paired a (mCrypto c)" "genuine ssl a key (i, packet, e)" "rtx_ready c key i"
  obtains c' where "conn_unprotectReceiveMedia ssl c e = Some (Some packet, c')" "mCrypto c' = mCrypto c" "rtx_ready c' key (i + 1)"
proof -
  from assms(4) consider "mSrtpInMap c key = None" "i < 65536"
    | ch M A where "mSrtpInMap c key = Some ch" "channel_ok ch M A" "M < i" "i \<le> M + 512"
    by (auto simp: rtx_ready_def)
  then show ?thesis
  proof cases
    case 1
    obtain c' ch' where "conn_unprotectReceiveMedia ssl c e = Some (Some packet, c')" "mCrypto c' = mCrypto c"
        "mSrtpInMap c' key = Some ch'" "channel_ok ch' i {i}"
      by (rule receive_first [OF assms(1-3) 1])
    then show ?thesis using that [of c'] rtx_ready_after by blast
  next
    case 2
    have w: "in_window M i" using 2(3,4) by (simp add: in_window_def)
    have "a \<le> M" if "a \<in> A" for a
      using 2(2) that by (auto simp: channel_ok_def replay_ok_def rp_rel_def split: option.splits)
    then have acc: "accepted_by M A i" using 2(3) by (force simp: accepted_by_def div_le_mono)
    obtain c' ch' where "conn_unprotectReceiveMedia ssl c e = Some (Some packet, c')" "mCrypto c' = mCrypto c"
        "mSrtpInMap c' key = Some ch'" "channel_ok ch' (max M i) (insert i A)"
      by (rule receive_step [OF assms(1-3) 2(1,2) w]) (use acc in auto)
    moreover have "max M i = i" using 2(3) by simp
    ultimately show ?thesis using that [of c'] rtx_ready_after by metis
  qed
qed

lemma rtx_track_source: "rtx_track (track\<lparr>track_rtxPacketSource := src\<rparr>) = rtx_track track"
  by (simp add: rtx_track_def isSimulcast_def)

lemma rtx_content_source: "rtx_content (track\<lparr>track_rtxPacketSource := src\<rparr>) = rtx_content track"
  by (simp add: rtx_content_def unwrap_rtx_def fun_eq_iff)

lemma resend_all_received:
  assumes ssl: "openssl_ok ssl" "encryption_succeeds ssl" "mProfileId (mCrypto sender) \<noteq> SRTP_other"
    and found: "\<forall>q\<in>set seqs. \<exists>p. history_find ssrc q h = Some p \<and> pkt_ssrc p = ssrc \<and> pkt_sequence p = q \<and> sendable p"
    and track: "rtx_track (m ssrc)" "source_ok (length seqs) (track_rtxPacketSource (m ssrc))"
    and receiver: "paired (mCrypto sender) (mCrypto receiver)"
      "rtx_ready receiver (track_rtxSsrc (m ssrc), track_rtxPayloadId (m ssrc)) (next_index (track_rtxPacketSource (m ssrc)))"
  shows "\<exists>sent m' receiver'. resend_all ssl (Some sender) hasSim h ssrc seqs m = Some (sent, m') \<and>
    receive_rtx ssl receiver (m ssrc) sent =
      Some (map (\<lambda>q. map_option (\<lambda>p. (q, pkt_payload p)) (history_find ssrc q h)) seqs, receiver')"
  using found track receiver
proof (induction seqs arbitrary: m receiver)
  case Nil
  then show ?case by (simp add: receive_rtx_def)
next
  case (Cons q seqs)
  let ?src = "track_rtxPacketSource (m ssrc)" and ?key = "(track_rtxSsrc (m ssrc), track_rtxPayloadId (m ssrc))"
  obtain p where p: "history_find ssrc q h = Some p" "pkt_ssrc p = ssrc" "pkt_sequence p = q" "sendable p" using Cons.prems(1) by auto
  have ok: "source_ok (Suc (length seqs)) ?src" using Cons.prems(3) by simp
  define src where "src = snd (getNextSequence ?src)"
  obtain c plain where c: "resend ssl sender hasSim p (m ssrc) = Some ([c], (m ssrc)\<lparr>track_rtxPacketSource := src\<rparr>)"
    "genuine ssl (mCrypto sender) ?key (next_index ?src, plain, c)" "rtx_content (m ssrc) (Some plain) = Some (q, pkt_payload p)"
    using resend_genuine [OF p(4) Cons.prems(2) ssl(2,3) ok] p(3) unfolding src_def by blast
  obtain r1 where r1: "conn_unprotectReceiveMedia ssl receiver c = Some (Some plain, r1)" "mCrypto r1 = mCrypto receiver"
    "rtx_ready r1 ?key (next_index ?src + 1)"
    by (rule receive_next [OF ssl(1) Cons.prems(4) c(2) Cons.prems(5)])
  let ?m = "m(ssrc := (m ssrc)\<lparr>track_rtxPacketSource := src\<rparr>)"
  have prems: "\<forall>q\<in>set seqs. \<exists>p. history_find ssrc q h = Some p \<and> pkt_ssrc p = ssrc \<and> pkt_sequence p = q \<and> sendable p"
    "rtx_track (?m ssrc)" "source_ok (length seqs) (track_rtxPacketSource (?m ssrc))" "paired (mCrypto sender) (mCrypto r1)"
    "rtx_ready r1 (track_rtxSsrc (?m ssrc), track_rtxPayloadId (?m ssrc)) (next_index (track_rtxPacketSource (?m ssrc)))"
    using Cons.prems r1 source_step(2,3) [OF ok] by (simp_all add: rtx_track_source src_def)
  obtain sent m' r' where ih: "resend_all ssl (Some sender) hasSim h ssrc seqs ?m = Some (sent, m')"
    "receive_rtx ssl r1 (?m ssrc) sent = Some (map (\<lambda>q. map_option (\<lambda>p. (q, pkt_payload p)) (history_find ssrc q h)) seqs, r')"
    using Cons.IH [of ?m r1] prems by blast
  have "resend_all ssl (Some sender) hasSim h ssrc (q # seqs) m = Some ([c] @ sent, m')"
    using p(1,2) c(1) ih(1) by (simp add: resend_all.simps(2))
  moreover have "receive_rtx ssl receiver (m ssrc) ([c] @ sent) =
      Some (map (\<lambda>q. map_option (\<lambda>p. (q, pkt_payload p)) (history_find ssrc q h)) (q # seqs), r')"
    using r1(1) ih(2) c(3) p(1) by (auto simp: receive_rtx_def rtx_content_source split: bind_splits)
  ultimately show ?case by blast
qed

lemma nack_packet_parse: "rtcp_fromUdpPacket (ByteBuffer_bytes (RtcpPacket_generate (nack_packet ssrc x))) = Some [nack_packet ssrc x]"
proof -
  have ok: "rtcp_ok (nack_packet ssrc x)" "rtcp_pad (rtcp_payload (nack_packet ssrc x)) = rtcp_payload (nack_packet ssrc x)"
    by (cases x; simp add: nack_packet_def rtcp_ok_def rtcp_pad_def)+
  then show ?thesis using rtcp_parse_all [of "[nack_packet ssrc x]"] by (simp add: RtcpPacket_generate_bytes)
qed

lemma nack_packets_parse:
  "those (map rtcp_fromUdpPacket (map (\<lambda>p. ByteBuffer_bytes (RtcpPacket_generate p)) (map (nack_packet ssrc) out))) =
     Some (map (\<lambda>x. [nack_packet ssrc x]) out)"
  by (induction out) (simp_all add: nack_packet_parse)

lemma concat_single: "concat (map (\<lambda>x. [f x]) xs) = map f xs"
  by (induction xs) auto

lemma find_history:
  assumes "numbered_streams ps" "history_find ssrc q (history_of ps) = Some p"
  shows "pkt_ssrc p = ssrc" "pkt_sequence p = q" "p \<in> set ps"
proof -
  have "find (\<lambda>p. pkt_sequence p = q) (take 512 (rev (of_stream ssrc ps))) = Some p"
    using history_of_rel [OF assms(1), of ssrc] assms(2)
    by (cases "history_of ps ssrc") (auto simp: history_find_def history_rel_def map_of_find)
  then have "p \<in> set (take 512 (rev (of_stream ssrc ps)))" "pkt_sequence p = q" by (auto simp: find_Some_iff in_set_conv_nth)
  then show "pkt_ssrc p = ssrc" "pkt_sequence p = q" "p \<in> set ps" by (auto simp: of_stream_def dest: in_set_takeD)
qed

lemma create_profile: "SrtpConnection_create ssl profile exported active = Some c \<Longrightarrow> mProfileId (mCrypto c) \<noteq> SRTP_other"
  by (auto simp: SrtpConnection_create_def SrtpConnection_new_def srtp_sizes_def Let_def dest!: crypto_create_vectors(1)
      split: bind_splits if_splits SrtpProfile.splits)

text \<open>
  C4. Lost packets are recovered, end to end: a receiver that misses the packets \<open>ss\<close> (in increasing order, as the
  jitter buffer reports them) sends requests; the sender parses them, finds the packets among those it sent, and answers
  each on the retransmission stream, protected by its SRTP connection; the datagrams arrive in order at the SRTP
  connection of the receiver, which returns all of them, and its unwrapping gets back the original sequence number and
  payload of each packet, in the order of the requests. Both connections are made from one DTLS session; the receiver
  may have seen packets of the retransmission stream before, the last one at most 512 packets back. All of the packets
  are still in the history, the track has a retransmission payload id and is not simulcast, and the calls of OpenSSL do
  not fail.
\<close>
theorem nack_recovers_packets:
  assumes ssl: "openssl_ok ssl" "encryption_succeeds ssl"
    and session: "SrtpConnection_create ssl profile exported active = Some sender"
      "SrtpConnection_create ssl profile exported (\<not> active) = Some receiver0" "mCrypto receiver = mCrypto receiver0"
    and lost: "sorted_wrt (<) ss" "\<forall>s\<in>set ss. \<forall>t\<in>set ss. t < s + 65536"
    and sent: "numbered_streams ps" "\<forall>p\<in>set ps. sendable p"
      "\<forall>s\<in>set ss. history_find (track_ssrc track) (of_nat s) (history_of ps) \<noteq> None"
    and track: "track_hasNack track" "rtx_track track" "trackMap (track_ssrc track) = track"
      "source_ok (length ss) (track_rtxPacketSource track)"
      "rtx_ready receiver (track_rtxSsrc track, track_rtxPayloadId track) (next_index (track_rtxPacketSource track))"
  shows "\<exists>requests answers trackMap' receiver'.
    sendNacks True track (map of_nat ss) = Some requests \<and>
    control_datagrams ssl (Some sender) hasSim (history_of ps) (map (\<lambda>p. ByteBuffer_bytes (RtcpPacket_generate p)) requests) trackMap =
      Some (answers, trackMap') \<and>
    receive_rtx ssl receiver track answers = Some (map (\<lambda>s. map_option (\<lambda>p. (of_nat s, pkt_payload p))
      (history_find (track_ssrc track) (of_nat s) (history_of ps))) ss, receiver')"
proof -
  let ?h = "history_of ps" and ?ssrc = "track_ssrc track"
  obtain out where out: "compressNackList (map of_nat ss) = Some out"
    "concat (map (\<lambda>(seq, blp). missingSeqList seq blp) out) = map of_nat ss" "out = [] \<longleftrightarrow> ss = []"
    using compress_expand [OF lost] by blast
  have req: "sendNacks True track (map of_nat ss) = Some (map (nack_packet ?ssrc) out)"
    by (rule sendNacks_packets [OF track(1) out(1)]) (use out(3) in simp)
  have found: "\<forall>q\<in>set (map of_nat ss). \<exists>p. history_find ?ssrc q ?h = Some p \<and> pkt_ssrc p = ?ssrc \<and> pkt_sequence p = q \<and> sendable p"
    using sent find_history [OF sent(1), of ?ssrc] by fastforce
  have pair: "paired (mCrypto sender) (mCrypto receiver)" using create_paired(1) [OF session(1,2)] session(3) by simp
  obtain answers m' r' where res: "resend_all ssl (Some sender) hasSim ?h ?ssrc (map of_nat ss) trackMap = Some (answers, m')"
    "receive_rtx ssl receiver track answers =
       Some (map (\<lambda>q. map_option (\<lambda>p. (q, pkt_payload p)) (history_find ?ssrc q ?h)) (map of_nat ss), r')"
    using resend_all_received [OF ssl create_profile [OF session(1)] found, of trackMap receiver hasSim] track pair by auto
  let ?data = "map (\<lambda>p. ByteBuffer_bytes (RtcpPacket_generate p)) (map (nack_packet ?ssrc) out)"
  have dat: "control_datagrams ssl (Some sender) hasSim ?h ?data trackMap = resend_all ssl (Some sender) hasSim ?h ?ssrc (map of_nat ss) trackMap"
    by (simp only: control_datagrams_def nack_packets_parse bind.bind_lunit concat_single control_all_packets out(2))
  show ?thesis
    using req dat res by (intro exI [of _ "map (nack_packet ?ssrc) out"] exI [of _ answers] exI [of _ m'] exI [of _ r']) (simp add: comp_def)
qed

definition example_stream :: "RtpPacket list" where
  "example_stream = map (\<lambda>(s, x). RtpPacket_new example_track False 0 s 90000 0 (ext_build (enc_elements [])) [x])
     [(7, 1), (8, 2), (9, 3)]"

lemma example_stream_ok:
  "numbered_streams example_stream" "\<forall>p\<in>set example_stream. sendable p" "rtx_track example_track"
proof -
  have "of_stream ssrc example_stream = (if ssrc = 1 then example_stream else [])" for ssrc
    by (auto simp: of_stream_def example_stream_def RtpPacket_new_def example_track_def Track_new_def)
  then show "numbered_streams example_stream"
    by (auto simp: numbered_streams_def example_stream_def RtpPacket_new_def intro: exI [of _ 7])
  show "\<forall>p\<in>set example_stream. sendable p"
    by (auto simp: example_stream_def RtpPacket_new_def sendable_def enc_elements_def intro: exI [of _ "[]"])
  show "rtx_track example_track" by (simp add: rtx_track_def example_track_def Track_new_def isSimulcast_def)
qed

lemma example_stream_find:
  "map_option pkt_payload (history_find 1 7 (history_of example_stream)) = Some [1]"
  "map_option pkt_payload (history_find 1 9 (history_of example_stream)) = Some [3]"
  by (simp_all add: history_of_def example_stream_def history_save_def history_trim_short RtpPacket_new_def example_track_def
      Track_new_def SendRtpHistory_new_def history_find_def Let_def)

lemma plain_encrypts: "encryption_succeeds plain_ssl"
  by (simp add: encryption_succeeds_def plain_ssl_def)

lemma nack_recovers_packets_witness:
  "\<exists>sender receiver requests answers trackMap' receiver'.
     SrtpConnection_create plain_ssl (Some SRTP_AES128_CM_SHA1_80) (\<lambda>n. replicate n 7) True = Some sender \<and>
     SrtpConnection_create plain_ssl (Some SRTP_AES128_CM_SHA1_80) (\<lambda>n. replicate n 7) False = Some receiver \<and>
     sendNacks True example_track [7, 9] = Some requests \<and>
     control_datagrams plain_ssl (Some sender) False (history_of example_stream)
       (map (\<lambda>p. ByteBuffer_bytes (RtcpPacket_generate p)) requests) (\<lambda>_. example_track) = Some (answers, trackMap') \<and>
     receive_rtx plain_ssl receiver example_track answers = Some ([Some (7, [1]), Some (9, [3])], receiver')"
proof -
  obtain sender receiver where c: "SrtpConnection_create plain_ssl (Some SRTP_AES128_CM_SHA1_80) (\<lambda>n. replicate n 7) True = Some sender"
      "SrtpConnection_create plain_ssl (Some SRTP_AES128_CM_SHA1_80) (\<lambda>n. replicate n 7) (\<not> True) = Some receiver"
    using plain_create [of True] plain_create [of False] by auto
  have ssrc: "track_ssrc example_track = 1" "track_hasNack example_track" by (simp_all add: example_track_def Track_new_def)
  have src: "source_ok 2 (track_rtxPacketSource example_track)" "next_index (track_rtxPacketSource example_track) = 42"
    by (simp_all add: example_track_def Track_new_def RtpPacketSource_new_def source_ok_def next_index_def packet_index_def)
  have ready: "rtx_ready receiver key 42" for key using create_paired(2) [OF c] by (simp add: rtx_ready_def)
  have pay: "history_find 1 7 (history_of example_stream) \<noteq> None" "history_find 1 9 (history_of example_stream) \<noteq> None"
    "map_option (\<lambda>p. (7, pkt_payload p)) (history_find 1 7 (history_of example_stream)) = Some (7 :: u16, [1])"
    "map_option (\<lambda>p. (9, pkt_payload p)) (history_find 1 9 (history_of example_stream)) = Some (9 :: u16, [3])"
    using example_stream_find by auto
  show ?thesis
    using nack_recovers_packets [OF plain_ssl_ok plain_encrypts c refl, of "[7, 9]" example_stream example_track "\<lambda>_. example_track" False]
      example_stream_ok ssrc pay c src ready by (simp add: numeral_2_eq_2)
qed

end
