(* ===== verification/Sctp_Packet.thy ===== *)
theory Sctp_Packet
  imports Rtcp_Packet Sctp_Crc32
begin

text \<open>
  SCTP packets, \<^verbatim>\<open>src/sctp/sctp_packet.cpp\<close> and \<^verbatim>\<open>src/sctp/sctp_packet_builder.cpp\<close>: a common
  header with a checksum, then chunks of type, flags, length and data, padded to four bytes. The
  pointers of a parsed chunk into the packet are the bytes they point to. The addresses of the
  buffers are arguments because the checksum depends on their alignment.
\<close>

unbundle bit_operations_syntax

section \<open>Building\<close>

record Chunk =
  ch_type :: u8
  ch_flags :: u8
  ch_data :: bytes

record Param =
  pa_type :: u16
  pa_data :: bytes

record SctpPacket =
  mSrcPort :: u16
  mDstPort :: u16
  mVerificationTag :: u32
  mChunks :: "Chunk list"

definition SctpPacketBuilder_new :: "u16 \<Rightarrow> u16 \<Rightarrow> u32 \<Rightarrow> ByteBuffer" where
  "SctpPacketBuilder_new srcPort dstPort verificationTag =
     writeU32 (writeU32 (writeU16 (writeU16 ByteBuffer_new srcPort) dstPort) verificationTag) 0"

definition pad_mask :: "nat \<Rightarrow> nat" where
  "pad_mask n = (n + 3) AND 0xFFFFFFFC"

definition addChunk :: "u8 \<Rightarrow> u8 \<Rightarrow> bytes \<Rightarrow> ByteBuffer \<Rightarrow> ByteBuffer" where
  "addChunk type flags data w =
     (let chunkLen = (of_nat (4 + length data) :: u16);
          w = writeU8 w type;
          w = writeU8 w flags;
          w = writeU16 w chunkLen;
          w = (if length data > 0 then ByteWriter_write w data else w);
          padded = pad_mask (unat chunkLen)
      in if padded > unat chunkLen then ByteWriter_padding w 0 (padded - unat chunkLen) else w)"

text \<open>A byte of the buffer is overwritten.\<close>

definition buf_put :: "ByteBuffer \<Rightarrow> nat \<Rightarrow> u8 \<Rightarrow> ByteBuffer" where
  "buf_put b i x = b\<lparr>mBuf := (mBuf b)[i := Some x]\<rparr>"

text \<open>\<open>addr\<close> is the address of the buffer's memory.\<close>

definition builder_build :: "nat \<Rightarrow> ByteBuffer \<Rightarrow> ByteBuffer" where
  "builder_build addr b =
     (let crc = crc32c addr (ByteBuffer_bytes b);
          b = buf_put b 8 (ucast crc);
          b = buf_put b 9 (ucast (drop_bit 8 crc));
          b = buf_put b 10 (ucast (drop_bit 16 crc));
          b = buf_put b 11 (ucast (drop_bit 24 crc))
      in b)"

section \<open>Parsing\<close>

text \<open>
  The loop over the chunks: the outer option is the reader's abort, the inner one the empty
  optional that is returned for a malformed packet.
\<close>

lemma reads_advance:
  "readU8 r = Some (a, r') \<Longrightarrow> rLen r' = rLen r \<and> rPos r' = rPos r + 1"
  "readU16 r = Some (b, r') \<Longrightarrow> rLen r' = rLen r \<and> rPos r' = rPos r + 2"
  "reader_skip n r = Some r' \<Longrightarrow> rLen r' = rLen r \<and> rPos r' = rPos r + n"
  by (auto simp: readU8_def readU16_def reader_skip_def check_read_def split: if_splits bind_splits)

lemma remaining_less: "4 \<le> remaining r \<Longrightarrow> rLen r' = rLen r \<Longrightarrow> rPos r + 4 \<le> rPos r' \<Longrightarrow> remaining r' < remaining r"
  by (auto simp: remaining_def split: if_splits)

function sctp_chunks_loop :: "ByteReader \<Rightarrow> Chunk list option option" where
  "sctp_chunks_loop r =
     (if remaining r \<ge> 4 then
        (case readU8 r of None \<Rightarrow> None | Some (chunkType, r1) \<Rightarrow>
          (case readU8 r1 of None \<Rightarrow> None | Some (chunkFlags, r2) \<Rightarrow>
            (case readU16 r2 of None \<Rightarrow> None | Some (chunkLen, r3) \<Rightarrow>
              if unat chunkLen < 4 \<or> unat chunkLen - 4 > remaining r3 then Some None
              else
                (case reader_skip (min (pad_mask (unat chunkLen) - 4) (remaining r3)) r3 of
                   None \<Rightarrow> None
                 | Some r4 \<Rightarrow>
                     map_option (map_option (\<lambda>rest.
                       \<lparr>ch_type = chunkType, ch_flags = chunkFlags, ch_data = take (unat chunkLen - 4) (current r3)\<rparr> # rest))
                       (sctp_chunks_loop r4)))))
      else Some (Some []))"
  by pat_completeness auto
termination
  by (relation "measure remaining") (auto intro!: remaining_less dest!: reads_advance)

declare sctp_chunks_loop.simps [simp del]

text \<open>\<open>addr\<close> and \<open>zaddr\<close> are the addresses of the data and of the four zero bytes.\<close>

definition SctpPacket_parse :: "nat \<Rightarrow> nat \<Rightarrow> bytes \<Rightarrow> SctpPacket option option" where
  "SctpPacket_parse addr zaddr data =
     (if length data < 12 then Some None
      else
        let storedCrc = ucast (data ! 8) OR push_bit 8 (ucast (data ! 9)) OR
              push_bit 16 (ucast (data ! 10)) OR push_bit 24 (ucast (data ! 11));
            crc = crc32c_update addr 0xFFFFFFFF (take 8 data);
            crc = crc32c_update zaddr crc [0, 0, 0, 0];
            crc = crc32c_update (addr + 12) crc (drop 12 data)
        in if crc32c_finalize crc \<noteq> storedCrc then Some None
           else do {
             let r = ByteReader_new data;
             (srcPort, r) \<leftarrow> readU16 r;
             (dstPort, r) \<leftarrow> readU16 r;
             (tag, r) \<leftarrow> readU32 r;
             r \<leftarrow> reader_skip 4 r;
             chunks \<leftarrow> sctp_chunks_loop r;
             Some (map_option (\<lambda>cs. \<lparr>mSrcPort = srcPort, mDstPort = dstPort, mVerificationTag = tag, mChunks = cs\<rparr>) chunks)
           })"

function sctp_params_loop :: "ByteReader \<Rightarrow> Param list option" where
  "sctp_params_loop r =
     (if remaining r \<ge> 4 then
        (case readU16 r of None \<Rightarrow> None | Some (paramType, r1) \<Rightarrow>
          (case readU16 r1 of None \<Rightarrow> None | Some (paramLen, r2) \<Rightarrow>
            if unat paramLen < 4 \<or> unat paramLen - 4 > remaining r2 then Some []
            else
              (case reader_skip (min (pad_mask (unat paramLen) - 4) (remaining r2)) r2 of
                 None \<Rightarrow> None
               | Some r3 \<Rightarrow>
                   map_option (\<lambda>rest. \<lparr>pa_type = paramType, pa_data = take (unat paramLen - 4) (current r2)\<rparr> # rest)
                     (sctp_params_loop r3))))
      else Some [])"
  by pat_completeness auto
termination
  by (relation "measure remaining") (auto intro!: remaining_less dest!: reads_advance)

declare sctp_params_loop.simps [simp del]

definition parseParams :: "nat \<Rightarrow> bytes \<Rightarrow> Param list option" where
  "parseParams offset data =
     (if offset > length data then Some []
      else do {
        r \<leftarrow> reader_skip offset (ByteReader_new data);
        sctp_params_loop r
      })"

section \<open>Packets are read back\<close>

lemma pad_mask_eq: "n < 65536 \<Longrightarrow> pad_mask n = (n + 3) div 4 * 4"
proof -
  assume "n < 65536"
  then have n: "n + 3 < 2 ^ 32" by simp
  have "(n + 3) AND 0xFFFFFFFC = push_bit 2 (drop_bit 2 (n + 3))"
  proof (rule bit_eqI)
    fix k
    have "bit (0xFFFFFFFC :: nat) k = bit (push_bit 2 (mask 30 :: nat)) k" by (simp add: mask_eq_exp_minus_1 push_bit_eq_mult)
    moreover have "bit (n + 3) k \<Longrightarrow> k < 32"
      using n by (metis bit_take_bit_iff take_bit_nat_eq_self)
    moreover have "2 \<le> k \<Longrightarrow> Suc (Suc (k - 2)) = k" by simp
    ultimately show "bit ((n + 3) AND 0xFFFFFFFC) k = bit (push_bit 2 (drop_bit 2 (n + 3))) k"
      by (auto simp: bit_and_iff bit_push_bit_iff bit_drop_bit_eq bit_mask_iff)
  qed
  then show "pad_mask n = (n + 3) div 4 * 4"
    by (simp add: pad_mask_def push_bit_eq_mult drop_bit_eq_div)
qed

definition chunk_ok :: "Chunk \<Rightarrow> bool" where
  "chunk_ok c \<longleftrightarrow> 4 + length (ch_data c) < 65536"

definition chunk_bytes :: "Chunk \<Rightarrow> bytes" where
  "chunk_bytes c = [ch_type c, ch_flags c] @ u16_bytes (of_nat (4 + length (ch_data c))) @ ch_data c @
     replicate ((4 - length (ch_data c) mod 4) mod 4) 0"

lemma chunk_padding:
  "chunk_ok c \<Longrightarrow> pad_mask (4 + length (ch_data c)) = 4 + length (ch_data c) + (4 - length (ch_data c) mod 4) mod 4"
  using pad4_total [of "length (ch_data c)"] pad_mask_eq [of "4 + length (ch_data c)"] div_add_self2 [of 4 "length (ch_data c) + 3"]
  by (simp add: chunk_ok_def ac_simps)

lemma addChunk_ok [buf_simps]:
  assumes "ByteBuffer_inv w" "chunk_ok c"
  shows "ByteBuffer_inv (addChunk (ch_type c) (ch_flags c) (ch_data c) w)"
    "ByteBuffer_bytes (addChunk (ch_type c) (ch_flags c) (ch_data c) w) = ByteBuffer_bytes w @ chunk_bytes c"
proof -
  have len: "unat (of_nat (4 + length (ch_data c)) :: u16) = 4 + length (ch_data c)"
    using assms(2) unfolding chunk_ok_def by (rule unat_of_nat_u16)
  show "ByteBuffer_inv (addChunk (ch_type c) (ch_flags c) (ch_data c) w)"
    "ByteBuffer_bytes (addChunk (ch_type c) (ch_flags c) (ch_data c) w) = ByteBuffer_bytes w @ chunk_bytes c"
    unfolding addChunk_def Let_def len chunk_padding [OF assms(2)]
    using assms(1) by (auto simp: buf_simps chunk_bytes_def u8_bytes_def)
qed

lemma buf_put_ok:
  assumes "ByteBuffer_inv b" "i < length (ByteBuffer_bytes b)"
  shows "ByteBuffer_inv (buf_put b i x)" "ByteBuffer_bytes (buf_put b i x) = (ByteBuffer_bytes b)[i := x]"
proof -
  have i: "i < mLen b" "mLen b \<le> length (mBuf b)" using assms by (auto simp: ByteBuffer_bytes_def ByteBuffer_inv_def)
  then have t: "take (mLen b) ((mBuf b)[i := Some x]) = (take (mLen b) (mBuf b))[i := Some x]"
    by (simp add: take_update_swap)
  show "ByteBuffer_bytes (buf_put b i x) = (ByteBuffer_bytes b)[i := x]"
    by (simp add: ByteBuffer_bytes_def buf_put_def t map_update)
  show "ByteBuffer_inv (buf_put b i x)"
    using assms(1) by (auto simp: ByteBuffer_inv_def buf_put_def t dest!: set_update_subset_insert [THEN subsetD])
qed

definition le32 :: "u32 \<Rightarrow> bytes" where
  "le32 v = [ucast v, ucast (drop_bit 8 v), ucast (drop_bit 16 v), ucast (drop_bit 24 v)]"

lemma le32_join:
  "ucast (ucast v :: u8) OR push_bit 8 (ucast (ucast (drop_bit 8 v) :: u8)) OR
     push_bit 16 (ucast (ucast (drop_bit 16 v) :: u8)) OR push_bit 24 (ucast (ucast (drop_bit 24 v) :: u8)) = (v :: u32)"
  using be32_u32_bytes [of v "[]"] by (simp add: be32_def u32_bytes_def ac_simps)

lemma build_bytes:
  assumes "ByteBuffer_inv b" "ByteBuffer_bytes b = h @ [0, 0, 0, 0] @ rest" "length h = 8"
  shows "ByteBuffer_bytes (builder_build addr b) = h @ le32 (crc32c addr (h @ [0, 0, 0, 0] @ rest)) @ rest"
proof -
  obtain a0 a1 a2 a3 a4 a5 a6 a7 where h: "h = [a0, a1, a2, a3, a4, a5, a6, a7]"
    using assms(3) by (auto simp: numeral_eq_Suc length_Suc_conv)
  show ?thesis
    using assms(1,2) unfolding h
    by (simp add: builder_build_def Let_def buf_put_ok le32_def)
qed

lemma sctp_chunks_loop_eq:
  "reader_inv r \<Longrightarrow> unread r = concat (map chunk_bytes cs) \<Longrightarrow> list_all chunk_ok cs \<Longrightarrow> sctp_chunks_loop r = Some (Some cs)"
proof (induction cs arbitrary: r)
  case Nil
  then show ?case by (simp add: sctp_chunks_loop.simps [of r] read_simps)
next
  case (Cons c cs)
  let ?n = "length (ch_data c)" and ?p = "(4 - length (ch_data c) mod 4) mod 4"
  let ?rest = "concat (map chunk_bytes cs)"
  have ok: "chunk_ok c" "list_all chunk_ok cs" using Cons.prems(3) by auto
  have u: "unread r = [ch_type c, ch_flags c] @ u16_bytes (of_nat (4 + ?n)) @ ch_data c @ replicate ?p 0 @ ?rest"
    unfolding Cons.prems(2) by (simp add: chunk_bytes_def [of c])
  have len: "unat (of_nat (4 + ?n) :: u16) = 4 + ?n" using ok(1) unfolding chunk_ok_def by (rule unat_of_nat_u16)
  note inv = Cons.prems(1)
  let ?r = "advance 4 r" and ?q = "advance (4 + (?n + ?p)) r"
  have l: "length (unread r) = 4 + ?n + ?p + length ?rest" unfolding u by simp
  have r4: "reader_inv ?r" "unread ?r = ch_data c @ replicate ?p 0 @ ?rest"
    using inv l by (simp_all add: read_simps) (simp add: u)
  have q: "reader_inv ?q" using inv l by (simp add: read_simps)
  have "unread ?q = drop (?n + ?p) (unread ?r)" using inv l by (simp add: read_simps add.commute)
  then have rest: "unread ?q = ?rest" unfolding r4(2) by simp
  have reads: "readU8 r = Some (ch_type c, advance 1 r)" "readU8 (advance 1 r) = Some (ch_flags c, advance 2 r)"
    "readU16 (advance 2 r) = Some (of_nat (4 + ?n), ?r)"
    using inv l by (simp_all add: read_simps) (simp_all add: u numeral_2_eq_2)
  have skip: "reader_skip (min (pad_mask (4 + ?n) - 4) (remaining ?r)) ?r = Some ?q"
    unfolding chunk_padding [OF ok(1)] using r4 by (simp add: read_simps)
  have data: "take (4 + ?n - 4) (current ?r) = ch_data c" using take_current [OF r4(1), of ?n] r4(2) by simp
  have rem: "remaining r \<ge> 4" "\<not> (4 + ?n < 4 \<or> 4 + ?n - 4 > remaining ?r)" using inv l r4 by (simp_all add: read_simps)
  show ?case
    unfolding sctp_chunks_loop.simps [of r] reads option.case prod.case len skip if_P [OF rem(1)] if_not_P [OF rem(2)] data
    using Cons.IH [OF q rest ok(2)] by simp
qed

text \<open>
  The packet with the given chunks, as the session builds it, and its bytes before the checksum
  is filled in.
\<close>

definition sctp_build :: "nat \<Rightarrow> u16 \<Rightarrow> u16 \<Rightarrow> u32 \<Rightarrow> Chunk list \<Rightarrow> bytes" where
  "sctp_build addr srcPort dstPort tag cs =
     ByteBuffer_bytes (builder_build addr (foldl (\<lambda>w c. addChunk (ch_type c) (ch_flags c) (ch_data c) w)
       (SctpPacketBuilder_new srcPort dstPort tag) cs))"

definition sctp_unsealed :: "u16 \<Rightarrow> u16 \<Rightarrow> u32 \<Rightarrow> Chunk list \<Rightarrow> bytes" where
  "sctp_unsealed srcPort dstPort tag cs =
     u16_bytes srcPort @ u16_bytes dstPort @ u32_bytes tag @ [0, 0, 0, 0] @ concat (map chunk_bytes cs)"

lemma sctp_build_bytes:
  assumes "list_all chunk_ok cs"
  shows "sctp_build addr srcPort dstPort tag cs =
    (u16_bytes srcPort @ u16_bytes dstPort @ u32_bytes tag) @
    le32 (crc32c addr (sctp_unsealed srcPort dstPort tag cs)) @ concat (map chunk_bytes cs)"
proof -
  have "ByteBuffer_inv w \<Longrightarrow>
      ByteBuffer_inv (foldl (\<lambda>w c. addChunk (ch_type c) (ch_flags c) (ch_data c) w) w cs) \<and>
      ByteBuffer_bytes (foldl (\<lambda>w c. addChunk (ch_type c) (ch_flags c) (ch_data c) w) w cs) =
        ByteBuffer_bytes w @ concat (map chunk_bytes cs)" for w
    using assms by (induction cs arbitrary: w) (auto simp: buf_simps)
  note all = this [of "SctpPacketBuilder_new srcPort dstPort tag"]
  have "ByteBuffer_inv (SctpPacketBuilder_new srcPort dstPort tag)"
    "ByteBuffer_bytes (SctpPacketBuilder_new srcPort dstPort tag) =
       (u16_bytes srcPort @ u16_bytes dstPort @ u32_bytes tag) @ [0, 0, 0, 0]"
    by (simp_all add: SctpPacketBuilder_new_def buf_simps u32_bytes_def)
  with all show ?thesis
    unfolding sctp_build_def
    using build_bytes [of _ "u16_bytes srcPort @ u16_bytes dstPort @ u32_bytes tag" "concat (map chunk_bytes cs)" addr]
    by (simp add: sctp_unsealed_def)
qed

text \<open>What the parser computes: the checksum of the header, of four zeros, and of the chunks.\<close>

lemma and_3_mod: "(n :: nat) AND 3 = n mod 4"
  using take_bit_eq_mask [of 2 n] by (simp add: mask_eq_exp_minus_1 take_bit_eq_mod)

lemma addr_low: "(addr :: nat) AND 3 < 4"
  by (simp add: and_3_mod)

lemma crc_clean_short: "length data \<le> 8 \<Longrightarrow> crc_clean addr data"
  using addr_low [of addr] by (simp add: crc_clean_def div_eq_0_iff)

lemma parse_crc:
  assumes "crc_clean (addr + 12) (concat (map chunk_bytes cs))"
    and "take 8 data = u16_bytes srcPort @ u16_bytes dstPort @ u32_bytes tag" "drop 12 data = concat (map chunk_bytes cs)"
  shows "crc32c_update (addr + 12) (crc32c_update zaddr (crc32c_update addr c (take 8 data)) [0, 0, 0, 0]) (drop 12 data) =
    crc32c_reference c (sctp_unsealed srcPort dstPort tag cs)"
  unfolding assms(2,3) crc32c_update_clean [OF assms(1)]
  by (simp add: crc32c_update_clean crc_clean_short sctp_unsealed_def flip: crc32c_reference_append)

text \<open>
  The parts of a packet that the parser reads before it looks at the checksum.
\<close>

lemma sctp_build_parts:
  fixes srcPort dstPort :: u16 and tag :: u32 and baddr :: nat
  assumes "list_all chunk_ok cs"
  defines "data \<equiv> sctp_build baddr srcPort dstPort tag cs" and "crc \<equiv> crc32c baddr (sctp_unsealed srcPort dstPort tag cs)"
  shows "12 \<le> length data" "take 8 data = u16_bytes srcPort @ u16_bytes dstPort @ u32_bytes tag" "drop 12 data = concat (map chunk_bytes cs)"
    "ucast (data ! 8) OR push_bit 8 (ucast (data ! 9)) OR push_bit 16 (ucast (data ! 10)) OR push_bit 24 (ucast (data ! 11)) = crc"
proof -
  have d: "data = (u16_bytes srcPort @ u16_bytes dstPort @ u32_bytes tag) @ le32 crc @ concat (map chunk_bytes cs)"
    unfolding data_def crc_def by (rule sctp_build_bytes [OF assms(1)])
  show "12 \<le> length data" "take 8 data = u16_bytes srcPort @ u16_bytes dstPort @ u32_bytes tag" "drop 12 data = concat (map chunk_bytes cs)"
    by (simp_all add: d le32_def)
  have nth: "data ! 8 = ucast crc" "data ! 9 = ucast (drop_bit 8 crc)" "data ! 10 = ucast (drop_bit 16 crc)" "data ! 11 = ucast (drop_bit 24 crc)"
    by (simp_all add: d le32_def nth_append u16_bytes_def u32_bytes_def)
  show "ucast (data ! 8) OR push_bit 8 (ucast (data ! 9)) OR push_bit 16 (ucast (data ! 10)) OR push_bit 24 (ucast (data ! 11)) = crc"
    unfolding nth by (rule le32_join)
qed

text \<open>
  C11. SCTP packets are read back: parsing a packet that the builder made gives its ports, tag and
  chunks, wherever the packet is in memory, unless the checksum meets the faulty table entry.
\<close>
theorem sctp_packet_roundtrip:
  assumes "list_all chunk_ok cs" "crc_clean baddr (sctp_unsealed srcPort dstPort tag cs)"
    and "crc_clean (addr + 12) (concat (map chunk_bytes cs))"
  shows "SctpPacket_parse addr zaddr (sctp_build baddr srcPort dstPort tag cs) =
    Some (Some \<lparr>mSrcPort = srcPort, mDstPort = dstPort, mVerificationTag = tag, mChunks = cs\<rparr>)"
proof -
  define data where "data = sctp_build baddr srcPort dstPort tag cs"
  note parts = sctp_build_parts [OF assms(1), of baddr srcPort dstPort tag, folded data_def]
  have sum: "crc32c_finalize (crc32c_update (addr + 12) (crc32c_update zaddr (crc32c_update addr 0xFFFFFFFF (take 8 data)) [0, 0, 0, 0]) (drop 12 data)) =
      crc32c baddr (sctp_unsealed srcPort dstPort tag cs)"
    unfolding parse_crc [OF assms(3) parts(2,3)] crc32c_def using crc32c_update_clean [OF assms(2)] by (simp add: crc32c_update_def)
  let ?r = "ByteReader_new data"
  obtain rest where d: "data = u16_bytes srcPort @ u16_bytes dstPort @ u32_bytes tag @ rest"
    using append_take_drop_id [of 8 data] parts(2) by (metis append_assoc)
  have r: "readU16 ?r = Some (srcPort, advance 2 ?r)" "readU16 (advance 2 ?r) = Some (dstPort, advance 4 ?r)"
    "readU32 (advance 4 ?r) = Some (tag, advance 8 ?r)" "reader_skip 4 (advance 8 ?r) = Some (advance 12 ?r)"
    using parts(1) by (simp_all add: read_simps) (simp_all add: d)
  have chunks: "sctp_chunks_loop (advance 12 ?r) = Some (Some cs)"
    by (rule sctp_chunks_loop_eq) (use parts assms(1) in \<open>simp_all add: read_simps\<close>)
  show ?thesis
    unfolding data_def [symmetric] SctpPacket_parse_def Let_def sum parts(4) using parts(1) by (simp add: r chunks)
qed

lemma sctp_packet_roundtrip_witness:
  "SctpPacket_parse 0 3 (sctp_build 0 5000 5001 7 [\<lparr>ch_type = 11, ch_flags = 0, ch_data = [1, 2]\<rparr>]) =
   Some (Some \<lparr>mSrcPort = 5000, mDstPort = 5001, mVerificationTag = 7, mChunks = [\<lparr>ch_type = 11, ch_flags = 0, ch_data = [1, 2]\<rparr>]\<rparr>)"
  by (rule sctp_packet_roundtrip)
    (simp_all add: chunk_ok_def crc_clean_def sctp_unsealed_def chunk_bytes_def u16_bytes_def u32_bytes_def upt_rec)

text \<open>
  C36. A packet with one chunk whose second data byte is 0xB5 (for a DATA chunk, a byte of the
  transmission sequence number) is sealed with a wrong checksum, and the parser, which splits the
  data differently, rejects it.
\<close>
theorem sctp_rejects_own_packet:
  assumes "baddr AND 3 = 0" "addr AND 3 = 0" "4 \<le> length d" "4 + length d < 65536" "d ! 1 = 0xB5" "0xB5 \<notin> set (drop 2 d)"
  shows "SctpPacket_parse addr zaddr (sctp_build baddr srcPort dstPort tag [\<lparr>ch_type = t, ch_flags = f, ch_data = d\<rparr>]) = Some None"
proof -
  let ?c = "\<lparr>ch_type = t, ch_flags = f, ch_data = d\<rparr>" and ?pad = "replicate ((4 - length d mod 4) mod 4) 0 :: bytes"
  define data where "data = sctp_build baddr srcPort dstPort tag [?c]"
  define raw where "raw = sctp_unsealed srcPort dstPort tag [?c]"
  have ok: "list_all chunk_ok [?c]" using assms(4) by (simp add: chunk_ok_def)
  note parts = sctp_build_parts [OF ok, of baddr srcPort dstPort tag, folded data_def raw_def]
  define g h where "g = u32_bytes tag @ [0, 0, 0, 0]" and "h = [t, f] @ u16_bytes (of_nat (4 + length d)) @ take 4 d"
  have "raw = (u16_bytes srcPort @ u16_bytes dstPort) @ g @ h @ (drop 4 d @ ?pad)"
    by (simp add: raw_def sctp_unsealed_def chunk_bytes_def g_def h_def)
  moreover have "length g = 8" "length h = 8" "g ! 5 \<noteq> 0xB5" "h ! 5 = 0xB5"
    using assms(3,5) by (simp_all add: g_def h_def nth_append u16_bytes_def)
  moreover have "0xB5 \<notin> set (drop 4 d @ ?pad)"
    using assms(6) set_drop_subset [of 2 "drop 2 d"] by (auto simp: in_set_replicate)
  ultimately have "crc32c_update baddr 0xFFFFFFFF raw \<noteq> crc32c_reference 0xFFFFFFFF raw"
    using crc32c_update_fault [OF assms(1), of "u16_bytes srcPort @ u16_bytes dstPort" g h "drop 4 d @ ?pad"] by simp
  then have bad: "crc32c_finalize (crc32c_reference 0xFFFFFFFF raw) \<noteq> crc32c baddr raw"
    by (simp add: crc32c_def crc32c_update_def crc32c_finalize_def)
  have clean: "crc_clean (addr + 12) (concat (map chunk_bytes [?c]))"
  proof -
    have a: "(addr + 12) AND 3 = 0" using assms(2) unfolding and_3_mod by presburger
    have "chunk_bytes ?c ! (9 + 8 * j) \<noteq> 0xB5" if j: "j < (length (chunk_bytes ?c) - 4) div 8" for j
    proof -
      have l: "5 + 8 * j < length (d @ ?pad)" using j by (simp add: chunk_bytes_def)
      have "chunk_bytes ?c ! (9 + 8 * j) = (d @ ?pad) ! (5 + 8 * j)" by (simp add: chunk_bytes_def nth_append u16_bytes_def)
      also have "\<dots> = drop 2 (d @ ?pad) ! (3 + 8 * j)" using l by (subst nth_drop) (simp_all del: drop_append)
      also have "\<dots> \<in> set (drop 2 (d @ ?pad))" using l by (intro nth_mem) simp
      finally show ?thesis using assms(3,6) by (auto simp: in_set_replicate)
    qed
    then show ?thesis unfolding crc_clean_def a by (simp add: list_all_iff)
  qed
  show ?thesis
    unfolding data_def [symmetric] SctpPacket_parse_def Let_def parts(4) parse_crc [OF clean parts(2,3), folded raw_def]
    using parts(1) bad by simp
qed

lemma sctp_rejects_own_packet_witness:
  "SctpPacket_parse 0 0 (sctp_build 0 5000 5000 7 [\<lparr>ch_type = 0, ch_flags = 3, ch_data = [0x12, 0xB5, 0, 1, 0, 0, 0, 1, 0, 0, 0, 51, 72, 105]\<rparr>]) = Some None"
  by (rule sctp_rejects_own_packet) simp_all

lemma sctp_chunks_loop_total: "reader_inv r \<Longrightarrow> sctp_chunks_loop r \<noteq> None"
proof (induction r rule: sctp_chunks_loop.induct)
  case (1 r)
  then show ?case by (auto simp: sctp_chunks_loop.simps [of r] read_simps split: option.splits if_splits)
qed

lemma sctp_params_loop_total: "reader_inv r \<Longrightarrow> sctp_params_loop r \<noteq> None"
proof (induction r rule: sctp_params_loop.induct)
  case (1 r)
  then show ?case by (auto simp: sctp_params_loop.simps [of r] read_simps split: option.splits if_splits)
qed

lemma SctpPacket_parse_total: "\<exists>p. SctpPacket_parse addr zaddr data = Some p"
proof -
  have "reader_inv (advance 12 (ByteReader_new data))" if "12 \<le> length data"
    using that by (simp add: read_simps)
  then show ?thesis
    using sctp_chunks_loop_total [of "advance 12 (ByteReader_new data)"]
    by (auto simp: SctpPacket_parse_def Let_def read_simps)
qed

lemma parseParams_total: "\<exists>ps. parseParams offset data = Some ps"
proof -
  have "reader_inv (advance offset (ByteReader_new data))" if "offset \<le> length data"
    using that by (simp add: read_simps)
  then show ?thesis
    using sctp_params_loop_total [of "advance offset (ByteReader_new data)"]
    by (auto simp: parseParams_def read_simps)
qed

text \<open>
  Whatever bytes arrive, parsing an SCTP packet, and the parameters of its chunks, terminates
  and returns: the loops over chunks and parameters end and the reader's bounds checks never abort
  the process.
\<close>
theorem sctp_parse_returns:
  "(\<exists>p. SctpPacket_parse addr zaddr data = Some p) \<and> (\<exists>ps. parseParams offset data = Some ps)"
  using SctpPacket_parse_total parseParams_total by blast

end
