(* ===== verification/Sctp_Receive_Buffer.thy ===== *)
theory Sctp_Receive_Buffer
  imports Sctp_Packet
begin

text \<open>
  The receive side of a data channel, \<^verbatim>\<open>src/sctp/data_channel_receive_buffer.cpp\<close>: fragments are
  collected per stream sequence number, complete messages are delivered at once on an unordered
  channel and in the order of their numbers on an ordered one. The \<^verbatim>\<open>std::map\<close> of pending messages is
  a partial function on the 16-bit numbers, which makes its domain finite and the delivery loop
  terminating.
\<close>

unbundle bit_operations_syntax

section \<open>Definitions\<close>

definition kDataFlagE :: u8 where "kDataFlagE = 0x01"
definition kDataFlagB :: u8 where "kDataFlagB = 0x02"
definition kDataFlagComplete :: u8 where "kDataFlagComplete = 0x03"
definition kDataFlagUnordered :: u8 where "kDataFlagUnordered = 0x04"

lemmas data_flags [const_defs] = kDataFlagE_def kDataFlagB_def kDataFlagComplete_def kDataFlagUnordered_def

record Message =
  msg_ppid :: u32
  msg_data :: bytes

record PendingMessage =
  pm_ppid :: u32
  pm_payload :: bytes
  pm_complete :: bool

record DataChannelReceiveBuffer =
  mNextSsn :: u16
  mPending :: "u16 \<rightharpoonup> PendingMessage"

definition PendingMessage_new :: PendingMessage where
  "PendingMessage_new = \<lparr>pm_ppid = 0, pm_payload = [], pm_complete = False\<rparr>"

definition DataChannelReceiveBuffer_new :: DataChannelReceiveBuffer where
  "DataChannelReceiveBuffer_new = \<lparr>mNextSsn = 0, mPending = Map.empty\<rparr>"

definition consumeSsn :: "u16 \<Rightarrow> DataChannelReceiveBuffer \<Rightarrow> DataChannelReceiveBuffer" where
  "consumeSsn ssn b = (if ssn = mNextSsn b then b\<lparr>mNextSsn := mNextSsn b + 1\<rparr> else b)"

text \<open>The loop that delivers the consecutive complete messages; each round erases an entry.\<close>

function rb_drain :: "DataChannelReceiveBuffer \<Rightarrow> Message list \<times> DataChannelReceiveBuffer" where
  "rb_drain b =
     (case mPending b (mNextSsn b) of
        None \<Rightarrow> ([], b)
      | Some p \<Rightarrow>
          if \<not> pm_complete p then ([], b)
          else
            let (out, b') = rb_drain (b\<lparr>mPending := (mPending b)(mNextSsn b := None), mNextSsn := mNextSsn b + 1\<rparr>)
            in (\<lparr>msg_ppid = pm_ppid p, msg_data = pm_payload p\<rparr> # out, b'))"
  by pat_completeness auto
termination
  by (relation "measure (\<lambda>b. card (dom (mPending b)))") (auto intro!: psubset_card_mono)

declare rb_drain.simps [simp del]

definition rb_accumulate :: "u16 \<Rightarrow> u8 \<Rightarrow> u32 \<Rightarrow> bytes \<Rightarrow> DataChannelReceiveBuffer \<Rightarrow> PendingMessage" where
  "rb_accumulate ssn flags ppid data b =
     (let isFirst = (flags AND kDataFlagB) \<noteq> 0;
          isLast = (flags AND kDataFlagE) \<noteq> 0;
          pending = (case mPending b ssn of None \<Rightarrow> PendingMessage_new | Some p \<Rightarrow> p);
          pending = (if isFirst then pending\<lparr>pm_ppid := ppid, pm_payload := []\<rparr> else pending);
          pending = pending\<lparr>pm_payload := pm_payload pending @ data\<rparr>
      in if isLast then pending\<lparr>pm_complete := True\<rparr> else pending)"

definition rb_receive ::
  "u16 \<Rightarrow> u8 \<Rightarrow> bool \<Rightarrow> u32 \<Rightarrow> bytes \<Rightarrow> DataChannelReceiveBuffer \<Rightarrow> Message list \<times> DataChannelReceiveBuffer" where
  "rb_receive ssn flags unordered ppid data b =
     (if \<not> unordered \<and> sint (ssn - mNextSsn b) < 0 then ([], b)
      else
        let pending = rb_accumulate ssn flags ppid data b;
            b = b\<lparr>mPending := (mPending b)(ssn \<mapsto> pending)\<rparr>
        in if unordered then
             (if pm_complete pending then
                ([\<lparr>msg_ppid = pm_ppid pending, msg_data = pm_payload pending\<rparr>], b\<lparr>mPending := (mPending b)(ssn := None)\<rparr>)
              else ([], b))
           else rb_drain b)"

section \<open>In-order delivery\<close>

text \<open>
  What the sender sends: messages of a payload type and a non-empty list of fragments. Message \<open>i\<close>
  has the low 16 bits of \<open>i\<close> as its number, and its first and last fragment are flagged.
\<close>

type_synonym sent = "u32 \<times> bytes list"

definition assembled :: "sent \<Rightarrow> Message" where
  "assembled m = \<lparr>msg_ppid = fst m, msg_data = concat (snd m)\<rparr>"

definition fragment_flags :: "nat \<Rightarrow> nat \<Rightarrow> u8" where
  "fragment_flags j n = (if j = 0 then kDataFlagB else 0) OR (if Suc j = n then kDataFlagE else 0)"

definition arrive :: "sent list \<Rightarrow> nat \<Rightarrow> nat \<Rightarrow> DataChannelReceiveBuffer \<Rightarrow> Message list \<times> DataChannelReceiveBuffer" where
  "arrive ms i j b = rb_receive (of_nat i) (fragment_flags j (length (snd (ms ! i)))) False (fst (ms ! i)) (snd (ms ! i) ! j) b"

text \<open>
  The arrivals: the fragments of one message arrive in order, those of different messages in any
  order within a window of half the number space; fragments of delivered messages may arrive again.
  \<open>cnt i\<close> counts the fragments of message \<open>i\<close> that have arrived and \<open>out\<close> is what was delivered.
\<close>

inductive delivery :: "sent list \<Rightarrow> DataChannelReceiveBuffer \<Rightarrow> (nat \<Rightarrow> nat) \<Rightarrow> Message list \<Rightarrow> bool" for ms where
  start: "delivery ms DataChannelReceiveBuffer_new (\<lambda>_. 0) []"
| fragment: "delivery ms b cnt out \<Longrightarrow> i < length ms \<Longrightarrow> i < length out + 32768 \<Longrightarrow> cnt i < length (snd (ms ! i)) \<Longrightarrow>
    arrive ms i (cnt i) b = (msgs, b') \<Longrightarrow> delivery ms b' (cnt(i := Suc (cnt i))) (out @ msgs)"
| again: "delivery ms b cnt out \<Longrightarrow> i < length out \<Longrightarrow> length out \<le> i + 32768 \<Longrightarrow> j < length (snd (ms ! i)) \<Longrightarrow>
    arrive ms i j b = (msgs, b') \<Longrightarrow> delivery ms b' cnt (out @ msgs)"

definition pending_entry :: "sent list \<Rightarrow> (nat \<Rightarrow> nat) \<Rightarrow> nat \<Rightarrow> PendingMessage option" where
  "pending_entry ms cnt i =
     (if cnt i = 0 then None
      else Some \<lparr>pm_ppid = fst (ms ! i), pm_payload = concat (take (cnt i) (snd (ms ! i))), pm_complete = (cnt i = length (snd (ms ! i)))\<rparr>)"

definition buffer_holds :: "sent list \<Rightarrow> (nat \<Rightarrow> nat) \<Rightarrow> nat \<Rightarrow> DataChannelReceiveBuffer \<Rightarrow> bool" where
  "buffer_holds ms cnt n b \<longleftrightarrow> mNextSsn b = of_nat n \<and> n \<le> length ms \<and>
     (\<forall>i. cnt i > 0 \<longrightarrow> i < length ms \<and> i < n + 32768 \<and> cnt i \<le> length (snd (ms ! i))) \<and>
     (\<forall>i. n \<le> i \<and> i < n + 65536 \<longrightarrow> mPending b (of_nat i) = pending_entry ms cnt i)"

lemma rb_drain_delivers:
  assumes "buffer_holds ms cnt n b" "\<forall>i < n. cnt i = length (snd (ms ! i))" "\<forall>m \<in> set ms. snd m \<noteq> []"
  shows "\<exists>m b'. rb_drain b = (map assembled (take (m - n) (drop n ms)), b') \<and> n \<le> m \<and> buffer_holds ms cnt m b' \<and>
     (\<forall>i < m. cnt i = length (snd (ms ! i))) \<and> (m < length ms \<longrightarrow> cnt m < length (snd (ms ! m)))"
  using assms(1,2)
proof (induction "length ms - n" arbitrary: n b)
  case 0
  then have n: "n = length ms" "cnt n = 0" by (auto simp: buffer_holds_def)
  then have "mPending b (mNextSsn b) = None" using 0 by (simp add: buffer_holds_def pending_entry_def)
  then have "rb_drain b = ([], b)" by (simp add: rb_drain.simps)
  then show ?case using 0 n by (intro exI [of _ n] exI [of _ b]) simp
next
  case (Suc d)
  have n: "n < length ms" using Suc.hyps by simp
  have p: "mPending b (mNextSsn b) = pending_entry ms cnt n" using Suc.prems(1) by (simp add: buffer_holds_def)
  show ?case
  proof (cases "cnt n = length (snd (ms ! n))")
    case False
    then have "rb_drain b = ([], b)" by (subst rb_drain.simps) (simp add: p pending_entry_def)
    moreover have "cnt n < length (snd (ms ! n))" using Suc.prems(1) False by (cases "cnt n = 0") (auto simp: buffer_holds_def le_neq_implies_less)
    ultimately show ?thesis using Suc.prems by (intro exI [of _ n] exI [of _ b]) simp
  next
    case True
    have ne: "cnt n > 0" using assms(3) n True by (simp add: nth_mem)
    let ?b = "b\<lparr>mPending := (mPending b)(mNextSsn b := None), mNextSsn := mNextSsn b + 1\<rparr>"
    have holds: "buffer_holds ms cnt (Suc n) ?b"
      unfolding buffer_holds_def
    proof (intro conjI allI impI)
      fix i assume i: "Suc n \<le> i \<and> i < Suc n + 65536"
      have nx: "mNextSsn b = of_nat n" using Suc.prems(1) by (simp add: buffer_holds_def)
      show "mPending ?b (of_nat i) = pending_entry ms cnt i"
      proof (cases "i = n + 65536")
        case True
        then have "cnt i = 0" using Suc.prems(1) by (auto simp: buffer_holds_def)
        then show ?thesis using True by (simp add: nx pending_entry_def)
      next
        case False
        then have "(of_nat i :: u16) \<noteq> of_nat n" using i of_nat_window_u16 [of n i n] by simp
        then show ?thesis using False i Suc.prems(1) by (simp add: nx buffer_holds_def)
      qed
    next
      fix i assume "0 < cnt i"
      then have "i < length ms" "i < n + 32768" "cnt i \<le> length (snd (ms ! i))" using Suc.prems(1) by (auto simp: buffer_holds_def)
      then show "i < length ms" "i < Suc n + 32768" "cnt i \<le> length (snd (ms ! i))" by simp_all
    qed (use Suc.prems(1) n in \<open>simp_all add: buffer_holds_def\<close>)
    have "\<forall>i < Suc n. cnt i = length (snd (ms ! i))" using Suc.prems(2) True by (simp add: less_Suc_eq)
    moreover have "d = length ms - Suc n" using Suc.hyps(2) by simp
    ultimately obtain m b' where m: "rb_drain ?b = (map assembled (take (m - Suc n) (drop (Suc n) ms)), b')" "Suc n \<le> m" "buffer_holds ms cnt m b'"
      "\<forall>i < m. cnt i = length (snd (ms ! i))" "m < length ms \<longrightarrow> cnt m < length (snd (ms ! m))"
      using Suc.hyps(1) [of "Suc n" ?b] holds by blast
    have "take (m - n) (drop n ms) = ms ! n # take (m - Suc n) (drop (Suc n) ms)"
      using n m(2) by (simp add: Cons_nth_drop_Suc [symmetric] take_Cons' Suc_diff_le)
    then have "rb_drain b = (map assembled (take (m - n) (drop n ms)), b')"
      using True ne m(1) by (subst rb_drain.simps) (simp add: p pending_entry_def assembled_def)
    then show ?thesis using m by (intro exI [of _ m] exI [of _ b']) simp
  qed
qed

lemma rb_receive_old:
  assumes "mNextSsn b = of_nat n" "i < n" "n \<le> i + 32768"
  shows "rb_receive (of_nat i) flags False ppid data b = ([], b)"
  using serial_older [of i n] assms by (simp add: rb_receive_def)

lemma fragment_flags_test:
  "(fragment_flags j n AND kDataFlagB \<noteq> 0) = (j = 0)" "(fragment_flags j n AND kDataFlagE \<noteq> 0) = (Suc j = n)"
  by (simp_all add: fragment_flags_def const_defs)

text \<open>A new fragment extends the entry of its message.\<close>

lemma rb_accumulate_entry:
  assumes "buffer_holds ms cnt n b" "n \<le> i" "i < n + 65536" "cnt i < length (snd (ms ! i))"
  shows "Some (rb_accumulate (of_nat i) (fragment_flags (cnt i) (length (snd (ms ! i)))) (fst (ms ! i)) (snd (ms ! i) ! cnt i) b) =
    pending_entry ms (cnt(i := Suc (cnt i))) i"
proof -
  have "mPending b (of_nat i) = pending_entry ms cnt i" using assms(1,2,3) by (simp add: buffer_holds_def)
  then show ?thesis
    using assms(4) by (auto simp: rb_accumulate_def Let_def fragment_flags_test pending_entry_def PendingMessage_new_def take_Suc_conv_app_nth)
qed

lemma buffer_holds_extend:
  assumes "buffer_holds ms cnt n b" "n \<le> i" "i < n + 32768" "i < length ms" "cnt i < length (snd (ms ! i))"
  shows "buffer_holds ms (cnt(i := Suc (cnt i))) n (b\<lparr>mPending := (mPending b)(of_nat i := pending_entry ms (cnt(i := Suc (cnt i))) i)\<rparr>)"
  unfolding buffer_holds_def
proof (intro conjI allI impI)
  fix k assume k: "n \<le> k \<and> k < n + 65536"
  then have "(of_nat k :: u16) = of_nat i \<longleftrightarrow> k = i" using assms(2,3) by (intro of_nat_window_u16 [of n]) simp_all
  then show "mPending (b\<lparr>mPending := (mPending b)(of_nat i := pending_entry ms (cnt(i := Suc (cnt i))) i)\<rparr>) (of_nat k) =
      pending_entry ms (cnt(i := Suc (cnt i))) k"
    using assms(1) k by (auto simp: buffer_holds_def pending_entry_def)
qed (use assms in \<open>auto simp: buffer_holds_def split: if_splits\<close>)

definition delivered_prefix :: "sent list \<Rightarrow> DataChannelReceiveBuffer \<Rightarrow> (nat \<Rightarrow> nat) \<Rightarrow> Message list \<Rightarrow> bool" where
  "delivered_prefix ms b cnt out \<longleftrightarrow> buffer_holds ms cnt (length out) b \<and> out = map assembled (take (length out) ms) \<and>
     (\<forall>i < length out. cnt i = length (snd (ms ! i))) \<and>
     (length out < length ms \<longrightarrow> cnt (length out) < length (snd (ms ! length out)))"

lemma delivery_prefix:
  assumes "delivery ms b cnt out" and ne: "\<forall>m \<in> set ms. snd m \<noteq> []"
  shows "delivered_prefix ms b cnt out"
  using assms(1)
proof (induction rule: delivery.induct)
  case start
  show ?case
    using ne by (auto simp: delivered_prefix_def buffer_holds_def DataChannelReceiveBuffer_new_def pending_entry_def nth_mem)
next
  case (fragment b cnt out i msgs b')
  let ?n = "length out" and ?cnt = "cnt(i := Suc (cnt i))"
  have D: "buffer_holds ms cnt ?n b" "out = map assembled (take ?n ms)" "\<forall>k < ?n. cnt k = length (snd (ms ! k))"
    using fragment.IH by (simp_all add: delivered_prefix_def)
  have i: "?n \<le> i" using D(3) fragment.hyps(4) by (metis less_irrefl not_less)
  let ?b = "b\<lparr>mPending := (mPending b)(of_nat i := pending_entry ms ?cnt i)\<rparr>"
  have hold: "buffer_holds ms ?cnt ?n ?b"
    using buffer_holds_extend [OF D(1) i fragment.hyps(3,2,4)] .
  have "\<not> sint (of_nat i - mNextSsn b) < 0"
    using D(1) serial_older [of i ?n] i fragment.hyps(3) by (simp add: buffer_holds_def)
  then have drain: "arrive ms i (cnt i) b = rb_drain ?b"
    using rb_accumulate_entry [OF D(1) i _ fragment.hyps(4), symmetric] fragment.hyps(3)
    by (simp add: arrive_def rb_receive_def Let_def)
  have "\<forall>k < ?n. ?cnt k = length (snd (ms ! k))" using D(3) i by simp
  from rb_drain_delivers [OF hold this ne] drain fragment.hyps(5)
  obtain m where m: "msgs = map assembled (take (m - ?n) (drop ?n ms))" "?n \<le> m" "buffer_holds ms ?cnt m b'"
    "\<forall>k < m. ?cnt k = length (snd (ms ! k))" "m < length ms \<longrightarrow> ?cnt m < length (snd (ms ! m))"
    by (auto simp del: fun_upd_apply)
  have "m \<le> length ms" using m(3) by (simp add: buffer_holds_def)
  then have len: "length (out @ msgs) = m" using m(1,2) by simp
  moreover have "out @ msgs = map assembled (take m ms)"
    using m(2) by (subst D(2)) (simp add: m(1) take_add [of ?n "m - ?n", symmetric] flip: map_append)
  ultimately show ?case using m unfolding delivered_prefix_def len by simp
next
  case (again b cnt out i j msgs b')
  then have "arrive ms i j b = ([], b)"
    unfolding arrive_def by (intro rb_receive_old [of _ "length out"]) (auto simp: delivered_prefix_def buffer_holds_def)
  then show ?case using again by simp
qed

text \<open>
  C7. Ordered delivery on a data channel: whatever the interleaving of the fragments of different
  messages and whatever is received again, what the buffer has delivered is a prefix of the messages
  sent, each once, in order, with its own type and bytes, and it is every message up to the first
  of which a fragment is missing.
\<close>
theorem data_channel_in_order:
  assumes "delivery ms b cnt out" "\<forall>m \<in> set ms. snd m \<noteq> []"
  shows "out = map assembled (take (length out) ms) \<and> length out \<le> length ms \<and>
    (\<forall>i < length out. cnt i = length (snd (ms ! i))) \<and>
    (length out < length ms \<longrightarrow> cnt (length out) < length (snd (ms ! length out)))"
  using delivery_prefix [OF assms] by (auto simp: delivered_prefix_def buffer_holds_def)

lemma delivery_fragment:
  assumes "\<exists>b out. delivery ms b cnt out" "i < length ms" "i < 32768" "cnt i < length (snd (ms ! i))"
  shows "\<exists>b out. delivery ms b (cnt(i := Suc (cnt i))) out"
proof -
  obtain b out where "delivery ms b cnt out" using assms(1) by blast
  moreover obtain msgs b' where "arrive ms i (cnt i) b = (msgs, b')" by fastforce
  ultimately show ?thesis using delivery.fragment [of ms b cnt out i msgs b'] assms by force
qed

text \<open>The second message and then the two fragments of the first.\<close>

lemma data_channel_in_order_witness:
  "\<exists>b cnt. delivery [(51, [[1], [2]]), (53, [[3]])] b cnt
     [\<lparr>msg_ppid = 51, msg_data = [1, 2]\<rparr>, \<lparr>msg_ppid = 53, msg_data = [3]\<rparr>]"
proof -
  let ?ms = "[(51, [[1], [2]]), (53, [[3]])] :: sent list"
  let ?cnt = "((\<lambda>_. 0 :: nat)(1 := Suc 0))(0 := Suc 0, 0 := Suc (Suc 0))"
  have "\<exists>b out. delivery ?ms b (\<lambda>_. 0) out" using delivery.start by blast
  from delivery_fragment [OF this, of 1] have "\<exists>b out. delivery ?ms b ((\<lambda>_. 0)(1 := Suc 0)) out" by simp
  from delivery_fragment [OF this, of 0] have "\<exists>b out. delivery ?ms b ((\<lambda>_. 0)(1 := Suc 0, 0 := Suc 0)) out" by simp
  from delivery_fragment [OF this, of 0] obtain b out where d: "delivery ?ms b ?cnt out" by auto
  note r = data_channel_in_order [OF this]
  have "length out = 2" using r by (auto simp: less_Suc_eq numeral_2_eq_2 le_Suc_eq)
  then have "out = map assembled ?ms" using r by simp
  then show ?thesis using d by (auto simp: assembled_def)
qed

section \<open>Fragments out of order\<close>

text \<open>
  The last fragment of a message that arrives before the first one completes the message: the
  buffer delivers that fragment alone, as a message of type 0, and later ignores the first fragment.
\<close>
theorem last_fragment_first:
  assumes "mPending b (mNextSsn b) = None" "mPending b (mNextSsn b + 1) = None"
  shows "\<exists>b'. rb_receive (mNextSsn b) kDataFlagE False ppid data b = ([\<lparr>msg_ppid = 0, msg_data = data\<rparr>], b') \<and>
    rb_receive (mNextSsn b) kDataFlagB False ppid first b' = ([], b')"
proof -
  let ?p = "\<lparr>pm_ppid = 0, pm_payload = data, pm_complete = True\<rparr>"
  let ?b = "b\<lparr>mPending := (mPending b)(mNextSsn b \<mapsto> ?p)\<rparr>" and ?b' = "b\<lparr>mPending := mPending b, mNextSsn := mNextSsn b + 1\<rparr>"
  have upd: "(mPending b)(mNextSsn b := None) = mPending b" using assms(1) by auto
  have "rb_accumulate (mNextSsn b) kDataFlagE ppid data b = ?p"
    using assms(1) by (simp add: rb_accumulate_def PendingMessage_new_def const_defs)
  then have "rb_receive (mNextSsn b) kDataFlagE False ppid data b = rb_drain ?b" by (simp add: rb_receive_def)
  moreover have "rb_drain ?b' = ([], ?b')" using assms(2) by (simp add: rb_drain.simps)
  then have "rb_drain ?b = ([\<lparr>msg_ppid = 0, msg_data = data\<rparr>], ?b')" by (subst rb_drain.simps) (simp add: upd)
  moreover have "sint (mNextSsn b - (mNextSsn b + 1)) = -1" by simp
  then have "rb_receive (mNextSsn b) kDataFlagB False ppid first ?b' = ([], ?b')" by (simp add: rb_receive_def)
  ultimately show ?thesis by auto
qed

lemma last_fragment_first_witness:
  "\<exists>b'. rb_receive 0 kDataFlagE False 51 [98] DataChannelReceiveBuffer_new = ([\<lparr>msg_ppid = 0, msg_data = [98]\<rparr>], b') \<and>
    rb_receive 0 kDataFlagB False 51 [97] b' = ([], b')"
  using last_fragment_first [of DataChannelReceiveBuffer_new 51 "[98]" "[97]"] by (simp add: DataChannelReceiveBuffer_new_def)

end
