(* ===== verification/Sctp_Session.thy ===== *)
theory Sctp_Session
  imports Sctp_Receive_Buffer
begin

text \<open>
  The SCTP session of the data channels, \<^verbatim>\<open>src/sctp/sctp_session.cpp\<close>: the handshake, sending
  with fragmentation and flow control, the retransmission timer, acknowledgements in both
  directions, the channel protocol and stream resets. The state is a record with the members of the
  class; the calls of the listener are logged in \<open>ss_events\<close>, the tasks that the session has in the
  scheduler are \<open>ss_tasks\<close>, and the weak pointers to them are identities of tasks. A handler returns
  nothing when a read of a \<^verbatim>\<open>ByteReader\<close> is out of range and the process aborts.
\<close>

unbundle bit_operations_syntax

section \<open>Constants\<close>

definition kChunkData :: u8 where "kChunkData = 0"
definition kChunkInit :: u8 where "kChunkInit = 1"
definition kChunkInitAck :: u8 where "kChunkInitAck = 2"
definition kChunkSack :: u8 where "kChunkSack = 3"
definition kChunkCookieEcho :: u8 where "kChunkCookieEcho = 10"
definition kChunkCookieAck :: u8 where "kChunkCookieAck = 11"
definition kChunkReconfig :: u8 where "kChunkReconfig = 0x82"

definition kPpidDcep :: u32 where "kPpidDcep = 50"
definition kPpidString :: u32 where "kPpidString = 51"
definition kPpidBinary :: u32 where "kPpidBinary = 53"
definition kPpidStringEmpty :: u32 where "kPpidStringEmpty = 56"
definition kPpidBinaryEmpty :: u32 where "kPpidBinaryEmpty = 57"

definition kDcepMsgAck :: u8 where "kDcepMsgAck = 0x02"
definition kDcepMsgOpen :: u8 where "kDcepMsgOpen = 0x03"
definition kDcepChannelReliable :: u8 where "kDcepChannelReliable = 0x00"
definition kDcepPriorityNormal :: u16 where "kDcepPriorityNormal = 256"

definition kParamStateCookie :: u16 where "kParamStateCookie = 7"
definition kParamForwardTsnSupported :: u16 where "kParamForwardTsnSupported = 0xC000"
definition kParamOutgoingSsnReset :: u16 where "kParamOutgoingSsnReset = 0x000D"
definition kParamReconfigResponse :: u16 where "kParamReconfigResponse = 0x0010"
definition kReconfigResultSuccess :: u32 where "kReconfigResultSuccess = 0"

definition kInitRwnd :: u32 where "kInitRwnd = 131072"
definition kInitStreams :: u16 where "kInitStreams = 1024"
definition kMaxInitRetransmits :: nat where "kMaxInitRetransmits = 8"
definition kRtoInitialMs :: nat where "kRtoInitialMs = 250"
definition kRtoMaxMs :: nat where "kRtoMaxMs = 60000"
definition kCookieLifetime :: u32 where "kCookieLifetime = 60"
definition kCookieDataSize :: nat where "kCookieDataSize = 36"
definition kCookieHmacSize :: nat where "kCookieHmacSize = 20"
definition kCookieTotalSize :: nat where "kCookieTotalSize = kCookieDataSize + kCookieHmacSize"
definition kMaxFragmentPayload :: nat where "kMaxFragmentPayload = 1100"

lemmas chunk_consts [const_defs] = kChunkData_def kChunkInit_def kChunkInitAck_def kChunkSack_def kChunkCookieEcho_def
  kChunkCookieAck_def kChunkReconfig_def

lemmas ppid_consts [const_defs] = kPpidDcep_def kPpidString_def kPpidBinary_def kPpidStringEmpty_def kPpidBinaryEmpty_def
  kDcepMsgAck_def kDcepMsgOpen_def

lemmas size_consts [const_defs] = kMaxInitRetransmits_def kRtoInitialMs_def kRtoMaxMs_def kCookieDataSize_def kCookieHmacSize_def
  kCookieTotalSize_def kMaxFragmentPayload_def

definition constTimeEqual :: "bytes \<Rightarrow> bytes \<Rightarrow> nat \<Rightarrow> bool" where
  "constTimeEqual a b n = (foldl (\<lambda>diff i. diff OR (a ! i XOR b ! i)) 0 [0..<n] = 0)"

section \<open>State\<close>

datatype MessageKind = kText | kBinary

record DataChannelMessage =
  dm_kind :: MessageKind
  dm_label :: string
  dm_text :: string
  dm_binary :: bytes

definition makeText :: "string \<Rightarrow> string \<Rightarrow> DataChannelMessage" where
  "makeText label text = \<lparr>dm_kind = kText, dm_label = label, dm_text = text, dm_binary = []\<rparr>"

definition makeBinary :: "string \<Rightarrow> bytes \<Rightarrow> DataChannelMessage" where
  "makeBinary label binary = \<lparr>dm_kind = kBinary, dm_label = label, dm_text = [], dm_binary = binary\<rparr>"

datatype DataChannelState = kNone | kOpening | kOpen

record DataChannel =
  dc_label :: string
  dc_streamId :: u16
  dc_unordered :: bool
  dc_state :: DataChannelState
  dc_receiveBuffer :: DataChannelReceiveBuffer
  dc_sendSsn :: u16

definition DataChannel_new :: "string \<Rightarrow> u16 \<Rightarrow> bool \<Rightarrow> DataChannel" where
  "DataChannel_new label streamId unordered = \<lparr>dc_label = label, dc_streamId = streamId, dc_unordered = unordered,
     dc_state = kNone, dc_receiveBuffer = DataChannelReceiveBuffer_new, dc_sendSsn = 0\<rparr>"

record SentChunk =
  sc_tsn :: u32
  sc_flags :: u8
  sc_payloadSize :: nat
  sc_body :: bytes

datatype SctpState = New | CookieWait | CookieEchoed | Established

text \<open>The calls of the listener, and the tasks that the session submits to the scheduler.\<close>

datatype SctpEvent =
    onSctpSendPacket bytes
  | onSctpDataChannelOpen string
  | onSctpDataChannelClose string
  | onSctpDataChannelText string string
  | onSctpDataChannelBinary string bytes

datatype SctpAction = doSendInit nat | doSendCookieEcho nat | doRetransmitOldest

record SctpTask =
  tk_id :: nat
  tk_delay :: nat
  tk_action :: SctpAction

record SctpSession =
  mLocalPort :: u16
  mRemotePort :: u16
  mMaxMessageSize :: u32
  mDataChannels :: "DataChannel list"
  mSentChunks :: "SentChunk list"
  mPendingSend :: "DataChannelMessage list"
  mFlightSize :: u32
  ss_state :: SctpState
  mInitiateTag :: u32
  mInitialTsn :: u32
  mPeerTag :: u32
  mPeerOutStreams :: u16
  mPeerInStreams :: u16
  mPeerRwnd :: u32
  mCurrentTsn :: u32
  mPeerCumulativeTsn :: u32
  mPeerOutOfOrderTsns :: "u32 list"
  mHmacKey :: bytes
  mCookieEchoPacket :: bytes
  mTaskT1Init :: "nat option"
  mTaskT1Cookie :: "nat option"
  mTaskT3Rtx :: "nat option"
  ss_tasks :: "SctpTask list"
  ss_nextTask :: nat
  ss_events :: "SctpEvent list"

definition emit :: "SctpEvent \<Rightarrow> SctpSession \<Rightarrow> SctpSession" where
  "emit e s = s\<lparr>ss_events := ss_events s @ [e]\<rparr>"

definition submit :: "nat \<Rightarrow> SctpAction \<Rightarrow> SctpSession \<Rightarrow> nat \<times> SctpSession" where
  "submit delay action s =
     (ss_nextTask s, s\<lparr>ss_tasks := ss_tasks s @ [\<lparr>tk_id = ss_nextTask s, tk_delay = delay, tk_action = action\<rparr>],
                       ss_nextTask := Suc (ss_nextTask s)\<rparr>)"

definition cancel_task :: "nat option \<Rightarrow> SctpSession \<Rightarrow> SctpSession" where
  "cancel_task t s = (case t of None \<Rightarrow> s | Some k \<Rightarrow> s\<lparr>ss_tasks := filter (\<lambda>x. tk_id x \<noteq> k) (ss_tasks s)\<rparr>)"

text \<open>Packets are built in heap memory, which is aligned.\<close>

definition send_packet :: "u32 \<Rightarrow> u8 \<Rightarrow> u8 \<Rightarrow> bytes \<Rightarrow> SctpSession \<Rightarrow> SctpSession" where
  "send_packet tag type flags data s =
     emit (onSctpSendPacket (sctp_build 0 (mLocalPort s) (mRemotePort s) tag [\<lparr>ch_type = type, ch_flags = flags, ch_data = data\<rparr>])) s"

section \<open>Construction and the first handshake messages\<close>

fun retransmitDelay_loop :: "nat \<Rightarrow> nat \<Rightarrow> nat" where
  "retransmitDelay_loop 0 delay = delay"
| "retransmitDelay_loop (Suc n) delay =
     (let delay = delay * 3 div 2 in if delay \<ge> kRtoMaxMs then kRtoMaxMs else retransmitDelay_loop n delay)"

definition retransmitDelay :: "nat \<Rightarrow> nat" where
  "retransmitDelay iteration = retransmitDelay_loop iteration kRtoInitialMs"

text \<open>
  The constructor; \<open>r\<close> supplies the numbers drawn from the random generator: the tag, the first
  transmission sequence number, and four for the key of the cookies.
\<close>

definition SctpSession_new :: "(nat \<Rightarrow> u32) \<Rightarrow> u16 \<Rightarrow> u16 \<Rightarrow> u32 \<Rightarrow> bool \<Rightarrow> string list \<Rightarrow> SctpSession" where
  "SctpSession_new r localPort remotePort maxMessageSize isSetupActive dataChannels =
     (let first = (if isSetupActive then 1 else 0);
          channels = map (\<lambda>(i, label). DataChannel_new label (first + 2 * of_nat i) False) (enumerate 0 dataChannels);
          key = concat (map (\<lambda>i. [ucast (r i), ucast (drop_bit 8 (r i)), ucast (drop_bit 16 (r i)), ucast (drop_bit 24 (r i))]) [2, 3, 4, 5])
      in \<lparr>mLocalPort = localPort, mRemotePort = remotePort, mMaxMessageSize = maxMessageSize, mDataChannels = channels,
          mSentChunks = [], mPendingSend = [], mFlightSize = 0, ss_state = New, mInitiateTag = r 0, mInitialTsn = r 1,
          mPeerTag = 0, mPeerOutStreams = 0, mPeerInStreams = 0, mPeerRwnd = 0, mCurrentTsn = r 1, mPeerCumulativeTsn = 0,
          mPeerOutOfOrderTsns = [], mHmacKey = key, mCookieEchoPacket = [], mTaskT1Init = None, mTaskT1Cookie = None,
          mTaskT3Rtx = None, ss_tasks = [], ss_nextTask = 0, ss_events = []\<rparr>)"

definition SctpSession_destroy :: "SctpSession \<Rightarrow> SctpSession" where
  "SctpSession_destroy s = fold (\<lambda>ch s. if dc_state ch = kOpen then emit (onSctpDataChannelClose (dc_label ch)) s else s) (mDataChannels s) s"

definition sendInit :: "nat \<Rightarrow> SctpSession \<Rightarrow> SctpSession" where
  "sendInit iteration s =
     (if iteration > kMaxInitRetransmits then s
      else
        let w = writeU32 ByteBuffer_new (mInitiateTag s);
            w = writeU32 w kInitRwnd;
            w = writeU16 w kInitStreams;
            w = writeU16 w kInitStreams;
            w = writeU32 w (mInitialTsn s);
            w = writeU16 w kParamForwardTsnSupported;
            w = writeU16 w 4;
            s = send_packet 0 kChunkInit 0 (ByteBuffer_bytes w) s;
            s = s\<lparr>ss_state := CookieWait\<rparr>;
            (t, s) = submit (retransmitDelay iteration) (doSendInit (iteration + 1)) s
        in s\<lparr>mTaskT1Init := Some t\<rparr>)"

definition start :: "SctpSession \<Rightarrow> SctpSession" where
  "start s = sendInit 0 s"

definition isChannelOpen :: "string \<Rightarrow> SctpSession \<Rightarrow> bool" where
  "isChannelOpen label s = list_ex (\<lambda>ch. dc_label ch = label \<and> dc_state ch = kOpen) (mDataChannels s)"

definition sendCookieEcho :: "nat \<Rightarrow> SctpSession \<Rightarrow> SctpSession" where
  "sendCookieEcho iteration s =
     (if iteration > kMaxInitRetransmits then s
      else
        let s = emit (onSctpSendPacket (mCookieEchoPacket s)) s;
            (t, s) = submit (retransmitDelay iteration) (doSendCookieEcho (iteration + 1)) s
        in s\<lparr>mTaskT1Cookie := Some t\<rparr>)"

section \<open>The retransmission timer\<close>

definition startT3Rtx :: "SctpSession \<Rightarrow> SctpSession" where
  "startT3Rtx s =
     (let s = cancel_task (mTaskT3Rtx s) s;
          (t, s) = submit (retransmitDelay 0) doRetransmitOldest s
      in s\<lparr>mTaskT3Rtx := Some t\<rparr>)"

definition stopT3Rtx :: "SctpSession \<Rightarrow> SctpSession" where
  "stopT3Rtx s = (cancel_task (mTaskT3Rtx s) s)\<lparr>mTaskT3Rtx := None\<rparr>"

definition retransmitOldest :: "SctpSession \<Rightarrow> SctpSession" where
  "retransmitOldest s =
     (case mSentChunks s of
        [] \<Rightarrow> s
      | chunk # _ \<Rightarrow> startT3Rtx (send_packet (mPeerTag s) kChunkData (sc_flags chunk) (sc_body chunk) s))"

section \<open>Sending\<close>

definition text_bytes :: "string \<Rightarrow> bytes" where
  "text_bytes text = map (\<lambda>c. of_nat (of_char c)) text"

fun find_channel :: "(DataChannel \<Rightarrow> bool) \<Rightarrow> DataChannel list \<Rightarrow> nat option" where
  "find_channel P [] = None"
| "find_channel P (ch # chs) = (if P ch then Some 0 else map_option Suc (find_channel P chs))"

definition upd_channel :: "nat \<Rightarrow> (DataChannel \<Rightarrow> DataChannel) \<Rightarrow> SctpSession \<Rightarrow> SctpSession" where
  "upd_channel i f s = s\<lparr>mDataChannels := (mDataChannels s)[i := f (mDataChannels s ! i)]\<rparr>"

definition payload_of :: "DataChannelMessage \<Rightarrow> bytes" where
  "payload_of m = (case dm_kind m of kText \<Rightarrow> text_bytes (dm_text m) | kBinary \<Rightarrow> dm_binary m)"

definition data_body :: "u32 \<Rightarrow> u16 \<Rightarrow> u16 \<Rightarrow> u32 \<Rightarrow> bytes \<Rightarrow> bytes" where
  "data_body tsn streamId ssn ppid payload =
     (let cw = writeU32 ByteBuffer_new tsn;
          cw = writeU16 cw streamId;
          cw = writeU16 cw ssn;
          cw = writeU32 cw ppid
      in ByteBuffer_bytes (ByteWriter_write cw payload))"

text \<open>A DATA chunk is sent, remembered until it is acknowledged, and counted as in flight.\<close>

definition sendFragment :: "u16 \<Rightarrow> u16 \<Rightarrow> u32 \<Rightarrow> u8 \<Rightarrow> bytes \<Rightarrow> SctpSession \<Rightarrow> SctpSession" where
  "sendFragment streamId ssn ppid flags payload s =
     (let tsn = mCurrentTsn s;
          s = s\<lparr>mCurrentTsn := mCurrentTsn s + 1\<rparr>;
          chunkBody = data_body tsn streamId ssn ppid payload;
          s = send_packet (mPeerTag s) kChunkData flags chunkBody s
      in s\<lparr>mSentChunks := mSentChunks s @ [\<lparr>sc_tsn = tsn, sc_flags = flags, sc_payloadSize = length payload, sc_body = chunkBody\<rparr>],
           mFlightSize := mFlightSize s + of_nat (length payload)\<rparr>)"

function sendFragments :: "u16 \<Rightarrow> u16 \<Rightarrow> u32 \<Rightarrow> u8 \<Rightarrow> bytes \<Rightarrow> nat \<Rightarrow> bool \<Rightarrow> SctpSession \<Rightarrow> SctpSession" where
  "sendFragments streamId ssn ppid unorderedFlag payload offset isFirst s =
     (if offset < length payload then
        let fragSize = min (length payload - offset) kMaxFragmentPayload;
            isLast = (offset + fragSize \<ge> length payload);
            flags = unorderedFlag;
            flags = (if isFirst then flags OR kDataFlagB else flags);
            flags = (if isLast then flags OR kDataFlagE else flags);
            s = sendFragment streamId ssn ppid flags (take fragSize (drop offset payload)) s
        in sendFragments streamId ssn ppid unorderedFlag payload (offset + fragSize) False s
      else s)"
  by pat_completeness auto
termination
  by (relation "measure (\<lambda>(_, _, _, _, payload, offset, _, _). length payload - offset)") (auto simp: kMaxFragmentPayload_def)

declare sendFragments.simps [simp del]

definition sendMessageNow :: "nat \<Rightarrow> DataChannelMessage \<Rightarrow> SctpSession \<Rightarrow> SctpSession" where
  "sendMessageNow i message s =
     (let channel = mDataChannels s ! i;
          payload = payload_of message;
          payloadSize = length payload;
          ppid = (case dm_kind message of
                    kText \<Rightarrow> if payloadSize = 0 then kPpidStringEmpty else kPpidString
                  | kBinary \<Rightarrow> if payloadSize = 0 then kPpidBinaryEmpty else kPpidBinary);
          ssn = dc_sendSsn channel;
          s = upd_channel i (\<lambda>ch. ch\<lparr>dc_sendSsn := dc_sendSsn ch + 1\<rparr>) s;
          unorderedFlag = (if dc_unordered channel then kDataFlagUnordered else 0);
          wasEmpty = (mSentChunks s = []);
          s = (if payloadSize \<le> kMaxFragmentPayload
               then sendFragment (dc_streamId channel) ssn ppid (kDataFlagComplete OR unorderedFlag) payload s
               else sendFragments (dc_streamId channel) ssn ppid unorderedFlag payload 0 True s)
      in if wasEmpty then startT3Rtx s else s)"

definition send :: "DataChannelMessage \<Rightarrow> SctpSession \<Rightarrow> SctpSession" where
  "send message s =
     (if ss_state s \<noteq> Established then s
      else
        case find_channel (\<lambda>ch. dc_label ch = dm_label message) (mDataChannels s) of
          None \<Rightarrow> s
        | Some i \<Rightarrow>
            if dc_state (mDataChannels s ! i) \<noteq> kOpen then s
            else
              let payloadSize = length (payload_of message) in
              if mMaxMessageSize s > 0 \<and> payloadSize > unat (mMaxMessageSize s) then s
              else if payloadSize > 0 \<and> unat (mFlightSize s) + payloadSize > unat (mPeerRwnd s)
              then s\<lparr>mPendingSend := mPendingSend s @ [message]\<rparr>
              else sendMessageNow i message s)"

text \<open>The loop over the pending messages, given as its first argument; a break leaves the rest pending.\<close>

fun transmit_loop :: "DataChannelMessage list \<Rightarrow> SctpSession \<Rightarrow> SctpSession" where
  "transmit_loop [] s = s\<lparr>mPendingSend := []\<rparr>"
| "transmit_loop (msg # rest) s =
     (case find_channel (\<lambda>ch. dc_label ch = dm_label msg) (mDataChannels s) of
        None \<Rightarrow> transmit_loop rest s
      | Some i \<Rightarrow>
          if dc_state (mDataChannels s ! i) \<noteq> kOpen then transmit_loop rest s
          else
            let payloadSize = length (payload_of msg) in
            if payloadSize > 0 \<and> unat (mFlightSize s) + payloadSize > unat (mPeerRwnd s)
            then s\<lparr>mPendingSend := msg # rest\<rparr>
            else transmit_loop rest (sendMessageNow i msg s))"

definition transmitPending :: "SctpSession \<Rightarrow> SctpSession" where
  "transmitPending s = transmit_loop (mPendingSend s) s"

definition sendDataChannelOpen :: "nat \<Rightarrow> SctpSession \<Rightarrow> SctpSession" where
  "sendDataChannelOpen i s =
     (let channel = mDataChannels s ! i;
          pw = writeU8 ByteBuffer_new kDcepMsgOpen;
          pw = writeU8 pw kDcepChannelReliable;
          pw = writeU16 pw kDcepPriorityNormal;
          pw = writeU32 pw 0;
          pw = writeU16 pw (of_nat (length (dc_label channel)));
          pw = writeU16 pw 0;
          payload = ByteBuffer_bytes (ByteWriter_write pw (text_bytes (dc_label channel)));
          wasEmpty = (mSentChunks s = []);
          s = sendFragment (dc_streamId channel) 0 kPpidDcep kDataFlagComplete payload s;
          s = upd_channel i (\<lambda>ch. ch\<lparr>dc_state := kOpening\<rparr>) s
      in if wasEmpty then startT3Rtx s else s)"

definition onAssociationEstablished :: "SctpSession \<Rightarrow> SctpSession" where
  "onAssociationEstablished s = fold sendDataChannelOpen [0..<length (mDataChannels s)] s"

section \<open>Acknowledging what was received\<close>

text \<open>The gap blocks: runs of consecutive offsets, in the order of the offsets.\<close>

fun gap_blocks :: "u16 list \<Rightarrow> (u16 \<times> u16) option \<Rightarrow> (u16 \<times> u16) list" where
  "gap_blocks [] None = []"
| "gap_blocks [] (Some (blockStart, blockEnd)) = [(blockStart, blockEnd)]"
| "gap_blocks (offset # offsets) None = gap_blocks offsets (Some (offset, offset))"
| "gap_blocks (offset # offsets) (Some (blockStart, blockEnd)) =
     (if offset = blockEnd + 1 then gap_blocks offsets (Some (blockStart, offset))
      else (blockStart, blockEnd) # gap_blocks offsets (Some (offset, offset)))"

definition sack_gaps :: "SctpSession \<Rightarrow> (u16 \<times> u16) list" where
  "sack_gaps s =
     gap_blocks (map (\<lambda>tsn. ucast (tsn - mPeerCumulativeTsn s)) (sort_key (\<lambda>tsn. tsn - mPeerCumulativeTsn s) (mPeerOutOfOrderTsns s))) None"

definition sack_body :: "SctpSession \<Rightarrow> bytes" where
  "sack_body s =
     (let gapBlocks = sack_gaps s;
          w = writeU32 ByteBuffer_new (mPeerCumulativeTsn s);
          w = writeU32 w kInitRwnd;
          w = writeU16 w (of_nat (length gapBlocks));
          w = writeU16 w 0;
          w = foldl (\<lambda>w (a, b). writeU16 (writeU16 w a) b) w gapBlocks
      in ByteBuffer_bytes w)"

definition sendSack :: "SctpSession \<Rightarrow> SctpSession" where
  "sendSack s = send_packet (mPeerTag s) kChunkSack 0 (sack_body s) s"

section \<open>Receiving acknowledgements\<close>

fun read_gaps :: "nat \<Rightarrow> ByteReader \<Rightarrow> (u16 \<times> u16) list option" where
  "read_gaps 0 r = Some []"
| "read_gaps (Suc n) r = do {
     (a, r) \<leftarrow> readU16 r;
     (b, r) \<leftarrow> readU16 r;
     rest \<leftarrow> read_gaps n r;
     Some ((a, b) # rest)
   }"

text \<open>The loops that erase acknowledged chunks: the chunks left, the flight size, and whether any was erased.\<close>

fun ack_chunks :: "(SentChunk \<Rightarrow> bool) \<Rightarrow> SentChunk list \<Rightarrow> u32 \<Rightarrow> bool \<Rightarrow> SentChunk list \<times> u32 \<times> bool" where
  "ack_chunks P [] flight anyNew = ([], flight, anyNew)"
| "ack_chunks P (c # cs) flight anyNew =
     (if P c then ack_chunks P cs (if unat flight \<ge> sc_payloadSize c then flight - of_nat (sc_payloadSize c) else 0) True
      else let (cs', flight', any') = ack_chunks P cs flight anyNew in (c # cs', flight', any'))"

definition ack_gap :: "u32 \<Rightarrow> (u16 \<times> u16) \<Rightarrow> SentChunk list \<times> u32 \<times> bool \<Rightarrow> SentChunk list \<times> u32 \<times> bool" where
  "ack_gap cumTsn g st =
     (case (g, st) of ((gapStart, gapEnd), (cs, flight, anyNew)) \<Rightarrow>
        ack_chunks (\<lambda>c. ucast (sc_tsn c - cumTsn) \<ge> gapStart \<and> ucast (sc_tsn c - cumTsn) \<le> gapEnd) cs flight anyNew)"

definition apply_sack :: "u32 \<Rightarrow> u32 \<Rightarrow> (u16 \<times> u16) list \<Rightarrow> SctpSession \<Rightarrow> SctpSession" where
  "apply_sack cumTsn aRwnd gapBlocks s =
     (let s = s\<lparr>mPeerRwnd := aRwnd\<rparr>;
          st = ack_chunks (\<lambda>c. sint (sc_tsn c - cumTsn) \<le> 0) (mSentChunks s) (mFlightSize s) False;
          (chunks, flight, anyNewlyAcked) = fold (ack_gap cumTsn) gapBlocks st;
          s = s\<lparr>mSentChunks := chunks, mFlightSize := flight\<rparr>;
          s = (if mSentChunks s = [] then stopT3Rtx s else if anyNewlyAcked then startT3Rtx s else s)
      in if anyNewlyAcked then transmitPending s else s)"

definition onReceiveSack :: "Chunk \<Rightarrow> SctpSession \<Rightarrow> SctpSession option" where
  "onReceiveSack chunk s =
     (if length (ch_data chunk) < 12 then Some s
      else do {
        let r = ByteReader_new (ch_data chunk);
        (cumTsn, r) \<leftarrow> readU32 r;
        (aRwnd, r) \<leftarrow> readU32 r;
        (numGapBlocks, r) \<leftarrow> readU16 r;
        r \<leftarrow> reader_skip 2 r;
        gapBlocks \<leftarrow> read_gaps (unat numGapBlocks) r;
        Some (apply_sack cumTsn aRwnd gapBlocks s)
      })"

section \<open>Receiving data\<close>

text \<open>The \<^verbatim>\<open>std::set\<close> of numbers that arrived early is an ascending list.\<close>

fun tsn_insert :: "u32 \<Rightarrow> u32 list \<Rightarrow> u32 list" where
  "tsn_insert x [] = [x]"
| "tsn_insert x (y # ys) = (if x < y then x # y # ys else if x = y then y # ys else y # tsn_insert x ys)"

function tsn_drain :: "u32 \<Rightarrow> u32 list \<Rightarrow> u32 \<times> u32 list" where
  "tsn_drain cum tsns = (if cum + 1 \<in> set tsns then tsn_drain (cum + 1) (remove1 (cum + 1) tsns) else (cum, tsns))"
  by pat_completeness auto
termination
  by (relation "measure (\<lambda>(_, tsns). length tsns)") (auto simp: length_remove1 dest: length_pos_if_in_set)

declare tsn_drain.simps [simp del]

definition tsn_duplicate :: "u32 \<Rightarrow> SctpSession \<Rightarrow> bool" where
  "tsn_duplicate tsn s \<longleftrightarrow> sint (tsn - mPeerCumulativeTsn s) \<le> 0 \<or> tsn \<in> set (mPeerOutOfOrderTsns s)"

definition tsn_record :: "u32 \<Rightarrow> SctpSession \<Rightarrow> SctpSession" where
  "tsn_record peerTSN s =
     (if peerTSN = mPeerCumulativeTsn s + 1 then
        let (cum, tsns) = tsn_drain peerTSN (mPeerOutOfOrderTsns s)
        in s\<lparr>mPeerCumulativeTsn := cum, mPeerOutOfOrderTsns := tsns\<rparr>
      else
        let tsns = tsn_insert peerTSN (mPeerOutOfOrderTsns s)
        in s\<lparr>mPeerOutOfOrderTsns := (if length tsns > 1024 then tl tsns else tsns)\<rparr>)"

definition deliver :: "string \<Rightarrow> Message \<Rightarrow> SctpSession \<Rightarrow> SctpSession" where
  "deliver label msg s =
     (if msg_ppid msg = kPpidString \<or> msg_ppid msg = kPpidStringEmpty
      then emit (onSctpDataChannelText label (map (\<lambda>b. char_of (unat b)) (msg_data msg))) s
      else emit (onSctpDataChannelBinary label (msg_data msg)) s)"

definition onReceiveUserData :: "u16 \<Rightarrow> u16 \<Rightarrow> u32 \<Rightarrow> u8 \<Rightarrow> bytes \<Rightarrow> SctpSession \<Rightarrow> SctpSession" where
  "onReceiveUserData streamId ssn ppid flags payload s =
     (case find_channel (\<lambda>ch. dc_streamId ch = streamId) (mDataChannels s) of
        None \<Rightarrow> s
      | Some i \<Rightarrow>
          let channel = mDataChannels s ! i;
              (messages, rb) = rb_receive ssn flags (dc_unordered channel) ppid payload (dc_receiveBuffer channel);
              s = upd_channel i (\<lambda>ch. ch\<lparr>dc_receiveBuffer := rb\<rparr>) s
          in fold (deliver (dc_label channel)) messages s)"

definition onDcepAck :: "u16 \<Rightarrow> u16 \<Rightarrow> SctpSession \<Rightarrow> SctpSession" where
  "onDcepAck streamId ssn s =
     (case find_channel (\<lambda>ch. dc_streamId ch = streamId \<and> dc_state ch = kOpening) (mDataChannels s) of
        None \<Rightarrow> s
      | Some i \<Rightarrow>
          let s = upd_channel i (\<lambda>ch. ch\<lparr>dc_state := kOpen, dc_receiveBuffer := consumeSsn ssn (dc_receiveBuffer ch)\<rparr>) s
          in emit (onSctpDataChannelOpen (dc_label (mDataChannels s ! i))) s)"

definition onDcepOpen :: "u16 \<Rightarrow> u16 \<Rightarrow> ByteReader \<Rightarrow> SctpSession \<Rightarrow> SctpSession option" where
  "onDcepOpen streamId ssn r s =
     (if remaining r < 11 then Some s
      else do {
        (channelType, r) \<leftarrow> readU8 r;
        let unordered = (channelType AND 0x80) \<noteq> 0;
        r \<leftarrow> reader_skip 6 r;
        (labelLen, r) \<leftarrow> readU16 r;
        r \<leftarrow> reader_skip 2 r;
        if unat labelLen > remaining r then Some s
        else do {
          (label, r) \<leftarrow> readString (unat labelLen) r;
          let channel = (DataChannel_new label streamId unordered)
                \<lparr>dc_state := kOpen, dc_receiveBuffer := consumeSsn ssn DataChannelReceiveBuffer_new\<rparr>;
          let s = s\<lparr>mDataChannels := mDataChannels s @ [channel]\<rparr>;
          let wasEmpty = (mSentChunks s = []);
          let s = sendFragment streamId 0 kPpidDcep kDataFlagComplete [kDcepMsgAck] s;
          let s = (if wasEmpty then startT3Rtx s else s);
          Some (emit (onSctpDataChannelOpen label) s)
        }
      })"

definition onReceivePayload :: "u16 \<Rightarrow> u16 \<Rightarrow> u32 \<Rightarrow> u8 \<Rightarrow> ByteReader \<Rightarrow> SctpSession \<Rightarrow> SctpSession option" where
  "onReceivePayload streamId ssn ppid flags r s =
     (if ppid = kPpidString \<or> ppid = kPpidStringEmpty \<or> ppid = kPpidBinary \<or> ppid = kPpidBinaryEmpty
      then Some (onReceiveUserData streamId ssn ppid flags (take (remaining r) (current r)) s)
      else if ppid \<noteq> kPpidDcep \<or> remaining r < 1 then Some s
      else do {
        (msgType, r) \<leftarrow> readU8 r;
        if msgType = kDcepMsgAck then Some (onDcepAck streamId ssn s)
        else if msgType = kDcepMsgOpen then onDcepOpen streamId ssn r s
        else Some s
      })"

definition onReceiveDataChunk :: "Chunk \<Rightarrow> SctpSession \<Rightarrow> SctpSession option" where
  "onReceiveDataChunk chunk s =
     (if length (ch_data chunk) < 12 then Some s
      else do {
        let r = ByteReader_new (ch_data chunk);
        (peerTSN, r) \<leftarrow> readU32 r;
        (streamId, r) \<leftarrow> readU16 r;
        (ssn, r) \<leftarrow> readU16 r;
        (ppid, r) \<leftarrow> readU32 r;
        if tsn_duplicate peerTSN s then Some (sendSack s)
        else onReceivePayload streamId ssn ppid (ch_flags chunk) r (sendSack (tsn_record peerTSN s))
      })"

section \<open>Closing channels\<close>

fun read_ids :: "nat \<Rightarrow> ByteReader \<Rightarrow> u16 list option" where
  "read_ids 0 r = Some []"
| "read_ids (Suc n) r = do {
     (x, r) \<leftarrow> readU16 r;
     xs \<leftarrow> read_ids n r;
     Some (x # xs)
   }"

definition close_channel :: "u16 \<Rightarrow> SctpSession \<Rightarrow> SctpSession" where
  "close_channel streamId s =
     (case find_channel (\<lambda>ch. dc_streamId ch = streamId) (mDataChannels s) of
        None \<Rightarrow> s
      | Some i \<Rightarrow>
          let s = emit (onSctpDataChannelClose (dc_label (mDataChannels s ! i))) s
          in s\<lparr>mDataChannels := take i (mDataChannels s) @ drop (Suc i) (mDataChannels s)\<rparr>)"

definition onReconfigParam :: "Param \<Rightarrow> SctpSession \<Rightarrow> SctpSession option" where
  "onReconfigParam param s =
     (if pa_type param \<noteq> kParamOutgoingSsnReset \<or> length (pa_data param) < 12 then Some s
      else do {
        let r = ByteReader_new (pa_data param);
        (requestSeqNum, r) \<leftarrow> readU32 r;
        r \<leftarrow> reader_skip 8 r;
        streamIds \<leftarrow> read_ids (remaining r div 2) r;
        let s = fold close_channel streamIds s;
        let pw = writeU16 ByteBuffer_new kParamReconfigResponse;
        let pw = writeU16 pw 12;
        let pw = writeU32 pw requestSeqNum;
        let pw = writeU32 pw kReconfigResultSuccess;
        Some (send_packet (mPeerTag s) kChunkReconfig 0 (ByteBuffer_bytes pw) s)
      })"

fun reconfig_loop :: "Param list \<Rightarrow> SctpSession \<Rightarrow> SctpSession option" where
  "reconfig_loop [] s = Some s"
| "reconfig_loop (p # ps) s = do { s \<leftarrow> onReconfigParam p s; reconfig_loop ps s }"

definition onReceiveReconfig :: "Chunk \<Rightarrow> SctpSession \<Rightarrow> SctpSession option" where
  "onReceiveReconfig chunk s = do { params \<leftarrow> parseParams 0 (ch_data chunk); reconfig_loop params s }"

section \<open>The handshake\<close>

text \<open>
  HMAC-SHA1 is computed by OpenSSL: \<open>hmac key data\<close> is the digest, or nothing when the context
  cannot be initialised. \<open>nowSecs\<close> is the system time.
\<close>

type_synonym hmac = "bytes \<Rightarrow> bytes \<Rightarrow> bytes option"

definition cookie_fields :: "u32 \<Rightarrow> u32 \<Rightarrow> u32 \<Rightarrow> u32 \<Rightarrow> u16 \<Rightarrow> u16 \<Rightarrow> SctpSession \<Rightarrow> ByteBuffer" where
  "cookie_fields nowSecs peerInitiateTag peerInitialTsn peerRwnd peerOutStreams peerInStreams s =
     (let cw = writeU32 ByteBuffer_new nowSecs;
          cw = writeU32 cw kCookieLifetime;
          cw = writeU16 cw (mLocalPort s);
          cw = writeU16 cw (mRemotePort s);
          cw = writeU32 cw (mInitiateTag s);
          cw = writeU32 cw (mInitialTsn s);
          cw = writeU32 cw peerInitiateTag;
          cw = writeU32 cw peerInitialTsn;
          cw = writeU32 cw peerRwnd;
          cw = writeU16 cw peerOutStreams
      in writeU16 cw peerInStreams)"

definition onReceiveInit :: "hmac \<Rightarrow> u32 \<Rightarrow> Chunk \<Rightarrow> SctpSession \<Rightarrow> SctpSession option" where
  "onReceiveInit hmac nowSecs chunk s =
     (if length (ch_data chunk) < 16 then Some s
      else do {
        let r = ByteReader_new (ch_data chunk);
        (peerInitiateTag, r) \<leftarrow> readU32 r;
        if peerInitiateTag = mInitiateTag s then Some s
        else do {
          (peerRwnd, r) \<leftarrow> readU32 r;
          (peerOutStreams, r) \<leftarrow> readU16 r;
          (peerInStreams, r) \<leftarrow> readU16 r;
          (peerInitialTsn, r) \<leftarrow> readU32 r;
          let s = s\<lparr>mPeerRwnd := peerRwnd, mPeerOutStreams := peerOutStreams, mPeerInStreams := peerInStreams,
                    mPeerCumulativeTsn := peerInitialTsn - 1\<rparr>;
          let cw = cookie_fields nowSecs peerInitiateTag peerInitialTsn peerRwnd peerOutStreams peerInStreams s;
          Some (case hmac (mHmacKey s) (ByteBuffer_bytes cw) of
                  None \<Rightarrow> s
                | Some digest \<Rightarrow>
                    let cookieData = ByteBuffer_bytes (ByteWriter_write cw digest);
                        aw = writeU32 ByteBuffer_new (mInitiateTag s);
                        aw = writeU32 aw kInitRwnd;
                        aw = writeU16 aw kInitStreams;
                        aw = writeU16 aw kInitStreams;
                        aw = writeU32 aw (mInitialTsn s);
                        aw = writeU16 aw kParamStateCookie;
                        aw = writeU16 aw (of_nat (4 + length cookieData));
                        aw = ByteWriter_write aw cookieData;
                        aw = writeU16 aw kParamForwardTsnSupported;
                        aw = writeU16 aw 4
                    in send_packet peerInitiateTag kChunkInitAck 0 (ByteBuffer_bytes aw) s)
        }
      })"

definition onReceiveCookieEcho :: "hmac \<Rightarrow> u32 \<Rightarrow> Chunk \<Rightarrow> SctpSession \<Rightarrow> SctpSession option" where
  "onReceiveCookieEcho hmac nowSecs chunk s =
     (if length (ch_data chunk) < kCookieTotalSize then Some s
      else
        case hmac (mHmacKey s) (take kCookieDataSize (ch_data chunk)) of
          None \<Rightarrow> Some s
        | Some expectedHmac \<Rightarrow>
            if \<not> constTimeEqual (drop kCookieDataSize (ch_data chunk)) expectedHmac kCookieHmacSize then Some s
            else do {
              let r = ByteReader_new (take kCookieTotalSize (ch_data chunk));
              (createdAt, r) \<leftarrow> readU32 r;
              (lifetime, r) \<leftarrow> readU32 r;
              if nowSecs > createdAt + lifetime then Some s
              else do {
                r \<leftarrow> reader_skip 12 r;
                (peerInitiateTag, r) \<leftarrow> readU32 r;
                Some (send_packet peerInitiateTag kChunkCookieAck 0 [] s)
              }
            })"

definition onStateCookie :: "bytes \<Rightarrow> SctpSession \<Rightarrow> SctpSession" where
  "onStateCookie cookie s =
     (let s = (cancel_task (mTaskT1Init s) s)\<lparr>mTaskT1Init := None\<rparr>;
          s = s\<lparr>mCookieEchoPacket := sctp_build 0 (mLocalPort s) (mRemotePort s) (mPeerTag s)
                [\<lparr>ch_type = kChunkCookieEcho, ch_flags = 0, ch_data = cookie\<rparr>]\<rparr>;
          s = s\<lparr>ss_state := CookieEchoed\<rparr>
      in sendCookieEcho 0 s)"

definition onReceiveInitAck :: "Chunk \<Rightarrow> SctpSession \<Rightarrow> SctpSession option" where
  "onReceiveInitAck chunk s =
     (if ss_state s = CookieWait \<and> length (ch_data chunk) \<ge> 16 then do {
        let r = ByteReader_new (ch_data chunk);
        (peerTag, r) \<leftarrow> readU32 r;
        (peerRwnd, r) \<leftarrow> readU32 r;
        (peerOutStreams, r) \<leftarrow> readU16 r;
        (peerInStreams, r) \<leftarrow> readU16 r;
        (peerInitialTsn, r) \<leftarrow> readU32 r;
        let s = s\<lparr>mPeerTag := peerTag, mPeerRwnd := peerRwnd, mPeerOutStreams := peerOutStreams,
                  mPeerInStreams := peerInStreams, mPeerCumulativeTsn := peerInitialTsn - 1\<rparr>;
        params \<leftarrow> parseParams 16 (ch_data chunk);
        Some (case find (\<lambda>p. pa_type p = kParamStateCookie) params of
                None \<Rightarrow> s
              | Some param \<Rightarrow> onStateCookie (pa_data param) s)
      }
      else Some s)"

definition onReceiveCookieAck :: "SctpSession \<Rightarrow> SctpSession" where
  "onReceiveCookieAck s =
     (if ss_state s = CookieEchoed then
        let s = (cancel_task (mTaskT1Cookie s) s)\<lparr>mTaskT1Cookie := None\<rparr>;
            s = s\<lparr>ss_state := Established\<rparr>
        in onAssociationEstablished s
      else s)"

section \<open>Packets and timers\<close>

definition onReceiveChunk :: "hmac \<Rightarrow> u32 \<Rightarrow> Chunk \<Rightarrow> SctpSession \<Rightarrow> SctpSession option" where
  "onReceiveChunk hmac nowSecs chunk s =
     (if ch_type chunk = kChunkData then onReceiveDataChunk chunk s
      else if ch_type chunk = kChunkSack then onReceiveSack chunk s
      else if ch_type chunk = kChunkReconfig then onReceiveReconfig chunk s
      else if ch_type chunk = kChunkInit then onReceiveInit hmac nowSecs chunk s
      else if ch_type chunk = kChunkCookieEcho then onReceiveCookieEcho hmac nowSecs chunk s
      else if ch_type chunk = kChunkCookieAck then Some (onReceiveCookieAck s)
      else if ch_type chunk = kChunkInitAck then onReceiveInitAck chunk s
      else Some s)"

fun receive_chunks :: "hmac \<Rightarrow> u32 \<Rightarrow> Chunk list \<Rightarrow> SctpSession \<Rightarrow> SctpSession option" where
  "receive_chunks hmac nowSecs [] s = Some s"
| "receive_chunks hmac nowSecs (c # cs) s = do { s \<leftarrow> onReceiveChunk hmac nowSecs c s; receive_chunks hmac nowSecs cs s }"

definition onReceiveData :: "hmac \<Rightarrow> u32 \<Rightarrow> nat \<Rightarrow> nat \<Rightarrow> bytes \<Rightarrow> SctpSession \<Rightarrow> SctpSession option" where
  "onReceiveData hmac nowSecs addr zaddr buf s = do {
     packet \<leftarrow> SctpPacket_parse addr zaddr buf;
     case packet of
       None \<Rightarrow> Some s
     | Some packet \<Rightarrow>
         let isInit = (mChunks packet \<noteq> [] \<and> ch_type (mChunks packet ! 0) = kChunkInit);
             expectedTag = (if isInit then 0 else mInitiateTag s)
         in if mVerificationTag packet \<noteq> expectedTag then Some s
            else receive_chunks hmac nowSecs (mChunks packet) s
   }"

text \<open>A task of the scheduler is removed from its queue and run.\<close>

definition run_task :: "SctpTask \<Rightarrow> SctpSession \<Rightarrow> SctpSession" where
  "run_task t s =
     (let s = s\<lparr>ss_tasks := filter (\<lambda>x. tk_id x \<noteq> tk_id t) (ss_tasks s)\<rparr>
      in case tk_action t of
           doSendInit n \<Rightarrow> sendInit n s
         | doSendCookieEcho n \<Rightarrow> sendCookieEcho n s
         | doRetransmitOldest \<Rightarrow> retransmitOldest s)"

end
