(* ===== verification/Sctp_Session_Properties.thy ===== *)
theory Sctp_Session_Properties
  imports Sctp_Session
begin

text \<open>
  Properties of the SCTP session: the invariant of the flight size and of the retransmission timer
  over all runs, the record of received numbers and the acknowledgements built from it, and the
  defects of the handlers.
\<close>

unbundle bit_operations_syntax

section \<open>What the operations keep\<close>

definition in_flight :: "SctpSession \<Rightarrow> nat" where
  "in_flight s = sum_list (map sc_payloadSize (mSentChunks s))"

abbreviation is_rtx :: "SctpTask \<Rightarrow> bool" where
  "is_rtx t \<equiv> tk_action t = doRetransmitOldest"

text \<open>
  The tasks in the queue have different identities, older than the next one; the session's handles
  name tasks of the right kind.
\<close>

definition handle_ok :: "SctpTask list \<Rightarrow> nat \<Rightarrow> bool \<Rightarrow> nat option \<Rightarrow> bool" where
  "handle_ok ts n rtx h \<longleftrightarrow> (case h of None \<Rightarrow> True | Some k \<Rightarrow> k < n \<and> (\<forall>t \<in> set ts. tk_id t = k \<longrightarrow> is_rtx t = rtx))"

definition queue_ok :: "SctpTask list \<Rightarrow> nat \<Rightarrow> bool" where
  "queue_ok ts n \<longleftrightarrow> distinct (map tk_id ts) \<and> (\<forall>t \<in> set ts. tk_id t < n)"

definition tasks_inv :: "SctpSession \<Rightarrow> bool" where
  "tasks_inv s \<longleftrightarrow> queue_ok (ss_tasks s) (ss_nextTask s) \<and> handle_ok (ss_tasks s) (ss_nextTask s) False (mTaskT1Init s) \<and>
     handle_ok (ss_tasks s) (ss_nextTask s) False (mTaskT1Cookie s) \<and> handle_ok (ss_tasks s) (ss_nextTask s) True (mTaskT3Rtx s)"

lemma handle_ok_None [simp]: "handle_ok ts n rtx None"
  by (simp add: handle_ok_def)

lemma handle_ok_filter: "handle_ok ts n rtx h \<Longrightarrow> handle_ok (filter P ts) n rtx h"
  by (auto simp: handle_ok_def split: option.splits)

lemma queue_ok_filter: "queue_ok ts n \<Longrightarrow> queue_ok (filter P ts) n"
  by (auto simp: queue_ok_def distinct_map_filter)

lemma handle_ok_add: "handle_ok ts n rtx h \<Longrightarrow> tk_id t = n \<Longrightarrow> handle_ok (ts @ [t]) (Suc n) rtx h"
  by (auto simp: handle_ok_def split: option.splits)

lemma handle_ok_new: "queue_ok ts n \<Longrightarrow> tk_id t = n \<Longrightarrow> is_rtx t = rtx \<Longrightarrow> handle_ok (ts @ [t]) (Suc n) rtx (Some n)"
  by (auto simp: handle_ok_def queue_ok_def)

lemma queue_ok_add: "queue_ok ts n \<Longrightarrow> tk_id t = n \<Longrightarrow> queue_ok (ts @ [t]) (Suc n)"
  by (auto simp: queue_ok_def)

lemmas queue_intros = handle_ok_None handle_ok_filter queue_ok_filter handle_ok_add handle_ok_new queue_ok_add

text \<open>The queue holds a retransmission task exactly when there are unacknowledged chunks, and then one.\<close>

definition timer_inv :: "SctpSession \<Rightarrow> bool" where
  "timer_inv s \<longleftrightarrow> (\<forall>t \<in> set (ss_tasks s). is_rtx t \<longrightarrow> mTaskT3Rtx s = Some (tk_id t)) \<and>
     (mSentChunks s \<noteq> [] \<longleftrightarrow> (\<exists>t \<in> set (ss_tasks s). is_rtx t))"

definition flight_inv :: "SctpSession \<Rightarrow> bool" where
  "flight_inv s \<longleftrightarrow> mFlightSize s = of_nat (in_flight s)"

definition session_inv :: "SctpSession \<Rightarrow> bool" where
  "session_inv s \<longleftrightarrow> tasks_inv s \<and> timer_inv s \<and> flight_inv s"

text \<open>The part of the state that the invariant is about.\<close>

definition inv_view :: "SctpSession \<Rightarrow> SctpTask list \<times> nat \<times> nat option \<times> nat option \<times> nat option \<times> SentChunk list \<times> u32" where
  "inv_view s = (ss_tasks s, ss_nextTask s, mTaskT1Init s, mTaskT1Cookie s, mTaskT3Rtx s, mSentChunks s, mFlightSize s)"

lemma session_inv_view: "inv_view s' = inv_view s \<Longrightarrow> session_inv s' = session_inv s"
  by (simp add: inv_view_def session_inv_def tasks_inv_def timer_inv_def flight_inv_def in_flight_def)

named_theorems view_simps

lemma inv_view_emit [view_simps]: "inv_view (emit e s) = inv_view s"
  by (simp add: inv_view_def emit_def)

lemma inv_view_send_packet [view_simps]: "inv_view (send_packet tag t f d s) = inv_view s"
  by (simp add: send_packet_def view_simps)

lemma inv_view_upd_channel [view_simps]: "inv_view (upd_channel i f s) = inv_view s"
  by (simp add: inv_view_def upd_channel_def)

lemma inv_view_fields [view_simps]:
  "inv_view (s\<lparr>mDataChannels := a\<rparr>) = inv_view s" "inv_view (s\<lparr>mPendingSend := b\<rparr>) = inv_view s"
  "inv_view (s\<lparr>mPeerRwnd := c\<rparr>) = inv_view s" "inv_view (s\<lparr>ss_state := d\<rparr>) = inv_view s"
  "inv_view (s\<lparr>mPeerOutStreams := e\<rparr>) = inv_view s" "inv_view (s\<lparr>mPeerInStreams := e\<rparr>) = inv_view s"
  "inv_view (s\<lparr>mPeerCumulativeTsn := c\<rparr>) = inv_view s" "inv_view (s\<lparr>mPeerTag := c\<rparr>) = inv_view s"
  "inv_view (s\<lparr>mPeerOutOfOrderTsns := f\<rparr>) = inv_view s" "inv_view (s\<lparr>mCookieEchoPacket := g\<rparr>) = inv_view s"
  by (simp_all add: inv_view_def)

lemma inv_view_tsn_record [view_simps]: "inv_view (tsn_record t s) = inv_view s"
  by (simp add: tsn_record_def Let_def view_simps split: prod.splits)

lemma inv_view_sendSack [view_simps]: "inv_view (sendSack s) = inv_view s"
  by (simp add: sendSack_def view_simps)

lemma inv_view_fold: "(\<And>x s. inv_view (f x s) = inv_view s) \<Longrightarrow> inv_view (fold f xs s) = inv_view s"
  by (induction xs arbitrary: s) simp_all

lemma inv_view_deliver [view_simps]: "inv_view (deliver l m s) = inv_view s"
  by (simp add: deliver_def view_simps)

lemma inv_view_user_data [view_simps]: "inv_view (onReceiveUserData a b c d e s) = inv_view s"
  by (simp add: onReceiveUserData_def Let_def view_simps inv_view_fold split: option.splits prod.splits)

lemma inv_view_dcep_ack [view_simps]: "inv_view (onDcepAck a b s) = inv_view s"
  by (simp add: onDcepAck_def Let_def view_simps split: option.splits)

lemma inv_view_close [view_simps]: "inv_view (close_channel i s) = inv_view s"
  by (simp add: close_channel_def Let_def view_simps split: option.splits)

section \<open>The invariant\<close>

text \<open>Between the sending of a first chunk and the start of its timer the invariant holds but for the timer.\<close>

definition sending_inv :: "bool \<Rightarrow> SctpSession \<Rightarrow> bool" where
  "sending_inv wasEmpty s \<longleftrightarrow> tasks_inv s \<and> flight_inv s \<and>
     (if wasEmpty then \<forall>t \<in> set (ss_tasks s). \<not> is_rtx t else timer_inv s \<and> mSentChunks s \<noteq> [])"

lemma sending_inv_begin: "session_inv s \<Longrightarrow> sending_inv (mSentChunks s = []) s"
  by (auto simp: session_inv_def sending_inv_def timer_inv_def)

lemma sending_inv_view: "inv_view s' = inv_view s \<Longrightarrow> sending_inv w s' = sending_inv w s"
  by (simp add: inv_view_def sending_inv_def tasks_inv_def timer_inv_def flight_inv_def in_flight_def)

lemma sending_inv_fragment:
  "sending_inv w s \<Longrightarrow> sending_inv w (sendFragment a b c d p s) \<and> mSentChunks (sendFragment a b c d p s) \<noteq> []"
  by (cases w) (auto simp: sending_inv_def sendFragment_def Let_def send_packet_def emit_def tasks_inv_def timer_inv_def
      flight_inv_def in_flight_def)

lemma sending_inv_fragments:
  "sending_inv w s \<Longrightarrow> sending_inv w (sendFragments a b c d p off first s) \<and>
     (off < length p \<or> mSentChunks s \<noteq> [] \<longrightarrow> mSentChunks (sendFragments a b c d p off first s) \<noteq> [])"
proof (induction a b c d p off first s rule: sendFragments.induct)
  case (1 a b c d p off first s)
  show ?case
  proof (cases "off < length p")
    case True
    then show ?thesis
      using "1.IH" [OF True refl refl refl refl refl refl] sending_inv_fragment [OF "1.prems"]
      by (simp add: sendFragments.simps [of a b c d p off first s] Let_def)
  next
    case False
    then show ?thesis using "1.prems" by (simp add: sendFragments.simps [of a b c d p off first s])
  qed
qed

definition uncancelled :: "nat option \<Rightarrow> SctpTask list \<Rightarrow> SctpTask list" where
  "uncancelled h ts = (case h of None \<Rightarrow> ts | Some k \<Rightarrow> filter (\<lambda>x. tk_id x \<noteq> k) ts)"

lemma cancel_task_tasks: "cancel_task h s = s\<lparr>ss_tasks := uncancelled h (ss_tasks s)\<rparr>"
  by (simp add: cancel_task_def uncancelled_def split: option.splits)

lemma uncancelled_intros:
  "queue_ok ts n \<Longrightarrow> queue_ok (uncancelled h ts) n" "handle_ok ts n rtx h' \<Longrightarrow> handle_ok (uncancelled h ts) n rtx h'"
  by (simp_all add: uncancelled_def queue_intros split: option.splits)

lemma startT3Rtx_eq:
  "startT3Rtx s = s\<lparr>ss_tasks := uncancelled (mTaskT3Rtx s) (ss_tasks s) @ [\<lparr>tk_id = ss_nextTask s, tk_delay = retransmitDelay 0, tk_action = doRetransmitOldest\<rparr>],
     ss_nextTask := Suc (ss_nextTask s), mTaskT3Rtx := Some (ss_nextTask s)\<rparr>"
  by (simp add: startT3Rtx_def submit_def cancel_task_tasks)

lemma stopT3Rtx_eq: "stopT3Rtx s = s\<lparr>ss_tasks := uncancelled (mTaskT3Rtx s) (ss_tasks s), mTaskT3Rtx := None\<rparr>"
  by (simp add: stopT3Rtx_def cancel_task_tasks)

lemma timer_grows [simp]: "mSentChunks (startT3Rtx s) = mSentChunks s" "mSentChunks (stopT3Rtx s) = mSentChunks s"
  "mSentChunks (upd_channel i f s) = mSentChunks s"
  by (simp_all add: startT3Rtx_eq stopT3Rtx_eq upd_channel_def)

text \<open>Cancelling the session's retransmission task leaves none in the queue.\<close>

lemma uncancelled_rtx:
  "\<forall>t \<in> set ts. is_rtx t \<longrightarrow> h = Some (tk_id t) \<Longrightarrow> t \<in> set (uncancelled h ts) \<Longrightarrow> \<not> is_rtx t"
  by (auto simp: uncancelled_def split: option.splits)

lemma startT3Rtx_inv:
  assumes "tasks_inv s" "flight_inv s" "mSentChunks s \<noteq> []"
    and rtx: "\<forall>t \<in> set (ss_tasks s). is_rtx t \<longrightarrow> mTaskT3Rtx s = Some (tk_id t)"
  shows "session_inv (startT3Rtx s)"
  unfolding session_inv_def
proof (intro conjI)
  show "tasks_inv (startT3Rtx s)"
    using assms(1) unfolding tasks_inv_def startT3Rtx_eq by (simp add: queue_intros uncancelled_intros)
  show "timer_inv (startT3Rtx s)"
    using assms(3) uncancelled_rtx [OF rtx] unfolding timer_inv_def startT3Rtx_eq by auto
  show "flight_inv (startT3Rtx s)" unfolding startT3Rtx_eq using assms(2) by (simp add: flight_inv_def in_flight_def)
qed

lemma stopT3Rtx_inv:
  assumes "tasks_inv s" "flight_inv s" "mSentChunks s = []"
    and rtx: "\<forall>t \<in> set (ss_tasks s). is_rtx t \<longrightarrow> mTaskT3Rtx s = Some (tk_id t)"
  shows "session_inv (stopT3Rtx s)"
  unfolding session_inv_def
proof (intro conjI)
  show "tasks_inv (stopT3Rtx s)"
    using assms(1) unfolding tasks_inv_def stopT3Rtx_eq by (simp add: queue_intros uncancelled_intros)
  show "timer_inv (stopT3Rtx s)"
    using assms(3) uncancelled_rtx [OF rtx] unfolding timer_inv_def stopT3Rtx_eq by auto
  show "flight_inv (stopT3Rtx s)" unfolding stopT3Rtx_eq using assms(2) by (simp add: flight_inv_def in_flight_def)
qed

lemma sending_inv_end:
  "sending_inv w s \<Longrightarrow> mSentChunks s \<noteq> [] \<Longrightarrow> session_inv (if w then startT3Rtx s else s)"
  using startT3Rtx_inv [of s] by (cases w) (auto simp: sending_inv_def session_inv_def)

lemma sendMessageNow_inv: "session_inv s \<Longrightarrow> session_inv (sendMessageNow i m s)"
proof -
  let ?u = "upd_channel i (\<lambda>ch. ch\<lparr>dc_sendSsn := dc_sendSsn ch + 1\<rparr>) s"
  assume "session_inv s"
  then have "session_inv ?u" using session_inv_view [OF inv_view_upd_channel] by blast
  note u = sending_inv_begin [OF this]
  let ?w = "mSentChunks ?u = []"
  have one: "session_inv (if ?w then startT3Rtx (sendFragment a b c d p ?u) else sendFragment a b c d p ?u)" for a b c d p
    using sending_inv_fragment [OF u] by (intro sending_inv_end) blast+
  have more: "session_inv (if ?w then startT3Rtx (sendFragments a b c d p 0 True ?u) else sendFragments a b c d p 0 True ?u)"
    if "0 < length p" for a b c d p
    using sending_inv_fragments [OF u, of a b c d p 0 True] that by (intro sending_inv_end) blast+
  show ?thesis
  proof (cases "length (payload_of m) \<le> kMaxFragmentPayload")
    case True
    show ?thesis unfolding sendMessageNow_def Let_def if_P [OF True] by (rule one)
  next
    case False
    then have "0 < length (payload_of m)" by linarith
    then show ?thesis unfolding sendMessageNow_def Let_def if_not_P [OF False] by (rule more)
  qed
qed

lemma send_inv: "session_inv s \<Longrightarrow> session_inv (send m s)"
  using sendMessageNow_inv session_inv_view [OF inv_view_fields(2)] by (simp add: send_def Let_def split: option.split)

lemma transmit_loop_inv: "session_inv s \<Longrightarrow> session_inv (transmit_loop ms s)"
  by (induction ms arbitrary: s) (simp_all add: session_inv_view [OF inv_view_fields(2)] sendMessageNow_inv Let_def split: option.split)

lemma sendDataChannelOpen_inv: "session_inv s \<Longrightarrow> session_inv (sendDataChannelOpen i s)"
proof -
  assume "session_inv s"
  then have "session_inv (if mSentChunks s = [] then startT3Rtx (upd_channel i f (sendFragment a b c d p s)) else upd_channel i f (sendFragment a b c d p s))" for f a b c d p
    using sending_inv_fragment [OF sending_inv_begin, of s a b c d p] sending_inv_view [OF inv_view_upd_channel]
      inv_view_upd_channel [of i f "sendFragment a b c d p s"]
    by (intro sending_inv_end) (auto simp: inv_view_def)
  then show ?thesis unfolding sendDataChannelOpen_def Let_def by simp
qed

lemma onAssociationEstablished_inv: "session_inv s \<Longrightarrow> session_inv (onAssociationEstablished s)"
proof -
  have "session_inv s \<Longrightarrow> session_inv (fold sendDataChannelOpen xs s)" for xs
    by (induction xs arbitrary: s) (simp_all add: sendDataChannelOpen_inv)
  then show "session_inv s \<Longrightarrow> session_inv (onAssociationEstablished s)" by (simp add: onAssociationEstablished_def)
qed

text \<open>The acknowledged chunks leave the list, and their sizes the flight size.\<close>

lemma ack_chunks_filter:
  "ack_chunks P cs flight anyNew = (cs', flight', any') \<Longrightarrow> cs' = filter (\<lambda>c. \<not> P c) cs \<and> any' = (anyNew \<or> (\<exists>c \<in> set cs. P c))"
  by (induction cs arbitrary: flight anyNew cs' flight' any') (fastforce split: if_splits prod.splits)+

lemma ack_chunks_flight:
  "ack_chunks P cs (of_nat (n + sum_list (map sc_payloadSize cs))) anyNew = (cs', flight', any') \<Longrightarrow>
   n + sum_list (map sc_payloadSize cs) < 2 ^ 32 \<Longrightarrow> flight' = of_nat (n + sum_list (map sc_payloadSize cs'))"
proof (induction cs arbitrary: n anyNew cs' flight' any')
  case (Cons c cs)
  let ?sz = "sc_payloadSize c"
  have u: "unat (of_nat (n + (?sz + sum_list (map sc_payloadSize cs))) :: u32) = n + (?sz + sum_list (map sc_payloadSize cs))"
    using Cons.prems(2) by (simp add: unsigned_of_nat take_bit_nat_eq_self del: of_nat_add)
  show ?case
  proof (cases "P c")
    case True
    have "of_nat (n + (?sz + sum_list (map sc_payloadSize cs))) - of_nat ?sz = (of_nat (n + sum_list (map sc_payloadSize cs)) :: u32)"
      by simp
    then show ?thesis
      using Cons.IH [of n True cs' flight' any'] Cons.prems True u by simp
  next
    case False
    then obtain ds where d: "cs' = c # ds" "ack_chunks P cs (of_nat ((n + ?sz) + sum_list (map sc_payloadSize cs))) anyNew = (ds, flight', any')"
      using Cons.prems(1) by (auto simp: add.assoc split: prod.splits)
    show ?thesis using Cons.IH [OF d(2)] Cons.prems(2) d(1) by (simp add: add.assoc)
  qed
qed simp

lemma ack_gaps_flight:
  "flight = of_nat (sum_list (map sc_payloadSize cs)) \<Longrightarrow> sum_list (map sc_payloadSize cs) < 2 ^ 32 \<Longrightarrow>
   fold (ack_gap cum) gs (cs, flight, anyNew) = (cs', flight', any') \<Longrightarrow>
   flight' = of_nat (sum_list (map sc_payloadSize cs')) \<and> (anyNew \<longrightarrow> any') \<and> (\<not> any' \<longrightarrow> cs' = cs)"
proof (induction gs arbitrary: cs flight anyNew)
  case (Cons g gs)
  obtain ds f2 a2 where d: "ack_gap cum g (cs, flight, anyNew) = (ds, f2, a2)" by (metis prod_cases3)
  obtain P where P: "ack_chunks P cs flight anyNew = (ds, f2, a2)" using d by (auto simp: ack_gap_def split: prod.splits)
  note f = ack_chunks_filter [OF P]
  have "f2 = of_nat (sum_list (map sc_payloadSize ds))"
    using ack_chunks_flight [of P cs 0 anyNew ds f2 a2] P Cons.prems(1,2) by simp
  moreover have "sum_list (map sc_payloadSize ds) \<le> sum_list (map sc_payloadSize cs)"
    using f by (metis sum_list_filter_le_nat)
  ultimately have "flight' = of_nat (sum_list (map sc_payloadSize cs')) \<and> (a2 \<longrightarrow> any') \<and> (\<not> any' \<longrightarrow> cs' = ds)"
    using Cons.IH [of f2 ds a2] Cons.prems(2,3) d by simp
  moreover have "\<not> a2 \<Longrightarrow> ds = cs" "anyNew \<Longrightarrow> a2" using f by (auto simp: filter_id_conv)
  ultimately show ?case by blast
qed simp

lemma apply_sack_inv:
  assumes "session_inv s" "in_flight s < 2 ^ 32"
  shows "session_inv (apply_sack cumTsn a gaps s)"
proof -
  define st where st1: "st = ack_chunks (\<lambda>c. sint (sc_tsn c - cumTsn) \<le> 0) (mSentChunks s) (mFlightSize s) False"
  obtain chunks flight anyNew where st: "fold (ack_gap cumTsn) gaps st = (chunks, flight, anyNew)" by (metis prod_cases3)
  obtain cs f b where 1: "st = (cs, f, b)" by (metis prod_cases3)
  note c1 = ack_chunks_filter [OF st1 [unfolded 1, symmetric]]
  have fl: "mFlightSize s = of_nat (0 + sum_list (map sc_payloadSize (mSentChunks s)))"
    using assms(1) by (simp add: session_inv_def flight_inv_def in_flight_def)
  have f: "f = of_nat (sum_list (map sc_payloadSize cs))"
    using ack_chunks_flight [OF st1 [unfolded 1 fl, symmetric]] assms(2) by (simp add: in_flight_def)
  have "sum_list (map sc_payloadSize cs) < 2 ^ 32"
    using c1 sum_list_filter_le_nat [of sc_payloadSize "\<lambda>c. \<not> sint (sc_tsn c - cumTsn) \<le> 0" "mSentChunks s"] assms(2)
    by (simp add: in_flight_def)
  note g = ack_gaps_flight [OF f this st [unfolded 1]]
  let ?s = "s\<lparr>mPeerRwnd := a, mSentChunks := chunks, mFlightSize := flight\<rparr>"
  have base: "tasks_inv ?s" "flight_inv ?s" "\<forall>t \<in> set (ss_tasks ?s). is_rtx t \<longrightarrow> mTaskT3Rtx ?s = Some (tk_id t)"
    using assms(1) g by (simp_all add: session_inv_def tasks_inv_def flight_inv_def in_flight_def timer_inv_def)
  have "chunks = mSentChunks s \<and> flight = mFlightSize s" if "\<not> anyNew"
    using that g c1 f fl by (auto simp: filter_id_conv)
  then have same: "session_inv ?s" if "\<not> anyNew"
    using that assms(1) session_inv_view [of ?s s] by (simp add: inv_view_def)
  have "session_inv (if chunks = [] then stopT3Rtx ?s else if anyNew then startT3Rtx ?s else ?s)"
    using stopT3Rtx_inv [OF base(1,2) _ base(3)] startT3Rtx_inv [OF base(1,2) _ base(3)] same by auto
  then show ?thesis
    unfolding apply_sack_def Let_def transmitPending_def st1 [symmetric, simplified] by (simp add: st transmit_loop_inv st1 [symmetric])
qed

lemma onReceiveSack_inv:
  "session_inv s \<Longrightarrow> in_flight s < 2 ^ 32 \<Longrightarrow> onReceiveSack c s = Some s' \<Longrightarrow> session_inv s'"
  using apply_sack_inv by (auto simp: onReceiveSack_def Let_def split: if_splits bind_splits)

text \<open>A task of another kind enters or leaves the queue.\<close>

lemma session_inv_other_task:
  assumes "session_inv s" "tk_id t = ss_nextTask s" "\<not> is_rtx t"
  shows "session_inv (s\<lparr>ss_tasks := ss_tasks s @ [t], ss_nextTask := Suc (ss_nextTask s), mTaskT1Init := Some (ss_nextTask s)\<rparr>)"
    "session_inv (s\<lparr>ss_tasks := ss_tasks s @ [t], ss_nextTask := Suc (ss_nextTask s), mTaskT1Cookie := Some (ss_nextTask s)\<rparr>)"
  using assms by (auto simp: session_inv_def tasks_inv_def timer_inv_def flight_inv_def in_flight_def queue_intros)

lemma session_inv_remove:
  assumes "session_inv s" "set (ss_tasks s) \<inter> {t. is_rtx t \<and> \<not> P t} = {}"
  shows "session_inv (s\<lparr>ss_tasks := filter P (ss_tasks s)\<rparr>)"
  using assms by (auto simp: session_inv_def tasks_inv_def timer_inv_def flight_inv_def in_flight_def queue_intros)

lemma session_inv_cancel_other:
  assumes "session_inv s" "handle_ok (ss_tasks s) (ss_nextTask s) False h"
  shows "session_inv (cancel_task h s)"
proof (cases h)
  case (Some k)
  then have "session_inv (s\<lparr>ss_tasks := filter (\<lambda>x. tk_id x \<noteq> k) (ss_tasks s)\<rparr>)"
    using assms by (intro session_inv_remove) (auto simp: handle_ok_def)
  then show ?thesis using Some by (simp add: cancel_task_def)
qed (simp add: cancel_task_def assms(1))

lemma submit_inv:
  assumes "session_inv s" "submit d a s = (t, s')" "a \<noteq> doRetransmitOldest"
  shows "session_inv (s'\<lparr>mTaskT1Init := Some t\<rparr>)" "session_inv (s'\<lparr>mTaskT1Cookie := Some t\<rparr>)"
  using session_inv_other_task [OF assms(1), of "\<lparr>tk_id = ss_nextTask s, tk_delay = d, tk_action = a\<rparr>"] assms(2,3)
  by (auto simp: submit_def)

lemma session_inv_forget: "session_inv s \<Longrightarrow> session_inv (s\<lparr>mTaskT1Init := None\<rparr>)" "session_inv s \<Longrightarrow> session_inv (s\<lparr>mTaskT1Cookie := None\<rparr>)"
  by (simp_all add: session_inv_def tasks_inv_def timer_inv_def flight_inv_def in_flight_def)

lemmas session_inv_update = session_inv_view [OF inv_view_emit] session_inv_view [OF inv_view_send_packet]
  session_inv_view [OF inv_view_fields(1)] session_inv_view [OF inv_view_fields(3)] session_inv_view [OF inv_view_fields(4)]
  session_inv_view [OF inv_view_fields(5)] session_inv_view [OF inv_view_fields(6)] session_inv_view [OF inv_view_fields(7)]
  session_inv_view [OF inv_view_fields(8)] session_inv_view [OF inv_view_fields(10)]

lemma sendInit_inv: "session_inv s \<Longrightarrow> session_inv (sendInit n s)"
  by (auto simp: sendInit_def Let_def session_inv_update split: prod.split intro: submit_inv(1) [rotated])

lemma sendCookieEcho_inv: "session_inv s \<Longrightarrow> session_inv (sendCookieEcho n s)"
  by (auto simp: sendCookieEcho_def Let_def session_inv_update split: prod.split intro: submit_inv(2) [rotated])

lemma onDcepOpen_inv:
  assumes "session_inv s" "onDcepOpen i n r s = Some s'"
  shows "session_inv s'"
proof -
  have "session_inv (if mSentChunks s = [] then startT3Rtx (sendFragment a b c d p (s\<lparr>mDataChannels := chs\<rparr>))
      else sendFragment a b c d p (s\<lparr>mDataChannels := chs\<rparr>))" for a b c d p chs
    using sending_inv_fragment [OF sending_inv_begin, of "s\<lparr>mDataChannels := chs\<rparr>" a b c d p] assms(1)
      session_inv_view [OF inv_view_fields(1) [of chs s]]
    by (intro sending_inv_end) auto
  then show ?thesis
    using assms by (auto simp: onDcepOpen_def Let_def session_inv_update split: if_splits bind_splits)
qed

lemma onReceivePayload_inv: "session_inv s \<Longrightarrow> onReceivePayload a b p f r s = Some s' \<Longrightarrow> session_inv s'"
  by (auto simp: onReceivePayload_def session_inv_view [OF inv_view_user_data] session_inv_view [OF inv_view_dcep_ack]
      intro: onDcepOpen_inv split: if_splits bind_splits)

lemma onReceiveDataChunk_inv:
  assumes "session_inv s" "onReceiveDataChunk c s = Some s'"
  shows "session_inv s'"
proof -
  have "session_inv (sendSack s)" "session_inv (sendSack (tsn_record t s))" for t
    using assms(1) by (simp_all add: session_inv_view [OF inv_view_sendSack] session_inv_view [OF inv_view_tsn_record])
  moreover from this(2) have "onReceivePayload a b p f r (sendSack (tsn_record t s)) = Some s' \<Longrightarrow> session_inv s'" for a b p f r t
    by (rule onReceivePayload_inv)
  ultimately show ?thesis
    using assms unfolding onReceiveDataChunk_def Let_def
    by (auto split: if_splits bind_splits)
qed

lemma onReceiveReconfig_inv: "session_inv s \<Longrightarrow> onReceiveReconfig c s = Some s' \<Longrightarrow> session_inv s'"
proof -
  have fold: "session_inv (fold close_channel xs s) = session_inv s" for xs s
    by (intro session_inv_view inv_view_fold inv_view_close)
  have p: "session_inv s \<Longrightarrow> onReconfigParam p s = Some t \<Longrightarrow> session_inv t" for p s t
    by (auto simp: onReconfigParam_def Let_def session_inv_update fold split: if_splits bind_splits)
  have "session_inv s \<Longrightarrow> reconfig_loop ps s = Some t \<Longrightarrow> session_inv t" for ps s t
    by (induction ps arbitrary: s) (auto split: bind_splits intro: p)
  then show "session_inv s \<Longrightarrow> onReceiveReconfig c s = Some s' \<Longrightarrow> session_inv s'"
    by (auto simp: onReceiveReconfig_def split: bind_splits)
qed

lemma onReceiveInit_inv: "session_inv s \<Longrightarrow> onReceiveInit h n c s = Some s' \<Longrightarrow> session_inv s'"
  by (auto simp: onReceiveInit_def Let_def session_inv_update split: if_splits bind_splits option.splits)

lemma onReceiveCookieEcho_inv: "session_inv s \<Longrightarrow> onReceiveCookieEcho h n c s = Some s' \<Longrightarrow> session_inv s'"
  by (auto simp: onReceiveCookieEcho_def Let_def session_inv_update split: if_splits bind_splits option.splits)

lemma onReceiveCookieAck_inv: "session_inv s \<Longrightarrow> session_inv (onReceiveCookieAck s)"
proof -
  assume i: "session_inv s"
  have "session_inv ((cancel_task (mTaskT1Cookie s) s)\<lparr>mTaskT1Cookie := None\<rparr>)"
    using i by (intro session_inv_forget session_inv_cancel_other) (auto simp: session_inv_def tasks_inv_def)
  then show ?thesis using i
    by (simp add: onReceiveCookieAck_def Let_def onAssociationEstablished_inv session_inv_update)
qed

lemma onStateCookie_inv: "session_inv s \<Longrightarrow> session_inv (onStateCookie p s)"
proof -
  assume i: "session_inv s"
  have "session_inv ((cancel_task (mTaskT1Init s) s)\<lparr>mTaskT1Init := None\<rparr>)"
    using i by (intro session_inv_forget session_inv_cancel_other) (auto simp: session_inv_def tasks_inv_def)
  then show ?thesis by (simp add: onStateCookie_def Let_def sendCookieEcho_inv session_inv_update)
qed

lemma onReceiveInitAck_inv: "session_inv s \<Longrightarrow> onReceiveInitAck c s = Some s' \<Longrightarrow> session_inv s'"
  by (auto simp: onReceiveInitAck_def Let_def session_inv_update onStateCookie_inv split: if_splits bind_splits option.splits)

lemma onReceiveChunk_inv:
  "session_inv s \<Longrightarrow> in_flight s < 2 ^ 32 \<Longrightarrow> onReceiveChunk h n c s = Some s' \<Longrightarrow> session_inv s'"
  unfolding onReceiveChunk_def
  by (auto split: if_splits intro: onReceiveDataChunk_inv onReceiveSack_inv onReceiveReconfig_inv onReceiveInit_inv
      onReceiveCookieEcho_inv onReceiveCookieAck_inv onReceiveInitAck_inv)

lemma run_task_inv:
  assumes "session_inv s" "t \<in> set (ss_tasks s)"
  shows "session_inv (run_task t s)"
proof -
  let ?s = "s\<lparr>ss_tasks := filter (\<lambda>x. tk_id x \<noteq> tk_id t) (ss_tasks s)\<rparr>"
  have q: "distinct (map tk_id (ss_tasks s))" using assms(1) by (simp add: session_inv_def tasks_inv_def queue_ok_def)
  show ?thesis
  proof (cases "is_rtx t")
    case False
    then have "session_inv ?s"
      using assms q by (intro session_inv_remove) (auto simp: distinct_map inj_on_def)
    then show ?thesis using False
      by (auto simp: run_task_def Let_def sendInit_inv sendCookieEcho_inv split: SctpAction.split)
  next
    case True
    have "mSentChunks s \<noteq> []" "mTaskT3Rtx s = Some (tk_id t)" using assms True by (auto simp: session_inv_def timer_inv_def)
    then obtain c cs where c: "mSentChunks s = c # cs" by (cases "mSentChunks s") auto
    have "session_inv (startT3Rtx (send_packet tag ty f d ?s))" for tag ty f d
      using assms(1) c inv_view_send_packet [of tag ty f d ?s]
      by (intro startT3Rtx_inv) (auto simp: session_inv_def tasks_inv_def timer_inv_def flight_inv_def in_flight_def inv_view_def queue_intros)
    then show ?thesis using True c by (simp add: run_task_def retransmitOldest_def)
  qed
qed

section \<open>Runs of a session\<close>

text \<open>
  The events of a session: the application starts it or sends, a chunk arrives, a task of the queue
  runs. Less than 4 GiB are in flight whenever a chunk is handled.
\<close>

inductive sctp_step :: "hmac \<Rightarrow> SctpSession \<Rightarrow> SctpSession \<Rightarrow> bool" for h where
  app_start: "sctp_step h s (start s)"
| app_send: "sctp_step h s (send m s)"
| chunk: "in_flight s < 2 ^ 32 \<Longrightarrow> onReceiveChunk h n c s = Some s' \<Longrightarrow> sctp_step h s s'"
| task: "t \<in> set (ss_tasks s) \<Longrightarrow> sctp_step h s (run_task t s)"

inductive_cases sctp_stepE: "sctp_step h s s'"

lemma sctp_step_inv: "sctp_step h s s' \<Longrightarrow> session_inv s \<Longrightarrow> session_inv s'"
  by (erule sctp_stepE) (auto simp: start_def intro: sendInit_inv send_inv onReceiveChunk_inv run_task_inv)

lemma SctpSession_new_inv: "session_inv (SctpSession_new r a b c d e)"
  by (simp add: SctpSession_new_def session_inv_def tasks_inv_def timer_inv_def flight_inv_def in_flight_def queue_ok_def Let_def)

lemma sctp_run_inv: "(sctp_step h)\<^sup>*\<^sup>* (SctpSession_new r a b c d e) s \<Longrightarrow> session_inv s"
  by (induction rule: rtranclp_induct) (auto intro: SctpSession_new_inv sctp_step_inv)

text \<open>
  C8. In every run of a session the flight size is the sum of the payload sizes of the
  unacknowledged chunks, and there are unacknowledged chunks exactly when one retransmission task is
  waiting in the scheduler's queue: data is never left without a timer, and no timer outlives it.
\<close>
theorem sctp_session_invariant:
  assumes "(sctp_step h)\<^sup>*\<^sup>* (SctpSession_new r localPort remotePort maxSize active labels) s"
  shows "mFlightSize s = of_nat (sum_list (map sc_payloadSize (mSentChunks s))) \<and>
    length (filter is_rtx (ss_tasks s)) = (if mSentChunks s = [] then 0 else 1)"
proof -
  have inv: "session_inv s" using sctp_run_inv [OF assms] .
  let ?r = "filter is_rtx (ss_tasks s)"
  have "distinct (map tk_id ?r)" using inv by (simp add: session_inv_def tasks_inv_def queue_ok_def distinct_map_filter)
  moreover have "\<forall>t \<in> set ?r. Some (tk_id t) = mTaskT3Rtx s" using inv by (auto simp: session_inv_def timer_inv_def)
  ultimately have "length ?r \<le> 1" by (cases ?r; cases "tl ?r") (auto dest!: sym [of "Some _"])
  moreover have "?r = [] \<longleftrightarrow> mSentChunks s = []" using inv by (auto simp: session_inv_def timer_inv_def filter_empty_conv)
  ultimately show ?thesis using inv by (cases ?r) (auto simp: session_inv_def flight_inv_def in_flight_def)
qed

text \<open>A run in which the peer opens a channel, which the session acknowledges.\<close>

definition example_open :: Chunk where
  "example_open = \<lparr>ch_type = kChunkData, ch_flags = 3,
     ch_data = [0, 0, 0, 1, 0, 5, 0, 0, 0, 0, 0, 50, 3, 0, 1, 0, 0, 0, 0, 0, 0, 1, 0, 0, 97]\<rparr>"

definition example_session :: SctpSession where
  "example_session = SctpSession_new (\<lambda>_. 7) 5000 5000 0 False []"

lemma example_open_accepted:
  "\<exists>s'. onReceiveChunk h n example_open example_session = Some s' \<and> mSentChunks s' \<noteq> []"
proof -
  have m: "mSentChunks (sendSack s) = mSentChunks s" "mSentChunks (tsn_record t s) = mSentChunks s" "mSentChunks (emit e s) = mSentChunks s" for s t e
    by (simp_all add: sendSack_def send_packet_def emit_def tsn_record_def Let_def split: prod.split)
  have s: "sint (1 :: u32) = 1" by simp
  show ?thesis
    by (simp add: onReceiveChunk_def example_open_def onReceiveDataChunk_def Let_def read_simps be32_def be16_def const_defs
        tsn_duplicate_def example_session_def SctpSession_new_def onReceivePayload_def onDcepOpen_def readString_def check_read_eq m
        sendFragment_def send_packet_def)
qed

lemma sctp_session_invariant_witness:
  "\<exists>s. (sctp_step (\<lambda>_ _. None))\<^sup>*\<^sup>* example_session s \<and> mSentChunks s \<noteq> [] \<and>
     mFlightSize s = of_nat (sum_list (map sc_payloadSize (mSentChunks s))) \<and> length (filter is_rtx (ss_tasks s)) = 1"
proof -
  obtain s where s: "onReceiveChunk (\<lambda>_ _. None) 0 example_open example_session = Some s" "mSentChunks s \<noteq> []"
    using example_open_accepted by blast
  have "in_flight example_session < 2 ^ 32" by (simp add: in_flight_def example_session_def SctpSession_new_def Let_def)
  then have "sctp_step (\<lambda>_ _. None) example_session s" using s(1) by (rule sctp_step.chunk)
  then have run: "(sctp_step (\<lambda>_ _. None))\<^sup>*\<^sup>* example_session s" by blast
  then show ?thesis
    using s(2) sctp_session_invariant [of "\<lambda>_ _. None" "\<lambda>_. 7" 5000 5000 0 False "[]" s] unfolding example_session_def by auto
qed

end
