(* ===== verification/Sctp_Sack.thy ===== *)
theory Sctp_Sack
  imports Sctp_Session_Properties "HOL-Library.Sublist"
begin

text \<open>
  Acknowledgements of the SCTP session, from the record of received transmission sequence numbers
  (\<^verbatim>\<open>onReceiveDataChunk\<close>) over the gap blocks on the wire (\<^verbatim>\<open>sendSack\<close>) to the chunks that the
  sender drops (\<^verbatim>\<open>onReceiveSack\<close>), and two defects of the session's handlers.
\<close>

unbundle bit_operations_syntax

section \<open>Gap blocks\<close>

definition in_gaps :: "u16 \<Rightarrow> (u16 \<times> u16) list \<Rightarrow> bool" where
  "in_gaps x gs \<longleftrightarrow> (\<exists>(a, b) \<in> set gs. a \<le> x \<and> x \<le> b)"

lemma word_step: "b < c \<Longrightarrow> c = b + 1 \<Longrightarrow> x \<le> c \<longleftrightarrow> x \<le> b \<or> x = c" for b c x :: u16
proof -
  assume "b < c" "c = b + 1"
  moreover from this have "c \<noteq> 0" by (metis word_not_simps(1))
  ultimately have "unat c = Suc (unat b)" using unatSuc [of b] by (simp add: add.commute)
  then show "x \<le> c \<longleftrightarrow> x \<le> b \<or> x = c" by (auto simp: word_le_nat_alt word_unat_eq_iff)
qed

lemma gap_blocks_cover:
  "sorted_wrt (<) os \<Longrightarrow> (\<forall>o' \<in> set os. b < o') \<Longrightarrow> a \<le> b \<Longrightarrow>
   in_gaps x (gap_blocks os (Some (a, b))) \<longleftrightarrow> (a \<le> x \<and> x \<le> b) \<or> x \<in> set os"
proof (induction os arbitrary: a b)
  case (Cons c os)
  show ?case
  proof (cases "c = b + 1")
    case True
    have "x \<le> c \<longleftrightarrow> x \<le> b \<or> x = c" using Cons.prems(2) True by (intro word_step) simp_all
    moreover have "a \<le> c" using Cons.prems(2,3) by auto
    ultimately show ?thesis using Cons.IH [of c a] Cons.prems True by auto
  next
    case False
    then show ?thesis using Cons.IH [of c c] Cons.prems by (auto simp: in_gaps_def)
  qed
qed (simp add: in_gaps_def)

lemma gap_blocks_exact: "sorted_wrt (<) os \<Longrightarrow> in_gaps x (gap_blocks os None) \<longleftrightarrow> x \<in> set os"
  using gap_blocks_cover [of "tl os" "hd os" "hd os" x] by (cases os) (auto simp: in_gaps_def)

lemma gap_blocks_length: "length (gap_blocks os st) \<le> length os + (case st of None \<Rightarrow> 0 | Some _ \<Rightarrow> 1)"
  by (induction os st rule: gap_blocks.induct) auto

section \<open>The record of received numbers\<close>

text \<open>
  Transmission sequence numbers are the low 32 bits of counters. The peer's chunks with counters up
  to \<open>c\<close> have arrived, and those in \<open>G\<close>, which are not consecutive to \<open>c\<close>.
\<close>

definition rx_record :: "nat \<Rightarrow> nat set \<Rightarrow> SctpSession \<Rightarrow> bool" where
  "rx_record c G s \<longleftrightarrow> mPeerCumulativeTsn s = of_nat c \<and> set (mPeerOutOfOrderTsns s) = of_nat ` G \<and>
     distinct (mPeerOutOfOrderTsns s) \<and> length (mPeerOutOfOrderTsns s) \<le> 1024 \<and> G \<subseteq> {c + 1<..<c + 65536}"

lemma of_nat_window_u32:
  assumes "n \<le> i" "i < n + 2 ^ 32" "n \<le> j" "j < n + 2 ^ 32"
  shows "(of_nat i :: u32) = of_nat j \<longleftrightarrow> i = j"
proof
  assume "(of_nat i :: u32) = of_nat j"
  then have "unat (of_nat i :: u32) = unat (of_nat j :: u32)" by simp
  then have "i mod 2 ^ 32 = j mod 2 ^ 32" by (simp only: unsigned_of_nat take_bit_eq_mod) simp
  then show "i = j" using assms by (rule mod_window_inj_nat)
qed simp

lemma of_nat_offset: "c \<le> i \<Longrightarrow> i < c + 65536 \<Longrightarrow> unat (of_nat i - of_nat c :: u32) = i - c"
proof -
  assume i: "c \<le> i" "i < c + 65536"
  have "(of_nat i - of_nat c :: u32) = of_nat (i - c)" using i(1) by (rule of_nat_diff [symmetric])
  then show ?thesis using i(2) by (simp only:) (simp add: unsigned_of_nat take_bit_nat_eq_self del: of_nat_diff)
qed

lemma rx_record_duplicate:
  assumes "rx_record c G s" "i < c + 65536" "c \<le> i + 2 ^ 31"
  shows "tsn_duplicate (of_nat i) s \<longleftrightarrow> i \<le> c \<or> i \<in> G"
proof -
  have "sint (of_nat i - of_nat c :: u32) = int i - int c"
    using assms(2,3) by (intro serial_difference) simp_all
  moreover have "(of_nat i :: u32) \<in> of_nat ` G \<longleftrightarrow> i \<in> G" if "c < i"
  proof -
    have "(of_nat i :: u32) = of_nat j \<longleftrightarrow> i = j" if "j \<in> G" for j
      using assms(1,2) that \<open>c < i\<close> by (intro of_nat_window_u32 [of c]) (auto simp: rx_record_def)
    then show ?thesis by auto
  qed
  ultimately show ?thesis using assms(1) by (cases "c < i") (auto simp: tsn_duplicate_def rx_record_def)
qed

lemma tsn_insert_set: "set (tsn_insert x xs) = insert x (set xs)"
  by (induction xs) auto

lemma tsn_insert_length: "x \<notin> set xs \<Longrightarrow> length (tsn_insert x xs) = Suc (length xs)"
  by (induction xs) auto

lemma tsn_insert_distinct: "distinct xs \<Longrightarrow> x \<notin> set xs \<Longrightarrow> distinct (tsn_insert x xs)"
  by (induction xs) (auto simp: tsn_insert_set)

lemma tsn_drain_record:
  "set tsns = of_nat ` G \<Longrightarrow> distinct tsns \<Longrightarrow> G \<subseteq> {c<..<c + 65536} \<Longrightarrow>
   \<exists>c' tsns' G'. tsn_drain (of_nat c) tsns = (of_nat c', tsns') \<and> set tsns' = of_nat ` G' \<and> distinct tsns' \<and> length tsns' \<le> length tsns \<and>
     G' \<subseteq> {c' + 1<..<c' + 65536} \<and> {..c'} \<union> G' = {..c} \<union> G"
proof (induction "length tsns" arbitrary: c tsns G rule: less_induct)
  case less
  have nxt: "(of_nat c + 1 :: u32) = of_nat (Suc c)" by simp
  have "(of_nat (Suc c) :: u32) = of_nat j \<longleftrightarrow> Suc c = j" if "j \<in> G" for j
    using less.prems(3) that by (intro of_nat_window_u32 [of c]) auto
  then have mem: "(of_nat c + 1 :: u32) \<in> set tsns \<longleftrightarrow> Suc c \<in> G" unfolding less.prems(1) nxt by auto
  show ?case
  proof (cases "Suc c \<in> G")
    case False
    then have "tsn_drain (of_nat c) tsns = (of_nat c, tsns)" using mem by (simp add: tsn_drain.simps)
    moreover have "G \<subseteq> {c + 1<..<c + 65536}" using False less.prems(3) by (fastforce intro: Suc_lessI)
    ultimately show ?thesis using less.prems by (intro exI [of _ c] exI [of _ tsns] exI [of _ G]) simp
  next
    case True
    let ?t = "remove1 (of_nat (Suc c)) tsns" and ?G = "G - {Suc c}"
    have m: "of_nat (Suc c) \<in> set tsns" using True less.prems(1) by blast
    then have l: "length ?t < length tsns" using length_remove1 [of "of_nat (Suc c)" tsns] length_pos_if_in_set [OF m] by (simp del: of_nat_Suc)
    have inj: "inj_on (of_nat :: nat \<Rightarrow> u32) G"
    proof (rule inj_onI)
      fix i j assume ij: "i \<in> G" "j \<in> G" "(of_nat i :: u32) = of_nat j"
      moreover have "c \<le> i" "i < c + 2 ^ 32" "c \<le> j" "j < c + 2 ^ 32" using ij(1,2) less.prems(3) by fastforce+
      ultimately show "i = j" using of_nat_window_u32 [of c i j] by blast
    qed
    have s: "set ?t = of_nat ` ?G"
      using less.prems(1,2) True inj by (auto simp: inj_on_image_set_diff [of _ G] simp del: of_nat_Suc)
    have "tsn_drain (of_nat c) tsns = tsn_drain (of_nat (Suc c)) ?t"
      using mem True by (simp add: tsn_drain.simps [of "of_nat c"] add.commute)
    moreover obtain c' tsns' G' where "tsn_drain (of_nat (Suc c)) ?t = (of_nat c', tsns')" "set tsns' = of_nat ` G'" "distinct tsns'"
      "length tsns' \<le> length ?t" "G' \<subseteq> {c' + 1<..<c' + 65536}" "{..c'} \<union> G' = {..Suc c} \<union> ?G"
      using less.hyps [OF l s, of "Suc c"] less.prems(2,3) by (fastforce simp: distinct_remove1)
    moreover have "{..Suc c} \<union> ?G = {..c} \<union> G" using True by (auto simp: atMost_Suc)
    ultimately show ?thesis using l by (intro exI [of _ c'] exI [of _ tsns'] exI [of _ G']) simp
  qed
qed

lemma rx_record_step:
  assumes "rx_record c G s" "c < i" "i < c + 65536" "i \<notin> G" "length (mPeerOutOfOrderTsns s) < 1024"
  shows "\<exists>c' G'. rx_record c' G' (tsn_record (of_nat i) s) \<and> {..c'} \<union> G' = insert i ({..c} \<union> G)"
proof (cases "i = c + 1")
  case True
  note R = assms(1) [unfolded rx_record_def]
  have G: "G \<subseteq> {i<..<i + 65536}" using R True by fastforce
  from R G obtain c' tsns' G' where d: "tsn_drain (of_nat i) (mPeerOutOfOrderTsns s) = (of_nat c', tsns')" "set tsns' = of_nat ` G'"
    "distinct tsns'" "length tsns' \<le> length (mPeerOutOfOrderTsns s)" "G' \<subseteq> {c' + 1<..<c' + 65536}" "{..c'} \<union> G' = {..i} \<union> G"
    using tsn_drain_record [of "mPeerOutOfOrderTsns s" G i] by blast
  have "tsn_record (of_nat i) s = s\<lparr>mPeerCumulativeTsn := of_nat c', mPeerOutOfOrderTsns := tsns'\<rparr>"
    using R True d(1) by (simp add: tsn_record_def add.commute)
  moreover have "{..i} \<union> G = insert i ({..c} \<union> G)" using True by (auto simp: atMost_Suc)
  ultimately show ?thesis using d R by (intro exI [of _ c'] exI [of _ G']) (simp add: rx_record_def)
next
  case False
  note R = assms(1) [unfolded rx_record_def]
  have w: "(of_nat i :: u32) = of_nat j \<longleftrightarrow> i = j" if "c \<le> j" "j < c + 65536" for j
    using assms(2,3) that by (intro of_nat_window_u32 [of c]) simp_all
  have "of_nat i \<noteq> mPeerCumulativeTsn s + 1" using R w [of "c + 1"] False by (simp add: add.commute)
  moreover have new: "of_nat i \<notin> set (mPeerOutOfOrderTsns s)"
  proof -
    have "(of_nat i :: u32) \<noteq> of_nat j" if "j \<in> G" for j
      using w [of j] that R assms(4) by fastforce
    then show ?thesis using R by auto
  qed
  moreover have "G \<subseteq> {c + 1<..<c + 65536}" "i \<in> {c + 1<..<c + 65536}" using R assms(2,3) False by simp_all
  ultimately show ?thesis
    using R assms(5) by (intro exI [of _ c] exI [of _ "insert i G"])
      (auto simp: rx_record_def tsn_record_def Let_def tsn_insert_set tsn_insert_length tsn_insert_distinct)
qed

lemma sack_offsets:
  assumes "rx_record c G s"
  defines "os \<equiv> map (\<lambda>tsn. ucast (tsn - mPeerCumulativeTsn s) :: u16) (sort_key (\<lambda>tsn. tsn - mPeerCumulativeTsn s) (mPeerOutOfOrderTsns s))"
  shows "sorted_wrt (<) os" "set os = (\<lambda>i. of_nat (i - c)) ` G" "length os \<le> 1024"
proof -
  note R = assms(1) [unfolded rx_record_def]
  let ?f = "\<lambda>tsn. tsn - mPeerCumulativeTsn s" and ?l = "sort_key (\<lambda>tsn. tsn - mPeerCumulativeTsn s) (mPeerOutOfOrderTsns s)"
  have off: "unat (?f (of_nat i)) = i - c" "ucast (?f (of_nat i)) = (of_nat (i - c) :: u16)" if "i \<in> G" for i
  proof -
    have "c \<le> i" "i < c + 65536" using R that by fastforce+
    then show u: "unat (?f (of_nat i)) = i - c" using R of_nat_offset [of c i] by simp
    show "ucast (?f (of_nat i)) = (of_nat (i - c) :: u16)" unfolding u [symmetric] by (simp only: of_nat_unat)
  qed
  show "set os = (\<lambda>i. of_nat (i - c)) ` G" using R off(2) by (auto simp: os_def image_iff)
  show "length os \<le> 1024" using R by (simp add: os_def)
  have "sorted (map ?f ?l)" "distinct (map ?f ?l)" using R by (auto simp: sorted_sort_key distinct_map inj_on_def)
  then have "sorted_wrt (<) (map ?f ?l)" by (simp add: strict_sorted_iff)
  moreover have "ucast x < (ucast y :: u16)" if xy: "x < y" "x \<in> set (map ?f ?l)" "y \<in> set (map ?f ?l)" for x y
  proof -
    obtain i j where ij: "i \<in> G" "j \<in> G" "x = ?f (of_nat i)" "y = ?f (of_nat j)" using xy(2,3) R by auto
    moreover have "j \<in> {c + 1<..<c + 65536}" using R ij(2) by blast
    ultimately have "i - c < j - c" "j - c < 65536" using xy(1) off(1) by (auto simp: word_less_nat_alt)
    then show ?thesis unfolding ij(3,4) off(2) [OF ij(1)] off(2) [OF ij(2)] by (simp add: word_less_nat_alt unat_of_nat_u16 del: of_nat_diff)
  qed
  ultimately have "sorted_wrt (\<lambda>x y. ucast x < (ucast y :: u16)) (map ?f ?l)"
    by (rule sorted_wrt_mono_rel [rotated])
  then show "sorted_wrt (<) os" by (simp add: os_def sorted_wrt_map)
qed

lemma sack_gaps_exact:
  assumes "rx_record c G s" "c < t" "t < c + 65536"
  shows "in_gaps (ucast (of_nat t - mPeerCumulativeTsn s)) (sack_gaps s) \<longleftrightarrow> t \<in> G" "length (sack_gaps s) < 65536"
proof -
  note os = sack_offsets [OF assms(1)]
  have c: "mPeerCumulativeTsn s = of_nat c" using assms(1) by (simp add: rx_record_def)
  have "ucast (of_nat t - of_nat c :: u32) = (of_nat (t - c) :: u16)"
    using of_nat_offset [of c t] assms(2,3) by (metis less_imp_le of_nat_unat)
  moreover have "(of_nat (t - c) :: u16) \<in> (\<lambda>i. of_nat (i - c)) ` G \<longleftrightarrow> t \<in> G"
  proof -
    have "(of_nat (t - c) :: u16) = of_nat (i - c) \<longleftrightarrow> t = i" if "i \<in> G" for i
    proof -
      have "c < i" "i < c + 65536" using that assms(1) by (auto simp: rx_record_def)
      then show ?thesis using of_nat_window_u16 [of 0 "t - c" "i - c"] assms(2,3) by (simp only:) linarith
    qed
    then show ?thesis by auto
  qed
  ultimately show "in_gaps (ucast (of_nat t - mPeerCumulativeTsn s)) (sack_gaps s) \<longleftrightarrow> t \<in> G"
    unfolding sack_gaps_def gap_blocks_exact [OF os(1)] os(2) unfolding c by simp
  show "length (sack_gaps s) < 65536"
    unfolding sack_gaps_def using gap_blocks_length [of "map (\<lambda>tsn. ucast (tsn - mPeerCumulativeTsn s) :: u16)
      (sort_key (\<lambda>tsn. tsn - mPeerCumulativeTsn s) (mPeerOutOfOrderTsns s))" None] os(3) by simp
qed

section \<open>Acknowledgements on the wire\<close>

definition gap_bytes :: "(u16 \<times> u16) list \<Rightarrow> bytes" where
  "gap_bytes gs = concat (map (\<lambda>(a, b). u16_bytes a @ u16_bytes b) gs)"

lemma sack_body_bytes:
  "sack_body s = u32_bytes (mPeerCumulativeTsn s) @ u32_bytes kInitRwnd @ u16_bytes (of_nat (length (sack_gaps s))) @ u16_bytes 0 @
     gap_bytes (sack_gaps s)"
proof -
  have "ByteBuffer_inv w \<Longrightarrow> ByteBuffer_inv (foldl (\<lambda>w (a, b). writeU16 (writeU16 w a) b) w gs) \<and>
      ByteBuffer_bytes (foldl (\<lambda>w (a, b). writeU16 (writeU16 w a) b) w gs) = ByteBuffer_bytes w @ gap_bytes gs" for w gs
    by (induction gs arbitrary: w) (auto simp: buf_simps gap_bytes_def)
  then show ?thesis by (simp add: sack_body_def Let_def buf_simps)
qed

lemma read_gaps_bytes: "reader_inv r \<Longrightarrow> unread r = gap_bytes gs \<Longrightarrow> read_gaps (length gs) r = Some gs"
proof (induction gs arbitrary: r)
  case (Cons g gs)
  obtain a b where g: "g = (a, b)" by (cases g)
  have u: "unread r = u16_bytes a @ u16_bytes b @ gap_bytes gs" using Cons.prems(2) by (simp add: gap_bytes_def g)
  have l: "length (unread r) = 4 + length (gap_bytes gs)" unfolding u by simp
  have "readU16 r = Some (a, advance 2 r)" "readU16 (advance 2 r) = Some (b, advance 4 r)"
    using Cons.prems(1) l by (simp_all add: read_simps) (simp_all add: u)
  moreover have "read_gaps (length gs) (advance 4 r) = Some gs"
    using Cons.prems(1) l by (intro Cons.IH) (simp_all add: read_simps, simp add: u)
  ultimately show ?case by (simp add: g)
qed simp

lemma onReceiveSack_body:
  assumes "length (sack_gaps R) < 65536"
  shows "onReceiveSack \<lparr>ch_type = t, ch_flags = f, ch_data = sack_body R\<rparr> s =
    Some (apply_sack (mPeerCumulativeTsn R) kInitRwnd (sack_gaps R) s)"
proof -
  define d where "d = sack_body R"
  let ?r = "ByteReader_new d"
  have b: "d = u32_bytes (mPeerCumulativeTsn R) @ u32_bytes kInitRwnd @ u16_bytes (of_nat (length (sack_gaps R))) @ u16_bytes 0 @ gap_bytes (sack_gaps R)"
    unfolding d_def by (rule sack_body_bytes)
  have l: "length d = 12 + length (gap_bytes (sack_gaps R))" unfolding b by simp
  have r: "readU32 ?r = Some (mPeerCumulativeTsn R, advance 4 ?r)" "readU32 (advance 4 ?r) = Some (kInitRwnd, advance 8 ?r)"
    "readU16 (advance 8 ?r) = Some (of_nat (length (sack_gaps R)), advance 10 ?r)" "reader_skip 2 (advance 10 ?r) = Some (advance 12 ?r)"
    using l by (simp_all add: read_simps) (simp_all add: b)
  have "read_gaps (length (sack_gaps R)) (advance 12 ?r) = Some (sack_gaps R)"
    using l by (intro read_gaps_bytes) (simp_all add: read_simps, simp add: b)
  then show ?thesis
    unfolding onReceiveSack_def Chunk.simps d_def [symmetric] Let_def using l assms by (simp add: r unat_of_nat_u16)
qed

section \<open>What an acknowledgement removes\<close>

lemma ack_gaps_filter:
  "fold (ack_gap cum) gs (cs, flight, anyNew) = (cs', flight', any') \<Longrightarrow>
   cs' = filter (\<lambda>c. \<not> in_gaps (ucast (sc_tsn c - cum)) gs) cs"
proof (induction gs arbitrary: cs flight anyNew)
  case (Cons g gs)
  obtain a b where g: "g = (a, b)" by (cases g)
  obtain ds f2 a2 where d: "ack_gap cum g (cs, flight, anyNew) = (ds, f2, a2)" by (metis prod_cases3)
  have "ds = filter (\<lambda>c. \<not> (ucast (sc_tsn c - cum) \<ge> a \<and> ucast (sc_tsn c - cum) \<le> b)) cs"
    using ack_chunks_filter d unfolding ack_gap_def g prod.case by blast
  moreover have "cs' = filter (\<lambda>c. \<not> in_gaps (ucast (sc_tsn c - cum)) gs) ds" using Cons.IH [of ds f2 a2] Cons.prems d by simp
  ultimately show ?case by (auto simp: in_gaps_def g intro: filter_cong)
qed (simp add: in_gaps_def)

text \<open>Sending only appends to the list of sent chunks.\<close>

abbreviation grows :: "SctpSession \<Rightarrow> SctpSession \<Rightarrow> bool" where
  "grows s s' \<equiv> prefix (mSentChunks s) (mSentChunks s')"

lemma sendFragment_grows: "grows s (sendFragment a b c d p s)"
  by (simp add: sendFragment_def Let_def send_packet_def emit_def)

lemma sendFragments_grows: "grows s (sendFragments a b c d p off first s)"
proof (induction a b c d p off first s rule: sendFragments.induct)
  case (1 a b c d p off first s)
  show ?case
  proof (cases "off < length p")
    case True
    show ?thesis
      using "1.IH" [OF True refl refl refl refl refl refl]
      unfolding sendFragments.simps [of a b c d p off first s] if_P [OF True] Let_def
      by (rule prefix_order.trans [OF sendFragment_grows])
  qed (simp add: sendFragments.simps [of a b c d p off first s])
qed

lemma sendMessageNow_grows: "grows s (sendMessageNow i m s)"
proof -
  let ?u = "upd_channel i (\<lambda>ch. ch\<lparr>dc_sendSsn := dc_sendSsn ch + 1\<rparr>) s"
  have "grows s (sendFragment a b c d p ?u)" "grows s (sendFragments a b c d p 0 True ?u)" for a b c d p
    using sendFragment_grows [of ?u] sendFragments_grows [of ?u] by simp_all
  then show ?thesis unfolding sendMessageNow_def Let_def by (simp split: if_split)
qed

lemma transmit_loop_grows: "grows s (transmit_loop ms s)"
proof (induction ms arbitrary: s)
  case (Cons m ms)
  have "grows s (transmit_loop ms (sendMessageNow i m s))" for i
    using Cons.IH sendMessageNow_grows by (rule prefix_order.trans [rotated])
  then show ?case using Cons.IH by (simp add: Let_def split: option.split)
qed simp

lemma apply_sack_chunks:
  "prefix (filter (\<lambda>c. \<not> sint (sc_tsn c - cum) \<le> 0 \<and> \<not> in_gaps (ucast (sc_tsn c - cum)) gs) (mSentChunks s))
     (mSentChunks (apply_sack cum a gs s))"
proof -
  obtain ds f b where d: "ack_chunks (\<lambda>c. sint (sc_tsn c - cum) \<le> 0) (mSentChunks s) (mFlightSize s) False = (ds, f, b)" by (metis prod_cases3)
  obtain cs f' b' where c: "fold (ack_gap cum) gs (ds, f, b) = (cs, f', b')" by (metis prod_cases3)
  have "cs = filter (\<lambda>c. \<not> sint (sc_tsn c - cum) \<le> 0 \<and> \<not> in_gaps (ucast (sc_tsn c - cum)) gs) (mSentChunks s)"
    using ack_chunks_filter [OF d] ack_gaps_filter [OF c] by (simp add: conj_commute)
  moreover have "prefix cs (mSentChunks (apply_sack cum a gs s))"
    using transmit_loop_grows [of "stopT3Rtx (s\<lparr>mPeerRwnd := a, mSentChunks := cs, mFlightSize := f'\<rparr>)"]
      transmit_loop_grows [of "startT3Rtx (s\<lparr>mPeerRwnd := a, mSentChunks := cs, mFlightSize := f'\<rparr>)"]
    by (simp add: apply_sack_def Let_def d c transmitPending_def)
  ultimately show ?thesis by simp
qed

text \<open>
  C9. An acknowledgement says exactly what was received: when the receiver has recorded the chunks
  up to number \<open>c\<close> and those in \<open>G\<close>, the sender that handles the acknowledgement the receiver
  builds keeps, of the chunks it had sent, exactly those that were not received, in their order.
\<close>
theorem sack_exact:
  assumes "rx_record c G R" "map sc_tsn (mSentChunks S) = map of_nat ts" "\<forall>t \<in> set ts. t < c + 65536 \<and> c \<le> t + 2 ^ 31"
  shows "\<exists>S' kept. onReceiveSack \<lparr>ch_type = kChunkSack, ch_flags = 0, ch_data = sack_body R\<rparr> S = Some S' \<and>
    prefix kept (mSentChunks S') \<and> subseq kept (mSentChunks S) \<and> map sc_tsn kept = map of_nat (filter (\<lambda>t. c < t \<and> t \<notin> G) ts)"
proof -
  have c: "mPeerCumulativeTsn R = of_nat c" using assms(1) by (simp add: rx_record_def)
  let ?keep = "\<lambda>x. \<not> sint (x - of_nat c :: u32) \<le> 0 \<and> \<not> in_gaps (ucast (x - of_nat c)) (sack_gaps R)"
  let ?kept = "filter (\<lambda>ch. ?keep (sc_tsn ch)) (mSentChunks S)"
  have "?keep (of_nat t) \<longleftrightarrow> c < t \<and> t \<notin> G" if t: "t \<in> set ts" for t
  proof -
    have "sint (of_nat t - of_nat c :: u32) = int t - int c" using assms(3) t by (intro serial_difference) auto
    then show ?thesis using sack_gaps_exact(1) [OF assms(1), of t, unfolded c] assms(3) t by auto
  qed
  then have "filter (\<lambda>t. ?keep (of_nat t)) ts = filter (\<lambda>t. c < t \<and> t \<notin> G) ts" by (rule filter_cong [OF refl])
  moreover have "map sc_tsn ?kept = filter ?keep (map sc_tsn (mSentChunks S))" by (simp add: filter_map comp_def)
  ultimately have "map sc_tsn ?kept = map of_nat (filter (\<lambda>t. c < t \<and> t \<notin> G) ts)"
    unfolding assms(2) by (simp add: filter_map comp_def)
  moreover have "length (sack_gaps R) < 65536" using sack_gaps_exact(2) [OF assms(1), of "c + 1"] by simp
  ultimately show ?thesis
    using onReceiveSack_body apply_sack_chunks [of "of_nat c" "sack_gaps R" S kInitRwnd]
    by (intro exI [of _ "apply_sack (mPeerCumulativeTsn R) kInitRwnd (sack_gaps R) S"] exI [of _ ?kept]) (simp add: c)
qed

definition example_receiver :: SctpSession where
  "example_receiver = (SctpSession_new (\<lambda>_. 7) 5000 5000 0 False [])\<lparr>mPeerCumulativeTsn := 10, mPeerOutOfOrderTsns := [12]\<rparr>"

definition example_sender :: SctpSession where
  "example_sender = (SctpSession_new (\<lambda>_. 7) 5000 5000 0 False [])\<lparr>mSentChunks :=
     map (\<lambda>t. \<lparr>sc_tsn = t, sc_flags = 3, sc_payloadSize = 0, sc_body = []\<rparr>) [10, 11, 12]\<rparr>"

lemma sack_exact_witness:
  "\<exists>S' kept. onReceiveSack \<lparr>ch_type = kChunkSack, ch_flags = 0, ch_data = sack_body example_receiver\<rparr> example_sender = Some S' \<and>
     prefix kept (mSentChunks S') \<and> map sc_tsn kept = [11]"
proof -
  have rx: "rx_record 10 {12} example_receiver"
    by (simp add: rx_record_def example_receiver_def SctpSession_new_def Let_def)
  have "map sc_tsn (mSentChunks example_sender) = map of_nat [10, 11, 12]" by (simp add: example_sender_def)
  from sack_exact [OF rx this] obtain S' kept where
    "onReceiveSack \<lparr>ch_type = kChunkSack, ch_flags = 0, ch_data = sack_body example_receiver\<rparr> example_sender = Some S'"
    "prefix kept (mSentChunks S')" "map sc_tsn kept = map of_nat (filter (\<lambda>t. 10 < t \<and> t \<notin> {12}) [10, 11, 12])" by auto
  then show ?thesis by auto
qed

section \<open>Defects\<close>

lemma read_gaps_short: "reader_inv r \<Longrightarrow> length (unread r) < 4 * n \<Longrightarrow> read_gaps n r = None"
proof (induction n arbitrary: r)
  case (Suc n)
  show ?case
  proof (cases "length (unread r) < 4")
    case True
    then show ?thesis using Suc.prems(1) by (auto simp: read_simps split: bind_splits)
  next
    case False
    then show ?thesis using Suc.prems Suc.IH [of "advance 4 r"] by (auto simp: read_simps)
  qed
qed simp

text \<open>
  C37. The number of gap blocks of a received acknowledgement is not compared with the size of the
  chunk: a chunk that announces more blocks than it holds aborts the process.
\<close>
theorem sack_gap_count_aborts:
  assumes "12 + length rest < 65536" "length rest < 4 * unat gaps"
  shows "onReceiveSack \<lparr>ch_type = kChunkSack, ch_flags = 0,
    ch_data = u32_bytes cum @ u32_bytes rwnd @ u16_bytes gaps @ u16_bytes dups @ rest\<rparr> s = None"
proof -
  define d where "d = u32_bytes cum @ u32_bytes rwnd @ u16_bytes gaps @ u16_bytes dups @ rest"
  let ?r = "ByteReader_new d"
  have l: "length d = 12 + length rest" by (simp add: d_def)
  have "readU32 ?r = Some (cum, advance 4 ?r)" "readU32 (advance 4 ?r) = Some (rwnd, advance 8 ?r)"
    "readU16 (advance 8 ?r) = Some (gaps, advance 10 ?r)" "reader_skip 2 (advance 10 ?r) = Some (advance 12 ?r)"
    using l by (simp_all add: read_simps) (simp_all add: d_def)
  moreover have "read_gaps (unat gaps) (advance 12 ?r) = None"
    using l assms(2) by (intro read_gaps_short) (simp_all add: read_simps)
  ultimately show ?thesis unfolding onReceiveSack_def Chunk.simps d_def [symmetric] Let_def using l by simp
qed

lemma sack_gap_count_aborts_witness:
  "onReceiveSack \<lparr>ch_type = kChunkSack, ch_flags = 0, ch_data = u32_bytes 1 @ u32_bytes 2 @ u16_bytes 1 @ u16_bytes 0 @ []\<rparr>
     (SctpSession_new (\<lambda>_. 7) 5000 5000 0 False []) = None"
  by (rule sack_gap_count_aborts) simp_all

text \<open>
  The control message that opens a channel takes number 0 of its stream, but the first message that
  the session sends on the channel has number 0 too; a receiver that has consumed the number of the
  control message discards it.
\<close>

lemma first_message_ssn:
  assumes "i < length (mDataChannels s)" "dc_sendSsn (mDataChannels s ! i) = 0" "length (payload_of m) \<le> kMaxFragmentPayload" "payload_of m \<noteq> []"
    "\<not> dc_unordered (mDataChannels s ! i)"
  shows "\<exists>chunk ppid. mSentChunks (sendMessageNow i m s) = mSentChunks s @ [chunk] \<and>
    sc_body chunk = data_body (mCurrentTsn s) (dc_streamId (mDataChannels s ! i)) 0 ppid (payload_of m)"
  using assms by (simp add: sendMessageNow_def Let_def sendFragment_def send_packet_def emit_def) (auto simp: upd_channel_def)

lemma first_message_discarded:
  "rb_receive 0 flags False ppid data (consumeSsn 0 DataChannelReceiveBuffer_new) = ([], consumeSsn 0 DataChannelReceiveBuffer_new)"
  by (simp add: rb_receive_def consumeSsn_def DataChannelReceiveBuffer_new_def)

end
