(* ===== verification/Timed_Queue.thy ===== *)
theory Timed_Queue
  imports Prelude "HOL-Library.Multiset"
begin

text \<open>
  Queues ordered by time, as the schedulers (\<^verbatim>\<open>src/scheduler.cpp\<close>) and the pacer
  (\<^verbatim>\<open>src/send_pacer.cpp\<close>) keep them: insertion by \<^verbatim>\<open>std::upper_bound\<close>, the contract \<open>timed_queue\<close> that it
  satisfies for every key, removal by identity and the conversion of durations.
\<close>

unbundle bit_operations_syntax

section \<open>Insertion behind equal times\<close>

text \<open>
  \<^verbatim>\<open>std::upper_bound\<close> on a range sorted by time finds the first element that is later; the new element
  is inserted before it.
\<close>

definition upper_bound_insert :: "('a \<Rightarrow> int) \<Rightarrow> 'a \<Rightarrow> 'a list \<Rightarrow> 'a list" where
  "upper_bound_insert key x q = takeWhile (\<lambda>y. \<not> key x < key y) q @ x # dropWhile (\<lambda>y. \<not> key x < key y) q"

text \<open>What the schedulers and the pacer rely on.\<close>

locale timed_queue =
  fixes key :: "'a \<Rightarrow> int" and ins :: "'a \<Rightarrow> 'a list \<Rightarrow> 'a list"
  assumes ins_mset: "mset (ins x q) = add_mset x (mset q)"
    and ins_sorted: "sorted (map key q) \<Longrightarrow> sorted (map key (ins x q))"
    and ins_other: "\<not> P x \<Longrightarrow> filter P (ins x q) = filter P q"
    and ins_last: "sorted (map key q) \<Longrightarrow> P x \<Longrightarrow> \<forall>y \<in> set q. P y \<longrightarrow> key y \<le> key x \<Longrightarrow> filter P (ins x q) = filter P q @ [x]"
begin

lemma ins_set: "set (ins x q) = insert x (set q)"
  using arg_cong [OF ins_mset, of set_mset] by simp

lemma ins_length: "length (ins x q) = Suc (length q)"
  using arg_cong [OF ins_mset, of size] by simp

text \<open>The elements that are due are the first ones.\<close>

lemma due_first:
  assumes "sorted (map key q)"
  shows "takeWhile (\<lambda>x. key x \<le> t) q = filter (\<lambda>x. key x \<le> t) q \<and> dropWhile (\<lambda>x. key x \<le> t) q = filter (\<lambda>x. \<not> key x \<le> t) q"
  using assms
proof (induction q)
  case (Cons a q)
  have "filter (\<lambda>x. key x \<le> t) q = [] \<and> filter (\<lambda>x. \<not> key x \<le> t) q = q" if "\<not> key a \<le> t"
    using that Cons.prems by (force simp: filter_empty_conv filter_id_conv)
  then show ?case using Cons by auto
qed simp

text \<open>Elements of a kind that is not in the queue yet, inserted by ascending times, stay in their order.\<close>

lemma fold_ins_sorted: "sorted (map key q) \<Longrightarrow> sorted (map key (fold ins xs q))"
  by (induction xs arbitrary: q) (simp_all add: ins_sorted)

lemma fold_ins_set: "set (fold ins xs q) = set xs \<union> set q"
  by (induction xs arbitrary: q) (auto simp: ins_set)

lemma fold_ins_other: "\<forall>x \<in> set xs. \<not> P x \<Longrightarrow> filter P (fold ins xs q) = filter P q"
  by (induction xs arbitrary: q) (simp_all add: ins_other)

lemma fold_ins_kind:
  "\<forall>x \<in> set xs. P x \<Longrightarrow> sorted (map key xs) \<Longrightarrow> \<forall>y \<in> set q. P y \<longrightarrow> (\<forall>x \<in> set xs. key y \<le> key x) \<Longrightarrow>
   sorted (map key q) \<Longrightarrow> filter P (fold ins xs q) = filter P q @ xs"
  by (induction xs arbitrary: q) (auto simp: ins_last ins_set ins_sorted)

end

lemma upper_bound_insert_queue: "timed_queue key (upper_bound_insert key)"
proof
  fix x :: 'a and q :: "'a list" and P
  have q: "takeWhile (\<lambda>y. \<not> key x < key y) q @ dropWhile (\<lambda>y. \<not> key x < key y) q = q" by simp
  show "mset (upper_bound_insert key x q) = add_mset x (mset q)"
    unfolding upper_bound_insert_def using arg_cong [OF q, of mset] unfolding mset_append mset.simps by simp
  show "sorted (map key (upper_bound_insert key x q))" if s: "sorted (map key q)"
    using s by (induction q) (auto simp: upper_bound_insert_def dest: set_takeWhileD set_dropWhileD)
  show "filter P (upper_bound_insert key x q) = filter P q" if "\<not> P x"
    unfolding upper_bound_insert_def using arg_cong [OF q, of "filter P"] that unfolding filter_append by simp
  show "filter P (upper_bound_insert key x q) = filter P q @ [x]"
    if p: "sorted (map key q)" "P x" "\<forall>y \<in> set q. P y \<longrightarrow> key y \<le> key x"
  proof -
    have "y \<in> set (dropWhile (\<lambda>y. \<not> key x < key y) q) \<Longrightarrow> key x < key y" for y
      using p(1) by (induction q) (auto split: if_splits)
    then have "\<not> P y" if "y \<in> set (dropWhile (\<lambda>y. \<not> key x < key y) q)" for y
      using that p(3) set_dropWhileD [OF that] by (metis not_less)
    then have "filter P (dropWhile (\<lambda>y. \<not> key x < key y) q) = []" by (simp add: filter_empty_conv)
    then show ?thesis
      unfolding upper_bound_insert_def using arg_cong [OF q, of "filter P"] p(2) unfolding filter_append by simp
  qed
qed

section \<open>Removal by identity\<close>

text \<open>\<^verbatim>\<open>std::find\<close> and \<^verbatim>\<open>erase\<close> of what was found.\<close>

fun erase_first :: "('a \<Rightarrow> bool) \<Rightarrow> 'a list \<Rightarrow> 'a list" where
  "erase_first P [] = []"
| "erase_first P (x # xs) = (if P x then xs else x # erase_first P xs)"

lemma erase_first_filter: "distinct (map f xs) \<Longrightarrow> erase_first (\<lambda>x. f x = k) xs = filter (\<lambda>x. f x \<noteq> k) xs"
proof (induction xs)
  case (Cons x xs)
  have "filter (\<lambda>y. f y \<noteq> k) xs = xs" if "f x = k" using that Cons.prems by (fastforce simp: filter_id_conv image_iff)
  then show ?case using Cons by simp
qed simp

section \<open>Durations\<close>

text \<open>A duration is converted to milliseconds towards zero.\<close>

definition to_millis :: "int \<Rightarrow> int" where
  "to_millis d = (if d < 0 then - (- d div 1000000) else d div 1000000)"

end
