(* ===== verification/Scheduler.thy ===== *)
theory Scheduler
  imports Timed_Queue "HOL-Library.Monad_Syntax"
begin

text \<open>
  \<^verbatim>\<open>src/scheduler.cpp\<close>: the scheduler of the network loop (\<^verbatim>\<open>LoopScheduler\<close>) and the scheduler that
  cancels what its owner submitted (\<^verbatim>\<open>ScopedScheduler\<close>). Running tasks ends as long as the functions that run
  add no task that is due; destroying a scoped scheduler leaves none of its tasks.
\<close>

unbundle bit_operations_syntax

section \<open>The scheduler of the network loop\<close>

text \<open>
  Times are nanoseconds of the steady clock. A task object is identified by \<open>lt_id\<close>; a weak pointer
  to a task is its identity, and is expired when the task is neither in the queue nor running. \<open>'f\<close> is
  the type of the functions that tasks run.
\<close>

record 'f LoopTask =
  lt_id :: nat
  lt_when :: int
  lt_func :: 'f

record 'f LoopScheduler =
  mTaskQueue :: "'f LoopTask list"
  ls_running :: "'f LoopTask option"
  ls_next :: nat

definition LoopScheduler_new :: "'f LoopScheduler" where
  "LoopScheduler_new = \<lparr>mTaskQueue = [], ls_running = None, ls_next = 0\<rparr>"

definition loop_submit :: "int \<Rightarrow> int \<Rightarrow> 'f \<Rightarrow> 'f LoopScheduler \<Rightarrow> nat \<times> 'f LoopScheduler" where
  "loop_submit now delay func s =
     (let task = \<lparr>lt_id = ls_next s, lt_when = now + delay, lt_func = func\<rparr>
      in (lt_id task, s\<lparr>mTaskQueue := upper_bound_insert lt_when task (mTaskQueue s), ls_next := Suc (ls_next s)\<rparr>))"

definition loop_cancelImpl :: "nat \<Rightarrow> 'f LoopScheduler \<Rightarrow> 'f LoopScheduler" where
  "loop_cancelImpl task s = s\<lparr>mTaskQueue := erase_first (\<lambda>t. lt_id t = task) (mTaskQueue s)\<rparr>"

definition loop_updateImpl :: "int \<Rightarrow> int \<Rightarrow> 'f LoopTask \<Rightarrow> 'f LoopScheduler \<Rightarrow> nat \<times> 'f LoopScheduler" where
  "loop_updateImpl now delay oldTask s =
     (let s = loop_cancelImpl (lt_id oldTask) s;
          newTask = \<lparr>lt_id = ls_next s, lt_when = now + delay, lt_func = lt_func oldTask\<rparr>
      in (lt_id newTask, s\<lparr>mTaskQueue := upper_bound_insert lt_when newTask (mTaskQueue s), ls_next := Suc (ls_next s)\<rparr>))"

definition loop_getTimeoutMillis :: "int \<Rightarrow> 32 word \<Rightarrow> 'f LoopScheduler \<Rightarrow> 32 word" where
  "loop_getTimeoutMillis now defaultValue s =
     (case mTaskQueue s of
        [] \<Rightarrow> defaultValue
      | task # _ \<Rightarrow>
          let diff = to_millis (lt_when task - now) in
          if diff \<le> 0 then 0
          else if diff > 4294967295 then 2147483647
          else word_of_int diff)"

text \<open>
  \<^verbatim>\<open>LoopScheduler::run\<close>: \<open>exec\<close> runs a function, which may use the scheduler and the rest \<open>'e\<close> of the
  program; \<open>clock n\<close> is the \<open>n\<close>-th reading of the clock. The loop ends when no task is due.
\<close>

partial_function (option) loop_run ::
  "('f \<Rightarrow> 'f LoopScheduler \<times> 'e \<Rightarrow> 'f LoopScheduler \<times> 'e) \<Rightarrow> (nat \<Rightarrow> int) \<Rightarrow> nat \<Rightarrow> 'f LoopScheduler \<Rightarrow> 'e \<Rightarrow> (nat \<times> 'f LoopScheduler \<times> 'e) option" where
  "loop_run exec clock n s e =
     (case mTaskQueue s of
        [] \<Rightarrow> Some (n, s, e)
      | task # rest \<Rightarrow>
          if lt_when task \<le> clock n then
            (let (s', e') = exec (lt_func task) (s\<lparr>mTaskQueue := rest, ls_running := Some task\<rparr>, e)
             in loop_run exec clock (Suc n) (s'\<lparr>ls_running := None\<rparr>) e')
          else Some (n, s, e))"

section \<open>Scheduling for one owner\<close>

text \<open>
  \<^verbatim>\<open>ScopedScheduler\<close> keeps the tasks that its owner submitted, and cancels them when it is destroyed.
  Its own task objects pair an identity with that of the task of the real scheduler.
\<close>

record ScopedTask =
  st_id :: nat
  st_task :: nat

record ScopedScheduler =
  mSubmitted :: "ScopedTask list"
  sc_next :: nat

definition lock_task :: "'f LoopScheduler \<Rightarrow> nat \<Rightarrow> 'f LoopTask option" where
  "lock_task s t = find (\<lambda>x. lt_id x = t) ((case ls_running s of None \<Rightarrow> [] | Some r \<Rightarrow> [r]) @ mTaskQueue s)"

definition removeExpired :: "'f LoopScheduler \<Rightarrow> ScopedScheduler \<Rightarrow> ScopedScheduler" where
  "removeExpired s c = c\<lparr>mSubmitted := filter (\<lambda>t. lock_task s (st_task t) \<noteq> None) (mSubmitted c)\<rparr>"

definition scoped_submit :: "int \<Rightarrow> int \<Rightarrow> 'f \<Rightarrow> ScopedScheduler \<times> 'f LoopScheduler \<Rightarrow> nat \<times> ScopedScheduler \<times> 'f LoopScheduler" where
  "scoped_submit now delay func cs =
     (case cs of (c, s) \<Rightarrow>
        let c = removeExpired s c;
            (task, s) = loop_submit now delay func s;
            impl = \<lparr>st_id = sc_next c, st_task = task\<rparr>
        in (st_id impl, c\<lparr>mSubmitted := mSubmitted c @ [impl], sc_next := Suc (sc_next c)\<rparr>, s))"

definition scoped_cancelImpl :: "ScopedTask \<Rightarrow> ScopedScheduler \<times> 'f LoopScheduler \<Rightarrow> ScopedScheduler \<times> 'f LoopScheduler" where
  "scoped_cancelImpl task cs =
     (case cs of (c, s) \<Rightarrow>
        (c\<lparr>mSubmitted := erase_first (\<lambda>t. st_id t = st_id task) (mSubmitted c)\<rparr>, loop_cancelImpl (st_task task) s))"

definition scoped_updateImpl ::
  "int \<Rightarrow> int \<Rightarrow> ScopedTask \<Rightarrow> ScopedScheduler \<times> 'f LoopScheduler \<Rightarrow> nat option \<times> ScopedScheduler \<times> 'f LoopScheduler" where
  "scoped_updateImpl now delay oldTask cs =
     (case cs of (c, s) \<Rightarrow>
        let c = removeExpired s c;
            c = c\<lparr>mSubmitted := erase_first (\<lambda>t. st_id t = st_id oldTask) (mSubmitted c)\<rparr>
        in case lock_task s (st_task oldTask) of
             None \<Rightarrow> (None, c, s)
           | Some ptr \<Rightarrow>
               let (updated, s) = loop_updateImpl now delay ptr s;
                   newTask = \<lparr>st_id = sc_next c, st_task = updated\<rparr>
               in (Some (st_id newTask), c\<lparr>mSubmitted := mSubmitted c @ [newTask], sc_next := Suc (sc_next c)\<rparr>, s))"

definition ScopedScheduler_destroy :: "ScopedScheduler \<times> 'f LoopScheduler \<Rightarrow> ScopedScheduler \<times> 'f LoopScheduler" where
  "ScopedScheduler_destroy cs =
     (case cs of (c, s) \<Rightarrow>
        let s = fold (\<lambda>t s. loop_cancelImpl (st_task t) s) (mSubmitted c) s
        in (c\<lparr>mSubmitted := []\<rparr>, s))"

section \<open>The queue\<close>

interpretation loop_queue: timed_queue lt_when "upper_bound_insert lt_when"
  by (rule upper_bound_insert_queue)

definition loop_inv :: "'f LoopScheduler \<Rightarrow> bool" where
  "loop_inv s \<longleftrightarrow> sorted (map lt_when (mTaskQueue s)) \<and> distinct (map lt_id (mTaskQueue s)) \<and>
     (\<forall>t \<in> set (mTaskQueue s). lt_id t < ls_next s)"

lemma loop_insert_inv:
  assumes "loop_inv s"
  shows "loop_inv (s\<lparr>mTaskQueue := upper_bound_insert lt_when \<lparr>lt_id = ls_next s, lt_when = w, lt_func = f\<rparr> (mTaskQueue s), ls_next := Suc (ls_next s)\<rparr>)"
proof -
  let ?t = "\<lparr>lt_id = ls_next s, lt_when = w, lt_func = f\<rparr>"
  have "mset (map lt_id (upper_bound_insert lt_when ?t (mTaskQueue s))) = mset (map lt_id (?t # mTaskQueue s))"
    by (simp add: loop_queue.ins_mset)
  then have "distinct (map lt_id (upper_bound_insert lt_when ?t (mTaskQueue s))) = distinct (map lt_id (?t # mTaskQueue s))"
    by (rule mset_eq_imp_distinct_iff)
  then show ?thesis using assms by (auto simp: loop_inv_def loop_queue.ins_sorted loop_queue.ins_set less_SucI)
qed

lemma loop_cancel_queue: "loop_inv s \<Longrightarrow> mTaskQueue (loop_cancelImpl t s) = filter (\<lambda>x. lt_id x \<noteq> t) (mTaskQueue s)"
  by (simp add: loop_cancelImpl_def loop_inv_def erase_first_filter)

lemma loop_cancel_fields [simp]: "ls_next (loop_cancelImpl t s) = ls_next s" "ls_running (loop_cancelImpl t s) = ls_running s"
  by (simp_all add: loop_cancelImpl_def)

lemma loop_cancel_inv: "loop_inv s \<Longrightarrow> loop_inv (loop_cancelImpl t s)"
  using loop_cancel_queue [of s t] by (simp add: loop_inv_def sorted_filter distinct_map_filter)

lemma loop_submit_inv: "loop_inv s \<Longrightarrow> loop_submit now d f s = (i, s') \<Longrightarrow> loop_inv s'"
  using loop_insert_inv [of s "now + d" f] by (auto simp: loop_submit_def Let_def)

lemma loop_update_inv: "loop_inv s \<Longrightarrow> loop_updateImpl now d old s = (i, s') \<Longrightarrow> loop_inv s'"
  using loop_insert_inv [OF loop_cancel_inv, of s "lt_id old" "now + d" "lt_func old"] by (auto simp: loop_updateImpl_def Let_def)

section \<open>Running tasks\<close>

text \<open>Functions that leave the scheduler alone: the due tasks run, by time and then in the order of submission.\<close>

lemma loop_run_due:
  assumes "sorted (map lt_when (mTaskQueue s))" "ls_running s = None"
  shows "loop_run (\<lambda>f (s, e). (s, g f e)) (\<lambda>_. t) n s e =
    Some (n + length (filter (\<lambda>x. lt_when x \<le> t) (mTaskQueue s)), s\<lparr>mTaskQueue := filter (\<lambda>x. \<not> lt_when x \<le> t) (mTaskQueue s)\<rparr>,
      fold g (map lt_func (filter (\<lambda>x. lt_when x \<le> t) (mTaskQueue s))) e)"
  using assms
proof (induction "mTaskQueue s" arbitrary: s n e)
  case Nil
  then show ?case by (subst loop_run.simps) (simp split: list.split)
next
  case (Cons task rest)
  note q = Cons.hyps(2) [symmetric]
  show ?case
  proof (cases "lt_when task \<le> t")
    case True
    then show ?thesis
      using Cons.hyps(1) [of "s\<lparr>mTaskQueue := rest, ls_running := None\<rparr>" "Suc n" "g (lt_func task) e"] Cons.prems q
      by (subst loop_run.simps) simp
  next
    case False
    then have "filter (\<lambda>x. lt_when x \<le> t) rest = [] \<and> filter (\<lambda>x. \<not> lt_when x \<le> t) rest = rest"
      using Cons.prems q by (force simp: filter_empty_conv filter_id_conv)
    then show ?thesis using False q by (subst loop_run.simps) simp
  qed
qed

text \<open>The number of tasks due by time \<open>T\<close>.\<close>

definition due_count :: "int \<Rightarrow> 'f LoopScheduler \<Rightarrow> nat" where
  "due_count T s = length (filter (\<lambda>x. lt_when x \<le> T) (mTaskQueue s))"

text \<open>
  C20. A run of the scheduler ends, and leaves no task that is due by its last reading of the clock,
  when the functions it runs keep the queue sorted and schedule nothing that is due before the end of
  the run: the loop makes at most one round for each task due.
\<close>
theorem loop_run_ends:
  assumes "\<forall>n. clock n \<le> T" "sorted (map lt_when (mTaskQueue s))"
    and "\<forall>f s e. sorted (map lt_when (mTaskQueue s)) \<longrightarrow>
      sorted (map lt_when (mTaskQueue (fst (exec f (s, e))))) \<and> due_count T (fst (exec f (s, e))) \<le> due_count T s"
  shows "\<exists>n' s' e'. loop_run exec clock n s e = Some (n', s', e') \<and> n' \<le> n + due_count T s \<and>
    (\<forall>t \<in> set (mTaskQueue s'). clock n' < lt_when t)"
  using assms(2)
proof (induction "due_count T s" arbitrary: n s e rule: less_induct)
  case less
  show ?case
  proof (cases "mTaskQueue s")
    case Nil
    then show ?thesis by (subst loop_run.simps) simp
  next
    case (Cons task rest)
    show ?thesis
    proof (cases "lt_when task \<le> clock n")
      case False
      moreover have "\<forall>t \<in> set (mTaskQueue s). clock n < lt_when t" using less.prems Cons False by auto
      ultimately show ?thesis using Cons by (subst loop_run.simps) simp
    next
      case True
      let ?s = "s\<lparr>mTaskQueue := rest, ls_running := Some task\<rparr>"
      obtain s1 e1 where x: "exec (lt_func task) (?s, e) = (s1, e1)" by (metis surj_pair)
      let ?s1 = "s1\<lparr>ls_running := None\<rparr>"
      have "lt_when task \<le> T" using True assms(1) order_trans by blast
      then have d: "due_count T s = Suc (due_count T ?s)" using Cons by (simp add: due_count_def)
      have "sorted (map lt_when (mTaskQueue ?s))" using less.prems Cons by simp
      with assms(3) x have k: "sorted (map lt_when (mTaskQueue s1))" "due_count T s1 \<le> due_count T ?s" by (metis fst_conv)+
      then have "due_count T ?s1 < due_count T s" "sorted (map lt_when (mTaskQueue ?s1))" using d by (simp_all add: due_count_def)
      from less.hyps [OF this, of "Suc n" e1] obtain n' s' e' where r: "loop_run exec clock (Suc n) ?s1 e1 = Some (n', s', e')"
        "n' \<le> Suc n + due_count T ?s1" "\<forall>t \<in> set (mTaskQueue s'). clock n' < lt_when t" by blast
      moreover have "loop_run exec clock n s e = loop_run exec clock (Suc n) ?s1 e1"
        using Cons True x by (subst loop_run.simps) simp
      moreover have "Suc n + due_count T ?s1 \<le> n + due_count T s" using d k(2) by (simp add: due_count_def)
      ultimately show ?thesis by auto
    qed
  qed
qed

definition example_queue :: "nat LoopScheduler" where
  "example_queue = \<lparr>mTaskQueue = [\<lparr>lt_id = 0, lt_when = 3, lt_func = 0\<rparr>, \<lparr>lt_id = 1, lt_when = 9, lt_func = 0\<rparr>], ls_running = None, ls_next = 2\<rparr>"

text \<open>A task that schedules itself again, ten ticks later.\<close>

lemma loop_run_ends_witness:
  "\<exists>n' s' e'. loop_run (\<lambda>f (s, e). (snd (loop_submit 5 10 f s), Suc e)) (\<lambda>_. 5) 0 example_queue 0 = Some (n', s', e' :: nat) \<and>
     (\<forall>t \<in> set (mTaskQueue s'). 5 < lt_when t)"
proof -
  let ?exec = "\<lambda>f (s :: nat LoopScheduler, e). (snd (loop_submit 5 10 f s), Suc e)"
  have "\<forall>f s e. sorted (map lt_when (mTaskQueue s)) \<longrightarrow>
      sorted (map lt_when (mTaskQueue (fst (?exec f (s, e))))) \<and> due_count 5 (fst (?exec f (s, e))) \<le> due_count 5 s"
    by (simp add: loop_submit_def Let_def loop_queue.ins_sorted due_count_def loop_queue.ins_other)
  from loop_run_ends [OF _ _ this, of "\<lambda>_. 5" example_queue 0 0] show ?thesis by (auto simp: example_queue_def)
qed

section \<open>No task outlives its owner\<close>

text \<open>
  The operations of one owner's scoped scheduler, interleaved with what others do with the same
  scheduler. \<open>own\<close> are the tasks of the real scheduler that were created for the owner.
\<close>

inductive scoped_history :: "ScopedScheduler \<Rightarrow> 'f LoopScheduler \<Rightarrow> nat set \<Rightarrow> bool" where
  fresh: "loop_inv s \<Longrightarrow> scoped_history \<lparr>mSubmitted = [], sc_next = 0\<rparr> s {}"
| own_submit: "scoped_history c s own \<Longrightarrow> scoped_submit now d f (c, s) = (i, c', s') \<Longrightarrow> scoped_history c' s' (insert (ls_next s) own)"
| own_cancel: "scoped_history c s own \<Longrightarrow> t \<in> set (mSubmitted c) \<Longrightarrow> scoped_cancelImpl t (c, s) = (c', s') \<Longrightarrow> scoped_history c' s' own"
| own_update: "scoped_history c s own \<Longrightarrow> t \<in> set (mSubmitted c) \<Longrightarrow> scoped_updateImpl now d t (c, s) = (i, c', s') \<Longrightarrow>
    scoped_history c' s' (if i = None then own else insert (ls_next s) own)"
| other_submit: "scoped_history c s own \<Longrightarrow> loop_submit now d f s = (i, s') \<Longrightarrow> scoped_history c s' own"
| other_cancel: "scoped_history c s own \<Longrightarrow> scoped_history c (loop_cancelImpl t s) own"
| task_start: "scoped_history c s own \<Longrightarrow> mTaskQueue s = t # rest \<Longrightarrow> scoped_history c (s\<lparr>mTaskQueue := rest, ls_running := Some t\<rparr>) own"
| task_end: "scoped_history c s own \<Longrightarrow> scoped_history c (s\<lparr>ls_running := None\<rparr>) own"

definition scoped_inv :: "ScopedScheduler \<Rightarrow> 'f LoopScheduler \<Rightarrow> nat set \<Rightarrow> bool" where
  "scoped_inv c s own \<longleftrightarrow> loop_inv s \<and> (\<forall>k \<in> own. k < ls_next s) \<and> (\<forall>x \<in> set (mTaskQueue s). lt_id x \<in> own \<longrightarrow> lt_id x \<in> st_task ` set (mSubmitted c)) \<and>
     distinct (map st_id (mSubmitted c)) \<and> (\<forall>t \<in> set (mSubmitted c). st_id t < sc_next c)"

lemma removeExpired_inv: "scoped_inv c s own \<Longrightarrow> scoped_inv (removeExpired s c) s own"
proof -
  have "lock_task s (lt_id x) \<noteq> None" if "x \<in> set (mTaskQueue s)" for x
    using that by (auto simp: lock_task_def find_None_iff)
  then show "scoped_inv c s own \<Longrightarrow> scoped_inv (removeExpired s c) s own"
    by (fastforce simp: scoped_inv_def removeExpired_def distinct_map_filter)
qed

text \<open>A task is created for the owner, perhaps in the place of another one.\<close>

lemma scoped_add:
  assumes "scoped_inv c s own" "loop_inv s'" "ls_next s' = Suc (ls_next s)"
    and "\<forall>x \<in> set (mTaskQueue s'). lt_id x = ls_next s \<or> x \<in> set (mTaskQueue s)"
  shows "scoped_inv (c\<lparr>mSubmitted := mSubmitted c @ [\<lparr>st_id = sc_next c, st_task = ls_next s\<rparr>], sc_next := Suc (sc_next c)\<rparr>) s' (insert (ls_next s) own)"
  unfolding scoped_inv_def
proof (intro conjI)
  show "\<forall>x \<in> set (mTaskQueue s'). lt_id x \<in> insert (ls_next s) own \<longrightarrow>
      lt_id x \<in> st_task ` set (mSubmitted (c\<lparr>mSubmitted := mSubmitted c @ [\<lparr>st_id = sc_next c, st_task = ls_next s\<rparr>], sc_next := Suc (sc_next c)\<rparr>))"
    using assms(1,4) by (auto simp: scoped_inv_def)
qed (use assms(1-3) in \<open>auto simp: scoped_inv_def less_SucI\<close>)

lemma scoped_erase:
  assumes "scoped_inv c s own" "t \<in> set (mSubmitted c)"
  shows "scoped_inv (c\<lparr>mSubmitted := erase_first (\<lambda>x. st_id x = st_id t) (mSubmitted c)\<rparr>) (loop_cancelImpl (st_task t) s) own"
proof -
  have e: "erase_first (\<lambda>x. st_id x = st_id t) (mSubmitted c) = filter (\<lambda>x. st_id x \<noteq> st_id t) (mSubmitted c)"
    using assms(1) by (intro erase_first_filter) (simp add: scoped_inv_def)
  have inj: "inj_on st_id (set (mSubmitted c))" using assms(1) by (simp add: scoped_inv_def distinct_map)
  have inv: "loop_inv s" using assms(1) by (simp add: scoped_inv_def)
  show ?thesis
    unfolding scoped_inv_def
  proof (intro conjI ballI impI)
    fix x assume x: "x \<in> set (mTaskQueue (loop_cancelImpl (st_task t) s))" "lt_id x \<in> own"
    then have "x \<in> set (mTaskQueue s)" "lt_id x \<noteq> st_task t" using loop_cancel_queue [OF inv] by simp_all
    moreover from this(1) obtain y where y: "y \<in> set (mSubmitted c)" "lt_id x = st_task y"
      using assms(1) x(2) by (auto simp: scoped_inv_def)
    ultimately have "st_id y \<noteq> st_id t" using inj assms(2) by (auto dest: inj_onD)
    with y show "lt_id x \<in> st_task ` set (mSubmitted (c\<lparr>mSubmitted := erase_first (\<lambda>x. st_id x = st_id t) (mSubmitted c)\<rparr>))"
      unfolding e by auto
  qed (use assms(1) loop_cancel_inv [OF inv] in \<open>auto simp: scoped_inv_def e distinct_map_filter\<close>)
qed

lemma scoped_shrink:
  assumes "scoped_inv c s own" "loop_inv s'" "ls_next s \<le> ls_next s'" "\<forall>x \<in> set (mTaskQueue s'). lt_id x \<in> own \<longrightarrow> x \<in> set (mTaskQueue s)"
  shows "scoped_inv c s' own"
  unfolding scoped_inv_def
proof (intro conjI)
  show "\<forall>x \<in> set (mTaskQueue s'). lt_id x \<in> own \<longrightarrow> lt_id x \<in> st_task ` set (mSubmitted c)"
    using assms(1,4) by (auto simp: scoped_inv_def)
qed (use assms(1-3) in \<open>auto simp: scoped_inv_def\<close>)

lemma lock_task_id: "lock_task s t = Some x \<Longrightarrow> lt_id x = t"
  by (simp add: lock_task_def find_Some_iff) blast

lemma scoped_submit_inv:
  assumes "scoped_inv c s own" "scoped_submit now d f (c, s) = (i, c', s')"
  shows "scoped_inv c' s' (insert (ls_next s) own)"
proof -
  obtain k u where u: "loop_submit now d f s = (k, u)" by (metis surj_pair)
  have "loop_inv s" using assms(1) by (simp add: scoped_inv_def)
  then have "loop_inv u" using u by (rule loop_submit_inv)
  moreover have "k = ls_next s" "ls_next u = Suc (ls_next s)" "\<forall>x \<in> set (mTaskQueue u). lt_id x = ls_next s \<or> x \<in> set (mTaskQueue s)"
    using u by (auto simp: loop_submit_def Let_def loop_queue.ins_set)
  ultimately show ?thesis
    using scoped_add [OF removeExpired_inv [OF assms(1)]] assms(2) u by (auto simp: scoped_submit_def Let_def)
qed

lemma scoped_update_inv:
  assumes "scoped_inv c s own" "t \<in> set (mSubmitted c)" "scoped_updateImpl now d t (c, s) = (i, c', s')"
  shows "scoped_inv c' s' (if i = None then own else insert (ls_next s) own)"
proof -
  let ?c = "removeExpired s c"
  let ?e = "?c\<lparr>mSubmitted := erase_first (\<lambda>x. st_id x = st_id t) (mSubmitted ?c)\<rparr>"
  have inv: "scoped_inv ?c s own" "loop_inv s" using removeExpired_inv [OF assms(1)] assms(1) by (simp_all add: scoped_inv_def)
  show ?thesis
  proof (cases "lock_task s (st_task t)")
    case None
    then have "\<forall>x \<in> set (mSubmitted ?c). st_id x \<noteq> st_id t"
      using assms(1,2) by (auto simp: removeExpired_def scoped_inv_def distinct_map dest: inj_onD)
    then have "?e = ?c"
      using inv(1) by (subst erase_first_filter) (auto simp: scoped_inv_def filter_id_conv [THEN iffD2])
    then have "c' = ?c" "s' = s" "i = None" using assms(3) None by (auto simp: scoped_updateImpl_def Let_def)
    then show ?thesis using inv(1) by simp
  next
    case (Some x)
    note x = lock_task_id [OF Some]
    have t: "t \<in> set (mSubmitted ?c)" using assms(2) Some by (simp add: removeExpired_def)
    note er = scoped_erase [OF inv(1) t]
    obtain k u where u: "loop_updateImpl now d x s = (k, u)" by (metis surj_pair)
    have "loop_inv u" using inv(2) u by (rule loop_update_inv)
    moreover have "k = ls_next s" "ls_next u = Suc (ls_next s)"
      "\<forall>y \<in> set (mTaskQueue u). lt_id y = ls_next s \<or> y \<in> set (mTaskQueue (loop_cancelImpl (st_task t) s))"
      using u x by (auto simp: loop_updateImpl_def Let_def loop_queue.ins_set)
    ultimately show ?thesis
      using scoped_add [OF er] assms(3) Some u by (auto simp: scoped_updateImpl_def Let_def)
  qed
qed

lemma scoped_history_inv: "scoped_history c s own \<Longrightarrow> scoped_inv c s own"
proof (induction rule: scoped_history.induct)
  case (fresh s)
  then show ?case by (simp add: scoped_inv_def)
next
  case (own_submit c s own now d f i c' s')
  then show ?case by (blast intro: scoped_submit_inv)
next
  case (own_cancel c s own t c' s')
  then show ?case using scoped_erase [of c s own t] by (auto simp: scoped_cancelImpl_def)
next
  case (own_update c s own t now d i c' s')
  then show ?case by (blast intro: scoped_update_inv)
next
  case (other_submit c s own now d f i s')
  then have inv: "loop_inv s" "\<forall>k \<in> own. k < ls_next s" by (simp_all add: scoped_inv_def)
  have "\<forall>x \<in> set (mTaskQueue s'). lt_id x \<in> own \<longrightarrow> x \<in> set (mTaskQueue s)"
    using other_submit.hyps(2) inv(2) by (fastforce simp: loop_submit_def Let_def loop_queue.ins_set)
  moreover have "ls_next s \<le> ls_next s'" using other_submit.hyps(2) by (auto simp: loop_submit_def Let_def)
  ultimately show ?case
    using scoped_shrink [OF other_submit.IH loop_submit_inv [OF inv(1) other_submit.hyps(2)]] by blast
next
  case (other_cancel c s own t)
  then have inv: "loop_inv s" by (simp add: scoped_inv_def)
  then show ?case using scoped_shrink [OF other_cancel.IH loop_cancel_inv [OF inv]] by (simp add: loop_cancel_queue)
next
  case (task_start c s own t rest)
  then show ?case by (intro scoped_shrink [OF task_start.IH]) (auto simp: scoped_inv_def loop_inv_def)
next
  case (task_end c s own)
  then show ?case by (intro scoped_shrink [OF task_end.IH]) (auto simp: scoped_inv_def loop_inv_def)
qed

lemma fold_cancel:
  "loop_inv s \<Longrightarrow> loop_inv (fold (\<lambda>t s. loop_cancelImpl (st_task t) s) ts s) \<and>
     mTaskQueue (fold (\<lambda>t s. loop_cancelImpl (st_task t) s) ts s) = filter (\<lambda>x. lt_id x \<notin> st_task ` set ts) (mTaskQueue s)"
  by (induction ts arbitrary: s) (auto simp: loop_cancel_inv loop_cancel_queue intro: filter_cong)

text \<open>
  C21. When a scoped scheduler is destroyed, none of the tasks that were created for its owner is left
  in the queue of the real scheduler, whatever the owner and others did before.
\<close>
theorem scoped_destroy_cancels:
  assumes "scoped_history c s own"
  shows "\<forall>x \<in> set (mTaskQueue (snd (ScopedScheduler_destroy (c, s)))). lt_id x \<notin> own"
proof -
  have inv: "scoped_inv c s own" using assms by (rule scoped_history_inv)
  then have "loop_inv s" by (simp add: scoped_inv_def)
  then show ?thesis using inv fold_cancel [of s "mSubmitted c"] by (auto simp: ScopedScheduler_destroy_def Let_def scoped_inv_def)
qed

lemma scoped_destroy_cancels_witness:
  "\<exists>c s. scoped_history c (s :: nat LoopScheduler) {0} \<and> length (mTaskQueue s) = 1 \<and>
     (\<forall>x \<in> set (mTaskQueue (snd (ScopedScheduler_destroy (c, s)))). lt_id x \<notin> {0})"
proof -
  have "scoped_history \<lparr>mSubmitted = [], sc_next = 0\<rparr> (LoopScheduler_new :: nat LoopScheduler) {}"
    by (rule scoped_history.fresh) (simp add: loop_inv_def LoopScheduler_new_def)
  moreover obtain i c s where s: "scoped_submit 0 5 7 (\<lparr>mSubmitted = [], sc_next = 0\<rparr>, LoopScheduler_new :: nat LoopScheduler) = (i, c, s)"
    by (metis surj_pair)
  ultimately have h: "scoped_history c s {0}" using scoped_history.own_submit by (fastforce simp: LoopScheduler_new_def)
  moreover have "length (mTaskQueue s) = 1"
    using s by (auto simp: scoped_submit_def removeExpired_def loop_submit_def Let_def LoopScheduler_new_def upper_bound_insert_def)
  ultimately show ?thesis using scoped_destroy_cancels [OF h] by blast
qed

end
