(* ===== verification/Send_Pacer.thy ===== *)
theory Send_Pacer
  imports Timed_Queue Send_History Extended_Value
begin

text \<open>
  \<^verbatim>\<open>src/send_pacer.cpp\<close>: the pacer, which spreads the packets of a frame over some milliseconds, the counters of
  \<^verbatim>\<open>src/track_stats.cpp\<close> that it updates, and the part of \<^verbatim>\<open>PeerCandidate::run\<close> that feeds it.
\<close>

unbundle bit_operations_syntax

section \<open>Counters of a track\<close>

text \<open>The counters have the type \<^verbatim>\<open>size_t\<close>.\<close>

record SenderReport =
  sr_when :: int
  sr_ntp :: u64
  sr_rtp :: u32
  sr_packet_count :: u32
  sr_octet_count :: u32

record TrackStats =
  mSentFrames :: u64
  mSentPackets :: u64
  mSentBytes :: u64
  mReceivedFrames :: u64
  mReceivedPackets :: u64
  mReceivedBytes :: u64
  mReceivedPacketsLost :: u64
  mReceivedHighestSeq :: "16 ExtendedValue"
  mReceivedSenderReport :: "SenderReport option"

definition TrackStats_new :: TrackStats where
  "TrackStats_new = \<lparr>mSentFrames = 0, mSentPackets = 0, mSentBytes = 0, mReceivedFrames = 0, mReceivedPackets = 0,
     mReceivedBytes = 0, mReceivedPacketsLost = 0, mReceivedHighestSeq = ExtendedValue_new, mReceivedSenderReport = None\<rparr>"

text \<open>\<^verbatim>\<open>clear\<close> leaves the highest sequence number and the last sender report.\<close>

definition TrackStats_clear :: "TrackStats \<Rightarrow> TrackStats" where
  "TrackStats_clear st = st\<lparr>mSentFrames := 0, mSentPackets := 0, mSentBytes := 0, mReceivedFrames := 0, mReceivedPackets := 0,
     mReceivedBytes := 0, mReceivedPacketsLost := 0\<rparr>"

definition incrementSentFrames :: "u64 \<Rightarrow> TrackStats \<Rightarrow> TrackStats" where
  "incrementSentFrames n st = st\<lparr>mSentFrames := mSentFrames st + n\<rparr>"

definition incrementSentPackets :: "u64 \<Rightarrow> TrackStats \<Rightarrow> TrackStats" where
  "incrementSentPackets n st = st\<lparr>mSentPackets := mSentPackets st + n\<rparr>"

definition incrementSentBytes :: "u64 \<Rightarrow> TrackStats \<Rightarrow> TrackStats" where
  "incrementSentBytes n st = st\<lparr>mSentBytes := mSentBytes st + n\<rparr>"

definition setHighestReceivedSeq :: "int \<Rightarrow> u16 \<Rightarrow> TrackStats \<Rightarrow> TrackStats" where
  "setHighestReceivedSeq now seqno st = st\<lparr>mReceivedHighestSeq := snd (Extended_Value.extend now (mReceivedHighestSeq st) seqno)\<rparr>"

definition getReceivedHighestSeqEx :: "TrackStats \<Rightarrow> u64" where
  "getReceivedHighestSeqEx st = (case extended_get (mReceivedHighestSeq st) of Some v \<Rightarrow> v | None \<Rightarrow> 0)"

definition incrementReceivedFrames :: "u64 \<Rightarrow> TrackStats \<Rightarrow> TrackStats" where
  "incrementReceivedFrames n st = st\<lparr>mReceivedFrames := mReceivedFrames st + n\<rparr>"

definition incrementReceivedPackets :: "u64 \<Rightarrow> TrackStats \<Rightarrow> TrackStats" where
  "incrementReceivedPackets n st = st\<lparr>mReceivedPackets := mReceivedPackets st + n\<rparr>"

definition incrementReceivedBytes :: "u64 \<Rightarrow> TrackStats \<Rightarrow> TrackStats" where
  "incrementReceivedBytes n st = st\<lparr>mReceivedBytes := mReceivedBytes st + n\<rparr>"

definition incrementReceivedPacketsLost :: "u64 \<Rightarrow> TrackStats \<Rightarrow> TrackStats" where
  "incrementReceivedPacketsLost n st = st\<lparr>mReceivedPacketsLost := mReceivedPacketsLost st + n\<rparr>"

definition setReceivedSenderReport :: "SenderReport \<Rightarrow> TrackStats \<Rightarrow> TrackStats" where
  "setReceivedSenderReport sr st = st\<lparr>mReceivedSenderReport := Some sr\<rparr>"

section \<open>The pacer\<close>

text \<open>A packet with the track that it points to.\<close>

type_synonym TrackPacket = "Track \<times> RtpPacket"

record PacerItem =
  pi_when :: int
  pi_packet :: TrackPacket

text \<open>
  What the pacer uses: the protection of SRTP (nothing on failure), the hooks of the congestion
  control extension, which may change a packet before it is serialised, and the callback of the
  owner. They work on a state \<open>'w\<close> of their own.
\<close>

record 'w PacerEnv =
  env_protect :: "bytes \<Rightarrow> u32 \<Rightarrow> 'w \<Rightarrow> bytes option \<times> 'w"
  env_beforeGenerating :: "TrackPacket \<Rightarrow> 'w \<Rightarrow> RtpPacket \<times> 'w"
  env_beforeSending :: "TrackPacket \<Rightarrow> nat \<Rightarrow> nat \<Rightarrow> 'w \<Rightarrow> 'w"
  env_onSend :: "'w \<Rightarrow> 'w"

text \<open>
  \<open>sp_stats\<close> are the counters of the tracks, which are told apart by their SSRC, \<open>sp_socket\<close> the
  datagrams given to the socket and \<open>sp_passed\<close> the packets for which \<^verbatim>\<open>sendImpl\<close> was called, both in order.
\<close>

record 'w SendPacer =
  mQueue :: "PacerItem list"
  sp_history :: SendRtpHistory
  sp_stats :: "u32 \<Rightarrow> TrackStats"
  sp_world :: 'w
  sp_socket :: "bytes list"
  sp_passed :: "TrackPacket list"

definition kDefaultSpreadMillis :: nat where [const_defs]: "kDefaultSpreadMillis = 15"

definition SendPacer_new :: "SendRtpHistory \<Rightarrow> (u32 \<Rightarrow> TrackStats) \<Rightarrow> 'w \<Rightarrow> 'w SendPacer" where
  "SendPacer_new h st w = \<lparr>mQueue = [], sp_history = h, sp_stats = st, sp_world = w, sp_socket = [], sp_passed = []\<rparr>"

definition setSendInfo :: "bool \<Rightarrow> TrackPacket \<Rightarrow> TrackPacket" where
  "setSendInfo is_last packet = (fst packet, snd packet\<lparr>pkt_lastInFrame := Some is_last\<rparr>)"

definition upd_stats :: "Track \<Rightarrow> (TrackStats \<Rightarrow> TrackStats) \<Rightarrow> 'w SendPacer \<Rightarrow> 'w SendPacer" where
  "upd_stats track f s = s\<lparr>sp_stats := (sp_stats s)(track_ssrc track := f (sp_stats s (track_ssrc track)))\<rparr>"

definition sendImpl :: "'w PacerEnv \<Rightarrow> TrackPacket \<Rightarrow> 'w SendPacer \<Rightarrow> 'w SendPacer" where
  "sendImpl env tp s =
     (let s = s\<lparr>sp_passed := sp_passed s @ [tp]\<rparr>;
          (packet, w) = env_beforeGenerating env tp (sp_world s);
          s = s\<lparr>sp_world := w\<rparr>;
          track = fst tp;
          s = (if track_hasNack track \<or> track_rtxPayloadId track > 0
               then s\<lparr>sp_history := history_save packet (sp_history s)\<rparr> else s);
          sendInfo = pkt_lastInFrame packet;
          (buf, rollover) = RtpPacket_generate packet;
          (result, w) = env_protect env (ByteBuffer_bytes buf) rollover (sp_world s);
          s = s\<lparr>sp_world := w\<rparr>
      in case result of
           None \<Rightarrow> s
         | Some protectedData \<Rightarrow>
             let s = (if sendInfo = Some True then upd_stats track (incrementSentFrames 1) s else s);
                 s = upd_stats track (incrementSentPackets 1) s;
                 s = upd_stats track (incrementSentBytes (of_nat (length protectedData))) s;
                 s = s\<lparr>sp_world := env_beforeSending env (track, packet) (length (ByteBuffer_bytes buf)) (length protectedData) (sp_world s)\<rparr>;
                 s = s\<lparr>sp_world := env_onSend env (sp_world s)\<rparr>
             in s\<lparr>sp_socket := sp_socket s @ [protectedData]\<rparr>)"

text \<open>\<open>kept\<close> are the items that the iterator has passed.\<close>

fun flush_loop :: "'w PacerEnv \<Rightarrow> Track \<Rightarrow> PacerItem list \<Rightarrow> PacerItem list \<Rightarrow> 'w SendPacer \<Rightarrow> 'w SendPacer" where
  "flush_loop env track kept [] s = s"
| "flush_loop env track kept (item # rest) s =
     (if track_ssrc (fst (pi_packet item)) = track_ssrc track
      then flush_loop env track kept rest (sendImpl env (pi_packet item) (s\<lparr>mQueue := kept @ rest\<rparr>))
      else flush_loop env track (kept @ [item]) rest s)"

definition pacer_flush :: "'w PacerEnv \<Rightarrow> Track \<Rightarrow> 'w SendPacer \<Rightarrow> 'w SendPacer" where
  "pacer_flush env track s = flush_loop env track [] (mQueue s) s"

definition sendNow :: "'w PacerEnv \<Rightarrow> TrackPacket \<Rightarrow> 'w SendPacer \<Rightarrow> 'w SendPacer" where
  "sendNow env packet s = sendImpl env (setSendInfo True packet) s"

text \<open>The product of \<^verbatim>\<open>sendPaced\<close> is computed in 32 bits; \<open>delta\<close> is in microseconds, times are in nanoseconds.\<close>

fun enqueue_loop :: "int \<Rightarrow> nat \<Rightarrow> nat \<Rightarrow> TrackPacket list \<Rightarrow> PacerItem list \<Rightarrow> PacerItem list" where
  "enqueue_loop now delta i [] q = q"
| "enqueue_loop now delta i (packet # packets) q =
     enqueue_loop now delta (i + 1) packets
       (upper_bound_insert pi_when \<lparr>pi_when = now + int (delta * i * 1000), pi_packet = packet\<rparr> q)"

definition sendPaced :: "'w PacerEnv \<Rightarrow> int \<Rightarrow> TrackPacket list \<Rightarrow> u32 \<Rightarrow> 'w SendPacer \<Rightarrow> 'w SendPacer" where
  "sendPaced env now packetList spreadMillis s =
     (if packetList = [] then s
      else if length packetList = 1 then sendImpl env (hd packetList) s
      else let packetList = butlast packetList @ [setSendInfo True (last packetList)] in
        if spreadMillis = 0 then fold (sendImpl env) packetList s
        else let delta = unat (1000 * spreadMillis) div length packetList
             in s\<lparr>mQueue := enqueue_loop now delta 0 packetList (mQueue s)\<rparr>)"

definition pacer_getTimeoutMillis :: "int \<Rightarrow> 32 word \<Rightarrow> 'w SendPacer \<Rightarrow> 32 word" where
  "pacer_getTimeoutMillis now defaultValue s =
     (case mQueue s of item # _ \<Rightarrow> word_of_int (to_millis (pi_when item - now)) | [] \<Rightarrow> defaultValue)"

text \<open>\<open>clock n\<close> is the \<open>n\<close>-th reading of the clock during the loop of \<^verbatim>\<open>run\<close>.\<close>

fun run_loop :: "'w PacerEnv \<Rightarrow> (nat \<Rightarrow> int) \<Rightarrow> nat \<Rightarrow> PacerItem list \<Rightarrow> 'w SendPacer \<Rightarrow> 'w SendPacer" where
  "run_loop env clock n [] s = s"
| "run_loop env clock n (item # rest) s =
     (if pi_when item \<le> clock n
      then run_loop env clock (n + 1) rest (sendImpl env (pi_packet item) (s\<lparr>mQueue := rest\<rparr>))
      else s)"

definition pacer_run :: "'w PacerEnv \<Rightarrow> (nat \<Rightarrow> int) \<Rightarrow> 'w SendPacer \<Rightarrow> 'w SendPacer" where
  "pacer_run env clock s = run_loop env clock 0 (mQueue s) s"

text \<open>
  \<^verbatim>\<open>PeerCandidate::run\<close> on the packets of one frame: what is left of the same track goes out first.
  The spread is computed from the bandwidth that the congestion control extension estimates.
\<close>

definition send_frame :: "'w PacerEnv \<Rightarrow> int \<Rightarrow> u32 \<Rightarrow> Track \<Rightarrow> TrackPacket list \<Rightarrow> 'w SendPacer \<Rightarrow> 'w SendPacer" where
  "send_frame env now spread track packetList s =
     (let s = pacer_flush env track s in
      if packetList = [] then s
      else if length packetList = 1 then sendNow env (hd packetList) s
      else sendPaced env now packetList spread s)"

section \<open>The queue\<close>

interpretation pacer_queue: timed_queue pi_when "upper_bound_insert pi_when"
  by (rule upper_bound_insert_queue)

definition of_track :: "u32 \<Rightarrow> TrackPacket \<Rightarrow> bool" where
  "of_track ssrc tp \<longleftrightarrow> track_ssrc (fst tp) = ssrc"

definition paced_items :: "int \<Rightarrow> nat \<Rightarrow> nat \<Rightarrow> TrackPacket list \<Rightarrow> PacerItem list" where
  "paced_items now delta i packets = map (\<lambda>(j, p). \<lparr>pi_when = now + int (delta * j * 1000), pi_packet = p\<rparr>) (enumerate i packets)"

lemma enqueue_loop_fold: "enqueue_loop now delta i ps q = fold (upper_bound_insert pi_when) (paced_items now delta i ps) q"
  by (induction ps arbitrary: i q) (simp_all add: paced_items_def)

lemma paced_items_packets: "map pi_packet (paced_items now delta i ps) = ps"
  by (simp add: paced_items_def comp_def split_beta)

lemma paced_items_sorted: "sorted (map pi_when (paced_items now delta i ps))"
  by (induction ps arbitrary: i) (auto simp: paced_items_def in_set_enumerate_eq intro!: mult_left_mono)

lemma paced_items_when: "x \<in> set (paced_items now delta i ps) \<Longrightarrow> pi_when x \<le> now + int (delta * (i + length ps) * 1000)"
  by (auto simp: paced_items_def in_set_enumerate_eq intro!: mult_left_mono)

section \<open>Passing on packets\<close>

lemma sendImpl_fields:
  "mQueue (sendImpl env tp s) = mQueue s" "sp_passed (sendImpl env tp s) = sp_passed s @ [tp]"
  by (simp_all add: sendImpl_def upd_stats_def Let_def split: option.split prod.split)

lemma fold_sendImpl: "mQueue (fold (sendImpl env) ps s) = mQueue s" "sp_passed (fold (sendImpl env) ps s) = sp_passed s @ ps"
  by (induction ps arbitrary: s) (simp_all add: sendImpl_fields)

lemma flush_loop_eq:
  "mQueue s = kept @ q \<Longrightarrow>
   mQueue (flush_loop env track kept q s) = kept @ filter (\<lambda>x. \<not> of_track (track_ssrc track) (pi_packet x)) q \<and>
   sp_passed (flush_loop env track kept q s) = sp_passed s @ map pi_packet (filter (\<lambda>x. of_track (track_ssrc track) (pi_packet x)) q)"
  by (induction env track kept q s rule: flush_loop.induct) (simp_all add: of_track_def sendImpl_fields)

lemma pacer_flush_eq:
  "mQueue (pacer_flush env track s) = filter (\<lambda>x. \<not> of_track (track_ssrc track) (pi_packet x)) (mQueue s)"
  "sp_passed (pacer_flush env track s) = sp_passed s @ map pi_packet (filter (\<lambda>x. of_track (track_ssrc track) (pi_packet x)) (mQueue s))"
  using flush_loop_eq [of s "[]" "mQueue s" env track] by (simp_all add: pacer_flush_def)

text \<open>\<^verbatim>\<open>run\<close> passes on a beginning of the queue.\<close>

lemma run_loop_eq:
  "mQueue s = q \<Longrightarrow> \<exists>k. mQueue (run_loop env clock n q s) = drop k q \<and>
     sp_passed (run_loop env clock n q s) = sp_passed s @ map pi_packet (take k q) \<and>
     (drop k q \<noteq> [] \<longrightarrow> (\<exists>m. clock m < pi_when (hd (drop k q))))"
proof (induction env clock n q s rule: run_loop.induct)
  case (2 env clock n item rest s)
  show ?case
  proof (cases "pi_when item \<le> clock n")
    case True
    obtain k where "mQueue (run_loop env clock n (item # rest) s) = drop k rest"
      "sp_passed (run_loop env clock n (item # rest) s) = sp_passed s @ pi_packet item # map pi_packet (take k rest)"
      "drop k rest \<noteq> [] \<longrightarrow> (\<exists>m. clock m < pi_when (hd (drop k rest)))"
      using 2(1) [OF True] True by (auto simp: sendImpl_fields)
    then show ?thesis by (intro exI [of _ "Suc k"]) simp
  next
    case False
    then show ?thesis using 2(2) by (intro exI [of _ 0]) (auto simp: not_le)
  qed
qed simp

section \<open>The order of the packets of a track\<close>

definition frame_packets :: "TrackPacket list \<Rightarrow> TrackPacket list" where
  "frame_packets ps = (if ps = [] then [] else butlast ps @ [setSendInfo True (last ps)])"

definition stream :: "u32 \<Rightarrow> TrackPacket list \<Rightarrow> TrackPacket list" where
  "stream ssrc = filter (of_track ssrc)"

definition pending :: "'w SendPacer \<Rightarrow> TrackPacket list" where
  "pending s = map pi_packet (mQueue s)"

inductive pacer_history :: "'w PacerEnv \<Rightarrow> 'w SendPacer \<Rightarrow> TrackPacket list \<Rightarrow> bool" for env where
  created: "pacer_history env (SendPacer_new h st w) []"
| frame: "pacer_history env s ps \<Longrightarrow> \<forall>p \<in> set frame. of_track (track_ssrc track) p \<Longrightarrow>
    pacer_history env (send_frame env now spread track frame s) (ps @ frame_packets frame)"
| run: "pacer_history env s ps \<Longrightarrow> pacer_history env (pacer_run env clock s) ps"

lemma frame_packets_track: "\<forall>p \<in> set ps. of_track k p \<Longrightarrow> p \<in> set (frame_packets ps) \<Longrightarrow> of_track k p"
  by (auto simp: frame_packets_def of_track_def setSendInfo_def dest: in_set_butlastD split: if_splits)

lemma send_frame_split:
  obtains items where
    "mQueue (send_frame env now spread track ps s) = fold (upper_bound_insert pi_when) items (mQueue (pacer_flush env track s))"
    "sp_passed (send_frame env now spread track ps s) @ map pi_packet items = sp_passed (pacer_flush env track s) @ frame_packets ps"
    "sorted (map pi_when items)" "items = [] \<or> sp_passed (send_frame env now spread track ps s) = sp_passed (pacer_flush env track s)"
    "\<forall>x \<in> set items. pi_when x \<le> now + int (unat (1000 * spread)) * 1000"
proof -
  let ?s = "pacer_flush env track s"
  let ?d = "unat (1000 * spread) div length ps"
  consider "ps = []" | "length ps = 1" | "length ps > 1" "spread = 0" | "length ps > 1" "spread \<noteq> 0"
    by (metis One_nat_def Suc_lessI length_greater_0_conv)
  then show ?thesis
  proof cases
    case 1
    then show ?thesis using that [of "[]"] by (simp add: send_frame_def frame_packets_def Let_def)
  next
    case 2
    then obtain p where "ps = [p]" by (auto simp: length_Suc_conv)
    then show ?thesis using that [of "[]"] by (simp add: send_frame_def sendNow_def frame_packets_def Let_def sendImpl_fields)
  next
    case 3
    then have "ps \<noteq> []" "length ps \<noteq> 1" by auto
    then show ?thesis
      using 3 that [of "[]"] by (simp add: send_frame_def sendPaced_def frame_packets_def Let_def fold_sendImpl sendImpl_fields)
  next
    case 4
    let ?i = "paced_items now ?d 0 (frame_packets ps)"
    have l: "length (frame_packets ps) = length ps" using 4 by (auto simp: frame_packets_def)
    have e: "send_frame env now spread track ps s = ?s\<lparr>mQueue := fold (upper_bound_insert pi_when) ?i (mQueue ?s)\<rparr>"
      using 4 l by (auto simp: send_frame_def sendPaced_def frame_packets_def Let_def enqueue_loop_fold)
    have "?d * length ps \<le> unat (1000 * spread)" by (rule div_times_less_eq_dividend)
    then have "int (?d * length ps) \<le> int (unat (1000 * spread))" by (simp only: of_nat_le_iff)
    then have "int (?d * (0 + length (frame_packets ps)) * 1000) \<le> int (unat (1000 * spread)) * 1000"
      unfolding l add_0 by (subst of_nat_mult) simp
    then have "\<forall>x \<in> set ?i. pi_when x \<le> now + int (unat (1000 * spread)) * 1000"
      using paced_items_when [of _ now ?d 0 "frame_packets ps"] by (meson add_left_mono order_trans)
    then show ?thesis using that [of ?i] e by (simp add: paced_items_packets paced_items_sorted)
  qed
qed

definition pacer_inv :: "'w SendPacer \<Rightarrow> TrackPacket list \<Rightarrow> bool" where
  "pacer_inv s ps \<longleftrightarrow> sorted (map pi_when (mQueue s)) \<and> (\<forall>k. stream k (sp_passed s @ pending s) = stream k ps)"

lemma stream_append: "stream k (xs @ ys) = stream k xs @ stream k ys"
  by (simp add: stream_def)

lemma stream_pending: "stream k (map pi_packet q) = map pi_packet (filter (\<lambda>x. of_track k (pi_packet x)) q)"
  by (simp add: stream_def filter_map comp_def)

lemma pacer_flush_inv:
  assumes "pacer_inv s ps"
  shows "pacer_inv (pacer_flush env track s) ps" "stream (track_ssrc track) (pending (pacer_flush env track s)) = []"
proof -
  let ?k = "track_ssrc track"
  have "stream k (map pi_packet (filter (\<lambda>x. of_track ?k (pi_packet x)) q)) @ stream k (map pi_packet (filter (\<lambda>x. \<not> of_track ?k (pi_packet x)) q)) =
    stream k (map pi_packet q)" for k and q :: "PacerItem list"
    by (cases "k = ?k") (auto simp: stream_pending filter_empty_conv of_track_def intro!: arg_cong [of _ _ "map pi_packet"] filter_cong)
  then show "pacer_inv (pacer_flush env track s) ps"
    using assms by (simp add: pacer_inv_def pending_def pacer_flush_eq stream_append sorted_filter)
  show "stream ?k (pending (pacer_flush env track s)) = []"
    by (simp add: pending_def pacer_flush_eq stream_pending)
qed

lemma pacer_frame_inv:
  assumes "pacer_inv s ps" "\<forall>p \<in> set frame. of_track (track_ssrc track) p"
  shows "pacer_inv (send_frame env now spread track frame s) (ps @ frame_packets frame)"
proof -
  let ?f = "pacer_flush env track s" and ?s = "send_frame env now spread track frame s" and ?t = "track_ssrc track"
  have f: "sorted (map pi_when (mQueue ?f))" "stream k (sp_passed ?f) @ stream k (pending ?f) = stream k ps" "stream ?t (pending ?f) = []" for k
    using pacer_flush_inv [OF assms(1), where env = env and track = track] by (auto simp: pacer_inv_def stream_append)
  obtain items where i: "mQueue ?s = fold (upper_bound_insert pi_when) items (mQueue ?f)"
      "sp_passed ?s @ map pi_packet items = sp_passed ?f @ frame_packets frame" "sorted (map pi_when items)"
      "items = [] \<or> sp_passed ?s = sp_passed ?f"
    by (rule send_frame_split)
  have "set (map pi_packet items) \<subseteq> set (frame_packets frame)"
    using i(2,4) by (metis append.right_neutral append_same_eq empty_subsetI list.map_disc_iff list.set(1) same_append_eq subset_refl)
  then have "\<forall>p \<in> set (map pi_packet items). of_track ?t p"
    using frame_packets_track [OF assms(2)] by blast
  then have t: "\<forall>x \<in> set items. of_track ?t (pi_packet x)" by simp
  have "stream k (sp_passed ?s) @ stream k (pending ?s) = stream k ps @ stream k (frame_packets frame)" for k
  proof (cases "k = ?t")
    case True
    have "filter (\<lambda>x. of_track k (pi_packet x)) (mQueue ?f) = []"
      using f(3) True by (simp add: pending_def stream_pending)
    then have "filter (\<lambda>x. of_track k (pi_packet x)) (mQueue ?s) = items"
      using pacer_queue.fold_ins_kind [of items "\<lambda>x. of_track k (pi_packet x)" "mQueue ?f"] t i(1,3) f(1) True by (auto simp: filter_empty_conv)
    then have "stream k (pending ?s) = map pi_packet items" by (simp add: pending_def stream_pending)
    moreover have "stream k (map pi_packet items) = map pi_packet items"
      using t True by (simp add: stream_pending filter_id_conv)
    ultimately show ?thesis using arg_cong [OF i(2), of "stream k"] f(2) [of k] f(3) True by (simp add: stream_append)
  next
    case False
    then have "\<forall>x \<in> set items. \<not> of_track k (pi_packet x)" using t by (auto simp: of_track_def)
    then have "stream k (pending ?s) = stream k (pending ?f)" "stream k (map pi_packet items) = []"
      using pacer_queue.fold_ins_other [of items "\<lambda>x. of_track k (pi_packet x)"] i(1) by (simp_all add: pending_def stream_pending filter_empty_conv)
    moreover have "stream k (frame_packets frame) = []"
      using frame_packets_track [OF assms(2)] False by (fastforce simp: stream_def filter_empty_conv of_track_def)
    ultimately show ?thesis using arg_cong [OF i(2), of "stream k"] f(2) [of k] by (simp add: stream_append)
  qed
  then show ?thesis using i(1) f(1) by (simp add: pacer_inv_def stream_append pacer_queue.fold_ins_sorted)
qed

lemma pacer_run_inv:
  assumes "pacer_inv s ps"
  shows "pacer_inv (pacer_run env clock s) ps"
proof -
  obtain k where k: "mQueue (pacer_run env clock s) = drop k (mQueue s)"
      "sp_passed (pacer_run env clock s) = sp_passed s @ map pi_packet (take k (mQueue s))"
    using run_loop_eq [OF refl, where s = s and env = env and clock = clock and n = 0] by (auto simp: pacer_run_def)
  have "map pi_packet (take k (mQueue s)) @ map pi_packet (drop k (mQueue s)) = pending s"
    by (simp add: pending_def map_append [symmetric] del: map_append)
  moreover have "sorted (map pi_when (drop k (mQueue s)))" using assms by (simp add: pacer_inv_def drop_map [symmetric] sorted_wrt_drop)
  ultimately show ?thesis using assms k by (simp add: pacer_inv_def pending_def)
qed

lemma pacer_history_inv: "pacer_history env s ps \<Longrightarrow> pacer_inv s ps"
proof (induction rule: pacer_history.induct)
  case (created h st w)
  then show ?case by (simp add: pacer_inv_def SendPacer_new_def pending_def)
qed (simp_all add: pacer_frame_inv pacer_run_inv)

text \<open>
  C18. The pacer keeps the packets of every track in order and loses none: whatever frames of this and
  of other tracks were paced, flushed or sent at once, and whenever the loop ran, the packets of a track
  that were passed on, followed by those that still wait, are the packets submitted for the track, with
  the last one of each frame marked.
\<close>
theorem pacer_keeps_order:
  assumes "pacer_history env s ps"
  shows "stream ssrc (sp_passed s) @ stream ssrc (pending s) = stream ssrc ps"
  using pacer_history_inv [OF assms] by (simp add: pacer_inv_def stream_append)

definition example_env :: "unit PacerEnv" where
  "example_env = \<lparr>env_protect = (\<lambda>b r w. (Some b, w)), env_beforeGenerating = (\<lambda>(t, p) w. (p, w)),
     env_beforeSending = (\<lambda>tp n m w. w), env_onSend = (\<lambda>w. w)\<rparr>"

definition example_frame :: "TrackPacket list" where
  "example_frame = map (\<lambda>p. (example_track, p)) example_sent"

definition example_paced :: "unit SendPacer" where
  "example_paced = send_frame example_env 0 15 example_track example_frame (SendPacer_new SendRtpHistory_new (\<lambda>_. TrackStats_new) ())"

lemma example_frame_track: "\<forall>p \<in> set example_frame. of_track (track_ssrc example_track) p"
  by (auto simp: example_frame_def of_track_def)

lemma example_paced_history: "pacer_history example_env example_paced (frame_packets example_frame)"
  using pacer_history.frame [OF pacer_history.created example_frame_track] unfolding example_paced_def by fastforce

lemma example_paced_queue: "map pi_when (mQueue example_paced) = [0, 3750000, 7500000, 11250000]" "sp_passed example_paced = []"
  by (simp_all add: example_paced_def send_frame_def sendPaced_def pacer_flush_def SendPacer_new_def example_frame_def example_sent_def
      upper_bound_insert_def)

text \<open>Four packets over 15 milliseconds; after 4 milliseconds two of them are out.\<close>

lemma pacer_keeps_order_witness:
  "let s = pacer_run example_env (\<lambda>_. 4000000) example_paced in
     length (sp_passed s) = 2 \<and> length (pending s) = 2 \<and>
     stream (track_ssrc example_track) (sp_passed s) @ stream (track_ssrc example_track) (pending s) =
       stream (track_ssrc example_track) (frame_packets example_frame)"
proof -
  obtain a b c d where q: "mQueue example_paced = [a, b, c, d]" "pi_when a = 0" "pi_when b = 3750000" "pi_when c = 7500000"
    using example_paced_queue(1) by auto
  then show ?thesis
    using pacer_keeps_order [OF pacer_history.run [OF example_paced_history], of "track_ssrc example_track" "\<lambda>_. 4000000"]
    by (simp add: pacer_run_def sendImpl_fields pending_def example_paced_queue(2))
qed

text \<open>
  C19. A frame leaves within its spread: once the clock has passed the time of the frame by the spread,
  a run of the loop leaves none of the packets of the track in the queue.
\<close>
theorem pacer_frame_leaves:
  assumes "pacer_history env s ps" "\<forall>p \<in> set frame. of_track (track_ssrc track) p" "unat spread \<le> 4294967"
    and clock: "\<forall>n. now + int (unat spread) * 1000000 \<le> clock n"
  shows "stream (track_ssrc track) (pending (pacer_run env clock (send_frame env now spread track frame s))) = []"
proof -
  let ?f = "pacer_flush env track s" and ?s = "send_frame env now spread track frame s" and ?t = "track_ssrc track"
  have inv: "pacer_inv ?s (ps @ frame_packets frame)" using pacer_frame_inv [OF pacer_history_inv [OF assms(1)] assms(2)] .
  obtain items where i: "mQueue ?s = fold (upper_bound_insert pi_when) items (mQueue ?f)"
      "\<forall>x \<in> set items. pi_when x \<le> now + int (unat (1000 * spread)) * 1000"
    by (rule send_frame_split)
  have "unat (1000 * spread) = 1000 * unat spread" using assms(3) by (simp add: unat_word_ariths)
  then have "int (unat (1000 * spread)) * 1000 = int (unat spread) * 1000000" by simp
  then have due: "\<forall>x \<in> set items. \<forall>n. pi_when x \<le> clock n" using i(2) clock by (metis order_trans)
  have empty: "\<forall>x \<in> set (mQueue ?f). \<not> of_track ?t (pi_packet x)" by (simp add: pacer_flush_eq)
  have late: "\<forall>x \<in> set (mQueue ?s). of_track ?t (pi_packet x) \<longrightarrow> (\<forall>n. pi_when x \<le> clock n)"
    using i(1) due empty by (auto simp: pacer_queue.fold_ins_set)
  obtain k where k: "mQueue (pacer_run env clock ?s) = drop k (mQueue ?s)"
      "drop k (mQueue ?s) \<noteq> [] \<longrightarrow> (\<exists>m. clock m < pi_when (hd (drop k (mQueue ?s))))"
    using run_loop_eq [OF refl, where s = ?s and env = env and clock = clock and n = 0] by (auto simp: pacer_run_def)
  have "sorted (map pi_when (drop k (mQueue ?s)))" using inv by (simp add: pacer_inv_def drop_map [symmetric] sorted_wrt_drop)
  then have "\<not> of_track ?t (pi_packet x)" if x: "x \<in> set (drop k (mQueue ?s))" for x
    using late k(2) in_set_dropD [OF x] x by (cases "drop k (mQueue ?s)") (fastforce simp: not_le [symmetric])+
  then show ?thesis by (simp add: pending_def k(1) stream_pending filter_empty_conv)
qed

lemma pacer_frame_leaves_witness:
  "stream (track_ssrc example_track) (pending (pacer_run example_env (\<lambda>_. 15000000) example_paced)) = []"
  unfolding example_paced_def
  by (rule pacer_frame_leaves [OF pacer_history.created example_frame_track]) simp_all

end
