(* ===== verification/Vpx.thy ===== *)
theory Vpx
  imports H264_Roundtrip Jitter_Properties
begin

text \<open>
  \<^verbatim>\<open>src/packetizer_vp8.cpp\<close>, \<^verbatim>\<open>src/depacketizer_vp8.cpp\<close>, \<^verbatim>\<open>src/codec_vp9.cpp\<close>, \<^verbatim>\<open>src/packetizer_vp9.cpp\<close> and
  \<^verbatim>\<open>src/depacketizer_vp9.cpp\<close>: both codecs cut a frame into pieces behind a payload descriptor. The loop and the
  reassembly are treated once, in the locales \<open>fragment_loop\<close> and \<open>fragment_codec\<close>. \<^const>\<open>None\<close> as the result of a
  loop means that it does not end.
\<close>

unbundle bit_operations_syntax

section \<open>VP8\<close>

text \<open>\<^verbatim>\<open>tag & 0x01\<close> of the first three bytes; nothing for frames that are shorter.\<close>

definition vp8_tagFrameType :: "bytes \<Rightarrow> u32" where
  "vp8_tagFrameType frame = (ucast (frame ! 0) OR push_bit 8 (ucast (frame ! 1)) OR push_bit 16 (ucast (frame ! 2))) AND 1"

definition vp8_isKeyFrame :: "bytes \<Rightarrow> bool" where
  "vp8_isKeyFrame frame = (if length frame < 3 then False else vp8_tagFrameType frame = 0)"

definition vp8_descriptor :: "u32 \<Rightarrow> bool \<Rightarrow> u8" where
  "vp8_descriptor tagFrameType first = ucast (push_bit 5 tagFrameType OR push_bit 4 (if first then 1 else 0))"

partial_function (option) vp8_loop ::
  "'s RtpExtensionSource list \<Rightarrow> nat \<Rightarrow> u32 \<Rightarrow> u32 \<Rightarrow> nat \<Rightarrow> bytes \<Rightarrow> Track \<Rightarrow> 's \<Rightarrow> (RtpPacket list \<times> Track \<times> 's) option" where
  "vp8_loop srcs basicPacketSize tagFrameType frameTimestamp packetNumber data track st =
     (if length data > 0 then
        (let ((rollover, seq), track) = track_nextSequence track;
             (padding, st) = getPadding srcs st track (length data);
             (extension, st) = buildExtension srcs st track (tagFrameType = 0) packetNumber;
             packetSize = adjustPacketSize (size_sub basicPacketSize 1) (unat padding) extension;
             writeNow = min (length data) packetSize;
             payload = u8_bytes (vp8_descriptor tagFrameType (packetNumber = 0)) @ take writeNow data;
             marker = (length data \<le> packetSize);
             packet = RtpPacket_new track marker rollover seq frameTimestamp padding extension payload
         in do {
           (packets, track, st) \<leftarrow> vp8_loop srcs basicPacketSize tagFrameType frameTimestamp (packetNumber + 1) (drop writeNow data) track st;
           Some (packet # packets, track, st)
         })
      else Some ([], track, st))"

definition vp8_generate ::
  "'s RtpExtensionSource list \<Rightarrow> nat \<Rightarrow> Track \<Rightarrow> 's \<Rightarrow> int \<Rightarrow> int \<Rightarrow> bytes \<Rightarrow> (RtpPacket list \<times> Track \<times> 's) option" where
  "vp8_generate srcs mediaProtectionOverhead track st now pts_usec frame =
     (let (frameTimestamp, track) = track_frameTimestamp track now pts_usec in
      if length frame < 3 then Some ([], track, st)
      else vp8_loop srcs (getBasicPacketSize mediaProtectionOverhead) (vp8_tagFrameType frame) frameTimestamp 0 frame track st)"

text \<open>
  \<^verbatim>\<open>extractPayload\<close>: the outer option is the abort of the reader, the inner one the result of the
  function. The optional bytes of the descriptor are skipped one by one.
\<close>

definition vp8_skip :: "bool \<Rightarrow> ByteReader \<Rightarrow> (ByteReader option) option" where
  "vp8_skip present reader =
     (if present then
        if remaining reader < 1 then Some None
        else do { (_, reader) \<leftarrow> readU8 reader; Some (Some reader) }
      else Some (Some reader))"

definition vp8_skip_picture_id :: "bool \<Rightarrow> ByteReader \<Rightarrow> (ByteReader option) option" where
  "vp8_skip_picture_id present reader =
     (if present then
        if remaining reader < 1 then Some None
        else do { (bytePictureId0, reader) \<leftarrow> readU8 reader; vp8_skip (bit bytePictureId0 7) reader }
      else Some (Some reader))"

definition then_skip :: "(ByteReader option) option \<Rightarrow> (ByteReader \<Rightarrow> (ByteReader option) option) \<Rightarrow> (ByteReader option) option" where
  "then_skip r f = r \<bind> (\<lambda>x. case x of None \<Rightarrow> Some None | Some reader \<Rightarrow> f reader)"

definition vp8_skip_extension :: "ByteReader \<Rightarrow> (ByteReader option) option" where
  "vp8_skip_extension reader =
     (if remaining reader < 1 then Some None
      else do {
        (flags, reader) \<leftarrow> readU8 reader;
        then_skip (then_skip (vp8_skip_picture_id (bit flags 7) reader) (vp8_skip (bit flags 6)))
          (vp8_skip (bit flags 5 \<or> bit flags 4))
      })"

definition vp8_extractPayload :: "bytes \<Rightarrow> (bytes option) option" where
  "vp8_extractPayload frame =
     (let reader = ByteReader_new frame in
      if remaining reader < 1 then Some None
      else do {
        (byteHeader, reader) \<leftarrow> readU8 reader;
        r \<leftarrow> (if bit byteHeader 7 then vp8_skip_extension reader else Some (Some reader));
        Some (map_option (\<lambda>reader. take (remaining reader) (drop (position reader) frame)) r)
      })"

record DepacketizerVPx =
  mSeenKeyFrame :: bool

definition DepacketizerVPx_new :: DepacketizerVPx where
  "DepacketizerVPx_new = \<lparr>mSeenKeyFrame = False\<rparr>"

definition vpx_reset :: "DepacketizerVPx \<Rightarrow> DepacketizerVPx" where
  "vpx_reset d = d\<lparr>mSeenKeyFrame := False\<rparr>"

text \<open>The payloads of the packets one after the other; nothing when one of them has no valid descriptor.\<close>

fun collect_payloads :: "(bytes \<Rightarrow> (bytes option) option) \<Rightarrow> JitterBufferItem list \<Rightarrow> bytes \<Rightarrow> (bytes option) option" where
  "collect_payloads parse [] buf = Some (Some buf)"
| "collect_payloads parse (packet # packets) buf = do {
     r \<leftarrow> parse (it_payload packet);
     case r of None \<Rightarrow> Some None | Some payload \<Rightarrow> collect_payloads parse packets (buf @ payload)
   }"

definition vp8_extractImpl :: "JitterBufferItem \<Rightarrow> bytes \<Rightarrow> DepacketizerVPx \<Rightarrow> bytes list \<times> DepacketizerVPx" where
  "vp8_extractImpl packet frame d =
     (if frame = [] then ([], d)
      else if \<not> mSeenKeyFrame d \<and> \<not> vp8_isKeyFrame frame then ([], d)
      else let d = d\<lparr>mSeenKeyFrame := True\<rparr> in (if it_marker packet then [frame] else [], d))"

definition vp8_extract :: "JitterBufferItem list \<Rightarrow> DepacketizerVPx \<Rightarrow> (bytes list \<times> DepacketizerVPx) option" where
  "vp8_extract packetList d = do {
     r \<leftarrow> collect_payloads vp8_extractPayload packetList [];
     case r of
       None \<Rightarrow> Some ([], d)
     | Some buf \<Rightarrow> if packetList = [] then None else Some (vp8_extractImpl (last packetList) buf d)
   }"

definition vp8_isFrameStart :: "bytes \<Rightarrow> bool option" where
  "vp8_isFrameStart payload =
     Some (if payload \<noteq> [] then bit (hd payload) 4 \<and> hd payload AND 0x07 = 0 else False)"

definition depacketizer_vp8 :: "DepacketizerVPx Depacketizer" where
  "depacketizer_vp8 = \<lparr>dp_getPacketKind = video_getPacketKind vp8_isFrameStart, dp_reset = vpx_reset, dp_extract = vp8_extract\<rparr>"

section \<open>VP9\<close>

text \<open>
  The descriptor is read by position; \<open>at data pos\<close> is the byte there. \<^const>\<open>None\<close>: the function returns
  \<^verbatim>\<open>false\<close>. Every read is guarded by a test of the position, so none is out of range.
\<close>

record PayloadDescriptor =
  picture_id_present :: bool
  inter_picture :: bool
  start_of_frame :: bool
  end_of_frame :: bool
  picture_id :: u16

definition vp9_byte :: "bytes \<Rightarrow> nat \<Rightarrow> (u8 \<times> nat) option" where
  "vp9_byte data pos = (if pos \<ge> length data then None else Some (data ! pos, pos + 1))"

definition vp9_picture_id :: "bytes \<Rightarrow> nat \<Rightarrow> (u16 \<times> nat) option" where
  "vp9_picture_id data pos = do {
     (m_byte, pos) \<leftarrow> vp9_byte data pos;
     if bit m_byte 7 then do {
       (b, pos) \<leftarrow> vp9_byte data pos;
       Some (push_bit 8 (ucast (m_byte AND 0x7F)) OR ucast b, pos)
     } else Some (ucast (m_byte AND 0x7F), pos)
   }"

definition vp9_layer_indices :: "bool \<Rightarrow> bytes \<Rightarrow> nat \<Rightarrow> nat option" where
  "vp9_layer_indices flagF data pos = do {
     (l_byte, pos) \<leftarrow> vp9_byte data pos;
     if \<not> flagF \<and> \<not> bit l_byte 0 then do { (_, pos) \<leftarrow> vp9_byte data pos; Some pos } else Some pos
   }"

fun vp9_references :: "nat \<Rightarrow> bytes \<Rightarrow> nat \<Rightarrow> nat option" where
  "vp9_references 0 data pos = Some pos"
| "vp9_references (Suc n) data pos = do {
     (ref_byte, pos) \<leftarrow> vp9_byte data pos;
     if \<not> bit ref_byte 0 then Some pos else vp9_references n data pos
   }"

fun vp9_pictures :: "nat \<Rightarrow> bytes \<Rightarrow> nat \<Rightarrow> nat option" where
  "vp9_pictures 0 data pos = Some pos"
| "vp9_pictures (Suc n) data pos = do {
     (pg_byte, pos) \<leftarrow> vp9_byte data pos;
     let r_count = unat (drop_bit 2 pg_byte AND 0x03);
     if pos + r_count > length data then None else vp9_pictures n data (pos + r_count)
   }"

definition vp9_scalability :: "bytes \<Rightarrow> nat \<Rightarrow> nat option" where
  "vp9_scalability data pos = do {
     (ss_byte, pos) \<leftarrow> vp9_byte data pos;
     let n_s = unat (drop_bit 5 ss_byte AND 0x07);
     let skip = (n_s + 1) * 4;
     pos \<leftarrow> (if bit ss_byte 4 then if pos + skip > length data then None else Some (pos + skip) else Some pos);
     if bit ss_byte 3 then do {
       (n_g, pos) \<leftarrow> vp9_byte data pos;
       vp9_pictures (unat n_g) data pos
     } else Some pos
   }"

definition parsePayloadDescriptor :: "bytes \<Rightarrow> (PayloadDescriptor \<times> bytes) option" where
  "parsePayloadDescriptor data = do {
     (byte0, pos) \<leftarrow> vp9_byte data 0;
     let flagI = bit byte0 7;
     let flagP = bit byte0 6;
     let flagL = bit byte0 5;
     let flagF = bit byte0 4;
     let flagB = bit byte0 3;
     let flagE = bit byte0 2;
     let flagV = bit byte0 1;
     (pid, pos) \<leftarrow> (if flagI then vp9_picture_id data pos else Some (0, pos));
     pos \<leftarrow> (if flagL then vp9_layer_indices flagF data pos else Some pos);
     pos \<leftarrow> (if flagF \<and> flagP then vp9_references 3 data pos else Some pos);
     pos \<leftarrow> (if flagV then vp9_scalability data pos else Some pos);
     Some (\<lparr>picture_id_present = flagI, inter_picture = flagP, start_of_frame = flagB, end_of_frame = flagE, picture_id = pid\<rparr>,
       drop pos data)
   }"

definition buildPayloadDescriptor :: "bool \<Rightarrow> bool \<Rightarrow> bool \<Rightarrow> u16 \<Rightarrow> bytes" where
  "buildPayloadDescriptor startOfFrame endOfFrame interPicture pictureId =
     [0x80 OR (if interPicture then 0x40 else 0) OR (if startOfFrame then 0x08 else 0) OR (if endOfFrame then 0x04 else 0),
      ucast (0x80 OR (drop_bit 8 pictureId AND 0x7F)), ucast (pictureId AND 0xFF)]"

text \<open>The start of the uncompressed header, up to the frame type.\<close>

definition vp9_profile :: "BitReader \<Rightarrow> u32 \<times> BitReader" where
  "vp9_profile reader =
     (let (profile_low, reader) = readBit reader;
          (profile_high, reader) = readBit reader;
          profile = push_bit 1 profile_high OR profile_low;
          reader = (if profile = 3 then snd (readBit reader) else reader)
      in (profile, reader))"

definition vp9_isKeyFrame :: "bytes \<Rightarrow> bool" where
  "vp9_isKeyFrame data =
     (if length data < 1 then False
      else let (marker, reader) = readBits 2 (BitReader_new data) in
        if marker \<noteq> 2 then False
        else let (_, reader) = vp9_profile reader;
                 (show_existing_frame, reader) = readBit reader
             in if show_existing_frame \<noteq> 0 then False else fst (readBit reader) = 0)"

definition vp9_color_config :: "u32 \<Rightarrow> BitReader \<Rightarrow> BitReader" where
  "vp9_color_config profile reader =
     (let (color_space, reader) = readBits 3 reader; odd = (profile = 1 \<or> profile = 3) in
      if color_space \<noteq> 7 then
        let reader = snd (readBit reader)
        in if odd then snd (readBit (snd (readBit (snd (readBit reader))))) else reader
      else if odd then snd (readBit reader) else reader)"

definition vp9_extractDimensions :: "bytes \<Rightarrow> (u16 \<times> u16) option" where
  "vp9_extractDimensions data =
     (if length data < 4 then None
      else let (marker, reader) = readBits 2 (BitReader_new data) in
        if marker \<noteq> 2 then None
        else let (profile, reader) = vp9_profile reader;
                 (show_existing_frame, reader) = readBit reader
             in if show_existing_frame \<noteq> 0 then None
             else let (frame_type, reader) = readBit reader in
               if frame_type \<noteq> 0 then None
               else let reader = snd (readBit (snd (readBit reader)));
                        (sync0, reader) = readBits 8 reader in
                 if sync0 \<noteq> 0x49 then None
                 else let (sync1, reader) = readBits 8 reader in
                 if sync1 \<noteq> 0x83 then None
                 else let (sync2, reader) = readBits 8 reader in
                 if sync2 \<noteq> 0x42 then None
                 else let reader = vp9_color_config profile reader;
                          (w, reader) = readBits 16 reader;
                          (h, reader) = readBits 16 reader
                      in Some (ucast (w + 1), ucast (h + 1)))"

record PacketizerVP9 =
  mPictureId :: u16

definition PacketizerVP9_new :: PacketizerVP9 where
  "PacketizerVP9_new = \<lparr>mPictureId = 0\<rparr>"

partial_function (option) vp9_loop ::
  "'s RtpExtensionSource list \<Rightarrow> nat \<Rightarrow> bool \<Rightarrow> u16 \<Rightarrow> u32 \<Rightarrow> nat \<Rightarrow> bytes \<Rightarrow> Track \<Rightarrow> 's \<Rightarrow> (RtpPacket list \<times> Track \<times> 's) option" where
  "vp9_loop srcs basicPacketSize frameIsKeyFrame pictureId frameTimestamp packetNumber data track st =
     (if length data > 0 then
        (let ((rollover, seq), track) = track_nextSequence track;
             (padding, st) = getPadding srcs st track (length data);
             (extension, st) = buildExtension srcs st track frameIsKeyFrame packetNumber;
             packetSize = adjustPacketSize (size_sub basicPacketSize 3) (unat padding) extension;
             startOfFrame = (packetNumber = 0);
             endOfFrame = (length data \<le> packetSize);
             writeNow = min (length data) packetSize;
             payload = buildPayloadDescriptor startOfFrame endOfFrame (\<not> frameIsKeyFrame) pictureId @ take writeNow data;
             packet = RtpPacket_new track endOfFrame rollover seq frameTimestamp padding extension payload
         in do {
           (packets, track, st) \<leftarrow> vp9_loop srcs basicPacketSize frameIsKeyFrame pictureId frameTimestamp (packetNumber + 1)
             (drop writeNow data) track st;
           Some (packet # packets, track, st)
         })
      else Some ([], track, st))"

definition vp9_generate ::
  "'s RtpExtensionSource list \<Rightarrow> nat \<Rightarrow> PacketizerVP9 \<Rightarrow> Track \<Rightarrow> 's \<Rightarrow> int \<Rightarrow> int \<Rightarrow> bytes \<Rightarrow>
   (RtpPacket list \<times> PacketizerVP9 \<times> Track \<times> 's) option" where
  "vp9_generate srcs mediaProtectionOverhead pk track st now pts_usec frame =
     (let (frameTimestamp, track) = track_frameTimestamp track now pts_usec;
          frameIsKeyFrame = vp9_isKeyFrame frame;
          pictureId = mPictureId pk;
          pk = pk\<lparr>mPictureId := (mPictureId pk + 1) AND 0x7FFF\<rparr>
      in do {
        (packets, track, st) \<leftarrow> vp9_loop srcs (getBasicPacketSize mediaProtectionOverhead) frameIsKeyFrame pictureId frameTimestamp 0 frame track st;
        Some (packets, pk, track, st)
      })"

definition vp9_extract :: "JitterBufferItem list \<Rightarrow> DepacketizerVPx \<Rightarrow> (bytes list \<times> DepacketizerVPx) option" where
  "vp9_extract packetList d = do {
     r \<leftarrow> collect_payloads (\<lambda>payload. Some (map_option snd (parsePayloadDescriptor payload))) packetList [];
     case r of
       None \<Rightarrow> Some ([], d)
     | Some buf \<Rightarrow>
         if buf = [] then Some ([], d)
         else if \<not> mSeenKeyFrame d \<and> \<not> vp9_isKeyFrame buf then Some ([], d)
         else let d = d\<lparr>mSeenKeyFrame := True\<rparr> in Some (if it_marker (last packetList) then [buf] else [], d)
   }"

definition vp9_isFrameStart :: "bytes \<Rightarrow> bool option" where
  "vp9_isFrameStart payload = Some (if payload \<noteq> [] then bit (hd payload) 3 else False)"

definition depacketizer_vp9 :: "DepacketizerVPx Depacketizer" where
  "depacketizer_vp9 = \<lparr>dp_getPacketKind = video_getPacketKind vp9_isFrameStart, dp_reset = vpx_reset, dp_extract = vp9_extract\<rparr>"

section \<open>Cutting a frame into packets\<close>

text \<open>
  The loops of the two packetizers differ in the descriptor that they write before a piece of the
  frame. \<open>'k\<close> is what the descriptor says about the frame.
\<close>

locale fragment_loop =
  fixes dsize :: nat and desc :: "'k \<Rightarrow> bool \<Rightarrow> bool \<Rightarrow> bytes" and key :: "'k \<Rightarrow> bool"
    and loop :: "'s RtpExtensionSource list \<Rightarrow> nat \<Rightarrow> 'k \<Rightarrow> u32 \<Rightarrow> nat \<Rightarrow> bytes \<Rightarrow> Track \<Rightarrow> 's \<Rightarrow> (RtpPacket list \<times> Track \<times> 's) option"
  assumes loop_end: "loop srcs basic k ts pn [] track st = Some ([], track, st)"
    and loop_step: "data \<noteq> [] \<Longrightarrow> track_nextSequence track = ((rollover, seq), track1) \<Longrightarrow>
      getPadding srcs st track1 (length data) = (padding, st1) \<Longrightarrow> buildExtension srcs st1 track1 (key k) pn = (extension, st2) \<Longrightarrow>
      packetSize = adjustPacketSize (size_sub basic dsize) (unat padding) extension \<Longrightarrow> writeNow = min (length data) packetSize \<Longrightarrow>
      loop srcs basic k ts pn data track st =
        loop srcs basic k ts (pn + 1) (drop writeNow data) track1 st2 \<bind> (\<lambda>(packets, track, st).
          Some (RtpPacket_new track1 (length data \<le> packetSize) rollover seq ts padding extension
            (desc k (pn = 0) (length data \<le> packetSize) @ take writeNow data) # packets, track, st))"
    and desc_size: "length (desc k a b) = dsize"
begin

fun labelled :: "'k \<Rightarrow> bool \<Rightarrow> bytes list \<Rightarrow> bytes list" where
  "labelled k first [] = []"
| "labelled k first [c] = [desc k first True @ c]"
| "labelled k first (c # d # cs) = (desc k first False @ c) # labelled k False (d # cs)"

lemma labelled_Nil [simp]: "labelled k first cs = [] \<longleftrightarrow> cs = []"
  by (cases "(k, first, cs)" rule: labelled.cases) auto

text \<open>The loop ends, and cuts the data into pieces that fit.\<close>

lemma loop_ok:
  assumes "dsize + 2 \<le> basic" "basic < 2 ^ 64"
  shows "data \<noteq> [] \<Longrightarrow> \<exists>ps track' st' chunks. loop srcs basic k ts pn data track st = Some (ps, track', st') \<and>
    map pkt_payload ps = labelled k (pn = 0) chunks \<and> chunks \<noteq> [] \<and> concat chunks = data \<and> framed ts True ps \<and> numbered track ps track' \<and>
    list_all (\<lambda>p. length (pkt_payload p) \<le> basic) ps"
proof (induction "length data" arbitrary: pn data track st rule: less_induct)
  case less
  obtain r s track1 where sq: "track_nextSequence track = ((r, s), track1)" by (metis surj_pair)
  obtain pad st1 where pd: "getPadding srcs st track1 (length data) = (pad, st1)" by fastforce
  obtain ext st2 where ex: "buildExtension srcs st1 track1 (key k) pn = (ext, st2)" by fastforce
  define sz where "sz = adjustPacketSize (size_sub basic dsize) (unat pad) ext"
  define e where "e = (length data \<le> sz)"
  define c where "c = take (min (length data) sz) data"
  define rest where "rest = drop (min (length data) sz) data"
  define p where "p = RtpPacket_new track1 e r s ts pad ext (desc k (pn = 0) e @ c)"
  have "unat pad \<le> 255" using unat_u8_less [of pad] by linarith
  then have sz: "0 < sz" "sz \<le> basic - dsize"
    using adjustPacketSize_pos [of "unat pad" "basic - dsize" ext] adjustPacketSize_le [of "unat pad" "basic - dsize" ext] assms
    by (simp_all add: sz_def)
  have step: "loop srcs basic k ts pn data track st =
      loop srcs basic k ts (pn + 1) rest track1 st2 \<bind> (\<lambda>(packets, track, st). Some (p # packets, track, st))"
    unfolding p_def rest_def c_def e_def by (rule loop_step [OF less.prems sq pd ex sz_def refl])
  have c: "c @ rest = data" "length (pkt_payload p) \<le> basic" "pkt_payload p = desc k (pn = 0) e @ c"
    using sz assms by (auto simp: c_def rest_def p_def desc_size)
  have num: "numbered track [p] track1" by (rule numbered_single [OF sq]) (simp_all add: p_def)
  show ?case
  proof (cases e)
    case True
    then have "rest = []" by (simp add: rest_def e_def)
    then show ?thesis
      using step num c True by (intro exI [of _ "[p]"] exI [of _ track1] exI [of _ st2] exI [of _ "[c]"])
        (simp add: loop_end framed_def p_def)
  next
    case False
    then have "length rest < length data" "rest \<noteq> []" using sz(1) by (auto simp: rest_def e_def)
    from less.hyps [OF this, of "pn + 1" track1 st2] obtain ps track' st' chunks where IH:
      "loop srcs basic k ts (pn + 1) rest track1 st2 = Some (ps, track', st')" "map pkt_payload ps = labelled k False chunks"
      "chunks \<noteq> []" "concat chunks = rest" "framed ts True ps" "numbered track1 ps track'" "list_all (\<lambda>p. length (pkt_payload p) \<le> basic) ps"
      by auto
    have "ps \<noteq> []" using IH(2,3) by (metis labelled_Nil list.map_disc_iff)
    then have fr: "framed ts True (p # ps)" using IH(5) False by (auto simp: framed_def p_def gr0_conv_Suc neq_Nil_conv)
    have "labelled k (pn = 0) (c # chunks) = (desc k (pn = 0) False @ c) # labelled k False chunks" using IH(3) by (cases chunks) auto
    then show ?thesis
      using IH c False fr step numbered_append [OF num IH(6)]
      by (intro exI [of _ "p # ps"] exI [of _ track'] exI [of _ st'] exI [of _ "c # chunks"]) simp
  qed
qed

end

locale fragment_codec = fragment_loop +
  fixes parse :: "bytes \<Rightarrow> (bytes option) option"
  assumes parse_desc: "parse (desc k a b @ c) = Some (Some c)"
begin

lemma collect_labelled:
  "map it_payload items = labelled k first chunks \<Longrightarrow> collect_payloads parse items buf = Some (Some (buf @ concat chunks))"
proof (induction k first chunks arbitrary: items buf rule: labelled.induct)
  case (3 k first c d cs)
  then obtain i js where "items = i # js" "it_payload i = desc k first False @ c" "map it_payload js = labelled k False (d # cs)"
    by (cases items) auto
  then show ?case using "3.IH" [of js "buf @ c"] by (simp add: parse_desc)
qed (auto simp: parse_desc)

text \<open>What the receiver collects from the packets of a frame is the frame.\<close>

lemma frame_collected:
  assumes "dsize + 2 \<le> basic" "basic < 2 ^ 64" "frame \<noteq> []"
  obtains ps track' st' where "loop srcs basic k ts 0 frame track st = Some (ps, track', st')"
    "framed ts True ps" "numbered track ps track'" "list_all (\<lambda>p. length (pkt_payload p) \<le> basic) ps"
    "\<And>items ts64. list_all2 (carries ts64) ps items \<Longrightarrow>
      collect_payloads parse items [] = Some (Some frame) \<and> items \<noteq> [] \<and> it_marker (last items)"
proof -
  obtain ps track' st' chunks where l: "loop srcs basic k ts 0 frame track st = Some (ps, track', st')"
      "map pkt_payload ps = labelled k True chunks" "chunks \<noteq> []" "concat chunks = frame" "framed ts True ps" "numbered track ps track'"
      "list_all (\<lambda>p. length (pkt_payload p) \<le> basic) ps"
    using loop_ok [OF assms, of srcs k ts 0 track st] by auto
  have "collect_payloads parse items [] = Some (Some frame) \<and> items \<noteq> [] \<and> it_marker (last items)"
    if it: "list_all2 (carries ts64) ps items" for items ts64
  proof -
    note c = carries_lists [OF it]
    have "ps \<noteq> []" using l(2,3) by (metis labelled_Nil list.map_disc_iff)
    then have ne: "ps \<noteq> []" "items \<noteq> []" using it by auto
    then have "last (map it_marker items)" using c l(5) by (simp add: framed_def)
    then have "it_marker (last items)" unfolding last_map [OF ne(2)] .
    then show ?thesis using collect_labelled [of items k True chunks "[]"] c l(2,4) ne by simp
  qed
  then show ?thesis using that [OF l(1,5,6,7)] by blast
qed

end

section \<open>Descriptors\<close>

definition vp8_tag :: "bool \<Rightarrow> u32" where
  "vp8_tag key = (if key then 0 else 1)"

lemma vp8_tag_key: "3 \<le> length frame \<Longrightarrow> vp8_tagFrameType frame = vp8_tag (vp8_isKeyFrame frame)"
proof -
  have "x AND 1 = 0 \<or> x AND 1 = 1" for x :: u32 by (auto simp: and_one_eq mod_2_eq_odd)
  then show "3 \<le> length frame \<Longrightarrow> ?thesis" by (auto simp: vp8_tag_def vp8_isKeyFrame_def vp8_tagFrameType_def)
qed

lemma vp8_descriptor_bit: "\<not> bit (vp8_descriptor (vp8_tag key) first) 7"
  by (auto simp: vp8_descriptor_def vp8_tag_def)

lemma vp8_payload: "vp8_extractPayload (vp8_descriptor (vp8_tag key) first # c) = Some (Some c)"
  by (simp add: vp8_extractPayload_def Let_def read_simps vp8_descriptor_bit position_advance position_new)

lemma vp9_descriptor_flags:
  fixes p s e :: bool
  defines "b \<equiv> (0x80 :: u8) OR (if p then 0x40 else 0) OR (if s then 0x08 else 0) OR (if e then 0x04 else 0)"
  shows "bit b 7" "bit b 6 = p" "\<not> bit b 5" "\<not> bit b 4" "bit b 3 = s" "bit b 2 = e" "\<not> bit b 1"
  by (simp_all add: b_def)

lemma vp9_picture_id_bytes:
  "vp9_picture_id (x # ucast (0x80 OR (drop_bit 8 pid AND 0x7F)) # ucast (pid AND 0xFF) # c) 1 = Some (pid AND 0x7FFF, 3)"
proof -
  have m: "(0x7F :: u16) = mask 7" "(0x7F :: u8) = mask 7" "(0xFF :: u16) = mask 8" "(0x7FFF :: u16) = mask 15"
    by (simp_all add: mask_eq_exp_minus_1)
  have b: "\<not> bit (128 :: nat) (n - 8)" "\<not> bit (128 :: int) (n - 8)" "\<not> bit (128 :: u8) (n - 8)" "\<not> bit (128 :: u16) (n - 8)" if "8 \<le> n" "n - 8 < 7" for n
  proof -
    from that(2) have "n - 8 \<in> {0, 1, 2, 3, 4, 5, 6}" by auto
    then show "\<not> bit (128 :: nat) (n - 8)" "\<not> bit (128 :: int) (n - 8)" "\<not> bit (128 :: u8) (n - 8)" "\<not> bit (128 :: u16) (n - 8)" by auto
  qed
  have "bit (ucast (0x80 OR (drop_bit 8 pid AND 0x7F)) :: u8) 7" by (simp add: bit_simps)
  moreover have "push_bit 8 (ucast (ucast (0x80 OR (drop_bit 8 pid AND 0x7F)) AND (0x7F :: u8))) OR ucast (ucast (pid AND 0xFF) :: u8) = pid AND 0x7FFF"
    unfolding m by (rule bit_word_eqI) (auto simp: bit_simps b)
  ultimately show ?thesis by (simp add: vp9_picture_id_def vp9_byte_def)
qed

lemma vp9_descriptor_roundtrip:
  "parsePayloadDescriptor (buildPayloadDescriptor s e p pid @ c) =
     Some (\<lparr>picture_id_present = True, inter_picture = p, start_of_frame = s, end_of_frame = e, picture_id = pid AND 0x7FFF\<rparr>, c)"
  using vp9_descriptor_flags [of p s e] vp9_picture_id_bytes [of _ pid c]
  by (simp add: parsePayloadDescriptor_def buildPayloadDescriptor_def vp9_byte_def Let_def)

section \<open>The two codecs\<close>

lemma vp8_tag_eq: "vp8_tag key = 0 \<longleftrightarrow> key"
  by (simp add: vp8_tag_def)

lemma vp9_descriptor_length: "length (buildPayloadDescriptor s e p pid) = 3"
  by (simp add: buildPayloadDescriptor_def)

lemma vp8_loop_end: "vp8_loop srcs basic t ts pn [] track st = Some ([], track, st)"
  by (subst vp8_loop.simps) simp

lemma vp9_loop_end: "vp9_loop srcs basic key pid ts pn [] track st = Some ([], track, st)"
  by (subst vp9_loop.simps) simp

interpretation vp8: fragment_codec 1 "\<lambda>key first lst. u8_bytes (vp8_descriptor (vp8_tag key) first)" "\<lambda>key. key"
  "\<lambda>srcs basic key. vp8_loop srcs basic (vp8_tag key)" vp8_extractPayload
  by unfold_locales
    (simp_all add: vp8_loop_end vp8_payload u8_bytes_def vp8_tag_eq, subst vp8_loop.simps, simp add: Let_def vp8_tag_eq u8_bytes_def)

interpretation vp9: fragment_codec 3 "\<lambda>(key, pid) first lst. buildPayloadDescriptor first lst (\<not> key) pid" fst
  "\<lambda>srcs basic (key, pid). vp9_loop srcs basic key pid" "\<lambda>payload. Some (map_option snd (parsePayloadDescriptor payload))"
  by unfold_locales
    (auto simp: vp9_loop_end vp9_descriptor_roundtrip vp9_descriptor_length, subst vp9_loop.simps, simp add: Let_def)

section \<open>Received packets\<close>

text \<open>Whatever a packet holds, the reader of the VP8 descriptor does not abort.\<close>

lemma vp8_skip_total: "reader_inv r \<Longrightarrow> \<exists>x. vp8_skip b r = Some x \<and> (\<forall>r'. x = Some r' \<longrightarrow> reader_inv r')"
  by (auto simp: vp8_skip_def read_simps not_less Suc_le_eq)

lemma vp8_skip_picture_id_total: "reader_inv r \<Longrightarrow> \<exists>x. vp8_skip_picture_id b r = Some x \<and> (\<forall>r'. x = Some r' \<longrightarrow> reader_inv r')"
  using vp8_skip_total [of "advance 1 r"] by (auto simp: vp8_skip_picture_id_def read_simps not_less Suc_le_eq)

lemma then_skip_total:
  assumes "\<exists>x. m = Some x \<and> (\<forall>r'. x = Some r' \<longrightarrow> reader_inv r')"
    and "\<And>r. reader_inv r \<Longrightarrow> \<exists>x. f r = Some x \<and> (\<forall>r'. x = Some r' \<longrightarrow> reader_inv r')"
  shows "\<exists>x. then_skip m f = Some x \<and> (\<forall>r'. x = Some r' \<longrightarrow> reader_inv r')"
  using assms by (auto simp: then_skip_def split: option.split)

lemma vp8_skip_extension_total: "reader_inv r \<Longrightarrow> vp8_skip_extension r \<noteq> None"
proof -
  assume r: "reader_inv r"
  have "then_skip (then_skip (vp8_skip_picture_id a (advance 1 r)) (vp8_skip b)) (vp8_skip c) \<noteq> None" if "1 \<le> length (unread r)" for a b c
  proof -
    have i: "reader_inv (advance 1 r)" using r that by (rule reader_inv_advance)
    have "\<exists>x. then_skip (then_skip (vp8_skip_picture_id a (advance 1 r)) (vp8_skip b)) (vp8_skip c) = Some x \<and> (\<forall>r'. x = Some r' \<longrightarrow> reader_inv r')"
      by (intro then_skip_total vp8_skip_picture_id_total vp8_skip_total i)
    then show ?thesis by blast
  qed
  then show ?thesis using r by (auto simp: vp8_skip_extension_def read_simps not_less Suc_le_eq)
qed

lemma vp8_extractPayload_total: "vp8_extractPayload payload \<noteq> None"
proof (cases payload)
  case (Cons b bs)
  have "vp8_skip_extension (advance (Suc 0) (ByteReader_new payload)) \<noteq> None"
    using Cons by (intro vp8_skip_extension_total) (simp add: read_simps)
  then show ?thesis using Cons by (auto simp: vp8_extractPayload_def Let_def read_simps)
qed (simp add: vp8_extractPayload_def)

lemma collect_total:
  assumes "\<And>p. parse p \<noteq> None"
  shows "\<exists>r. collect_payloads parse items buf = Some r"
proof (induction items arbitrary: buf)
  case (Cons i items)
  obtain r where "parse (it_payload i) = Some r" using assms by blast
  then show ?case using Cons.IH by (cases r) auto
qed simp

interpretation vp8_total: total_depacketizer depacketizer_vp8
proof
  fix ps d
  obtain r where "collect_payloads vp8_extractPayload ps [] = Some r" using collect_total [of vp8_extractPayload, OF vp8_extractPayload_total] by blast
  then show "ps \<noteq> [] \<Longrightarrow> dp_extract depacketizer_vp8 ps d \<noteq> None" by (cases r) (auto simp: depacketizer_vp8_def vp8_extract_def)
qed (simp add: depacketizer_vp8_def video_getPacketKind_def vp8_isFrameStart_def)

interpretation vp9_total: total_depacketizer depacketizer_vp9
proof
  fix ps d
  obtain r where "collect_payloads (\<lambda>p. Some (map_option snd (parsePayloadDescriptor p))) ps [] = Some r"
    using collect_total [of "\<lambda>p. Some (map_option snd (parsePayloadDescriptor p))"] by blast
  then show "dp_extract depacketizer_vp9 ps d \<noteq> None" by (cases r) (auto simp: depacketizer_vp9_def vp9_extract_def Let_def)
qed (simp add: depacketizer_vp9_def video_getPacketKind_def vp9_isFrameStart_def)

text \<open>
  C14. VP8 round trip: for every frame of at least three bytes the packetizer ends; its packets, in order,
  carry consecutive sequence numbers, the timestamp of the frame and the marker on the last one only, and their
  payloads fit the packet size. A depacketizer that has seen a key frame, or any one if this is a key frame,
  returns exactly the frame.
\<close>
theorem vp8_frame_roundtrip:
  assumes "3 \<le> length frame" "overhead \<le> 1000" "mSeenKeyFrame d \<or> vp8_isKeyFrame frame"
  shows "\<exists>ps track' st'. vp8_generate srcs overhead track st now pts frame = Some (ps, track', st') \<and>
    numbered (snd (track_frameTimestamp track now pts)) ps track' \<and> framed (fst (track_frameTimestamp track now pts)) True ps \<and>
    list_all (\<lambda>p. length (pkt_payload p) \<le> getBasicPacketSize overhead) ps \<and>
    (\<forall>items. list_all2 (carries ts64) ps items \<longrightarrow> vp8_extract items d = Some ([frame], d\<lparr>mSeenKeyFrame := True\<rparr>))"
proof -
  obtain ts track1 where tt: "track_frameTimestamp track now pts = (ts, track1)" by fastforce
  let ?basic = "getBasicPacketSize overhead"
  have basic: "1 + 2 \<le> ?basic" "?basic < 2 ^ 64" "frame \<noteq> []" using assms(1,2) by (auto simp: getBasicPacketSize_def const_defs)
  obtain ps track' st' where g: "vp8_loop srcs ?basic (vp8_tag (vp8_isKeyFrame frame)) ts 0 frame track1 st = Some (ps, track', st')"
      "framed ts True ps" "numbered track1 ps track'" "list_all (\<lambda>p. length (pkt_payload p) \<le> ?basic) ps"
      "\<And>items ts64. list_all2 (carries ts64) ps items \<Longrightarrow>
        collect_payloads vp8_extractPayload items [] = Some (Some frame) \<and> items \<noteq> [] \<and> it_marker (last items)"
    by (rule vp8.frame_collected [OF basic]) blast
  have "vp8_extract items d = Some ([frame], d\<lparr>mSeenKeyFrame := True\<rparr>)" if "list_all2 (carries ts64) ps items" for items
    using g(5) [OF that] assms(3) basic(3) by (auto simp: vp8_extract_def vp8_extractImpl_def Let_def)
  then show ?thesis using g(1-4) assms(1) by (auto simp: vp8_generate_def tt vp8_tag_key)
qed

text \<open>
  C15. VP9 round trip: the same for VP9, for every frame that is not empty; the picture number is the one
  of the packetizer, which moves on to the next of 32768 numbers.
\<close>
theorem vp9_frame_roundtrip:
  assumes "frame \<noteq> []" "overhead \<le> 1000" "mSeenKeyFrame d \<or> vp9_isKeyFrame frame"
  shows "\<exists>ps track' st'. vp9_generate srcs overhead pk track st now pts frame = Some (ps, pk\<lparr>mPictureId := (mPictureId pk + 1) AND 0x7FFF\<rparr>, track', st') \<and>
    numbered (snd (track_frameTimestamp track now pts)) ps track' \<and> framed (fst (track_frameTimestamp track now pts)) True ps \<and>
    list_all (\<lambda>p. length (pkt_payload p) \<le> getBasicPacketSize overhead) ps \<and>
    (\<forall>items. list_all2 (carries ts64) ps items \<longrightarrow> vp9_extract items d = Some ([frame], d\<lparr>mSeenKeyFrame := True\<rparr>))"
proof -
  obtain ts track1 where tt: "track_frameTimestamp track now pts = (ts, track1)" by fastforce
  let ?basic = "getBasicPacketSize overhead"
  have basic: "3 + 2 \<le> ?basic" "?basic < 2 ^ 64" using assms(2) by (auto simp: getBasicPacketSize_def const_defs)
  obtain ps track' st' where g: "vp9_loop srcs ?basic (vp9_isKeyFrame frame) (mPictureId pk) ts 0 frame track1 st = Some (ps, track', st')"
      "framed ts True ps" "numbered track1 ps track'" "list_all (\<lambda>p. length (pkt_payload p) \<le> ?basic) ps"
      "\<And>items ts64. list_all2 (carries ts64) ps items \<Longrightarrow>
        collect_payloads (\<lambda>payload. Some (map_option snd (parsePayloadDescriptor payload))) items [] = Some (Some frame) \<and> items \<noteq> [] \<and> it_marker (last items)"
    using vp9.frame_collected [OF basic assms(1), of srcs "(vp9_isKeyFrame frame, mPictureId pk)" ts track1 st] by auto
  have "vp9_extract items d = Some ([frame], d\<lparr>mSeenKeyFrame := True\<rparr>)" if "list_all2 (carries ts64) ps items" for items
    using g(5) [OF that] assms(1,3) by (auto simp: vp9_extract_def Let_def)
  then show ?thesis using g(1-4) by (auto simp: vp9_generate_def tt Let_def)
qed

lemma example_items_carry: "list_all2 (carries ts) ps (map (H264_Roundtrip.example_item ts) ps)"
  by (simp add: list_all2_conv_all_nth carries_def H264_Roundtrip.example_item_def)

lemma vp8_frame_roundtrip_witness:
  "\<exists>ps track' st'. vp8_generate [source_twcc] 14 example_track SourcesState_new 0 0 [0x10, 2, 0, 0x9D, 1] = Some (ps, track', st') \<and>
     vp8_extract (map (H264_Roundtrip.example_item 90000) ps) DepacketizerVPx_new = Some ([[0x10, 2, 0, 0x9D, 1]], \<lparr>mSeenKeyFrame = True\<rparr>)"
  using vp8_frame_roundtrip [of "[0x10, 2, 0, 0x9D, 1]" 14 DepacketizerVPx_new "[source_twcc]" example_track SourcesState_new 0 0 90000]
    example_items_carry [of 90000]
  by (auto simp: DepacketizerVPx_new_def vp8_isKeyFrame_def vp8_tagFrameType_def)

lemma vp9_frame_roundtrip_witness:
  "\<exists>ps pk' track' st'. vp9_generate [source_twcc] 14 PacketizerVP9_new example_track SourcesState_new 0 0 [0x82, 0x49, 0x83, 0x42] = Some (ps, pk', track', st') \<and>
     vp9_extract (map (H264_Roundtrip.example_item 90000) ps) DepacketizerVPx_new = Some ([[0x82, 0x49, 0x83, 0x42]], \<lparr>mSeenKeyFrame = True\<rparr>)"
proof -
  have "vp9_isKeyFrame [0x82, 0x49, 0x83, 0x42]" by code_simp
  then show ?thesis
    using vp9_frame_roundtrip [of "[0x82, 0x49, 0x83, 0x42]" 14 DepacketizerVPx_new "[source_twcc]" PacketizerVP9_new example_track SourcesState_new 0 0 90000]
      example_items_carry [of 90000]
    by (auto simp: DepacketizerVPx_new_def)
qed

end
