(* ===== verification/Spec2Isabelle.thy ===== *)
theory Spec2Isabelle
  imports H265_Roundtrip AV1_Roundtrip Byte_Buffer Extended_Value Replay_Protection H264_Roundtrip Jitter_Properties Retransmission Sctp_Sack Scheduler Send_Pacer Vpx Srtp_Connection
begin

text \<open>
  Verification of srtc, a WebRTC library in C++: a WHIP and WHEP client that publishes and
  subscribes to audio and video, with data channels. File names below are relative to src/.

  \<^bold>\<open>The program.\<close> A published frame goes from the application through a \<^emph>\<open>packetizer\<close>, which splits it into
  RTP packets with \<^emph>\<open>header extensions\<close>, to the \<^emph>\<open>send pacer\<close>, which spreads the packets of a frame over time,
  protects them with \<^emph>\<open>SRTP\<close>, keeps them in the \<^emph>\<open>history\<close> for retransmission and sends them. A received
  datagram is unprotected (with \<^emph>\<open>replay protection\<close>), parsed into an RTP packet, and enters the
  \<^emph>\<open>jitter buffer\<close>, which orders the packets by \<^emph>\<open>extended\<close> sequence number, reports gaps as requests for
  retransmission and hands complete frames to the \<^emph>\<open>depacketizer\<close>. RTCP packets carry those requests
  back to the sender. Data channels run over \<^emph>\<open>SCTP\<close> in DTLS. Timed work runs on \<^emph>\<open>schedulers\<close>.

  \<^bold>\<open>Foundations.\<close>
  \<^item> \<^theory_text>\<open>Prelude\<close>: collections of simplification rules, big-endian bytes of words, list and word lemmas.
  \<^item> \<^theory_text>\<open>Byte_Buffer\<close> (src/byte_buffer.cpp): ByteBuffer as an allocation with a used length, ByteWriter,
    ByteReader. The class refines byte strings (\<^theory_text>\<open>ByteBuffer_refines_bytes\<close>, through the locale
    \<^theory_text>\<open>byte_store\<close>), no operation writes outside the allocation, growing with resize is safe exactly over written
    bytes, and LEB128 numbers are read back.
  \<^item> \<^theory_text>\<open>Bit_Reader\<close> (src/bit_reader.cpp): bits and Exp-Golomb codes.
  \<^item> \<^theory_text>\<open>Extended_Value\<close> (src/extended_value.cpp): 16- and 32-bit counters extended to 64 bits, exact on
    streams with bounded gaps through any number of rollovers.
  \<^item> \<^theory_text>\<open>Timed_Queue\<close>: the vector sorted by time that LoopScheduler and SendPacer both keep, the locale
    \<^theory_text>\<open>timed_queue\<close> with the insertion at std::upper_bound.
  \<^item> \<^theory_text>\<open>Scheduler\<close> (src/scheduler.cpp): LoopScheduler and ScopedScheduler, with tasks as names and
    running a task as a function on the state. The loop over due tasks ends; destroying a scoped
    scheduler cancels every task of its owner.

  \<^bold>\<open>RTP and RTCP.\<close>
  \<^item> \<^theory_text>\<open>Rtp_Extension\<close> (src/rtp_extension.cpp, src/rtp_extension_builder.cpp): one- and two-byte
    elements, lookups, the builder; the locale \<^theory_text>\<open>u16_map\<close> is the contract of replaceable 16-bit values.
  \<^item> \<^theory_text>\<open>Extension_Map\<close>, \<^theory_text>\<open>Extension_Sources\<close> (src/extension_map.cpp, src/rtp_extension_source_*.cpp,
    src/rtp_std_extensions.cpp): which extensions a packet carries. The locale \<^theory_text>\<open>extension_sources\<close> states
    what every source keeps of the builder.
  \<^item> \<^theory_text>\<open>Rtp_Track\<close> (src/track.cpp, src/rtp_packet_source.cpp, src/rtp_time_source.cpp): sequence numbers
    and timestamps, with the int64 arithmetic of the clock conversion. \<^theory_text>\<open>Rtp_Packet\<close> (src/rtp_packet.cpp):
    generate, generateRtx, fromUdpPacket; parsing inverts generation, and reads and subtracts within range on any bytes.
  \<^item> \<^theory_text>\<open>Rtcp_Packet\<close> (src/rtcp_packet.cpp and neighbours): compound packets.
  \<^item> \<^theory_text>\<open>Nack\<close>, \<^theory_text>\<open>Send_History\<close>, \<^theory_text>\<open>Retransmission\<close> (src/util.cpp, src/peer_candidate.cpp,
    src/send_rtp_history.cpp): a lost packet is asked for, found in the history, sent on the RTX stream through the
    SRTP connection of the sender, accepted by that of the receiver (\<^theory_text>\<open>Srtp_Connection\<close>) and restored with its number
    and payload. This is the composition of seven components.
  \<^item> \<^theory_text>\<open>Send_Pacer\<close> (src/send_pacer.cpp, src/track_stats.cpp): order within a track, no packet is lost or
    left behind, the counters of the track.

  \<^bold>\<open>Media.\<close>
  \<^item> \<^theory_text>\<open>Packetizer\<close>, \<^theory_text>\<open>Depacketizer\<close>: the base classes and Opus.
  \<^item> \<^theory_text>\<open>Nal_Fragments\<close>: what H.264 and H.265 share, the loop that cuts a NAL unit into fragments (\<^theory_text>\<open>fu_loop\<close>,
    \<^theory_text>\<open>nal_packets\<close>) and the receiver of units and fragments (\<^theory_text>\<open>nal_receiver\<close>, \<^theory_text>\<open>fu_receiver\<close>), each
    interpreted for both codecs.
  \<^item> \<^theory_text>\<open>Codec_H264\<close>, \<^theory_text>\<open>Packetizer_H264\<close>, \<^theory_text>\<open>Depacketizer_H264\<close>, \<^theory_text>\<open>H264_Roundtrip\<close>: Annex B parser, STAP-A
    and FU-A, and that the receiver rebuilds the NAL units that were sent.
  \<^item> \<^theory_text>\<open>H265\<close>, \<^theory_text>\<open>H265_Roundtrip\<close> (src/codec_h265.cpp and neighbours): the same for RFC 7798.
  \<^item> \<^theory_text>\<open>Vpx\<close> (src/packetizer_vp8.cpp, src/codec_vp9.cpp and neighbours): VP8 and VP9. Both packetizers
    are the same loop over fragments behind different descriptors; the locales \<^theory_text>\<open>fragment_loop\<close> and
    \<^theory_text>\<open>fragment_codec\<close> prove the round trip once and are interpreted for each.
  \<^item> \<^theory_text>\<open>AV1\<close>, \<^theory_text>\<open>AV1_Roundtrip\<close> (src/codec_av1.cpp and neighbours): OBUs packed into packets and split over packets,
    the round trip where it holds, the frames whose OBUs the depacketizer merges, and the packets that break it.
  \<^item> \<^theory_text>\<open>Jitter_Buffer\<close>, \<^theory_text>\<open>Jitter_Window\<close>, \<^theory_text>\<open>Jitter_Properties\<close> (src/jitter_buffer.cpp): the ring of items,
    consume, dequeue, processNack, getTimeoutMillis. The invariant of the window holds over any history
    of calls, except for a packet with exactly the number mMinSeq + mCapacity, which breaks it
    (\<^theory_text>\<open>jb_consume_overflow\<close>); frames leave in order; requests are made once per period; the timeout wakes up in time.
    The depacketizer is an argument; \<^theory_text>\<open>total_depacketizer\<close> is what the buffer needs of it, interpreted
    for Opus, VP8 and VP9.

  \<^bold>\<open>Security.\<close>
  \<^item> \<^theory_text>\<open>Replay_Protection\<close> (src/replay_protection.cpp): the bitmap refines the set of accepted indices
    (\<^theory_text>\<open>replay_filter\<close>), nothing is accepted twice.
  \<^item> \<^theory_text>\<open>Srtp_Crypto\<close> (src/srtp_util.cpp, src/srtp_crypto.cpp): key derivation, AES-GCM and AES-CM with
    HMAC-SHA1 for media and control packets.
  \<^item> \<^theory_text>\<open>Srtp_Connection\<close> (src/srtp_connection.cpp): channels, rollover counts and the order of checks; a
    stream that arrives with losses, duplicates and reordering within the window is returned unchanged and once.

  \<^bold>\<open>SCTP.\<close>
  \<^item> \<^theory_text>\<open>Sctp_Crc32\<close> (src/sctp/sctp_crc32.cpp): slicing-by-8 with the tables of the source equals the
    bit-serial CRC-32C except where the one wrong table entry is read.
  \<^item> \<^theory_text>\<open>Sctp_Packet\<close>, \<^theory_text>\<open>Sctp_Receive_Buffer\<close> (src/sctp/): builder, parser, reassembly of messages.
  \<^item> \<^theory_text>\<open>Sctp_Session\<close>, \<^theory_text>\<open>Sctp_Session_Properties\<close>, \<^theory_text>\<open>Sctp_Sack\<close> (src/sctp/sctp_session.cpp): all handlers
    and timers as functions on the session, runs as sequences of events, the flight size and timer
    invariant, and that an acknowledgement leaves exactly the chunks that were not received.

  \<^bold>\<open>Conventions.\<close> A struct or class is a record, and its methods take and return the record. Machine integers
  are words at their width; size_t positions in buffers of real size are natural numbers, and a subtraction that would
  go below zero is written out (\<^theory_text>\<open>size_sub\<close>); signed 64-bit times are integers, and where a product of them can leave
  the range it is taken back into it (\<^theory_text>\<open>wrap64\<close>, \<^theory_text>\<open>trunc_div\<close>). Asserts are
  off, as in a release build; where a real failure ends the process (std::terminate, abort, an
  exception nobody catches) the model returns None or the error value. Shared pointers are values where the object is
  not changed after it is shared. Heap memory is aligned and the machine is little-endian
  (only the checksum looks at either). The clock is an argument, read once per call. Random numbers,
  HMAC-SHA1 of the cookie, the functions of OpenSSL, what a scheduled function does and what listeners
  do are parameters; \<^theory_text>\<open>openssl_ok\<close> lists what is assumed of OpenSSL (decryption inverts encryption, lengths are
  kept) and a witness gives an instance. Calls to a listener are returned as a list of events. Log
  lines are left out.

  \<^bold>\<open>Loops.\<close> A loop over a buffer or list is a recursive function with a measure. A loop for which the source
  gives no evident bound (the NAL unit parser, the fragment loops of the packetizers, the slots that setForward
  clears, the loop over due tasks, which may add tasks) is a \<^theory_text>\<open>partial_function\<close> into option, where
  \<open>None\<close> is a loop that never ends, and the theorems show that it returns. No fuel is used.

  \<^bold>\<open>Not modelled.\<close> PeerConnection and the rest of PeerCandidate (threads, sockets, OpenSSL's DTLS state,
  callbacks of the application), the event loops and sockets (system calls), ThreadScheduler (a thread
  behind a condition variable), certificates and the wrappers of OpenSSL, STUN (third-party code in src/stun)
  and the ICE agent on top of it, the text of SDP offers and answers, the estimators of transport-wide congestion control
  (src/twcc_publish.cpp, src/twcc_subscribe.cpp, src/rtp_responder_twcc.cpp: averages in floating point), the histories of
  reference times for statistics, the pool allocator, logging, the tools and tests.
\<close>

end
